(* ===== verification/Prelude.thy ===== *)
theory Prelude
  imports Main "HOL-Library.Word" "HOL-Library.AList"
begin

text \<open>
  The prelude of the development: the names of the Go types the components share, the
  errors a Go function can end with, Go's maps and \<open>sync.Map\<close> with their laws as a locale,
  hexadecimal text, and the collections of simplification rules used by the component
  theories.

  A Go map is an association list with distinct keys.  The order of the list is the order in
  which a \<open>range\<close> loop or \<open>sync.Map.Range\<close> visits the entries; Go leaves that order open, so
  a property about an iteration is stated for an arbitrary list.
\<close>

named_theorems packet_defs \<open>definitions of the packet accessors\<close>
named_theorems container_defs \<open>definitions of the container operations\<close>
named_theorems handler_defs \<open>definitions of the handlers\<close>
named_theorems map_laws \<open>lookup laws of Go maps\<close>

section \<open>Go types and outcomes\<close>

type_synonym byte = "8 word"
type_synonym bytes = "byte list"
type_synonym uint32 = "32 word"
type_synonym uint64 = "64 word"
type_synonym time = int
type_synonym address = string

text \<open>
  \<open>log.Fatal\<close> ends the process and a run-time panic ends it too; both are values here, with
  the message.  A Go function that may do either returns an \<open>outcome\<close>.
\<close>

datatype go_error = Fatal string | Panic string

type_synonym 'a outcome = "go_error + 'a"

definition obind :: "'a outcome \<Rightarrow> ('a \<Rightarrow> 'b outcome) \<Rightarrow> 'b outcome" where
  "obind m f = (case m of Inl e \<Rightarrow> Inl e | Inr x \<Rightarrow> f x)"

lemma obind_simps [simp]: "obind (Inl e) f = Inl e" "obind (Inr x) f = f x"
  by (simp_all add: obind_def)

lemma obind_Inr_iff: "obind m f = Inr y \<longleftrightarrow> (\<exists>x. m = Inr x \<and> f x = Inr y)"
  by (cases m) auto

definition ok :: "'a outcome \<Rightarrow> bool" where
  "ok m = (case m of Inl _ \<Rightarrow> False | Inr _ \<Rightarrow> True)"

lemma ok_simps [simp]: "\<not> ok (Inl e)" "ok (Inr x)"
  by (simp_all add: ok_def)

lemma Suc_length_remove1: "x \<in> set xs \<Longrightarrow> Suc (length (remove1 x xs)) = length xs"
  by (induction xs) auto

lemma distinct_set_single: "distinct xs \<Longrightarrow> set xs = {x} \<Longrightarrow> xs = [x]"
  by (cases xs; cases "tl xs") auto

lemma distinct_set_if:
  "distinct xs \<Longrightarrow> set xs = (if c then {x} else {}) \<Longrightarrow> xs = (if c then [x] else [])"
  by (cases c) (simp_all add: distinct_set_single)

lemma set_map_filter: "set (List.map_filter f xs) = {y. \<exists>x \<in> set xs. f x = Some y}"
  by (induction xs) (auto split: option.splits)

lemma unat_byte_less [simp]: "unat (b :: byte) < 256"
  using unsigned_less [where 'a = nat, of b] by simp

lemma unat_of_nat64: "n < 2 ^ 64 \<Longrightarrow> unat (of_nat n :: uint64) = n"
  by (simp add: unat_of_nat)

lemma sint_small64:
  assumes "unat (w :: uint64) < 2 ^ 63"
  shows "sint w = int (unat w)"
proof -
  have "int (unat w) < 2 ^ 63" using assms by (metis of_nat_less_iff of_nat_numeral of_nat_power)
  moreover have "- (2 ^ 63) \<le> int (unat w)" by (rule order.trans [of _ 0]) simp_all
  ultimately have "signed_take_bit 63 (int (unat w)) = int (unat w)"
    by (intro signed_take_bit_int_eq_self)
  then show ?thesis by (simp add: sint_uint)
qed

lemma sint_large64:
  assumes "2 ^ 63 \<le> unat (w :: uint64)"
  shows "sint w < 0"
proof -
  have "unat w < 2 ^ 64" using unsigned_less [where 'a = nat, of w] by simp
  then have "unat w div 2 ^ 63 = 1" using assms by (intro div_nat_eqI) simp_all
  then have "bit (unat w) 63" by (simp add: bit_iff_odd)
  then have "bit (uint w) 63" by (simp add: bit_unsigned_iff)
  then show ?thesis by (simp add: sint_uint signed_take_bit_negative_iff)
qed

lemma u32_ge_1: "1 \<le> (w :: uint32) \<longleftrightarrow> w \<noteq> 0"
  by (auto simp: word_le_nat_alt Suc_le_eq unat_gt_0)

definition string_bytes :: "string \<Rightarrow> bytes" where
  "string_bytes s = map of_char s"

lemma of_char_byte_inj: "(of_char c :: byte) = of_char d \<longleftrightarrow> c = d"
proof
  assume "(of_char c :: byte) = of_char d"
  then have "unat (of_char c :: byte) = unat (of_char d :: byte)" by simp
  moreover have "unat (of_char x :: byte) = of_char x" for x :: char
  proof -
    have "(of_char x :: byte) = of_nat (of_char x)" by (simp only: of_nat_of_char)
    moreover have "of_char x < (256::nat)" by simp
    ultimately show ?thesis by (simp only: unat_of_nat) simp
  qed
  ultimately show "c = d" by simp
qed simp

lemma string_bytes_inj [simp]: "string_bytes s = string_bytes t \<longleftrightarrow> s = t"
  unfolding string_bytes_def using of_char_byte_inj
  by (auto simp: inj_def intro!: inj_map_eq_map)

lemma length_string_bytes [simp]: "length (string_bytes s) = length s"
  by (simp add: string_bytes_def)

end
