(* ===== verification/GoMap.thy ===== *)
theory GoMap
  imports Prelude
begin

text \<open>
  Go's built-in maps and \<open>sync.Map\<close>, as association lists with distinct keys, and the
  interface the containers of the program rely on: \<open>Load\<close>, \<open>Store\<close>, \<open>Delete\<close> and
  \<open>LoadOrStore\<close>.  The locale states the laws of the four operations over an abstract
  representation and derives the fact every "listener" and "unique" container of the program
  uses: among any sequence of \<open>LoadOrStore\<close> calls, at most one call per key finds it new, and
  all of them return the value of that first call.
\<close>

section \<open>The operations\<close>

type_synonym ('k, 'v) gomap = "('k \<times> 'v) list"

definition gm_wf :: "('k, 'v) gomap \<Rightarrow> bool" where
  "gm_wf m = distinct (map fst m)"

definition gm_load :: "('k, 'v) gomap \<Rightarrow> 'k \<Rightarrow> 'v option" where
  "gm_load m k = map_of m k"

definition gm_store :: "'k \<Rightarrow> 'v \<Rightarrow> ('k, 'v) gomap \<Rightarrow> ('k, 'v) gomap" where
  "gm_store k v m = AList.update k v m"

definition gm_delete :: "'k \<Rightarrow> ('k, 'v) gomap \<Rightarrow> ('k, 'v) gomap" where
  "gm_delete k m = AList.delete k m"

definition gm_keys :: "('k, 'v) gomap \<Rightarrow> 'k list" where
  "gm_keys m = map fst m"

text \<open>
  \<open>LoadOrStore(key, value)\<close> returns the existing value and \<open>loaded = true\<close>, or stores and
  returns the given value with \<open>loaded = false\<close>.
\<close>

definition gm_loadOrStore :: "'k \<Rightarrow> 'v \<Rightarrow> ('k, 'v) gomap \<Rightarrow> ('k, 'v) gomap \<times> 'v \<times> bool" where
  "gm_loadOrStore k v m =
     (case gm_load m k of Some v' \<Rightarrow> (m, v', True) | None \<Rightarrow> (gm_store k v m, v, False))"

section \<open>The interface and its laws\<close>

locale sync_map =
  fixes empty :: 'm
    and load :: "'m \<Rightarrow> 'k \<Rightarrow> 'v option"
    and store :: "'k \<Rightarrow> 'v \<Rightarrow> 'm \<Rightarrow> 'm"
    and remove :: "'k \<Rightarrow> 'm \<Rightarrow> 'm"
    and loadOrStore :: "'k \<Rightarrow> 'v \<Rightarrow> 'm \<Rightarrow> 'm \<times> 'v \<times> bool"
    and wf :: "'m \<Rightarrow> bool"
  assumes load_empty: "load empty k = None"
    and load_store: "load (store k v m) k' = (if k' = k then Some v else load m k')"
    and load_remove: "wf m \<Longrightarrow> load (remove k m) k' = (if k' = k then None else load m k')"
    and loadOrStore_def: "loadOrStore k v m =
      (case load m k of Some v' \<Rightarrow> (m, v', True) | None \<Rightarrow> (store k v m, v, False))"
    and wf_empty: "wf empty"
    and wf_store: "wf m \<Longrightarrow> wf (store k v m)"
    and wf_remove: "wf m \<Longrightarrow> wf (remove k m)"
begin

lemma loadOrStore_value: "load (fst (loadOrStore k v m)) k = Some (fst (snd (loadOrStore k v m)))"
  by (simp add: loadOrStore_def load_store split: option.split)

lemma loadOrStore_loaded: "snd (snd (loadOrStore k v m)) \<longleftrightarrow> load m k \<noteq> None"
  by (simp add: loadOrStore_def split: option.split)

lemma loadOrStore_other: "k' \<noteq> k \<Longrightarrow> load (fst (loadOrStore k v m)) k' = load m k'"
  by (simp add: loadOrStore_def load_store split: option.split)

lemma loadOrStore_keeps: "load m k' = Some w \<Longrightarrow> load (fst (loadOrStore k v m)) k' = Some w"
  by (auto simp add: loadOrStore_def load_store split: option.split)

lemma wf_loadOrStore: "wf m \<Longrightarrow> wf (fst (loadOrStore k v m))"
  by (simp add: loadOrStore_def wf_store split: option.split)

text \<open>A sequence of \<open>LoadOrStore\<close> calls, with the answer of each.\<close>

fun calls :: "('k \<times> 'v) list \<Rightarrow> 'm \<Rightarrow> 'm \<times> ('k \<times> 'v \<times> bool) list" where
  "calls [] m = (m, [])"
| "calls ((k, v) # cs) m =
     (let (m', v', l) = loadOrStore k v m; (m'', as) = calls cs m'
      in (m'', (k, v', l) # as))"

lemma calls_loaded:
  assumes "load m k = Some w"
  shows "\<forall>a \<in> set (snd (calls cs m)). fst a = k \<longrightarrow> snd a = (w, True)"
  using assms
proof (induction cs arbitrary: m)
  case (Cons c cs)
  obtain k' v where c: "c = (k', v)" by (cases c)
  let ?m = "fst (loadOrStore k' v m)"
  have "load ?m k = Some w" using Cons.prems by (rule loadOrStore_keeps)
  then have ih: "\<forall>a \<in> set (snd (calls cs ?m)). fst a = k \<longrightarrow> snd a = (w, True)"
    by (rule Cons.IH)
  have hd: "k' = k \<Longrightarrow> snd (loadOrStore k' v m) = (w, True)"
    using Cons.prems by (simp add: loadOrStore_def)
  show ?case using ih hd by (auto simp: c Let_def split: prod.splits)
qed simp

lemma calls_one_new: "length (filter (\<lambda>a. fst a = k \<and> \<not> snd (snd a)) (snd (calls cs m))) \<le> 1"
proof (induction cs arbitrary: m)
  case (Cons c cs)
  obtain k' v where c: "c = (k', v)" by (cases c)
  let ?m = "fst (loadOrStore k' v m)"
  show ?case
  proof (cases "k' = k")
    case True
    have "load ?m k = Some (fst (snd (loadOrStore k' v m)))"
      using loadOrStore_value True by blast
    from calls_loaded [OF this]
    have "filter (\<lambda>a. fst a = k \<and> \<not> snd (snd a)) (snd (calls cs ?m)) = []"
      by (auto simp: filter_empty_conv)
    then show ?thesis by (auto simp: c Let_def split: prod.splits)
  next
    case False
    then show ?thesis using Cons.IH [of ?m] by (auto simp: c Let_def split: prod.splits)
  qed
qed simp

lemma calls_same_value:
  assumes "(k, v1, l1) \<in> set (snd (calls cs m))" "(k, v2, l2) \<in> set (snd (calls cs m))"
  shows "v1 = v2"
  using assms
proof (induction cs arbitrary: m)
  case (Cons c cs)
  obtain k' v where c: "c = (k', v)" by (cases c)
  let ?m = "fst (loadOrStore k' v m)"
  let ?w = "fst (snd (loadOrStore k' v m))"
  have set: "set (snd (calls (c # cs) m)) =
      insert (k', snd (loadOrStore k' v m)) (set (snd (calls cs ?m)))"
    by (auto simp: c Let_def split: prod.splits)
  have later: "a \<in> set (snd (calls cs ?m)) \<Longrightarrow> fst a = k' \<Longrightarrow> fst (snd a) = ?w" for a
    using calls_loaded [OF loadOrStore_value, of cs k' v m] by auto
  show ?case
  proof (cases "k = k'")
    case True
    have "fst (snd a) = ?w" if "a \<in> set (snd (calls (c # cs) m))" "fst a = k" for a
    proof (cases "a \<in> set (snd (calls cs ?m))")
      case True
      then show ?thesis using later that(2) \<open>k = k'\<close> by blast
    next
      case False
      then have "a = (k', snd (loadOrStore k' v m))" using that(1) unfolding set by blast
      then show ?thesis by simp
    qed
    then show ?thesis using Cons.prems by (metis fst_conv snd_conv)
  next
    case False
    then show ?thesis using Cons.prems Cons.IH [of ?m] unfolding set by auto
  qed
qed simp

end

section \<open>Association lists provide the interface\<close>

interpretation gm: sync_map "[] :: ('k, 'v) gomap" gm_load gm_store gm_delete gm_loadOrStore gm_wf
proof unfold_locales
  show "gm_load [] k = None" for k by (simp add: gm_load_def)
  show "gm_load (gm_store k v m) k' = (if k' = k then Some v else gm_load m k')"
    for k k' v and m :: "('k, 'v) gomap"
    by (simp add: gm_load_def gm_store_def update_conv')
  show "gm_load (gm_delete k m) k' = (if k' = k then None else gm_load m k')"
    for k k' and m :: "('k, 'v) gomap"
    by (simp add: gm_load_def gm_delete_def delete_conv')
  show "gm_loadOrStore k v m = (case gm_load m k of Some v' \<Rightarrow> (m, v', True)
      | None \<Rightarrow> (gm_store k v m, v, False))" for k v and m :: "('k, 'v) gomap"
    by (simp add: gm_loadOrStore_def)
  show "gm_wf []" by (simp add: gm_wf_def)
  show "gm_wf m \<Longrightarrow> gm_wf (gm_store k v m)" for k v and m :: "('k, 'v) gomap"
    by (simp add: gm_wf_def gm_store_def distinct_update)
  show "gm_wf m \<Longrightarrow> gm_wf (gm_delete k m)" for k and m :: "('k, 'v) gomap"
    by (simp add: gm_wf_def gm_delete_def distinct_delete)
qed

lemmas gm_laws [simp] =
  gm.load_empty gm.load_store gm.wf_empty gm.wf_store gm.wf_remove gm.wf_loadOrStore

lemma gm_load_delete [simp]: "gm_load (gm_delete k m) k' = (if k' = k then None else gm_load m k')"
  by (simp add: gm_load_def gm_delete_def delete_conv')

lemma gm_load_Some_iff: "gm_wf m \<Longrightarrow> gm_load m k = Some v \<longleftrightarrow> (k, v) \<in> set m"
  by (simp add: gm_load_def gm_wf_def)

lemma gm_load_None_iff: "gm_load m k = None \<longleftrightarrow> k \<notin> fst ` set m"
  by (simp add: gm_load_def map_of_eq_None_iff)

lemma set_gm_keys: "set (gm_keys m) = {k. gm_load m k \<noteq> None}"
  by (auto simp: gm_keys_def gm_load_None_iff)

lemma gm_keys_store: "set (gm_keys (gm_store k v m)) = insert k (set (gm_keys m))"
  by (auto simp: set_gm_keys)

lemma gm_store_new: "gm_load m k = None \<Longrightarrow> gm_store k v m = m @ [(k, v)]"
  unfolding gm_load_def gm_store_def by (induction m) (auto split: if_splits)

end
