(* ===== verification/GoText.thy ===== *)
theory GoText
  imports Prelude "HOL-Library.Sublist"
begin

text \<open>
  What the program uses of Go's text packages: \<open>strings.Join\<close>, \<open>strings.Split\<close> and
  \<open>strings.Contains\<close>, and \<open>hex.EncodeToString\<close> (also \<open>fmt.Sprintf\<close> with \<open>%x\<close>) and
  \<open>hex.DecodeString\<close>, with their round trips.
\<close>

section \<open>Join, Split and Contains\<close>

fun strings_Join :: "string list \<Rightarrow> string \<Rightarrow> string" where
  "strings_Join [] sep = []"
| "strings_Join [s] sep = s"
| "strings_Join (s # ss) sep = s @ sep @ strings_Join ss sep"

text \<open>\<open>strings.Split\<close> with a separator of one character: never empty, \<open>Split("", ",") = [""]\<close>.\<close>

fun strings_Split :: "string \<Rightarrow> char \<Rightarrow> string list" where
  "strings_Split [] c = [[]]"
| "strings_Split (x # xs) c =
     (if x = c then [] # strings_Split xs c
      else (case strings_Split xs c of [] \<Rightarrow> [[x]] | s # ss \<Rightarrow> (x # s) # ss))"

definition strings_Contains :: "string \<Rightarrow> string \<Rightarrow> bool" where
  "strings_Contains s sub = sublist sub s"

lemma strings_Split_nonempty [simp]: "strings_Split s c \<noteq> []"
  by (induction s) (auto split: list.splits)

lemma strings_Split_no_sep: "c \<notin> set s \<Longrightarrow> strings_Split s c = [s]"
  by (induction s) auto

lemma strings_Split_append_sep:
  "c \<notin> set s \<Longrightarrow> strings_Split (s @ c # t) c = s # strings_Split t c"
  by (induction s) auto

lemma strings_Split_Join:
  "ss \<noteq> [] \<Longrightarrow> (\<forall>s \<in> set ss. c \<notin> set s) \<Longrightarrow> strings_Split (strings_Join ss [c]) c = ss"
  by (induction ss "[c]" rule: strings_Join.induct)
     (auto simp: strings_Split_no_sep strings_Split_append_sep)

lemma strings_Join_Split: "strings_Join (strings_Split s c) [c] = s"
proof (induction s)
  case (Cons x xs)
  obtain t ts where "strings_Split xs c = t # ts" by (cases "strings_Split xs c") auto
  with Cons show ?case by (cases ts) auto
qed simp

lemma strings_Contains_empty [simp]: "strings_Contains s []"
  by (simp add: strings_Contains_def)

section \<open>Hexadecimal text\<close>

definition hex_digit :: "nat \<Rightarrow> char" where
  "hex_digit n = (if n < 10 then char_of (48 + n) else char_of (87 + n))"

definition hex_value :: "char \<Rightarrow> nat option" where
  "hex_value c = (let n = of_char c :: nat in
     if 48 \<le> n \<and> n \<le> 57 then Some (n - 48)
     else if 97 \<le> n \<and> n \<le> 102 then Some (n - 87)
     else if 65 \<le> n \<and> n \<le> 70 then Some (n - 55)
     else None)"

fun hex_EncodeToString :: "bytes \<Rightarrow> string" where
  "hex_EncodeToString [] = []"
| "hex_EncodeToString (b # bs) =
     hex_digit (unat b div 16) # hex_digit (unat b mod 16) # hex_EncodeToString bs"

text \<open>\<open>None\<close> is the error of \<open>hex.DecodeString\<close>: a byte that is no digit, or an odd length.\<close>

fun hex_DecodeString :: "string \<Rightarrow> bytes option" where
  "hex_DecodeString [] = Some []"
| "hex_DecodeString [c] = None"
| "hex_DecodeString (c # d # cs) =
     (case (hex_value c, hex_value d, hex_DecodeString cs) of
        (Some h, Some l, Some bs) \<Rightarrow> Some (of_nat (16 * h + l) # bs)
      | _ \<Rightarrow> None)"

lemma hex_value_digit [simp]: "n < 16 \<Longrightarrow> hex_value (hex_digit n) = Some n"
  by (auto simp: hex_value_def hex_digit_def Let_def)

lemma hex_Decode_Encode [simp]: "hex_DecodeString (hex_EncodeToString bs) = Some bs"
proof (induction bs)
  case (Cons b bs)
  have "unat b < 256" by simp
  then have "unat b div 16 < 16" by linarith
  with Cons show ?case by simp
qed simp

lemma hex_Encode_inj [simp]: "hex_EncodeToString a = hex_EncodeToString b \<longleftrightarrow> a = b"
  by (metis hex_Decode_Encode option.inject)

lemma length_hex_Encode [simp]: "length (hex_EncodeToString bs) = 2 * length bs"
  by (induction bs) auto

end
