(* ===== verification/Packets.thy ===== *)
theory Packets
  imports GoMap GoText
begin

text \<open>
  The packets of \<open>src/dto/DTO.go\<close>, with the DHT messages of \<open>src/dht/nodeState.go\<close> and the
  crawler packets of \<open>src/webcrawler/crawlerpacket.go\<close> they carry.  A Go struct is a record,
  a pointer field that may be nil an option.  An accessor that ends in \<open>LogError\<close>, that is in
  \<open>log.Fatal\<close>, returns \<open>Inl (Fatal what)\<close>.  Every field of a record carries a prefix, since
  Isabelle's selectors are global.
\<close>

section \<open>Identifiers\<close>

type_synonym TypeID = bytes
type_synonym hash32 = bytes

definition IDByteSize :: nat where
  "IDByteSize = 512 div 8"

definition wf_id :: "TypeID \<Rightarrow> bool" where
  "wf_id i = (length i = IDByteSize)"

lemma IDByteSize_eq [simp]: "IDByteSize = 64"
  by (simp add: IDByteSize_def)

section \<open>Messages between peers\<close>

record SimpleMessage =
  sm_OriginalName :: string
  sm_RelayPeerAddr :: address
  sm_Contents :: string

record RumorMessage =
  rm_Origin :: string
  rm_ID :: uint32
  rm_Text :: string

record PeerStatus =
  ps_Identifier :: string
  ps_NextID :: uint32

record StatusPacket =
  sp_Want :: "PeerStatus list"

record PrivateMessage =
  pm_Origin :: string
  pm_ID :: uint32
  pm_Text :: string
  pm_Destination :: string
  pm_HopLimit :: uint32

record DataRequest =
  dreq_Origin :: string
  dreq_Destination :: string
  dreq_HopLimit :: uint32
  dreq_HashValue :: bytes

record DataReply =
  drep_Origin :: string
  drep_Destination :: string
  drep_HopLimit :: uint32
  drep_HashValue :: bytes
  drep_Data :: bytes

record SearchRequest =
  sreq_Origin :: string
  sreq_Budget :: uint64
  sreq_Keywords :: "string list"

record SearchResult =
  sres_FileName :: string
  sres_MetafileHash :: bytes
  sres_ChunkMap :: "uint64 list"
  sres_ChunkCount :: uint64

record SearchReply =
  srep_Origin :: string
  srep_Destination :: string
  srep_HopLimit :: uint32
  srep_Results :: "SearchResult list"

record File =
  f_Name :: string
  f_Size :: int
  f_MetafileHash :: bytes

record TxPublish =
  tx_File :: File
  tx_HopLimit :: uint32

record Block =
  bl_PrevHash :: hash32
  bl_Nonce :: bytes
  bl_Transactions :: "TxPublish list"

record BlockPublish =
  bp_Block :: Block
  bp_HopLimit :: uint32

section \<open>DHT messages\<close>

record NodeState =
  ns_NodeID :: TypeID
  ns_Address :: address

record Store =
  st_Key :: TypeID
  st_Type :: string
  st_Data :: bytes
  st_Encrypted :: bool

record ValueLookup =
  vl_Key :: TypeID
  vl_DbKey :: string
  vl_DbBucket :: string
  vl_Encrypted :: bool
  vl_EncryptedKey :: bytes

record ValueReply =
  vr_NodeStates :: "NodeState list option"
  vr_Data :: "bytes option"
  vr_Encrypted :: bool

record Message =
  msg_Nonce :: uint64
  msg_SenderID :: TypeID
  msg_Store :: "Store option"
  msg_Ping :: "unit option"
  msg_PingReply :: "unit option"
  msg_NodeLookup :: "TypeID option"
  msg_NodeReply :: "NodeState list option"
  msg_ValueLookup :: "ValueLookup option"
  msg_ValueReply :: "ValueReply option"

datatype MessageType =
  StoreT | PingT | PingReplyT | NodeLookupT | NodeReplyT | ValueLookupT | ValueReplyT | NoMessageT

definition Message_GetUnderlyingType :: "Message \<Rightarrow> MessageType" where
  "Message_GetUnderlyingType m =
     (if msg_Store m \<noteq> None then StoreT
      else if msg_Ping m \<noteq> None then PingT
      else if msg_PingReply m \<noteq> None then PingReplyT
      else if msg_NodeLookup m \<noteq> None then NodeLookupT
      else if msg_NodeReply m \<noteq> None then NodeReplyT
      else if msg_ValueLookup m \<noteq> None then ValueLookupT
      else if msg_ValueReply m \<noteq> None then ValueReplyT
      else NoMessageT)"

section \<open>Crawler and key-exchange packets\<close>

record HyperlinkPackage =
  hl_Links :: "string list"
  hl_Encrypted :: bool
  hl_EncryptedLinks :: bytes

record EncryptedCrawlerPacket =
  ecp_Packet :: bytes
  ecp_Origin :: TypeID

record DiffieHellmanPacket =
  dh_Origin :: string
  dh_Destination :: string
  dh_HopLimit :: uint32
  dh_P :: string
  dh_G :: string
  dh_DiffiePublicKey :: bytes
  dh_R :: bytes
  dh_S :: bytes
  dh_ExpirationDate :: time
  dh_NodeID :: TypeID
  dh_Init :: bool
  dh_ID :: TypeID

section \<open>GossipPacket and its subtypes\<close>

record GossipPacket =
  gp_Simple :: "SimpleMessage option"
  gp_Rumor :: "RumorMessage option"
  gp_Status :: "StatusPacket option"
  gp_Private :: "PrivateMessage option"
  gp_DataRequest :: "DataRequest option"
  gp_DataReply :: "DataReply option"
  gp_SearchRequest :: "SearchRequest option"
  gp_SearchReply :: "SearchReply option"
  gp_TxPublish :: "TxPublish option"
  gp_BlockPublish :: "BlockPublish option"
  gp_DHTMessage :: "Message option"
  gp_HyperlinkMessage :: "HyperlinkPackage option"
  gp_EncryptedWebCrawlerPacket :: "EncryptedCrawlerPacket option"
  gp_DiffieHellman :: "DiffieHellmanPacket option"

definition emptyPacket :: GossipPacket where
  "emptyPacket = \<lparr>gp_Simple = None, gp_Rumor = None, gp_Status = None, gp_Private = None,
     gp_DataRequest = None, gp_DataReply = None, gp_SearchRequest = None, gp_SearchReply = None,
     gp_TxPublish = None, gp_BlockPublish = None, gp_DHTMessage = None,
     gp_HyperlinkMessage = None, gp_EncryptedWebCrawlerPacket = None, gp_DiffieHellman = None\<rparr>"

text \<open>
  The accessors switch on the name that \<open>GetUnderlyingType\<close> returns and then read the field of
  that name.  \<open>subtype\<close> does both at once: the first field that is set, with its contents.
\<close>

datatype subtype =
    SimpleS SimpleMessage | RumorS RumorMessage | StatusS StatusPacket | PrivateS PrivateMessage
  | DataRequestS DataRequest | DataReplyS DataReply | SearchRequestS SearchRequest
  | SearchReplyS SearchReply | TxPublishS TxPublish | BlockPublishS BlockPublish
  | DHTMessageS Message | HyperlinkS HyperlinkPackage | EncryptedS EncryptedCrawlerPacket
  | DiffieHellmanS DiffieHellmanPacket | NoneS

definition subtype_of :: "GossipPacket \<Rightarrow> subtype" where
  "subtype_of g =
     (case gp_Simple g of Some m \<Rightarrow> SimpleS m | None \<Rightarrow>
     (case gp_Rumor g of Some m \<Rightarrow> RumorS m | None \<Rightarrow>
     (case gp_Status g of Some m \<Rightarrow> StatusS m | None \<Rightarrow>
     (case gp_Private g of Some m \<Rightarrow> PrivateS m | None \<Rightarrow>
     (case gp_DataRequest g of Some m \<Rightarrow> DataRequestS m | None \<Rightarrow>
     (case gp_DataReply g of Some m \<Rightarrow> DataReplyS m | None \<Rightarrow>
     (case gp_SearchRequest g of Some m \<Rightarrow> SearchRequestS m | None \<Rightarrow>
     (case gp_SearchReply g of Some m \<Rightarrow> SearchReplyS m | None \<Rightarrow>
     (case gp_TxPublish g of Some m \<Rightarrow> TxPublishS m | None \<Rightarrow>
     (case gp_BlockPublish g of Some m \<Rightarrow> BlockPublishS m | None \<Rightarrow>
     (case gp_DHTMessage g of Some m \<Rightarrow> DHTMessageS m | None \<Rightarrow>
     (case gp_HyperlinkMessage g of Some m \<Rightarrow> HyperlinkS m | None \<Rightarrow>
     (case gp_EncryptedWebCrawlerPacket g of Some m \<Rightarrow> EncryptedS m | None \<Rightarrow>
     (case gp_DiffieHellman g of Some m \<Rightarrow> DiffieHellmanS m | None \<Rightarrow> NoneS))))))))))))))"

definition GetUnderlyingType :: "GossipPacket \<Rightarrow> string" where
  "GetUnderlyingType g = (case subtype_of g of
       SimpleS _ \<Rightarrow> ''simple'' | RumorS _ \<Rightarrow> ''rumor'' | StatusS _ \<Rightarrow> ''status''
     | PrivateS _ \<Rightarrow> ''private'' | DataRequestS _ \<Rightarrow> ''datarequest'' | DataReplyS _ \<Rightarrow> ''datareply''
     | SearchRequestS _ \<Rightarrow> ''searchrequest'' | SearchReplyS _ \<Rightarrow> ''searchreply''
     | TxPublishS _ \<Rightarrow> ''txpublish'' | BlockPublishS _ \<Rightarrow> ''blockpublish''
     | DHTMessageS _ \<Rightarrow> ''dhtmessage'' | HyperlinkS _ \<Rightarrow> ''hyperlinkmessage''
     | EncryptedS _ \<Rightarrow> ''encryptedhyperlinkmessage'' | DiffieHellmanS _ \<Rightarrow> ''diffiehellman''
     | NoneS \<Rightarrow> '''')"

definition IsChatRumor :: "RumorMessage \<Rightarrow> bool" where
  "IsChatRumor m = (rm_Text m \<noteq> '''')"

definition IsChatPacket :: "GossipPacket \<Rightarrow> bool" where
  "IsChatPacket g = (case gp_Rumor g of None \<Rightarrow> False | Some m \<Rightarrow> rm_Text m \<noteq> '''')"

section \<open>Accessors\<close>

definition cant :: "string \<Rightarrow> string \<Rightarrow> 'a outcome" where
  "cant what name = Inl (Fatal (''Can't '' @ what @ '' from a '' @ name @ '' message''))"

definition nosub :: "'a outcome" where
  "nosub = Inl (Fatal ''Gossip packet has no non-nil sub struct'')"

definition GetOrigin :: "GossipPacket \<Rightarrow> string outcome" where
  "GetOrigin g = (case subtype_of g of
       SimpleS m \<Rightarrow> Inr (sm_OriginalName m) | RumorS m \<Rightarrow> Inr (rm_Origin m)
     | StatusS _ \<Rightarrow> cant ''extract origin name'' ''STATUS''
     | PrivateS m \<Rightarrow> Inr (pm_Origin m) | DataRequestS m \<Rightarrow> Inr (dreq_Origin m)
     | DataReplyS m \<Rightarrow> Inr (drep_Origin m) | SearchRequestS m \<Rightarrow> Inr (sreq_Origin m)
     | SearchReplyS m \<Rightarrow> Inr (srep_Origin m)
     | TxPublishS _ \<Rightarrow> cant ''extract origin name'' ''TXPUBLISH''
     | BlockPublishS _ \<Rightarrow> cant ''extract origin name'' ''BLOCKPUBLISH''
     | DHTMessageS _ \<Rightarrow> cant ''extract origin name'' ''MESSAGE''
     | DiffieHellmanS m \<Rightarrow> Inr (dh_Origin m)
     | _ \<Rightarrow> nosub)"

definition GetSeqID :: "GossipPacket \<Rightarrow> uint32 outcome" where
  "GetSeqID g = (case subtype_of g of
       SimpleS _ \<Rightarrow> cant ''extract ID'' ''SIMPLE'' | RumorS m \<Rightarrow> Inr (rm_ID m)
     | StatusS _ \<Rightarrow> cant ''extract ID'' ''STATUS'' | PrivateS m \<Rightarrow> Inr (pm_ID m)
     | DataRequestS _ \<Rightarrow> cant ''extract ID'' ''DATA REQUEST''
     | DataReplyS _ \<Rightarrow> cant ''extract ID'' ''DATA REPLY''
     | SearchRequestS _ \<Rightarrow> cant ''extract ID'' ''SEARCH REQUEST''
     | SearchReplyS _ \<Rightarrow> cant ''extract ID'' ''SEARCH REPLY''
     | TxPublishS _ \<Rightarrow> cant ''extract ID'' ''TXPUBLISH''
     | BlockPublishS _ \<Rightarrow> cant ''extract ID'' ''BLOCKPUBLISH''
     | DHTMessageS _ \<Rightarrow> cant ''extract ID'' ''MESSAGE''
     | _ \<Rightarrow> nosub)"

definition GetContents :: "GossipPacket \<Rightarrow> string outcome" where
  "GetContents g = (case subtype_of g of
       SimpleS m \<Rightarrow> Inr (sm_Contents m) | RumorS m \<Rightarrow> Inr (rm_Text m)
     | StatusS _ \<Rightarrow> cant ''extract contents'' ''STATUS'' | PrivateS m \<Rightarrow> Inr (pm_Text m)
     | DataRequestS _ \<Rightarrow> cant ''extract contents'' ''DATA REQUEST''
     | DataReplyS _ \<Rightarrow> cant ''extract contents'' ''DATA REPLY''
     | SearchRequestS _ \<Rightarrow> cant ''extract contents'' ''DATA REPLY''
     | SearchReplyS _ \<Rightarrow> cant ''extract contents'' ''DATA REPLY''
     | TxPublishS _ \<Rightarrow> cant ''extract contents'' ''TXPUBLISH''
     | BlockPublishS _ \<Rightarrow> cant ''extract contents'' ''BLOCKPUBLISH''
     | DHTMessageS _ \<Rightarrow> cant ''extract contents'' ''MESSAGE''
     | _ \<Rightarrow> nosub)"

definition GetHopLimit :: "GossipPacket \<Rightarrow> uint32 outcome" where
  "GetHopLimit g = (case subtype_of g of
       SimpleS _ \<Rightarrow> cant ''extract hop-limit'' ''SIMPLE''
     | RumorS _ \<Rightarrow> cant ''extract hop-limit'' ''RUMOR''
     | StatusS _ \<Rightarrow> cant ''extract hop-limit'' ''STATUS''
     | PrivateS m \<Rightarrow> Inr (pm_HopLimit m) | DataRequestS m \<Rightarrow> Inr (dreq_HopLimit m)
     | DataReplyS m \<Rightarrow> Inr (drep_HopLimit m)
     | SearchRequestS _ \<Rightarrow> cant ''extract hop-limit'' ''SEARCH REQUEST''
     | SearchReplyS m \<Rightarrow> Inr (srep_HopLimit m) | TxPublishS m \<Rightarrow> Inr (tx_HopLimit m)
     | BlockPublishS m \<Rightarrow> Inr (bp_HopLimit m)
     | DHTMessageS _ \<Rightarrow> cant ''extract hop-limit'' ''MESSAGE''
     | DiffieHellmanS m \<Rightarrow> Inr (dh_HopLimit m)
     | _ \<Rightarrow> nosub)"

definition GetDestination :: "GossipPacket \<Rightarrow> string outcome" where
  "GetDestination g = (case subtype_of g of
       SimpleS _ \<Rightarrow> cant ''extract destination'' ''SIMPLE''
     | RumorS _ \<Rightarrow> cant ''extract destination'' ''RUMOR''
     | StatusS _ \<Rightarrow> cant ''extract destination'' ''STATUS''
     | PrivateS m \<Rightarrow> Inr (pm_Destination m) | DataRequestS m \<Rightarrow> Inr (dreq_Destination m)
     | DataReplyS m \<Rightarrow> Inr (drep_Destination m)
     | SearchRequestS _ \<Rightarrow> cant ''extract destination'' ''SEARCH REQUEST''
     | SearchReplyS m \<Rightarrow> Inr (srep_Destination m)
     | TxPublishS _ \<Rightarrow> cant ''extract destination'' ''TXPUBLISH''
     | BlockPublishS _ \<Rightarrow> cant ''extract destination'' ''BLOCKPUBLISH''
     | DHTMessageS _ \<Rightarrow> cant ''extract destination'' ''MESSAGE''
     | _ \<Rightarrow> nosub)"

definition GetHashValue :: "GossipPacket \<Rightarrow> bytes outcome" where
  "GetHashValue g = (case subtype_of g of
       SimpleS _ \<Rightarrow> cant ''extract hash value'' ''SIMPLE''
     | RumorS _ \<Rightarrow> cant ''extract hash value'' ''RUMOR''
     | StatusS _ \<Rightarrow> cant ''extract hash value'' ''STATUS''
     | PrivateS _ \<Rightarrow> cant ''extract hash value'' ''PRIVATE''
     | DataRequestS m \<Rightarrow> Inr (dreq_HashValue m) | DataReplyS m \<Rightarrow> Inr (drep_HashValue m)
     | SearchRequestS _ \<Rightarrow> cant ''extract hash value'' ''SEARCH REQUEST''
     | SearchReplyS _ \<Rightarrow> cant ''extract hash value'' ''SEARCH REPLY''
     | TxPublishS _ \<Rightarrow> cant ''extract hash value'' ''TXPUBLISH''
     | BlockPublishS _ \<Rightarrow> cant ''extract hash value'' ''BLOCKPUBLISH''
     | DHTMessageS _ \<Rightarrow> cant ''extract hash value'' ''MESSAGE''
     | _ \<Rightarrow> nosub)"

definition GetData :: "GossipPacket \<Rightarrow> bytes outcome" where
  "GetData g = (case subtype_of g of
       SimpleS _ \<Rightarrow> cant ''extract data'' ''SIMPLE''
     | RumorS _ \<Rightarrow> cant ''extract data'' ''RUMOR''
     | StatusS _ \<Rightarrow> cant ''extract data'' ''STATUS''
     | PrivateS _ \<Rightarrow> cant ''extract data'' ''PRIVATE''
     | DataRequestS _ \<Rightarrow> cant ''extract data'' ''DATA REQUEST''
     | DataReplyS m \<Rightarrow> Inr (drep_Data m)
     | SearchRequestS _ \<Rightarrow> cant ''extract data'' ''SEARCH REQUEST''
     | SearchReplyS _ \<Rightarrow> cant ''extract data'' ''SEARCH REPLY''
     | TxPublishS _ \<Rightarrow> cant ''extract data'' ''TXPUBLISH''
     | BlockPublishS _ \<Rightarrow> cant ''extract data'' ''BLOCKPUBLISH''
     | DHTMessageS _ \<Rightarrow> cant ''extract data'' ''MESSAGE''
     | _ \<Rightarrow> nosub)"

definition GetBudget :: "GossipPacket \<Rightarrow> uint64 outcome" where
  "GetBudget g = (case subtype_of g of
       SimpleS _ \<Rightarrow> cant ''extract budget'' ''SIMPLE''
     | RumorS _ \<Rightarrow> cant ''extract budget'' ''RUMOR''
     | StatusS _ \<Rightarrow> cant ''extract budget'' ''STATUS''
     | PrivateS _ \<Rightarrow> cant ''extract budget'' ''PRIVATE''
     | DataRequestS _ \<Rightarrow> cant ''extract budget'' ''DATA REQUEST''
     | DataReplyS _ \<Rightarrow> cant ''extract budget'' ''DATA REPLY''
     | SearchRequestS m \<Rightarrow> Inr (sreq_Budget m)
     | SearchReplyS _ \<Rightarrow> cant ''extract budget'' ''SEARCH REPLY''
     | TxPublishS _ \<Rightarrow> cant ''extract budget'' ''TXPUBLISH''
     | BlockPublishS _ \<Rightarrow> cant ''extract budget'' ''BLOCKPUBLISH''
     | DHTMessageS _ \<Rightarrow> cant ''extract budget'' ''MESSAGE''
     | _ \<Rightarrow> nosub)"

definition GetKeywords :: "GossipPacket \<Rightarrow> string list outcome" where
  "GetKeywords g = (case subtype_of g of
       SimpleS _ \<Rightarrow> cant ''extract keywords'' ''SIMPLE''
     | RumorS _ \<Rightarrow> cant ''extract keywords'' ''RUMOR''
     | StatusS _ \<Rightarrow> cant ''extract keywords'' ''STATUS''
     | PrivateS _ \<Rightarrow> cant ''extract keywords'' ''PRIVATE''
     | DataRequestS _ \<Rightarrow> cant ''extract keywords'' ''DATA REQUEST''
     | DataReplyS _ \<Rightarrow> cant ''extract keywords'' ''DATA REPLY''
     | SearchRequestS m \<Rightarrow> Inr (sreq_Keywords m)
     | SearchReplyS _ \<Rightarrow> cant ''extract keywords'' ''SEARCH REPLY''
     | TxPublishS _ \<Rightarrow> cant ''extract keywords'' ''TXPUBLISH''
     | BlockPublishS _ \<Rightarrow> cant ''extract keywords'' ''BLOCKPUBLISH''
     | DHTMessageS _ \<Rightarrow> cant ''extract keywords'' ''MESSAGE''
     | _ \<Rightarrow> nosub)"

definition GetSearchResults :: "GossipPacket \<Rightarrow> SearchResult list outcome" where
  "GetSearchResults g = (case subtype_of g of
       SimpleS _ \<Rightarrow> cant ''extract search results'' ''SIMPLE''
     | RumorS _ \<Rightarrow> cant ''extract search results'' ''RUMOR''
     | StatusS _ \<Rightarrow> cant ''extract search results'' ''STATUS''
     | PrivateS _ \<Rightarrow> cant ''extract search results'' ''PRIVATE''
     | DataRequestS _ \<Rightarrow> cant ''extract search results'' ''DATA REQUEST''
     | DataReplyS _ \<Rightarrow> cant ''extract search results'' ''DATA REPLY''
     | SearchRequestS _ \<Rightarrow> cant ''extract search results'' ''SEARCH REQUEST''
     | SearchReplyS m \<Rightarrow> Inr (srep_Results m)
     | TxPublishS _ \<Rightarrow> cant ''extract search results'' ''TXPUBLISH''
     | BlockPublishS _ \<Rightarrow> cant ''extract search results'' ''BLOCKPUBLISH''
     | DHTMessageS _ \<Rightarrow> cant ''extract search results'' ''MESSAGE''
     | _ \<Rightarrow> nosub)"

section \<open>Hop limits\<close>

definition PrivateMessage_DecrementHopCount :: "PrivateMessage \<Rightarrow> PrivateMessage \<times> bool" where
  "PrivateMessage_DecrementHopCount m =
     (let h = pm_HopLimit m - 1 in (m\<lparr>pm_HopLimit := h\<rparr>, h > 0))"

definition DataRequest_DecrementHopCount :: "DataRequest \<Rightarrow> DataRequest \<times> bool" where
  "DataRequest_DecrementHopCount m =
     (let h = dreq_HopLimit m - 1 in (m\<lparr>dreq_HopLimit := h\<rparr>, h > 0))"

definition DataReply_DecrementHopCount :: "DataReply \<Rightarrow> DataReply \<times> bool" where
  "DataReply_DecrementHopCount m =
     (let h = drep_HopLimit m - 1 in (m\<lparr>drep_HopLimit := h\<rparr>, h > 0))"

definition SearchReply_DecrementHopCount :: "SearchReply \<Rightarrow> SearchReply \<times> bool" where
  "SearchReply_DecrementHopCount m =
     (let h = srep_HopLimit m - 1 in (m\<lparr>srep_HopLimit := h\<rparr>, h > 0))"

definition TxPublish_DecrementHopCount :: "TxPublish \<Rightarrow> TxPublish \<times> bool" where
  "TxPublish_DecrementHopCount m =
     (let h = tx_HopLimit m - 1 in (m\<lparr>tx_HopLimit := h\<rparr>, h > 0))"

definition BlockPublish_DecrementHopCount :: "BlockPublish \<Rightarrow> BlockPublish \<times> bool" where
  "BlockPublish_DecrementHopCount m =
     (let h = bp_HopLimit m - 1 in (m\<lparr>bp_HopLimit := h\<rparr>, h > 0))"

lemmas message_hop_defs =
  PrivateMessage_DecrementHopCount_def DataRequest_DecrementHopCount_def
  DataReply_DecrementHopCount_def SearchReply_DecrementHopCount_def
  TxPublish_DecrementHopCount_def BlockPublish_DecrementHopCount_def

text \<open>\<open>GossipPacket.DecrementHopCount\<close> decrements the message in place and returns its answer.\<close>

definition DecrementHopCount :: "GossipPacket \<Rightarrow> (GossipPacket \<times> bool) outcome" where
  "DecrementHopCount g = (case subtype_of g of
       SimpleS _ \<Rightarrow> cant ''decrement hop count'' ''SIMPLE''
     | RumorS _ \<Rightarrow> cant ''decrement hop count'' ''RUMOR''
     | StatusS _ \<Rightarrow> cant ''decrement hop count'' ''STATUS''
     | PrivateS m \<Rightarrow> (let (m', s) = PrivateMessage_DecrementHopCount m
                      in Inr (g\<lparr>gp_Private := Some m'\<rparr>, s))
     | DataRequestS m \<Rightarrow> (let (m', s) = DataRequest_DecrementHopCount m
                          in Inr (g\<lparr>gp_DataRequest := Some m'\<rparr>, s))
     | DataReplyS m \<Rightarrow> (let (m', s) = DataReply_DecrementHopCount m
                        in Inr (g\<lparr>gp_DataReply := Some m'\<rparr>, s))
     | SearchRequestS _ \<Rightarrow> cant ''decrement hop count'' ''SEARCH REQUEST''
     | SearchReplyS m \<Rightarrow> (let (m', s) = SearchReply_DecrementHopCount m
                          in Inr (g\<lparr>gp_SearchReply := Some m'\<rparr>, s))
     | TxPublishS m \<Rightarrow> (let (m', s) = TxPublish_DecrementHopCount m
                        in Inr (g\<lparr>gp_TxPublish := Some m'\<rparr>, s))
     | BlockPublishS m \<Rightarrow> (let (m', s) = BlockPublish_DecrementHopCount m
                           in Inr (g\<lparr>gp_BlockPublish := Some m'\<rparr>, s))
     | DHTMessageS _ \<Rightarrow> cant ''decrement hop count'' ''MESSAGE''
     | _ \<Rightarrow> nosub)"

definition ToRumorMessage :: "PrivateMessage \<Rightarrow> RumorMessage" where
  "ToRumorMessage m = \<lparr>rm_Origin = pm_Origin m, rm_ID = 0, rm_Text = pm_Text m\<rparr>"

section \<open>Packets with their sender, and client requests\<close>

record PacketAddressPair =
  pap_Packet :: GossipPacket
  pap_SenderAddress :: address

text \<open>The accessors of a pair are those of its packet.\<close>

definition pap_GetOrigin :: "PacketAddressPair \<Rightarrow> string outcome" where
  "pap_GetOrigin p = GetOrigin (pap_Packet p)"

definition pap_GetSeqID :: "PacketAddressPair \<Rightarrow> uint32 outcome" where
  "pap_GetSeqID p = GetSeqID (pap_Packet p)"

definition pap_GetContents :: "PacketAddressPair \<Rightarrow> string outcome" where
  "pap_GetContents p = GetContents (pap_Packet p)"

definition pap_GetHopLimit :: "PacketAddressPair \<Rightarrow> uint32 outcome" where
  "pap_GetHopLimit p = GetHopLimit (pap_Packet p)"

definition pap_GetDestination :: "PacketAddressPair \<Rightarrow> string outcome" where
  "pap_GetDestination p = GetDestination (pap_Packet p)"

definition pap_GetHashValue :: "PacketAddressPair \<Rightarrow> bytes outcome" where
  "pap_GetHashValue p = GetHashValue (pap_Packet p)"

definition pap_GetData :: "PacketAddressPair \<Rightarrow> bytes outcome" where
  "pap_GetData p = GetData (pap_Packet p)"

definition pap_GetBudget :: "PacketAddressPair \<Rightarrow> uint64 outcome" where
  "pap_GetBudget p = GetBudget (pap_Packet p)"

definition pap_GetKeywords :: "PacketAddressPair \<Rightarrow> string list outcome" where
  "pap_GetKeywords p = GetKeywords (pap_Packet p)"

definition pap_GetSearchResults :: "PacketAddressPair \<Rightarrow> SearchResult list outcome" where
  "pap_GetSearchResults p = GetSearchResults (pap_Packet p)"

definition pap_DecrementHopCount :: "PacketAddressPair \<Rightarrow> (PacketAddressPair \<times> bool) outcome" where
  "pap_DecrementHopCount p =
     obind (DecrementHopCount (pap_Packet p)) (\<lambda>(packet, positive). Inr (p\<lparr>pap_Packet := packet\<rparr>, positive))"

definition GetSenderAddress :: "PacketAddressPair \<Rightarrow> address" where
  "GetSenderAddress p = (case subtype_of (pap_Packet p) of
       SimpleS m \<Rightarrow> sm_RelayPeerAddr m | _ \<Rightarrow> pap_SenderAddress p)"

record FileToDownload =
  ftd_FileName :: string
  ftd_Origin :: string
  ftd_Metahash :: hash32

record FileToSearch =
  fts_Budget :: uint64
  fts_Keywords :: "string list"

record DHTLookup =
  dl_Node :: "TypeID option"
  dl_Key :: "string option"

record DHTStore =
  ds_Key :: "TypeID option"
  ds_Type :: string
  ds_Value :: bytes

record DHTRequest =
  dr_Store :: "DHTStore option"
  dr_Lookup :: "DHTLookup option"

record ClientRequest =
  cr_Packet :: "GossipPacket option"
  cr_FileShare :: "string option"
  cr_FileDownload :: "FileToDownload option"
  cr_FileSearch :: "FileToSearch option"
  cr_DHTLookup :: "DHTLookup option"
  cr_DHTStore :: "DHTStore option"

definition ClientRequest_GetUnderlyingType :: "ClientRequest \<Rightarrow> string" where
  "ClientRequest_GetUnderlyingType r =
     (case cr_Packet r of Some g \<Rightarrow> GetUnderlyingType g | None \<Rightarrow>
      if cr_FileShare r \<noteq> None then ''fileShare''
      else if cr_FileDownload r \<noteq> None then ''fileDownload''
      else if cr_FileSearch r \<noteq> None then ''fileSearch''
      else (case cr_DHTLookup r of
              Some l \<Rightarrow> if dl_Node l \<noteq> None then ''nodeSearch''
                        else if dl_Key l \<noteq> None then ''keySearch''
                        else if cr_DHTStore r \<noteq> None then ''store'' else ''''
            | None \<Rightarrow> if cr_DHTStore r \<noteq> None then ''store'' else ''''))"

lemmas accessor_defs [packet_defs] =
  GetUnderlyingType_def GetOrigin_def GetSeqID_def GetContents_def GetHopLimit_def
  GetDestination_def GetHashValue_def GetData_def GetBudget_def GetKeywords_def
  GetSearchResults_def GetSenderAddress_def

section \<open>Which accessor works on which subtype\<close>

text \<open>
  The packets that \<open>forward\<close> may be given: those for which neither \<open>DecrementHopCount\<close> nor
  \<open>GetDestination\<close> ends the process.
\<close>

definition routable :: "GossipPacket \<Rightarrow> bool" where
  "routable g = (case subtype_of g of
       PrivateS _ \<Rightarrow> True | DataRequestS _ \<Rightarrow> True | DataReplyS _ \<Rightarrow> True | SearchReplyS _ \<Rightarrow> True
     | _ \<Rightarrow> False)"

text \<open>The packets that carry a hop count at all: also the two blockchain packets.\<close>

definition hop_counted :: "GossipPacket \<Rightarrow> bool" where
  "hop_counted g = (case subtype_of g of
       PrivateS _ \<Rightarrow> True | DataRequestS _ \<Rightarrow> True | DataReplyS _ \<Rightarrow> True | SearchReplyS _ \<Rightarrow> True
     | TxPublishS _ \<Rightarrow> True | BlockPublishS _ \<Rightarrow> True | _ \<Rightarrow> False)"

definition hop_of :: "GossipPacket \<Rightarrow> uint32" where
  "hop_of g = (case GetHopLimit g of Inr h \<Rightarrow> h | Inl _ \<Rightarrow> 0)"

lemma subtype_of_update [simp]:
  "subtype_of g = PrivateS m \<Longrightarrow> subtype_of (g\<lparr>gp_Private := Some m1\<rparr>) = PrivateS m1"
  "subtype_of g = DataRequestS m2 \<Longrightarrow> subtype_of (g\<lparr>gp_DataRequest := Some m3\<rparr>) = DataRequestS m3"
  "subtype_of g = DataReplyS m4 \<Longrightarrow> subtype_of (g\<lparr>gp_DataReply := Some m5\<rparr>) = DataReplyS m5"
  "subtype_of g = SearchReplyS m6 \<Longrightarrow> subtype_of (g\<lparr>gp_SearchReply := Some m7\<rparr>) = SearchReplyS m7"
  "subtype_of g = TxPublishS m8 \<Longrightarrow> subtype_of (g\<lparr>gp_TxPublish := Some m9\<rparr>) = TxPublishS m9"
  "subtype_of g = BlockPublishS ma \<Longrightarrow> subtype_of (g\<lparr>gp_BlockPublish := Some mb\<rparr>) = BlockPublishS mb"
  by (auto simp: subtype_of_def split: option.splits)

lemma routable_hop_counted: "routable g \<Longrightarrow> hop_counted g"
  by (auto simp: routable_def hop_counted_def split: subtype.splits)

lemma routable_destination: "routable g \<Longrightarrow> ok (GetDestination g)"
  by (auto simp: routable_def GetDestination_def split: subtype.splits)

lemma DecrementHopCount_hop_counted:
  assumes "hop_counted g"
  shows "\<exists>g'. DecrementHopCount g = Inr (g', 0 < hop_of g') \<and> hop_of g' = hop_of g - 1
      \<and> hop_counted g'"
  using assms
  by (cases "subtype_of g")
     (simp_all add: hop_counted_def DecrementHopCount_def message_hop_defs Let_def
       hop_of_def GetHopLimit_def)

lemma DecrementHopCount_fatal: "\<not> hop_counted g \<Longrightarrow> \<not> ok (DecrementHopCount g)"
  by (cases "subtype_of g") (simp_all add: hop_counted_def DecrementHopCount_def cant_def nosub_def)

lemma DecrementHopCount_routable:
  "routable g \<Longrightarrow> DecrementHopCount g = Inr (g', s) \<Longrightarrow>
    routable g' \<and> GetDestination g' = GetDestination g \<and> GetOrigin g' = GetOrigin g"
  by (cases "subtype_of g")
     (auto simp: routable_def DecrementHopCount_def message_hop_defs Let_def GetDestination_def
       GetOrigin_def)

section \<open>How far a packet travels\<close>

text \<open>
  Each relay decrements the hop count and sends the packet on only if the answer is true.
  \<open>survives dec n p\<close>: \<open>p\<close> gets through \<open>n\<close> relays in a row.
\<close>

fun survives :: "('p \<Rightarrow> ('p \<times> bool) outcome) \<Rightarrow> nat \<Rightarrow> 'p \<Rightarrow> bool" where
  "survives dec 0 p = True"
| "survives dec (Suc n) p =
     (case dec p of Inr (p', True) \<Rightarrow> survives dec n p' | _ \<Rightarrow> False)"

locale hop_limited =
  fixes hop :: "'p \<Rightarrow> uint32"
    and dec :: "'p \<Rightarrow> ('p \<times> bool) outcome"
    and counted :: "'p \<Rightarrow> bool"
  assumes dec: "counted p \<Longrightarrow>
    \<exists>p'. dec p = Inr (p', 0 < hop p') \<and> hop p' = hop p - 1 \<and> counted p'"
begin

lemma survives_positive: "counted p \<Longrightarrow> 0 < hop p \<Longrightarrow> survives dec n p \<longleftrightarrow> n < unat (hop p)"
proof (induction n arbitrary: p)
  case 0
  then show ?case by (simp add: unat_gt_0 word_neq_0_conv)
next
  case (Suc n)
  obtain p' where p': "dec p = Inr (p', 0 < hop p')" "hop p' = hop p - 1" "counted p'"
    using dec [OF Suc.prems(1)] by blast
  have u: "unat (hop p') = unat (hop p) - 1"
    using Suc.prems(2) p'(2) by (simp add: unat_minus_one word_neq_0_conv)
  show ?case
  proof (cases "0 < hop p'")
    case True
    then show ?thesis using Suc.IH [OF p'(3) True] p'(1) u by auto
  next
    case False
    then have "unat (hop p') = 0" by (simp add: word_neq_0_conv [symmetric])
    then show ?thesis using False p'(1) u by auto
  qed
qed

text \<open>A hop limit of zero wraps around: the packet is not dropped but sent on.\<close>

lemma survives_zero: "counted p \<Longrightarrow> hop p = 0 \<Longrightarrow> survives dec n p \<longleftrightarrow> n < 2 ^ 32"
proof -
  assume c: "counted p" and z: "hop p = 0"
  obtain p' where p': "dec p = Inr (p', 0 < hop p')" "hop p' = hop p - 1" "counted p'"
    using dec [OF c] by blast
  have h: "hop p' = - 1" using p'(2) z by simp
  then have pos: "0 < hop p'" by (simp add: word_neq_0_conv [symmetric])
  have u: "unat (hop p') = 2 ^ 32 - 1" using h by (simp add: unsigned_minus_1_eq_mask mask_eq_exp_minus_1)
  show ?thesis
    using survives_positive [OF p'(3) pos] p'(1) pos u by (cases n) auto
qed

lemma survives_iff:
  "counted p \<Longrightarrow> survives dec n p \<longleftrightarrow> n < (if hop p = 0 then 2 ^ 32 else unat (hop p))"
  using survives_positive [of p n] survives_zero [of p n] by (simp add: word_neq_0_conv)

end

interpretation private_hops: hop_limited pm_HopLimit "Inr \<circ> PrivateMessage_DecrementHopCount" "\<lambda>_. True"
  by unfold_locales (simp add: PrivateMessage_DecrementHopCount_def Let_def)

interpretation request_hops: hop_limited dreq_HopLimit "Inr \<circ> DataRequest_DecrementHopCount" "\<lambda>_. True"
  by unfold_locales (simp add: DataRequest_DecrementHopCount_def Let_def)

interpretation reply_hops: hop_limited drep_HopLimit "Inr \<circ> DataReply_DecrementHopCount" "\<lambda>_. True"
  by unfold_locales (simp add: DataReply_DecrementHopCount_def Let_def)

interpretation search_hops: hop_limited srep_HopLimit "Inr \<circ> SearchReply_DecrementHopCount" "\<lambda>_. True"
  by unfold_locales (simp add: SearchReply_DecrementHopCount_def Let_def)

interpretation tx_hops: hop_limited tx_HopLimit "Inr \<circ> TxPublish_DecrementHopCount" "\<lambda>_. True"
  by unfold_locales (simp add: TxPublish_DecrementHopCount_def Let_def)

interpretation block_hops: hop_limited bp_HopLimit "Inr \<circ> BlockPublish_DecrementHopCount" "\<lambda>_. True"
  by unfold_locales (simp add: BlockPublish_DecrementHopCount_def Let_def)

interpretation packet_hops: hop_limited hop_of DecrementHopCount hop_counted
  by unfold_locales (rule DecrementHopCount_hop_counted)

section \<open>Properties\<close>

definition example_private :: "uint32 \<Rightarrow> GossipPacket" where
  "example_private h = emptyPacket\<lparr>gp_Private := Some \<lparr>pm_Origin = ''a'', pm_ID = 0, pm_Text = ''hi'',
     pm_Destination = ''b'', pm_HopLimit = h\<rparr>\<rparr>"

lemma example_private_hop [simp]:
  "hop_counted (example_private h)" "hop_of (example_private h) = h"
  by (simp_all add: example_private_def hop_counted_def hop_of_def GetHopLimit_def subtype_of_def emptyPacket_def)

text \<open>A packet with a positive hop limit gets through n relays in a row exactly when n is
  smaller than the hop limit: every relay decrements the limit and forwards only while it stays
  positive.\<close>

theorem hop_limit_bound:
  assumes "hop_counted p" "0 < hop_of p"
  shows "survives DecrementHopCount n p \<longleftrightarrow> n < unat (hop_of p)"
  using assms by (rule packet_hops.survives_positive)

theorem hop_limit_bound_witness:
  "survives DecrementHopCount 9 (example_private 10) \<and> \<not> survives DecrementHopCount 10 (example_private 10)"
  using hop_limit_bound [of "example_private 10" 9] hop_limit_bound [of "example_private 10" 10] by simp

text \<open>A packet that arrives with hop limit 0 is not dropped: the unsigned counter wraps
  around and the packet gets through 4294967295 relays.\<close>

theorem hop_limit_zero_wraps:
  assumes "hop_counted p" "hop_of p = 0"
  shows "survives DecrementHopCount n p \<longleftrightarrow> n < 2 ^ 32"
  using assms by (rule packet_hops.survives_zero)

theorem hop_limit_zero_wraps_witness: "survives DecrementHopCount 1000 (example_private 0)"
  using hop_limit_zero_wraps [of "example_private 0" 1000] by simp

text \<open>Decrementing the hop count ends the process exactly for the packets that carry
  none, so a relay may call it on private messages, data requests, data replies, search replies,
  transactions and blocks, and on nothing else.\<close>

theorem DecrementHopCount_total: "ok (DecrementHopCount p) \<longleftrightarrow> hop_counted p"
  using DecrementHopCount_fatal [of p] DecrementHopCount_hop_counted [of p] by fastforce

end
