(* ===== verification/XorMetric.thy ===== *)
theory XorMetric
  imports Packets "HOL-Library.Multiset"
begin

text \<open>
  The identifier arithmetic of the DHT: \<open>src/dht/helpers.go\<close> and \<open>src/dht_util/util.go\<close>.
  A \<open>TypeID\<close> is an array of 64 bytes, here a byte list with \<open>wf_id\<close>.  The specification side
  reads an identifier as a number (\<open>id_num\<close>, big endian) or as a bit string (\<open>id_bits\<close>): the
  byte loops of the code are the order, the metric and the common-prefix length of those.
\<close>

unbundle bit_operations_syntax

section \<open>The code\<close>

definition ConvertToTypeID :: "bytes \<Rightarrow> TypeID \<times> bool" where
  "ConvertToTypeID idB =
     (if length idB \<noteq> IDByteSize then (replicate IDByteSize 0, False) else (idB, True))"

definition xorDistance :: "TypeID \<Rightarrow> TypeID \<Rightarrow> TypeID" where
  "xorDistance id1 id2 = map2 (XOR) id1 id2"

fun compare :: "TypeID \<Rightarrow> TypeID \<Rightarrow> int" where
  "compare (v # id1) (w # id2) =
     (if v < w then -1 else if v > w then 1 else compare id1 id2)"
| "compare _ _ = 0"

definition isCloser :: "TypeID \<Rightarrow> TypeID \<Rightarrow> TypeID \<Rightarrow> bool" where
  "isCloser target id1 id2 =
     (let id1C = xorDistance target id1; id2C = xorDistance target id2
      in compare id1C id2C > 0)"

fun InsertOrdered :: "TypeID \<Rightarrow> NodeState list \<Rightarrow> NodeState \<Rightarrow> NodeState list" where
  "InsertOrdered target [] potential = [potential]"
| "InsertOrdered target (prev # prevClosest) potential =
     (if isCloser target (ns_NodeID prev) (ns_NodeID potential)
      then potential # prev # prevClosest
      else prev # InsertOrdered target prevClosest potential)"

text \<open>
  \<open>crypto/rand\<close> is the argument \<open>rnd\<close>: the 64 bytes it fills \<open>generated\<close> with.  Indexing the
  array at 64 or beyond is a run-time panic.
\<close>

definition RandNodeID :: "TypeID \<Rightarrow> TypeID \<Rightarrow> nat \<Rightarrow> TypeID outcome" where
  "RandNodeID rnd base leadingBitsInCommon =
     (let q = leadingBitsInCommon div 8; k = leadingBitsInCommon mod 8 in
      if q \<ge> IDByteSize then Inl (Panic ''index out of range'') else
      let generated = take q base @ drop q rnd;
          b1 = drop_bit k (0x80 :: byte);
          b2 = base ! q AND b1;
          b2 = NOT b2;
          b2 = b2 AND b1;
          g = (if k > 0 then
                 (let b = drop_bit k (0xFF :: byte)
                  in (generated ! q AND b) OR (base ! q AND NOT b))
               else generated ! q);
          g = g AND NOT b1;
          g = g OR b2
      in Inr (generated[q := g]))"

definition byte_bits :: "byte \<Rightarrow> bool list" where
  "byte_bits b = map (\<lambda>i. bit b (7 - i)) [0..<8]"

definition LeadingZeros8 :: "byte \<Rightarrow> nat" where
  "LeadingZeros8 b = length (takeWhile Not (byte_bits b))"

fun CommonLeadingBits :: "TypeID \<Rightarrow> TypeID \<Rightarrow> nat" where
  "CommonLeadingBits (v # id1) (w # id2) =
     (let xored = v XOR w
      in if xored \<noteq> 0 then LeadingZeros8 xored else 8 + CommonLeadingBits id1 id2)"
| "CommonLeadingBits _ _ = 0"

definition Itob :: "uint64 \<Rightarrow> bytes" where
  "Itob v = map (\<lambda>i. ucast (drop_bit (56 - 8 * i) v)) [0..<8]"

section \<open>Identifiers as numbers\<close>

fun id_num :: "bytes \<Rightarrow> nat" where
  "id_num [] = 0"
| "id_num (b # bs) = unat b * 256 ^ length bs + id_num bs"

lemma id_num_less: "id_num bs < 256 ^ length bs"
proof (induction bs)
  case (Cons b bs)
  have "id_num (b # bs) < unat b * 256 ^ length bs + 256 ^ length bs" using Cons by simp
  also have "\<dots> = Suc (unat b) * 256 ^ length bs" by simp
  also have "\<dots> \<le> 256 * 256 ^ length bs"
    using unat_byte_less [of b] by (intro mult_right_mono) (simp_all del: unat_byte_less)
  finally show ?case by simp
qed simp

lemma digit_less:
  assumes "(x::nat) < B" "(d::nat) < e"
  shows "d * B + x < e * B + y"
proof -
  have "d * B + x < Suc d * B" using assms(1) by simp
  also have "\<dots> \<le> e * B" using assms(2) by (intro mult_right_mono) simp_all
  finally show ?thesis by simp
qed

lemma compare_num:
  "length a = length b \<Longrightarrow> compare a b = sgn (int (id_num a) - int (id_num b))"
proof (induction a b rule: compare.induct)
  case (1 v id1 w id2)
  let ?B = "256 ^ length id2 :: nat"
  have l: "length id1 = length id2" using "1.prems" by simp
  have x: "id_num id1 < ?B" "id_num id2 < ?B" using id_num_less [of id1] id_num_less [of id2] l by auto
  consider "v < w" | "w < v" | "v = w" by (metis linorder_less_linear)
  then show ?case
  proof cases
    case 1
    have "unat v * ?B + id_num id1 < unat w * ?B + id_num id2"
      using 1 x by (intro digit_less) (simp_all add: word_less_nat_alt)
    then show ?thesis using 1 l by (simp add: sgn_if flip: of_nat_mult of_nat_add of_nat_power)
  next
    case 2
    have "unat w * ?B + id_num id2 < unat v * ?B + id_num id1"
      using 2 x by (intro digit_less) (simp_all add: word_less_nat_alt)
    then show ?thesis using 2 l by (simp add: sgn_if flip: of_nat_mult of_nat_add of_nat_power)
  next
    case 3
    then show ?thesis using "1.IH" l by simp
  qed
qed auto

lemma id_num_inj:
  assumes "length a = length b" "id_num a = id_num b"
  shows "a = b"
  using assms
proof (induction a b rule: list_induct2)
  case (Cons v a w b)
  have x: "id_num a < 256 ^ length b" "id_num b < 256 ^ length b"
    using id_num_less [of a] id_num_less [of b] Cons.hyps by auto
  have eq: "unat v * 256 ^ length b + id_num a = unat w * 256 ^ length b + id_num b"
    using Cons.prems Cons.hyps by simp
  have "\<not> unat v < unat w" "\<not> unat w < unat v"
    using digit_less [OF x(1), of "unat v" "unat w" "id_num b"]
      digit_less [OF x(2), of "unat w" "unat v" "id_num a"] eq by auto
  then have "unat v = unat w" by simp
  then show ?case using eq Cons.IH by (simp add: word_unat_eq_iff)
qed simp

definition distance :: "TypeID \<Rightarrow> TypeID \<Rightarrow> nat" where
  "distance a b = id_num (xorDistance a b)"

lemma length_xorDistance [simp]: "length (xorDistance a b) = min (length a) (length b)"
  by (simp add: xorDistance_def)

lemma isCloser_distance:
  assumes "length target = length a" "length target = length b"
  shows "isCloser target a b \<longleftrightarrow> distance target b < distance target a"
  using assms by (simp add: isCloser_def Let_def compare_num distance_def)

lemma xorDistance_Cons [simp]: "xorDistance (v # a) (w # b) = (v XOR w) # xorDistance a b"
  and xorDistance_Nil [simp]: "xorDistance [] b = []" "xorDistance a [] = []"
  by (simp_all add: xorDistance_def)

lemma byte_xor_eq_0: "v XOR w = 0 \<longleftrightarrow> v = w" for v w :: byte
  by (auto simp: bit_eq_iff bit_xor_iff)

lemma distance_eq_0:
  "length a = length b \<Longrightarrow> distance a b = 0 \<longleftrightarrow> a = b"
  by (induction a b rule: list_induct2) (auto simp: distance_def unat_eq_0 byte_xor_eq_0)

lemma distance_sym: "distance a b = distance b a"
proof -
  have "xorDistance a b = xorDistance b a"
    by (induction a b rule: list_induct2') (simp_all add: xor.commute)
  then show ?thesis by (simp add: distance_def)
qed

lemma unat_xor_le: "unat (v XOR w) \<le> unat v + unat w" for v w :: byte
proof -
  let ?x = "uint v" and ?y = "uint w"
  have "(?x XOR ?y) AND (?x AND ?y) = 0" by (auto simp: bit_eq_iff bit_simps)
  then have "(?x XOR ?y) + (?x AND ?y) = (?x XOR ?y) OR (?x AND ?y)"
    by (rule disjunctive_add_eq_or)
  also have "\<dots> = ?x OR ?y" by (auto simp: bit_eq_iff bit_simps)
  finally have "?x + ?y = (?x XOR ?y) + 2 * (?x AND ?y)" using plus_and_or [of ?x ?y] by linarith
  moreover have "?x AND ?y \<ge> 0" by simp
  ultimately have "uint (v XOR w) \<le> uint v + uint w" by (simp add: unsigned_xor_eq)
  then have "int (unat (v XOR w)) \<le> int (unat v) + int (unat w)" by (simp only: uint_nat)
  then show ?thesis by linarith
qed

lemma distance_triangle:
  assumes "length a = length b" "length b = length c"
  shows "distance a c \<le> distance a b + distance b c"
  using assms
proof (induction a b c rule: list_induct3)
  case (Cons x a y b z c)
  have "x XOR z = (x XOR y) XOR (y XOR z)" by (auto simp: bit_eq_iff bit_simps)
  then have "unat (x XOR z) \<le> unat (x XOR y) + unat (y XOR z)"
    using unat_xor_le [of "x XOR y" "y XOR z"] by simp
  then have "unat (x XOR z) * 256 ^ length c
      \<le> unat (x XOR y) * 256 ^ length c + unat (y XOR z) * 256 ^ length c"
    by (simp flip: add_mult_distrib)
  then show ?case using Cons by (simp add: distance_def)
qed (simp add: distance_def)

lemma distance_unique:
  assumes "length a = length t" "length b = length t" "distance t a = distance t b"
  shows "a = b"
proof -
  have "xorDistance t a = xorDistance t b"
    using assms by (auto simp: distance_def dest!: id_num_inj [rotated])
  then show ?thesis using assms(1,2)
  proof (induction t arbitrary: a b)
    case (Cons u t)
    then show ?case
      by (cases a; cases b) (auto, metis byte_xor_eq_0 xor.assoc xor_self_eq xor.left_neutral)
  qed simp
qed

section \<open>Identifiers as bit strings\<close>

fun id_bits :: "bytes \<Rightarrow> bool list" where
  "id_bits [] = []"
| "id_bits (b # bs) = byte_bits b @ id_bits bs"

fun bits_num :: "bool list \<Rightarrow> nat" where
  "bits_num [] = 0"
| "bits_num (b # bs) = of_bool b * 2 ^ length bs + bits_num bs"

fun common_prefix :: "bool list \<Rightarrow> bool list \<Rightarrow> nat" where
  "common_prefix (p # ps) (q # qs) = (if p = q then Suc (common_prefix ps qs) else 0)"
| "common_prefix _ _ = 0"

lemma length_byte_bits [simp]: "length (byte_bits b) = 8"
  by (simp add: byte_bits_def)

lemma length_id_bits [simp]: "length (id_bits i) = 8 * length i"
  by (induction i) simp_all

lemma nth_byte_bits: "i < 8 \<Longrightarrow> byte_bits b ! i = bit b (7 - i)"
  by (simp add: byte_bits_def)

lemma nth_id_bits: "i < 8 * length x \<Longrightarrow> id_bits x ! i = bit (x ! (i div 8)) (7 - i mod 8)"
proof (induction x arbitrary: i)
  case (Cons b x)
  show ?case
  proof (cases "i < 8")
    case True
    then show ?thesis by (simp add: nth_append nth_byte_bits)
  next
    case False
    then obtain j where j: "i = j + 8" by (metis add.commute le_iff_add not_less)
    then have "id_bits x ! j = bit (x ! (j div 8)) (7 - j mod 8)"
      using Cons.prems by (intro Cons.IH) simp
    moreover have "(j + 8) div 8 = Suc (j div 8)" by simp
    ultimately show ?thesis using j by (simp add: nth_append del: div_add_self2)
  qed
qed simp

lemma byte_xor_bits: "byte_bits (v XOR w) = map2 (\<noteq>) (byte_bits v) (byte_bits w)"
  by (intro nth_equalityI) (auto simp: nth_byte_bits bit_xor_iff)

lemma byte_bits_inj: "byte_bits v = byte_bits w \<longleftrightarrow> v = w"
proof
  assume eq: "byte_bits v = byte_bits w"
  have "bit v n = bit w n" if "n < 8" for n
    using nth_byte_bits [of "7 - n" v] nth_byte_bits [of "7 - n" w] eq that by simp
  then show "v = w" by (auto simp: bit_eq_iff)
qed simp

lemma common_prefix_xor:
  "length p = length q \<Longrightarrow> common_prefix p q = length (takeWhile Not (map2 (\<noteq>) p q))"
  by (induction p q rule: list_induct2) auto

lemma common_prefix_append:
  "length p = length q \<Longrightarrow>
     common_prefix (p @ r) (q @ s) = (if p = q then length p + common_prefix r s else common_prefix p q)"
  by (induction p q rule: list_induct2) auto

lemma CommonLeadingBits_prefix:
  "length a = length b \<Longrightarrow> CommonLeadingBits a b = common_prefix (id_bits a) (id_bits b)"
proof (induction a b rule: list_induct2)
  case (Cons v a w b)
  have "LeadingZeros8 (v XOR w) = common_prefix (byte_bits v) (byte_bits w)"
    by (simp add: LeadingZeros8_def byte_xor_bits common_prefix_xor)
  then show ?case using Cons.IH
    by (auto simp: common_prefix_append byte_bits_inj Let_def byte_xor_eq_0)
qed simp

lemma common_prefix_le: "common_prefix p q \<le> length p"
  by (induction p q rule: common_prefix.induct) auto

lemma common_prefix_full:
  "length p = length q \<Longrightarrow> common_prefix p q = length p \<longleftrightarrow> p = q"
  by (induction p q rule: list_induct2) auto

lemma id_bits_inj: "length a = length b \<Longrightarrow> id_bits a = id_bits b \<longleftrightarrow> a = b"
  by (induction a b rule: list_induct2) (auto simp: byte_bits_inj)

lemma bits_num_append: "bits_num (p @ q) = bits_num p * 2 ^ length q + bits_num q"
  by (induction p) (simp_all add: algebra_simps power_add)

lemma bits_num_rev: "bits_num (rev p) = horner_sum of_bool 2 p"
  by (induction p) (simp_all add: bits_num_append)

lemma bits_num_byte: "bits_num (byte_bits b) = unat b"
proof -
  have "byte_bits b = rev (map (bit (unat b)) [0..<8])"
    by (intro nth_equalityI) (auto simp: nth_byte_bits rev_nth bit_unsigned_iff)
  then have "bits_num (byte_bits b) = take_bit 8 (unat b)"
    by (simp only: bits_num_rev horner_sum_bit_eq_take_bit)
  also have "\<dots> = unat b" by (simp add: take_bit_eq_mod)
  finally show ?thesis .
qed

lemma bits_num_id: "bits_num (id_bits x) = id_num x"
proof -
  have p: "(2::nat) ^ (8 * n) = 256 ^ n" for n by (simp add: power_mult)
  show ?thesis by (induction x) (simp_all add: bits_num_append bits_num_byte p)
qed

lemma bits_num_bounds:
  assumes "True \<in> set p"
  defines "c \<equiv> length (takeWhile Not p)"
  shows "2 ^ (length p - Suc c) \<le> bits_num p \<and> bits_num p < 2 ^ (length p - c)"
proof -
  have less: "bits_num q < 2 ^ length q" for q by (induction q) auto
  have "2 ^ (length p - Suc (length (takeWhile Not p))) \<le> bits_num p
      \<and> bits_num p < 2 ^ (length p - length (takeWhile Not p))"
    using assms(1)
  proof (induction p)
    case (Cons b p)
    then show ?case using less [of p] by (cases b) auto
  qed simp
  then show ?thesis by (simp add: c_def)
qed

lemma id_bits_xor:
  "length a = length b \<Longrightarrow> id_bits (xorDistance a b) = map2 (\<noteq>) (id_bits a) (id_bits b)"
  by (induction a b rule: list_induct2) (simp_all add: byte_xor_bits)

lemma map2_neq_True: "length p = length q \<Longrightarrow> True \<in> set (map2 (\<noteq>) p q) \<longleftrightarrow> p \<noteq> q"
  by (induction p q rule: list_induct2) auto

lemma CommonLeadingBits_distance:
  assumes "length a = length b" "a \<noteq> b"
  shows "2 ^ (8 * length b - Suc (CommonLeadingBits a b)) \<le> distance a b
    \<and> distance a b < 2 ^ (8 * length b - CommonLeadingBits a b)"
proof -
  let ?p = "map2 (\<noteq>) (id_bits a) (id_bits b)"
  have "True \<in> set ?p" using assms by (subst map2_neq_True) (simp_all add: id_bits_inj)
  moreover have "distance a b = bits_num ?p"
    by (simp add: distance_def id_bits_xor [OF assms(1)] flip: bits_num_id)
  moreover have "CommonLeadingBits a b = length (takeWhile Not ?p)"
    by (simp add: CommonLeadingBits_prefix assms(1) common_prefix_xor)
  ultimately show ?thesis using bits_num_bounds [of ?p] assms(1) by simp
qed

section \<open>Random identifiers with a given prefix\<close>

text \<open>The byte of \<open>RandNodeID\<close> that holds the first differing bit, bit by bit.\<close>

lemma bit_0x80: "bit (0x80 :: byte) n \<longleftrightarrow> n = 7"
proof -
  have "(0x80 :: byte) = 2 ^ 7" by simp
  then show ?thesis by (simp only: bit_exp_iff) auto
qed

lemma bit_0xFF: "bit (0xFF :: byte) n \<longleftrightarrow> n < 8"
proof -
  have "(0xFF :: byte) = mask 8" by (simp add: mask_eq_exp_minus_1)
  then show ?thesis by (simp only: bit_mask_iff) auto
qed

definition boundary_byte :: "byte \<Rightarrow> byte \<Rightarrow> nat \<Rightarrow> byte" where
  "boundary_byte r b k =
     ((if k > 0 then (r AND drop_bit k 0xFF) OR (b AND NOT (drop_bit k 0xFF)) else r)
       AND NOT (drop_bit k 0x80)) OR (NOT (b AND drop_bit k 0x80) AND drop_bit k 0x80)"

lemma bit_boundary_byte:
  assumes "j < 8"
  shows "bit (boundary_byte r b k) j \<longleftrightarrow>
    (if k + j > 7 then bit b j else if k + j = 7 then \<not> bit b j else bit r j)"
proof -
  have b1: "bit (drop_bit k (0x80 :: byte)) j \<longleftrightarrow> k + j = 7"
    by (simp only: bit_drop_bit_eq o_apply bit_0x80)
  have b: "bit (drop_bit k (0xFF :: byte)) j \<longleftrightarrow> k + j < 8"
    by (simp only: bit_drop_bit_eq o_apply bit_0xFF)
  show ?thesis using assms
    by (auto simp add: boundary_byte_def bit_or_iff bit_and_iff bit_not_iff b1 b simp del: bit_drop_bit_eq)
qed

lemma nth_splice:
  assumes "n < length p" "length r = length p" "i < length p"
  shows "(take n p @ [x] @ drop (Suc n) r) ! i = (if i < n then p ! i else if i = n then x else r ! i)"
proof (cases "i \<le> n")
  case False
  then have "(take n p @ [x] @ drop (Suc n) r) ! i = drop (Suc n) r ! (i - Suc n)"
    using assms by (simp add: nth_append nth_Cons')
  then show ?thesis using False assms by simp
qed (use assms in \<open>auto simp: nth_append\<close>)

lemma RandNodeID_bits:
  assumes "wf_id rnd" "wf_id base" "n < IDByteSize * 8"
  shows "\<exists>g. RandNodeID rnd base n = Inr g \<and> wf_id g
    \<and> id_bits g = take n (id_bits base) @ [\<not> id_bits base ! n] @ drop (Suc n) (id_bits rnd)"
proof -
  define q where "q = n div 8"
  define k where "k = n mod 8"
  have n: "n = 8 * q + k" "k < 8" by (simp_all add: q_def k_def)
  have q: "q < 64" using assms(3) n by simp
  have len: "length rnd = 64" "length base = 64" using assms(1,2) by (simp_all add: wf_id_def)
  let ?gen = "take q base @ drop q rnd"
  let ?g = "?gen[q := boundary_byte (rnd ! q) (base ! q) k]"
  have gq: "?gen ! q = rnd ! q" using q len by (simp add: nth_append)
  have R: "RandNodeID rnd base n = Inr ?g"
    using q gq
    by (simp add: RandNodeID_def boundary_byte_def Let_def flip: q_def k_def)
  have lg: "length ?g = 64" using q len by simp
  let ?r = "take n (id_bits base) @ [\<not> id_bits base ! n] @ drop (Suc n) (id_bits rnd)"
  have "id_bits ?g = ?r"
  proof (rule nth_equalityI)
    show "length (id_bits ?g) = length ?r" using len lg assms(3) by simp
  next
    fix i assume "i < length (id_bits ?g)"
    then have i: "i < 512" using lg by simp
    let ?j = "i div 8" and ?m = "i mod 8"
    have im: "i = 8 * ?j + ?m" "?m < 8" "?j < 64" using i by auto
    have bg: "id_bits ?g ! i = bit (?g ! ?j) (7 - ?m)" using i lg by (intro nth_id_bits) simp
    have bb: "id_bits base ! i = bit (base ! ?j) (7 - ?m)" "id_bits rnd ! i = bit (rnd ! ?j) (7 - ?m)"
      using i len by (auto intro!: nth_id_bits)
    have r: "?r ! i = (if i < n then id_bits base ! i else if i = n then \<not> id_bits base ! i
        else id_bits rnd ! i)"
      using len assms(3) i nth_splice [of n "id_bits base" "id_bits rnd" i "\<not> id_bits base ! n"] by auto
    consider "?j < q" | "?j = q" | "?j > q" by linarith
    then show "id_bits ?g ! i = ?r ! i"
    proof cases
      case 1
      then have "i < n" using im n by linarith
      then show ?thesis unfolding bg r bb using 1 len q by (simp add: nth_append)
    next
      case 2
      have ci: "i < n \<longleftrightarrow> ?m < k" "i = n \<longleftrightarrow> ?m = k" using 2 im n by linarith+
      have "?g ! ?j = boundary_byte (rnd ! q) (base ! q) k" using 2 q len by simp
      moreover have "bit (boundary_byte (rnd ! q) (base ! q) k) (7 - ?m) \<longleftrightarrow>
          (if ?m < k then bit (base ! q) (7 - ?m) else if ?m = k then \<not> bit (base ! q) (7 - ?m)
           else bit (rnd ! q) (7 - ?m))"
        using im(2) n(2) by (subst bit_boundary_byte) auto
      ultimately show ?thesis using 2 bg bb r ci by simp
    next
      case 3
      then have "i > n" using im n by linarith
      then show ?thesis unfolding bg r bb using 3 len q im(3) by (simp add: nth_append)
    qed
  qed
  then show ?thesis using R lg by (auto simp: wf_id_def)
qed

lemma common_prefix_flip:
  "n < length p \<Longrightarrow> common_prefix p (take n p @ [\<not> p ! n] @ r) = n"
  by (induction p arbitrary: n) (auto simp: take_Cons nth_Cons split: nat.splits)

section \<open>Ordered insertion\<close>

definition closest_first :: "TypeID \<Rightarrow> NodeState list \<Rightarrow> bool" where
  "closest_first target ns = sorted (map (\<lambda>n. distance target (ns_NodeID n)) ns)"

lemma mset_InsertOrdered [simp]: "mset (InsertOrdered target ns p) = add_mset p (mset ns)"
  by (induction target ns p rule: InsertOrdered.induct) auto

lemma set_InsertOrdered [simp]: "set (InsertOrdered target ns p) = insert p (set ns)"
  by (metis mset_InsertOrdered set_mset_add_mset_insert set_mset_mset)

lemma length_InsertOrdered [simp]: "length (InsertOrdered target ns p) = Suc (length ns)"
  by (metis mset_InsertOrdered size_add_mset size_mset)

definition wf_nodes :: "NodeState list \<Rightarrow> bool" where
  "wf_nodes ns = list_all (\<lambda>n. wf_id (ns_NodeID n)) ns"

lemma wf_nodes_simps [simp]:
  "wf_nodes []" "wf_nodes (n # ns) \<longleftrightarrow> wf_id (ns_NodeID n) \<and> wf_nodes ns"
  "wf_nodes (ns @ ms) \<longleftrightarrow> wf_nodes ns \<and> wf_nodes ms"
  by (simp_all add: wf_nodes_def)

lemma wf_nodes_InsertOrdered [simp]:
  "wf_nodes (InsertOrdered target ns p) \<longleftrightarrow> wf_id (ns_NodeID p) \<and> wf_nodes ns"
  by (auto simp: wf_nodes_def list_all_iff)

lemma closer_wf:
  "wf_id t \<Longrightarrow> wf_id a \<Longrightarrow> wf_id b \<Longrightarrow> isCloser t a b \<longleftrightarrow> distance t b < distance t a"
  by (simp add: isCloser_distance wf_id_def)

lemma closest_first_InsertOrdered:
  assumes "wf_id target" "wf_nodes ns" "wf_id (ns_NodeID p)" "closest_first target ns"
  shows "closest_first target (InsertOrdered target ns p)"
  using assms(2,4)
proof (induction ns)
  case (Cons prev ns)
  have c: "isCloser target (ns_NodeID prev) (ns_NodeID p)
      \<longleftrightarrow> distance target (ns_NodeID p) < distance target (ns_NodeID prev)"
    using Cons.prems assms(1,3) by (simp add: closer_wf)
  show ?case using Cons assms
    by (auto simp: closest_first_def c)
qed (simp add: closest_first_def)

section \<open>Big-endian integers\<close>

lemma id_num_append: "id_num (x @ y) = id_num x * 256 ^ length y + id_num y"
  by (induction x) (simp_all add: algebra_simps power_add)

lemma id_bits_Itob_nth:
  assumes "i < 64" shows "id_bits (Itob v) ! i = bit v (63 - i)"
proof -
  have "i div 8 < 8" using assms by auto
  moreover have "7 - i mod 8 + (56 - 8 * (i div 8)) = 63 - i" using assms by auto
  ultimately show ?thesis using assms
    by (auto simp: nth_id_bits Itob_def bit_ucast_iff bit_drop_bit_eq add.commute)
qed

lemma length_Itob [simp]: "length (Itob v) = 8"
  by (simp add: Itob_def)

lemma id_num_Itob: "id_num (Itob v) = unat v"
proof -
  have "id_bits (Itob v) = rev (map (bit (unat v)) [0..<64])"
    by (intro nth_equalityI) (auto simp: id_bits_Itob_nth rev_nth bit_unsigned_iff)
  then have "id_num (Itob v) = take_bit 64 (unat v)"
    by (simp only: bits_num_rev horner_sum_bit_eq_take_bit flip: bits_num_id)
  also have "\<dots> = unat v" by (simp add: take_bit_nat_eq_self unsigned_less [where 'a = nat, of v, simplified])
  finally show ?thesis .
qed

lemma RandNodeID_prefix:
  assumes "wf_id rnd" "wf_id base" "n < IDByteSize * 8"
  shows "\<exists>g. RandNodeID rnd base n = Inr g \<and> wf_id g \<and> CommonLeadingBits base g = n
    \<and> id_bits g = take n (id_bits base) @ [\<not> id_bits base ! n] @ drop (Suc n) (id_bits rnd)"
proof -
  obtain g where g: "RandNodeID rnd base n = Inr g" "wf_id g"
    "id_bits g = take n (id_bits base) @ [\<not> id_bits base ! n] @ drop (Suc n) (id_bits rnd)"
    using RandNodeID_bits [OF assms] by blast
  have "n < length (id_bits base)" using assms by (simp add: wf_id_def)
  then have "common_prefix (id_bits base) (id_bits g) = n" unfolding g(3) by (rule common_prefix_flip)
  moreover have "CommonLeadingBits base g = common_prefix (id_bits base) (id_bits g)"
    using assms(2) g(2) by (intro CommonLeadingBits_prefix) (simp add: wf_id_def)
  ultimately show ?thesis using g by auto
qed

section \<open>Properties\<close>

lemma wf_id_replicate [simp]: "wf_id (replicate 64 b)"
  by (simp add: wf_id_def)

text \<open>C33: the byte loop \<open>compare\<close> is the order of the identifiers read as big-endian
  numbers.\<close>

theorem compare_is_numeric:
  assumes "wf_id a" "wf_id b"
  shows "compare a b = sgn (int (id_num a) - int (id_num b))"
  using assms by (simp add: compare_num wf_id_def)

theorem compare_is_numeric_witness:
  "compare (replicate 64 0) (replicate 64 1) =
     sgn (int (id_num (replicate 64 0)) - int (id_num (replicate 64 1)))"
  using compare_is_numeric [of "replicate 64 0" "replicate 64 1"] by simp

text \<open>The distance of two identifiers is a metric in which, from a given point, no two
  identifiers are equally far away.\<close>

theorem xorDistance_is_metric:
  assumes "wf_id a" "wf_id b" "wf_id c"
  shows "(distance a b = 0 \<longleftrightarrow> a = b) \<and> distance a b = distance b a
    \<and> distance a c \<le> distance a b + distance b c \<and> (distance a b = distance a c \<longleftrightarrow> b = c)"
  using assms distance_eq_0 [of a b] distance_sym [of a b] distance_triangle [of a b c] distance_unique [of b a c]
  by (auto simp: wf_id_def)

theorem xorDistance_is_metric_witness:
  "distance (replicate 64 0) (replicate 64 2) \<le>
     distance (replicate 64 0) (replicate 64 1) + distance (replicate 64 1) (replicate 64 2)"
  using xorDistance_is_metric [of "replicate 64 0" "replicate 64 1" "replicate 64 2"] by simp

text \<open>C26: \<open>RandNodeID\<close> returns an identifier whose first n bits are those of the base, whose
  next bit differs from the base, and whose other bits are the random ones; so exactly n leading
  bits are shared.\<close>

theorem RandNodeID_shares_prefix:
  assumes "wf_id rnd" "wf_id base" "n < IDByteSize * 8"
  shows "\<exists>g. RandNodeID rnd base n = Inr g \<and> wf_id g \<and> CommonLeadingBits base g = n
    \<and> id_bits g = take n (id_bits base) @ [\<not> id_bits base ! n] @ drop (Suc n) (id_bits rnd)"
  by (rule RandNodeID_prefix [OF assms])

theorem RandNodeID_shares_prefix_witness:
  "\<exists>g. RandNodeID (replicate 64 0xAB) (replicate 64 0x0F) 13 = Inr g
     \<and> CommonLeadingBits (replicate 64 0x0F) g = 13"
  using RandNodeID_shares_prefix [of "replicate 64 0xAB" "replicate 64 0x0F" 13] by auto

text \<open>C21: \<open>InsertOrdered\<close> adds the node and keeps a list that is ordered by distance
  ordered.\<close>

theorem InsertOrdered_keeps_order:
  assumes "wf_id target" "wf_nodes ns" "wf_id (ns_NodeID p)" "closest_first target ns"
  shows "closest_first target (InsertOrdered target ns p)
    \<and> mset (InsertOrdered target ns p) = add_mset p (mset ns)"
  using closest_first_InsertOrdered [OF assms] by simp

theorem InsertOrdered_keeps_order_witness:
  "closest_first (replicate 64 0) (InsertOrdered (replicate 64 0)
     [\<lparr>ns_NodeID = replicate 64 2, ns_Address = ''a''\<rparr>] \<lparr>ns_NodeID = replicate 64 1, ns_Address = ''b''\<rparr>)"
  using InsertOrdered_keeps_order [of "replicate 64 0" "[\<lparr>ns_NodeID = replicate 64 2, ns_Address = ''a''\<rparr>]"
      "\<lparr>ns_NodeID = replicate 64 1, ns_Address = ''b''\<rparr>"]
  by (simp add: closest_first_def)

text \<open>The eight bytes of \<open>Itob\<close>, read big-endian, give the integer back; in particular the
  keys sort as the integers do.\<close>

theorem Itob_roundtrip: "id_num (Itob v) = unat v \<and> length (Itob v) = 8
    \<and> compare (Itob v) (Itob w) = sgn (int (unat v) - int (unat w))"
  using compare_num [of "Itob v" "Itob w"] id_num_Itob [of v] id_num_Itob [of w] by simp

end
