(* ===== verification/NodeArray.thy ===== *)
theory NodeArray
  imports XorMetric
begin

text \<open>
  \<open>src/dht/SafeNodeStateArray.go\<close>: the candidate list of a node lookup, ordered from the
  closest to the furthest from the target.  The Go maps to \<open>bool\<close> only ever hold \<open>true\<close> and
  are sets.  \<open>Insert\<close> compares pointers with the first element; since \<open>exists\<close> keeps the
  identifiers of the array distinct, that is equality of the node states.
\<close>

record SafeNodeStateArray =
  sna_Target :: TypeID
  sna_exists :: "TypeID set"
  sna_Queried :: "TypeID set"
  sna_Responded :: "TypeID set"
  sna_array :: "NodeState list"

definition NewSafeNodeStateArray :: "TypeID \<Rightarrow> SafeNodeStateArray" where
  "NewSafeNodeStateArray target =
     \<lparr>sna_Target = target, sna_exists = {}, sna_Queried = {}, sna_Responded = {}, sna_array = []\<rparr>"

definition Insert :: "NodeState \<Rightarrow> SafeNodeStateArray \<Rightarrow> SafeNodeStateArray \<times> bool" where
  "Insert potential snsa =
     (if ns_NodeID potential \<in> sna_exists snsa then (snsa, False)
      else let array = InsertOrdered (sna_Target snsa) (sna_array snsa) potential
           in (snsa\<lparr>sna_exists := insert (ns_NodeID potential) (sna_exists snsa), sna_array := array\<rparr>,
               hd array = potential))"

text \<open>
  The loop of \<open>InsertArray\<close>: \<open>closer || snsa.Insert(node)\<close> does not call \<open>Insert\<close> once
  \<open>closer\<close> is set.
\<close>

fun insert_loop :: "TypeID \<Rightarrow> NodeState list \<Rightarrow> SafeNodeStateArray \<times> bool \<Rightarrow> SafeNodeStateArray \<times> bool" where
  "insert_loop ex [] (snsa, closer) = (snsa, closer)"
| "insert_loop ex (node # nodes) (snsa, closer) =
     (if ns_NodeID node \<noteq> ex
      then insert_loop ex nodes (if closer then (snsa, True) else Insert node snsa)
      else insert_loop ex nodes (snsa, closer))"

definition InsertArray :: "NodeState list \<Rightarrow> TypeID \<Rightarrow> SafeNodeStateArray \<Rightarrow> SafeNodeStateArray \<times> bool" where
  "InsertArray nodes ex snsa = insert_loop ex nodes (snsa, False)"

definition SetQueried :: "NodeState \<Rightarrow> SafeNodeStateArray \<Rightarrow> SafeNodeStateArray" where
  "SetQueried ns snsa = snsa\<lparr>sna_Queried := insert (ns_NodeID ns) (sna_Queried snsa)\<rparr>"

definition SetResponded :: "NodeState \<Rightarrow> SafeNodeStateArray \<Rightarrow> SafeNodeStateArray" where
  "SetResponded ns snsa = snsa\<lparr>sna_Responded := insert (ns_NodeID ns) (sna_Responded snsa)\<rparr>"

definition hasResponded :: "SafeNodeStateArray \<Rightarrow> NodeState \<Rightarrow> bool" where
  "hasResponded snsa ns = (ns_NodeID ns \<in> sna_Responded snsa)"

definition wasQueried :: "SafeNodeStateArray \<Rightarrow> NodeState \<Rightarrow> bool" where
  "wasQueried snsa ns = (ns_NodeID ns \<in> sna_Queried snsa)"

fun unqueried_loop :: "SafeNodeStateArray \<Rightarrow> NodeState list \<Rightarrow> int \<Rightarrow> NodeState list" where
  "unqueried_loop snsa [] alpha = []"
| "unqueried_loop snsa (ns # rest) alpha =
     (if \<not> wasQueried snsa ns
      then ns # (if alpha - 1 = 0 then [] else unqueried_loop snsa rest (alpha - 1))
      else unqueried_loop snsa rest alpha)"

definition GetAlphaUnqueried :: "int \<Rightarrow> SafeNodeStateArray \<Rightarrow> NodeState list" where
  "GetAlphaUnqueried alpha snsa = unqueried_loop snsa (sna_array snsa) alpha"

definition snsa_GetArrayCopy :: "SafeNodeStateArray \<Rightarrow> NodeState list" where
  "snsa_GetArrayCopy snsa = sna_array snsa"

fun k_closest_loop :: "SafeNodeStateArray \<Rightarrow> NodeState list \<Rightarrow> int
    \<Rightarrow> NodeState list \<times> NodeState list \<Rightarrow> NodeState list \<times> NodeState list" where
  "k_closest_loop snsa [] k (unqueried, responded) = (unqueried, responded)"
| "k_closest_loop snsa (node # rest) k (unqueried, responded) =
     (let (unqueried, responded, k) =
        (if hasResponded snsa node then (unqueried, responded @ [node], k - 1)
         else if \<not> wasQueried snsa node then (unqueried @ [node], responded, k - 1)
         else (unqueried, responded, k))
      in if k = 0 then (unqueried, responded) else k_closest_loop snsa rest k (unqueried, responded))"

definition GetKClosestUnqueried :: "int \<Rightarrow> SafeNodeStateArray \<Rightarrow> NodeState list \<times> NodeState list" where
  "GetKClosestUnqueried k snsa = k_closest_loop snsa (sna_array snsa) k ([], [])"

fun responded_loop :: "SafeNodeStateArray \<Rightarrow> NodeState list \<Rightarrow> int \<Rightarrow> NodeState list \<Rightarrow> NodeState list \<times> bool" where
  "responded_loop snsa [] k responded = (responded, False)"
| "responded_loop snsa (node # rest) k responded =
     (let (responded, k) =
        (if hasResponded snsa node then (responded @ [node], k - 1) else (responded, k))
      in if k = 0 then (responded, True) else responded_loop snsa rest k responded)"

definition GetKClosestResponded :: "int \<Rightarrow> SafeNodeStateArray \<Rightarrow> NodeState list \<times> bool" where
  "GetKClosestResponded k snsa = responded_loop snsa (sna_array snsa) k []"

section \<open>The candidate list is a sorted set\<close>

definition sna_inv :: "SafeNodeStateArray \<Rightarrow> bool" where
  "sna_inv snsa \<longleftrightarrow> wf_id (sna_Target snsa) \<and> wf_nodes (sna_array snsa)
     \<and> closest_first (sna_Target snsa) (sna_array snsa)
     \<and> distinct (map ns_NodeID (sna_array snsa))
     \<and> sna_exists snsa = ns_NodeID ` set (sna_array snsa)"

lemma sna_inv_New: "wf_id target \<Longrightarrow> sna_inv (NewSafeNodeStateArray target)"
  by (simp add: sna_inv_def NewSafeNodeStateArray_def closest_first_def)

lemma distinct_ids_InsertOrdered:
  "distinct (map ns_NodeID (InsertOrdered t ns p)) \<longleftrightarrow>
     distinct (map ns_NodeID ns) \<and> ns_NodeID p \<notin> ns_NodeID ` set ns"
proof -
  have "mset (map ns_NodeID (InsertOrdered t ns p)) = mset (map ns_NodeID (p # ns))" by simp
  then have "distinct (map ns_NodeID (InsertOrdered t ns p)) \<longleftrightarrow> distinct (map ns_NodeID (p # ns))"
    by (metis mset_eq_imp_distinct_iff)
  then show ?thesis by auto
qed

lemma sna_inv_Insert:
  assumes "sna_inv snsa" "wf_id (ns_NodeID p)"
  shows "sna_inv (fst (Insert p snsa))"
  using assms
  by (auto simp: Insert_def Let_def sna_inv_def closest_first_InsertOrdered distinct_ids_InsertOrdered)

lemma hd_InsertOrdered:
  "hd (InsertOrdered t ns p) =
     (if ns = [] \<or> isCloser t (ns_NodeID (hd ns)) (ns_NodeID p) then p else hd ns)"
  by (cases ns) auto

lemma closest_first_hd:
  "closest_first t ns \<Longrightarrow> ns \<noteq> [] \<Longrightarrow>
     d < distance t (ns_NodeID (hd ns)) \<longleftrightarrow> (\<forall>n \<in> set ns. d < distance t (ns_NodeID n))"
  by (cases ns) (auto simp: closest_first_def)

lemma Insert_closest:
  assumes "sna_inv snsa" "wf_id (ns_NodeID p)"
  shows "snd (Insert p snsa) \<longleftrightarrow> ns_NodeID p \<notin> sna_exists snsa \<and>
    (\<forall>n \<in> set (sna_array snsa).
       distance (sna_Target snsa) (ns_NodeID p) < distance (sna_Target snsa) (ns_NodeID n))"
proof (cases "sna_array snsa")
  case Nil
  then show ?thesis by (simp add: Insert_def Let_def)
next
  case (Cons n ns)
  let ?t = "sna_Target snsa"
  have inv: "wf_id ?t" "wf_id (ns_NodeID n)" "closest_first ?t (n # ns)"
    "sna_exists snsa = ns_NodeID ` set (n # ns)"
    using assms(1) Cons by (simp_all add: sna_inv_def)
  have "snd (Insert p snsa) \<longleftrightarrow> ns_NodeID p \<notin> sna_exists snsa \<and>
      isCloser ?t (ns_NodeID n) (ns_NodeID p)"
    using inv Cons by (auto simp: Insert_def Let_def hd_InsertOrdered)
  then show ?thesis using inv closest_first_hd [OF inv(3)] closer_wf [OF inv(1,2) assms(2)] Cons
    by simp
qed

lemma Insert_Target [simp]: "sna_Target (fst (Insert p snsa)) = sna_Target snsa"
  and Insert_Queried [simp]: "sna_Queried (fst (Insert p snsa)) = sna_Queried snsa"
  and Insert_Responded [simp]: "sna_Responded (fst (Insert p snsa)) = sna_Responded snsa"
  by (simp_all add: Insert_def Let_def)

lemma Insert_exists_mono: "sna_exists snsa \<subseteq> sna_exists (fst (Insert p snsa))"
  by (auto simp: Insert_def Let_def)

lemma Insert_set:
  "set (sna_array (fst (Insert p snsa))) =
     (if ns_NodeID p \<in> sna_exists snsa then set (sna_array snsa) else insert p (set (sna_array snsa)))"
  by (simp add: Insert_def Let_def)

lemma insert_loop_inv:
  "sna_inv (fst s) \<Longrightarrow> wf_nodes nodes \<Longrightarrow> sna_inv (fst (insert_loop ex nodes s))"
  by (induction ex nodes s rule: insert_loop.induct) (auto simp: sna_inv_Insert)

lemma insert_loop_keeps:
  "sna_Target (fst (insert_loop ex nodes s)) = sna_Target (fst s)"
  "sna_Queried (fst (insert_loop ex nodes s)) = sna_Queried (fst s)"
  "sna_Responded (fst (insert_loop ex nodes s)) = sna_Responded (fst s)"
  by (induction ex nodes s rule: insert_loop.induct) auto

lemma insert_loop_set:
  "set (sna_array (fst s)) \<subseteq> set (sna_array (fst (insert_loop ex nodes s)))
   \<and> set (sna_array (fst (insert_loop ex nodes s))) \<subseteq> set (sna_array (fst s)) \<union> {n \<in> set nodes. ns_NodeID n \<noteq> ex}"
  by (induction ex nodes s rule: insert_loop.induct) (auto simp: Insert_set split: if_splits)

lemma insert_loop_closer: "snd s \<Longrightarrow> insert_loop ex nodes s = s"
  by (induction ex nodes s rule: insert_loop.induct) auto

text \<open>A node that came in closest is new in the array and unqueried nodes are therefore left.\<close>

lemma insert_loop_closer_new:
  "snd (insert_loop ex nodes s) \<Longrightarrow> \<not> snd s \<Longrightarrow>
     \<exists>n \<in> set nodes. ns_NodeID n \<notin> sna_exists (fst s) \<and> n \<in> set (sna_array (fst (insert_loop ex nodes s)))"
proof (induction ex nodes s rule: insert_loop.induct)
  case (2 ex node nodes snsa closer)
  show ?case
  proof (cases "ns_NodeID node \<noteq> ex \<and> snd (Insert node snsa)")
    case True
    then have "insert_loop ex (node # nodes) (snsa, closer) = Insert node snsa"
      using 2 by (simp add: insert_loop_closer)
    then show ?thesis using True by (auto simp: Insert_def Let_def split: if_splits)
  next
    case False
    then show ?thesis using 2 Insert_exists_mono [of snsa node]
      by (cases "ns_NodeID node = ex") auto
  qed
qed simp

lemma unqueried_loop_take:
  "alpha > 0 \<Longrightarrow> unqueried_loop snsa ns alpha = take (nat alpha) (filter (\<lambda>n. \<not> wasQueried snsa n) ns)"
proof (induction snsa ns alpha rule: unqueried_loop.induct)
  case (2 snsa n ns alpha)
  then have "nat alpha = Suc (nat (alpha - 1))" by simp
  then show ?case using 2 by auto
qed simp

lemma k_closest_loop_take:
  assumes "k > 0"
  shows "k_closest_loop snsa ns k (u, r) =
    (let c = take (nat k) (filter (\<lambda>n. hasResponded snsa n \<or> \<not> wasQueried snsa n) ns)
     in (u @ filter (\<lambda>n. \<not> hasResponded snsa n) c, r @ filter (hasResponded snsa) c))"
  using assms
proof (induction ns arbitrary: k u r)
  case (Cons n ns)
  show ?case
  proof (cases "k = 1")
    case True
    then show ?thesis using Cons.IH [of 1] by (auto simp: Let_def)
  next
    case False
    then have "nat k = Suc (nat (k - 1))" "k - 1 > 0" using Cons.prems by simp_all
    then show ?thesis using Cons.IH [of "k - 1"] Cons.IH [of k] Cons.prems by (auto simp: Let_def)
  qed
qed simp

lemma responded_loop_take:
  assumes "k > 0"
  shows "responded_loop snsa ns k r =
    (r @ take (nat k) (filter (hasResponded snsa) ns), nat k \<le> length (filter (hasResponded snsa) ns))"
  using assms
proof (induction ns arbitrary: k r)
  case (Cons n ns)
  show ?case
  proof (cases "k = 1")
    case True
    then show ?thesis using Cons.IH [of 1] by (auto simp: Let_def)
  next
    case False
    then have "nat k = Suc (nat (k - 1))" "k - 1 > 0" using Cons.prems by simp_all
    then show ?thesis using Cons.IH [of "k - 1"] Cons.IH [of k] Cons.prems by (auto simp: Let_def)
  qed
qed simp

end
