(* ===== verification/KBuckets.thy ===== *)
theory KBuckets
  imports NodeArray
begin

text \<open>
  \<open>src/gossiper/kBuckets.go\<close>: the 512 buckets of known nodes, each of at most 20 nodes, the
  most recently seen first.  \<open>sendPing\<close> asks the network whether a node is alive; its answer
  is the argument \<open>ping\<close> of the operations, and every property holds for all answers.
\<close>

definition bucketSize :: nat where
  "bucketSize = 20"

type_synonym bucket = "NodeState list"

definition newBucket :: bucket where
  "newBucket = []"

text \<open>
  \<open>copy(b.Nodes[:i+1], node # b.Nodes[:i])\<close> moves the known node to the front; the loop that
  finds it is \<open>find_node\<close>.
\<close>

fun find_node :: "TypeID \<Rightarrow> bucket \<Rightarrow> nat option" where
  "find_node i [] = None"
| "find_node i (node # nodes) =
     (if ns_NodeID node = i then Some 0 else map_option Suc (find_node i nodes))"

definition bucket_updateNode :: "(NodeState \<Rightarrow> bool) \<Rightarrow> NodeState \<Rightarrow> bucket \<Rightarrow> bucket \<times> bool" where
  "bucket_updateNode ping ns nodes =
     (case find_node (ns_NodeID ns) nodes of
        Some i \<Rightarrow> (nodes ! i # take i nodes @ drop (Suc i) nodes, False)
      | None \<Rightarrow>
          if length nodes \<ge> bucketSize then
            (let lastNode = nodes ! (bucketSize - 1) in
             if ping lastNode then (lastNode # take (bucketSize - 1) nodes, False)
             else (ns # take (bucketSize - 1) nodes, True))
          else (ns # nodes, True))"

record bucketTable =
  bt_MyNodeID :: TypeID
  bt_Buckets :: "bucket list"

definition newBucketTable :: "TypeID \<Rightarrow> bucketTable" where
  "newBucketTable myNodeID =
     \<lparr>bt_MyNodeID = myNodeID, bt_Buckets = replicate (IDByteSize * 8) newBucket\<rparr>"

definition bt_updateNode :: "(NodeState \<Rightarrow> bool) \<Rightarrow> NodeState \<Rightarrow> bucketTable \<Rightarrow> bucketTable \<times> bool" where
  "bt_updateNode ping ns bt =
     (let clb = CommonLeadingBits (bt_MyNodeID bt) (ns_NodeID ns) in
      if clb < IDByteSize * 8 then
        (let (b, changed) = bucket_updateNode ping ns (bt_Buckets bt ! clb)
         in (bt\<lparr>bt_Buckets := (bt_Buckets bt)[clb := b]\<rparr>, changed))
      else (bt, False))"

definition closest_step :: "TypeID \<Rightarrow> nat \<Rightarrow> NodeState \<Rightarrow> NodeState list \<Rightarrow> NodeState list" where
  "closest_step target alpha node results =
     (if length results < alpha then results @ [node]
      else let results = InsertOrdered target results node
           in if length results > alpha then take alpha results else results)"

definition alphaClosest :: "TypeID \<Rightarrow> nat \<Rightarrow> bucketTable \<Rightarrow> NodeState list" where
  "alphaClosest target alpha bt =
     fold (\<lambda>b results. fold (closest_step target alpha) b results) (bt_Buckets bt) []"

section \<open>The bucket invariant\<close>

definition bucket_inv :: "TypeID \<Rightarrow> nat \<Rightarrow> bucket \<Rightarrow> bool" where
  "bucket_inv my i b \<longleftrightarrow> length b \<le> bucketSize \<and> distinct (map ns_NodeID b)
     \<and> list_all (\<lambda>n. wf_id (ns_NodeID n) \<and> CommonLeadingBits my (ns_NodeID n) = i) b"

definition bt_inv :: "bucketTable \<Rightarrow> bool" where
  "bt_inv bt \<longleftrightarrow> wf_id (bt_MyNodeID bt) \<and> length (bt_Buckets bt) = IDByteSize * 8
     \<and> list_all (\<lambda>i. bucket_inv (bt_MyNodeID bt) i (bt_Buckets bt ! i)) [0..<IDByteSize * 8]"

lemma find_node_Some:
  "find_node i b = Some j \<Longrightarrow> j < length b \<and> ns_NodeID (b ! j) = i"
  by (induction b arbitrary: j) (auto split: if_splits)

lemma find_node_None: "find_node i b = None \<longleftrightarrow> i \<notin> ns_NodeID ` set b"
  by (induction b) auto

lemma mset_to_front: "j < length b \<Longrightarrow> mset (b ! j # take j b @ drop (Suc j) b) = mset b"
  by (metis id_take_nth_drop mset.simps(2) mset_append union_mset_add_mset_right)

text \<open>The three outcomes of \<open>updateNode\<close>: a reordering, an eviction, an insertion.\<close>

lemma bucket_updateNode_cases:
  assumes "length b \<le> bucketSize"
  obtains (seen) b' where "ns_NodeID ns \<in> ns_NodeID ` set b" "bucket_updateNode ping ns b = (b', False)"
      "mset b' = mset b" "ns_NodeID (hd b') = ns_NodeID ns" "b' \<noteq> []"
  | (kept) b' where "ns_NodeID ns \<notin> ns_NodeID ` set b" "length b = bucketSize" "ping (last b)"
      "bucket_updateNode ping ns b = (b', False)" "mset b' = mset b" "hd b' = last b"
  | (evicted) "ns_NodeID ns \<notin> ns_NodeID ` set b" "length b = bucketSize" "\<not> ping (last b)"
      "bucket_updateNode ping ns b = (ns # butlast b, True)"
  | (added) "ns_NodeID ns \<notin> ns_NodeID ` set b" "length b < bucketSize"
      "bucket_updateNode ping ns b = (ns # b, True)"
proof (cases "find_node (ns_NodeID ns) b")
  case (Some j)
  then have j: "j < length b" "ns_NodeID (b ! j) = ns_NodeID ns" by (auto dest: find_node_Some)
  show thesis
  proof (rule seen)
    show "bucket_updateNode ping ns b = (b ! j # take j b @ drop (Suc j) b, False)"
      by (simp add: bucket_updateNode_def Some)
    show "ns_NodeID ns \<in> ns_NodeID ` set b" using j by (metis image_eqI nth_mem)
  qed (use j mset_to_front in auto)
next
  case None
  then have n: "ns_NodeID ns \<notin> ns_NodeID ` set b" using find_node_None by metis
  show thesis
  proof (cases "length b < bucketSize")
    case True
    then show ?thesis using added n None by (simp add: bucket_updateNode_def)
  next
    case False
    then have l: "length b = bucketSize" using assms by simp
    then have b: "b \<noteq> []" by (auto simp: bucketSize_def)
    then have b2: "b ! (bucketSize - 1) = last b" "take (bucketSize - 1) b = butlast b"
      using l by (simp_all add: last_conv_nth butlast_conv_take)
    show ?thesis
    proof (cases "ping (last b)")
      case True
      have "mset (last b # butlast b) = mset b"
        using mset_append [of "butlast b" "[last b]"] b by simp
      then show ?thesis using kept [OF n l True, of "last b # butlast b"] l b2 None True
        by (simp add: bucket_updateNode_def Let_def)
    next
      case False
      then show ?thesis using evicted n l b2 None by (simp add: bucket_updateNode_def Let_def)
    qed
  qed
qed

lemma bucket_inv_mset:
  assumes "mset b' = mset b"
  shows "bucket_inv my i b' \<longleftrightarrow> bucket_inv my i b"
proof -
  have "length b' = length b" using assms by (rule mset_eq_length)
  moreover have "set b' = set b" using assms by (rule mset_eq_setD)
  moreover have "mset (map ns_NodeID b') = mset (map ns_NodeID b)" using assms by simp
  then have "distinct (map ns_NodeID b') \<longleftrightarrow> distinct (map ns_NodeID b)"
    by (rule mset_eq_imp_distinct_iff)
  ultimately show ?thesis by (simp add: bucket_inv_def list_all_iff)
qed

lemma bucket_inv_updateNode:
  assumes "bucket_inv my i b" "wf_id (ns_NodeID ns)" "CommonLeadingBits my (ns_NodeID ns) = i"
  shows "bucket_inv my i (fst (bucket_updateNode ping ns b))"
proof -
  have "length b \<le> bucketSize" using assms(1) by (simp add: bucket_inv_def)
  then show ?thesis
  proof (cases rule: bucket_updateNode_cases [where ns = ns and ping = ping])
    case evicted
    have "distinct (map ns_NodeID (butlast b))"
      using assms(1) by (metis bucket_inv_def distinct_butlast map_butlast)
    then show ?thesis using evicted assms
      by (auto simp: bucket_inv_def bucketSize_def list_all_iff dest: in_set_butlastD)
  next
    case (seen b')
    then show ?thesis using assms(1) bucket_inv_mset [of b' b] by simp
  next
    case (kept b')
    then show ?thesis using assms(1) bucket_inv_mset [of b' b] by simp
  next
    case added
    then show ?thesis using assms by (simp add: bucket_inv_def)
  qed
qed

lemma bt_inv_new: "wf_id my \<Longrightarrow> bt_inv (newBucketTable my)"
  by (simp add: bt_inv_def newBucketTable_def newBucket_def bucket_inv_def list_all_iff)

lemma bt_inv_updateNode:
  assumes "bt_inv bt" "wf_id (ns_NodeID ns)"
  shows "bt_inv (fst (bt_updateNode ping ns bt))"
proof (cases "CommonLeadingBits (bt_MyNodeID bt) (ns_NodeID ns) < IDByteSize * 8")
  case True
  let ?c = "CommonLeadingBits (bt_MyNodeID bt) (ns_NodeID ns)"
  have "bucket_inv (bt_MyNodeID bt) ?c (fst (bucket_updateNode ping ns (bt_Buckets bt ! ?c)))"
    using assms True by (intro bucket_inv_updateNode) (auto simp: bt_inv_def list_all_iff)
  then show ?thesis using assms(1) True
    by (auto simp: bt_updateNode_def Let_def bt_inv_def list_all_iff nth_list_update split: prod.splits)
qed (use assms in \<open>simp add: bt_updateNode_def\<close>)

section \<open>Distances\<close>

lemma bt_inv_bucket:
  assumes "bt_inv bt" "i < IDByteSize * 8" "n \<in> set (bt_Buckets bt ! i)"
  shows "wf_id (ns_NodeID n)" "CommonLeadingBits (bt_MyNodeID bt) (ns_NodeID n) = i"
  using assms by (auto simp: bt_inv_def bucket_inv_def list_all_iff)

lemma bucket_distance:
  assumes "bt_inv bt" "i < IDByteSize * 8" "n \<in> set (bt_Buckets bt ! i)"
  shows "2 ^ (511 - i) \<le> distance (bt_MyNodeID bt) (ns_NodeID n)
    \<and> distance (bt_MyNodeID bt) (ns_NodeID n) < 2 ^ (512 - i)"
proof -
  let ?my = "bt_MyNodeID bt" and ?n = "ns_NodeID n"
  have l: "length ?my = 64" "length ?n = 64"
    using assms bt_inv_bucket(1) [OF assms] by (simp_all add: bt_inv_def wf_id_def)
  have c: "CommonLeadingBits ?my ?n = i" using assms by (rule bt_inv_bucket)
  have "common_prefix (id_bits ?my) (id_bits ?n) < length (id_bits ?my)"
    using c l assms(2) by (simp add: CommonLeadingBits_prefix)
  then have "?my \<noteq> ?n" using common_prefix_full [of "id_bits ?my" "id_bits ?n"] l by auto
  then show ?thesis using CommonLeadingBits_distance [of ?my ?n] l c by simp
qed

section \<open>The nodes of a lookup's first round\<close>

definition bt_nodes :: "bucketTable \<Rightarrow> NodeState list" where
  "bt_nodes bt = concat (bt_Buckets bt)"

lemma alphaClosest_fold: "alphaClosest target alpha bt = fold (closest_step target alpha) (bt_nodes bt) []"
proof -
  have "fold (\<lambda>b. fold f b) bs r = fold f (concat bs) r" for f :: "NodeState \<Rightarrow> NodeState list \<Rightarrow> _" and bs r
    by (induction bs arbitrary: r) simp_all
  then show ?thesis by (simp add: alphaClosest_def bt_nodes_def)
qed

lemma closest_step_length:
  "length r \<le> alpha \<Longrightarrow> length (closest_step t alpha n r) = min alpha (Suc (length r))"
  by (auto simp: closest_step_def Let_def)

lemma closest_fold_length:
  "length r \<le> alpha \<Longrightarrow>
     length (fold (closest_step t alpha) ns r) = min alpha (length r + length ns)"
proof (induction ns arbitrary: r)
  case (Cons n ns)
  have "length (closest_step t alpha n r) \<le> alpha" using Cons.prems by (simp add: closest_step_length)
  then show ?case using Cons.IH [of "closest_step t alpha n r"] Cons.prems
    by (simp add: closest_step_length)
qed simp

lemma closest_step_mset: "mset (closest_step t alpha n r) \<subseteq># add_mset n (mset r)"
proof -
  have "mset (take alpha xs) \<subseteq># mset xs" for xs :: "NodeState list"
    by (metis append_take_drop_id mset_append mset_subset_eq_add_left)
  from this [of "InsertOrdered t r n"] show ?thesis by (simp add: closest_step_def Let_def)
qed

lemma closest_fold_mset: "mset (fold (closest_step t alpha) ns r) \<subseteq># mset ns + mset r"
proof (induction ns arbitrary: r)
  case (Cons n ns)
  have "mset (fold (closest_step t alpha) (n # ns) r) \<subseteq># mset ns + mset (closest_step t alpha n r)"
    using Cons by simp
  also have "\<dots> \<subseteq># mset ns + add_mset n (mset r)" using closest_step_mset by simp
  finally show ?case by simp
qed simp

lemma alphaClosest_length: "length (alphaClosest t alpha bt) = min alpha (length (bt_nodes bt))"
  by (simp add: alphaClosest_fold closest_fold_length)

lemma alphaClosest_mset: "mset (alphaClosest t alpha bt) \<subseteq># mset (bt_nodes bt)"
  using closest_fold_mset [of t alpha "bt_nodes bt" "[]"] by (simp add: alphaClosest_fold)

lemma alphaClosest_set: "set (alphaClosest t alpha bt) \<subseteq> set (bt_nodes bt)"
  using set_mset_mono [OF alphaClosest_mset [of t alpha bt]] by simp

section \<open>Properties\<close>

definition example_node :: NodeState where
  "example_node = \<lparr>ns_NodeID = replicate 64 1, ns_Address = ''127.0.0.1:5000''\<rparr>"

text \<open>C31: every bucket holds at most 20 nodes, with distinct identifiers, each of which shares
  exactly as many leading bits with the own identifier as the index of its bucket: this holds of the empty
  table, \<open>updateNode\<close> keeps it, whatever the ping answers, and so it holds after any updates.\<close>

theorem bucket_table_invariant:
  assumes "wf_id my" "\<forall>(ping, ns) \<in> set updates. wf_id (ns_NodeID ns)"
  shows "bt_inv (newBucketTable my)
    \<and> (\<forall>bt ping ns. bt_inv bt \<and> wf_id (ns_NodeID ns) \<longrightarrow> bt_inv (fst (bt_updateNode ping ns bt)))
    \<and> bt_inv (fold (\<lambda>(ping, ns) bt. fst (bt_updateNode ping ns bt)) updates (newBucketTable my))"
proof -
  have "bt_inv (fold (\<lambda>(ping, ns) bt. fst (bt_updateNode ping ns bt)) updates bt)" if "bt_inv bt" for bt
    using that assms(2) by (induction updates arbitrary: bt) (auto simp: bt_inv_updateNode)
  then show ?thesis using bt_inv_new [OF assms(1)] by (simp add: bt_inv_updateNode)
qed

theorem bucket_table_invariant_witness:
  "bt_inv (fst (bt_updateNode (\<lambda>_. True) example_node (newBucketTable (replicate 64 0))))"
  using bucket_table_invariant [of "replicate 64 0" "[(\<lambda>_. True, example_node)]"]
  by (simp add: example_node_def)

text \<open>C25: \<open>updateNode\<close> drops a node from a bucket only if the bucket is full, the node is the
  least recently seen one and it does not answer a ping.\<close>

theorem only_dead_nodes_leave:
  assumes "bucket_inv my i b" "n \<in> set b" "n \<notin> set (fst (bucket_updateNode ping ns b))"
  shows "length b = bucketSize \<and> n = last b \<and> \<not> ping n"
proof -
  have "length b \<le> bucketSize" using assms(1) by (simp add: bucket_inv_def)
  then show ?thesis
  proof (cases rule: bucket_updateNode_cases [where ns = ns and ping = ping])
    case evicted
    then have "n \<notin> set (butlast b)" using assms(3) by simp
    then have "n = last b" using assms(2) by (metis append_butlast_last_id empty_iff empty_set in_set_butlast_appendI
          insert_iff list.simps(15) rotate1.simps(2) set_rotate1)
    then show ?thesis using evicted by simp
  next
    case (seen b')
    then show ?thesis using assms(2,3) by (metis fst_conv mset_eq_setD)
  next
    case (kept b')
    then show ?thesis using assms(2,3) by (metis fst_conv mset_eq_setD)
  next
    case added
    then show ?thesis using assms(2,3) by simp
  qed
qed

definition example_bucket :: bucket where
  "example_bucket = map (\<lambda>i. \<lparr>ns_NodeID = of_nat i # replicate 63 0, ns_Address = ''x''\<rparr>) [128..<148]"

lemma example_bucket_inv: "bucket_inv (replicate 64 0) 0 example_bucket"
  by code_simp

theorem only_dead_nodes_leave_witness:
  "length example_bucket = bucketSize"
proof -
  have "last example_bucket \<in> set example_bucket" by code_simp
  moreover have "last example_bucket \<notin> set (fst (bucket_updateNode (\<lambda>_. False)
      \<lparr>ns_NodeID = replicate 64 255, ns_Address = ''y''\<rparr> example_bucket))" by code_simp
  ultimately show ?thesis using only_dead_nodes_leave [OF example_bucket_inv] by blast
qed

text \<open>A node in bucket i is at a distance of at least 2 to the (511 - i) and less than 2 to
  the (512 - i) from the own identifier: buckets are ordered by distance.\<close>

theorem bucket_distance_bounds:
  assumes "bt_inv bt" "i < IDByteSize * 8" "n \<in> set (bt_Buckets bt ! i)"
  shows "2 ^ (511 - i) \<le> distance (bt_MyNodeID bt) (ns_NodeID n)
    \<and> distance (bt_MyNodeID bt) (ns_NodeID n) < 2 ^ (512 - i)"
  using assms by (rule bucket_distance)

theorem bucket_distance_bounds_witness:
  "distance (replicate 64 0) (ns_NodeID example_node) < 2 ^ (512 - 7)"
proof -
  let ?bt = "fst (bt_updateNode (\<lambda>_. True) example_node (newBucketTable (replicate 64 0)))"
  have c: "CommonLeadingBits (replicate 64 0) (replicate 64 1) = 7" by code_simp
  have "bt_inv ?bt" by (intro bt_inv_updateNode bt_inv_new) (simp_all add: example_node_def)
  moreover have "example_node \<in> set (bt_Buckets ?bt ! 7)"
    using c by (simp add: bt_updateNode_def newBucketTable_def newBucket_def bucket_updateNode_def
        bucketSize_def example_node_def Let_def)
  moreover have "bt_MyNodeID ?bt = replicate 64 0"
    by (simp add: bt_updateNode_def newBucketTable_def Let_def split: prod.splits)
  ultimately show ?thesis using bucket_distance_bounds [of ?bt 7 example_node] by simp
qed

text \<open>C37: \<open>alphaClosest\<close> returns as many nodes as it is asked for, or all there are, and every
  one of them is a node of the table.\<close>

theorem alphaClosest_nodes:
  "length (alphaClosest t alpha bt) = min alpha (length (bt_nodes bt))
   \<and> mset (alphaClosest t alpha bt) \<subseteq># mset (bt_nodes bt)"
  by (simp add: alphaClosest_length alphaClosest_mset)


text \<open>A table that knows one node.\<close>

definition example_table :: bucketTable where
  "example_table = fst (bt_updateNode (\<lambda>_. True) example_node (newBucketTable (replicate 64 0)))"

lemma example_table_inv: "bt_inv example_table"
  unfolding example_table_def by (intro bt_inv_updateNode bt_inv_new) (simp_all add: example_node_def)

lemma concat_replicate_update: "i < n \<Longrightarrow> concat ((replicate n [])[i := xs]) = xs"
proof (induction n arbitrary: i)
  case (Suc n)
  then show ?case by (cases i) simp_all
qed simp

lemma example_table_nodes: "bt_nodes example_table = [example_node]"
proof -
  have c: "CommonLeadingBits (replicate 64 0) (replicate 64 1) = 7" by code_simp
  have e: "example_table = (newBucketTable (replicate 64 0))\<lparr>bt_Buckets := (replicate 512 [])[7 := [example_node]]\<rparr>"
    by (simp add: example_table_def bt_updateNode_def newBucketTable_def newBucket_def example_node_def c
        bucket_updateNode_def bucketSize_def IDByteSize_def del: replicate.simps)
  show ?thesis unfolding bt_nodes_def e by (simp add: concat_replicate_update del: replicate.simps)
qed

lemma example_alphaClosest: "alphaClosest t 3 example_table = [example_node]"
proof -
  have "length (alphaClosest t 3 example_table) = 1" by (simp add: alphaClosest_length example_table_nodes)
  then show ?thesis using alphaClosest_set [of t 3 example_table]
    by (cases "alphaClosest t 3 example_table") (auto simp: example_table_nodes)
qed

end
