(* ===== verification/NodeLookup.thy ===== *)
theory NodeLookup
  imports KBuckets
begin

text \<open>
  The iterative node lookup of \<open>src/gossiper/dhtAPI.go\<close>.  \<open>lookupRound\<close> and
  \<open>lookupFinalPhase\<close> call each other in tail position, ask a few candidates each and then wait
  in a \<open>select\<close> for answers or the ticker, so a lookup is a state machine: \<open>startRound\<close> and
  \<open>startFinal\<close> are the code up to the \<open>select\<close>, \<open>receive\<close> and \<open>timeout\<close> its two branches, and
  \<open>SetResponded\<close> is done by the goroutines \<open>lookupSingle\<close> before they hand over an answer.

  The ticker of \<open>lookupRound\<close> is stopped right after it is made, hence the timeout branch is
  taken in the final phase only.  What peers answer, and when, is open: the step relation
  \<open>lookup_step\<close> allows every order, and any nodes of the network \<open>net\<close> as an answer.
\<close>

datatype lookup_phase = InRound | InFinal | Returned "NodeState list"

record lookup =
  lk_snsa :: SafeNodeStateArray
  lk_phase :: lookup_phase
  lk_asked :: "NodeState list"
  lk_waiting :: "NodeState list"
  lk_answered :: nat
  lk_closer :: bool

definition ask :: "lookup_phase \<Rightarrow> NodeState list \<Rightarrow> SafeNodeStateArray \<Rightarrow> lookup" where
  "ask phase nodes snsa =
     \<lparr>lk_snsa = fold SetQueried nodes snsa, lk_phase = phase, lk_asked = nodes,
      lk_waiting = nodes, lk_answered = 0, lk_closer = False\<rparr>"

definition startRound :: "SafeNodeStateArray \<Rightarrow> lookup" where
  "startRound snsa =
     (let closestNodes = GetAlphaUnqueried 3 snsa
      in ask (if closestNodes = [] then Returned [] else InRound) closestNodes snsa)"

definition startFinal :: "SafeNodeStateArray \<Rightarrow> lookup" where
  "startFinal snsa =
     (let (unqueried, closest) = GetKClosestUnqueried (int bucketSize) snsa
      in ask (if unqueried = [] then Returned closest else InFinal) unqueried snsa)"

definition next_phase :: "lookup \<Rightarrow> lookup" where
  "next_phase lk = (if lk_closer lk then startRound (lk_snsa lk) else startFinal (lk_snsa lk))"

definition receive :: "TypeID \<Rightarrow> NodeState \<Rightarrow> NodeState list \<Rightarrow> lookup \<Rightarrow> lookup" where
  "receive dhtMyID ns nodes lk =
     (let (snsa, closer) = InsertArray nodes dhtMyID (lk_snsa lk);
          lk = lk\<lparr>lk_snsa := snsa, lk_closer := closer, lk_answered := lk_answered lk + 1,
                  lk_waiting := remove1 ns (lk_waiting lk)\<rparr>
      in if lk_answered lk = length (lk_asked lk) then next_phase lk else lk)"

definition timeout :: "lookup \<Rightarrow> lookup" where
  "timeout lk = next_phase lk"

definition lookupSingle_responded :: "NodeState \<Rightarrow> lookup \<Rightarrow> lookup" where
  "lookupSingle_responded ns lk = lk\<lparr>lk_snsa := SetResponded ns (lk_snsa lk)\<rparr>"

fun is_returned :: "lookup_phase \<Rightarrow> bool" where
  "is_returned (Returned _) = True"
| "is_returned _ = False"

inductive lookup_step :: "TypeID \<Rightarrow> NodeState set \<Rightarrow> lookup \<Rightarrow> lookup \<Rightarrow> bool"
  for dhtMyID net where
  responds: "\<not> is_returned (lk_phase lk) \<Longrightarrow> ns \<in> set (sna_array (lk_snsa lk)) \<Longrightarrow>
      wasQueried (lk_snsa lk) ns \<Longrightarrow> \<not> hasResponded (lk_snsa lk) ns \<Longrightarrow>
      lookup_step dhtMyID net lk (lookupSingle_responded ns lk)"
| receives: "\<not> is_returned (lk_phase lk) \<Longrightarrow> ns \<in> set (lk_waiting lk) \<Longrightarrow>
      hasResponded (lk_snsa lk) ns \<Longrightarrow> set nodes \<subseteq> net \<Longrightarrow>
      lookup_step dhtMyID net lk (receive dhtMyID ns nodes lk)"
| times_out: "lk_phase lk = InFinal \<Longrightarrow> lookup_step dhtMyID net lk (timeout lk)"

definition lookup_init :: "TypeID \<Rightarrow> TypeID \<Rightarrow> bucketTable \<Rightarrow> lookup" where
  "lookup_init dhtMyID target bt =
     startRound (fst (InsertArray (alphaClosest target 3 bt) dhtMyID (NewSafeNodeStateArray target)))"

definition LookupNodes_result :: "TypeID \<Rightarrow> NodeState \<Rightarrow> NodeState list \<Rightarrow> NodeState list" where
  "LookupNodes_result target myNode closest =
     (let closest = InsertOrdered target closest myNode
      in if length closest > bucketSize then take bucketSize closest else closest)"

inductive lookup_reachable :: "TypeID \<Rightarrow> NodeState set \<Rightarrow> lookup \<Rightarrow> lookup \<Rightarrow> bool"
  for dhtMyID net init where
  start: "lookup_reachable dhtMyID net init init"
| step: "lookup_reachable dhtMyID net init lk \<Longrightarrow> lookup_step dhtMyID net lk lk' \<Longrightarrow>
      lookup_reachable dhtMyID net init lk'"

inductive_cases lookup_stepE: "lookup_step dhtMyID net lk lk'"

section \<open>Invariant\<close>

definition candidates :: "SafeNodeStateArray \<Rightarrow> NodeState list" where
  "candidates snsa = filter (\<lambda>n. hasResponded snsa n \<or> \<not> wasQueried snsa n) (sna_array snsa)"

text \<open>What a returned list promises: the 20 closest candidates, all of which have responded.\<close>

definition returned_ok :: "SafeNodeStateArray \<Rightarrow> NodeState list \<Rightarrow> bool" where
  "returned_ok snsa r \<longleftrightarrow> r = take bucketSize (candidates snsa) \<and> list_all (hasResponded snsa) r"

definition snsa_ok :: "NodeState set \<Rightarrow> SafeNodeStateArray \<Rightarrow> bool" where
  "snsa_ok net snsa \<longleftrightarrow> sna_inv snsa \<and> set (sna_array snsa) \<subseteq> net
     \<and> sna_Responded snsa \<subseteq> sna_Queried snsa \<and> sna_Queried snsa \<subseteq> sna_exists snsa"

definition lk_inv :: "NodeState set \<Rightarrow> lookup \<Rightarrow> bool" where
  "lk_inv net lk \<longleftrightarrow> snsa_ok net (lk_snsa lk)
     \<and> lk_answered lk + length (lk_waiting lk) = length (lk_asked lk)
     \<and> set (lk_waiting lk) \<subseteq> set (sna_array (lk_snsa lk))
     \<and> (lk_closer lk \<longrightarrow> (\<exists>n \<in> set (sna_array (lk_snsa lk)). \<not> wasQueried (lk_snsa lk) n))
     \<and> (case lk_phase lk of Returned r \<Rightarrow> returned_ok (lk_snsa lk) r | _ \<Rightarrow> lk_asked lk \<noteq> [])"

lemma SetQueried_simps [simp]:
  "sna_array (SetQueried n s) = sna_array s" "sna_Target (SetQueried n s) = sna_Target s"
  "sna_exists (SetQueried n s) = sna_exists s" "sna_Responded (SetQueried n s) = sna_Responded s"
  "sna_Queried (SetQueried n s) = insert (ns_NodeID n) (sna_Queried s)"
  by (simp_all add: SetQueried_def)

lemma fold_SetQueried [simp]:
  "sna_array (fold SetQueried ns s) = sna_array s" "sna_Target (fold SetQueried ns s) = sna_Target s"
  "sna_exists (fold SetQueried ns s) = sna_exists s"
  "sna_Responded (fold SetQueried ns s) = sna_Responded s"
  "sna_Queried (fold SetQueried ns s) = ns_NodeID ` set ns \<union> sna_Queried s"
  by (induction ns arbitrary: s) auto

lemma snsa_ok_ask:
  "snsa_ok net s \<Longrightarrow> set ns \<subseteq> set (sna_array s) \<Longrightarrow> snsa_ok net (fold SetQueried ns s)"
  by (auto simp: snsa_ok_def sna_inv_def)

lemma GetAlphaUnqueried_3:
  "GetAlphaUnqueried 3 s = take 3 (filter (\<lambda>n. \<not> wasQueried s n) (sna_array s))"
  by (simp add: GetAlphaUnqueried_def unqueried_loop_take)

lemma GetKClosestUnqueried_bucket:
  "GetKClosestUnqueried (int bucketSize) s =
     (filter (\<lambda>n. \<not> hasResponded s n) (take bucketSize (candidates s)),
      filter (hasResponded s) (take bucketSize (candidates s)))"
  by (simp add: GetKClosestUnqueried_def k_closest_loop_take bucketSize_def candidates_def Let_def)

lemma startRound_inv:
  assumes "snsa_ok net s"
    and "sna_array s = [] \<or> (\<exists>n \<in> set (sna_array s). \<not> wasQueried s n)"
  shows "lk_inv net (startRound s)"
proof -
  let ?a = "GetAlphaUnqueried 3 s"
  have sub: "set ?a \<subseteq> set (sna_array s)"
    by (auto simp: GetAlphaUnqueried_3 dest: in_set_takeD)
  have "sna_array s = []" if "?a = []"
    using that assms(2) by (auto simp: GetAlphaUnqueried_3 filter_empty_conv)
  then have "?a = [] \<Longrightarrow> returned_ok (fold SetQueried ?a s) []"
    by (simp add: returned_ok_def candidates_def)
  then show ?thesis using snsa_ok_ask [OF assms(1) sub] sub
    by (auto simp: startRound_def Let_def ask_def lk_inv_def)
qed

lemma startFinal_inv:
  assumes "snsa_ok net s"
  shows "lk_inv net (startFinal s)"
proof -
  let ?c = "take bucketSize (candidates s)"
  let ?u = "filter (\<lambda>n. \<not> hasResponded s n) ?c"
  have sub: "set ?u \<subseteq> set (sna_array s)" by (auto simp: candidates_def dest: in_set_takeD)
  have "returned_ok s (filter (hasResponded s) ?c)" if "?u = []"
    using that by (simp add: returned_ok_def filter_empty_conv list_all_iff filter_id_conv)
  then show ?thesis using snsa_ok_ask [OF assms sub] sub
    by (auto simp: startFinal_def GetKClosestUnqueried_bucket Let_def ask_def lk_inv_def)
qed

lemma next_phase_inv: "lk_inv net lk \<Longrightarrow> lk_inv net (next_phase lk)"
  by (auto simp: next_phase_def lk_inv_def [of net lk] intro!: startRound_inv startFinal_inv)

lemma InsertArray_ok:
  assumes "snsa_ok net s" "set nodes \<subseteq> net" "wf_nodes nodes"
  shows "snsa_ok net (fst (InsertArray nodes ex s))"
proof -
  let ?s' = "fst (InsertArray nodes ex s)"
  have inv: "sna_inv ?s'" using assms insert_loop_inv [of "(s, False)" nodes ex]
    by (simp add: InsertArray_def snsa_ok_def)
  have sub: "set (sna_array s) \<subseteq> set (sna_array ?s')" "set (sna_array ?s') \<subseteq> set (sna_array s) \<union> set nodes"
    using insert_loop_set [of "(s, False)" ex nodes] by (auto simp: InsertArray_def)
  have "sna_exists s \<subseteq> sna_exists ?s'" using inv assms(1) sub by (auto simp: snsa_ok_def sna_inv_def)
  then show ?thesis using assms inv sub
    by (auto simp: snsa_ok_def InsertArray_def insert_loop_keeps)
qed

lemma InsertArray_closer:
  assumes "snsa_ok net s" "snd (InsertArray nodes ex s)"
  shows "\<exists>n \<in> set (sna_array (fst (InsertArray nodes ex s))). \<not> wasQueried (fst (InsertArray nodes ex s)) n"
proof -
  obtain n where n: "ns_NodeID n \<notin> sna_exists s" "n \<in> set (sna_array (fst (InsertArray nodes ex s)))"
    using insert_loop_closer_new [of ex nodes "(s, False)"] assms(2) by (auto simp: InsertArray_def)
  then show ?thesis using assms(1)
    by (intro bexI [of _ n]) (auto simp: snsa_ok_def wasQueried_def InsertArray_def insert_loop_keeps)
qed

lemma InsertArray_array: "set (sna_array s) \<subseteq> set (sna_array (fst (InsertArray nodes ex s)))"
  using insert_loop_set [of "(s, False)" ex nodes] by (auto simp: InsertArray_def)

definition received :: "TypeID \<Rightarrow> NodeState \<Rightarrow> NodeState list \<Rightarrow> lookup \<Rightarrow> lookup" where
  "received my ns nodes lk = lk\<lparr>lk_snsa := fst (InsertArray nodes my (lk_snsa lk)),
     lk_closer := snd (InsertArray nodes my (lk_snsa lk)), lk_answered := lk_answered lk + 1,
     lk_waiting := remove1 ns (lk_waiting lk)\<rparr>"

lemma receive_received:
  "receive my ns nodes lk =
     (let lk = received my ns nodes lk
      in if lk_answered lk = length (lk_asked lk) then next_phase lk else lk)"
  by (simp add: receive_def received_def Let_def split: prod.splits)

lemma received_inv:
  assumes "lk_inv net lk" "\<not> is_returned (lk_phase lk)" "ns \<in> set (lk_waiting lk)"
    "set nodes \<subseteq> net" "wf_nodes nodes"
  shows "lk_inv net (received my ns nodes lk)"
proof -
  have "lk_answered lk + length (lk_waiting lk) = length (lk_asked lk)"
    using assms(1) by (simp add: lk_inv_def)
  then have "Suc (lk_answered lk + length (remove1 ns (lk_waiting lk))) = length (lk_asked lk)"
    using Suc_length_remove1 [OF assms(3)] by simp
  moreover have "set (remove1 ns (lk_waiting lk)) \<subseteq> set (lk_waiting lk)" by (rule set_remove1_subset)
  moreover have "lk_asked lk \<noteq> []" using assms(1,2) by (auto simp: lk_inv_def split: lookup_phase.splits)
  ultimately show ?thesis
    using assms InsertArray_ok [of net "lk_snsa lk" nodes my] InsertArray_closer [of net "lk_snsa lk" nodes my]
      InsertArray_array [of "lk_snsa lk" nodes my]
    by (auto simp: lk_inv_def received_def split: lookup_phase.splits)
qed

lemma receive_inv:
  assumes "lk_inv net lk" "\<not> is_returned (lk_phase lk)" "ns \<in> set (lk_waiting lk)"
    "set nodes \<subseteq> net" "wf_nodes nodes"
  shows "lk_inv net (receive my ns nodes lk)"
  using received_inv [OF assms] by (simp add: receive_received Let_def next_phase_inv)

lemma responded_inv:
  assumes "lk_inv net lk" "\<not> is_returned (lk_phase lk)" "wasQueried (lk_snsa lk) ns"
  shows "lk_inv net (lookupSingle_responded ns lk)"
  using assms
  by (auto simp: lk_inv_def lookupSingle_responded_def SetResponded_def snsa_ok_def sna_inv_def
      wasQueried_def split: lookup_phase.splits)

lemma lookup_step_inv:
  assumes "lookup_step my net lk lk'" "lk_inv net lk" "\<forall>n \<in> net. wf_id (ns_NodeID n)"
  shows "lk_inv net lk'"
  using assms(1)
proof cases
  case (receives ns nodes)
  moreover have "wf_nodes nodes" using receives assms(3) by (auto simp: wf_nodes_def list_all_iff)
  ultimately show ?thesis using assms(2) receive_inv by metis
qed (use assms(2) in \<open>auto simp: responded_inv timeout_def next_phase_inv\<close>)

lemma lookup_reachable_inv:
  assumes "lookup_reachable my net init lk" "lk_inv net init" "\<forall>n \<in> net. wf_id (ns_NodeID n)"
  shows "lk_inv net lk"
  using assms by (induction rule: lookup_reachable.induct) (auto intro: lookup_step_inv)

lemma lookup_init_inv:
  assumes "wf_id target" "bt_inv bt" "set (bt_nodes bt) \<subseteq> net" "\<forall>n \<in> net. wf_id (ns_NodeID n)"
  shows "lk_inv net (lookup_init my target bt)"
proof -
  let ?s = "NewSafeNodeStateArray target" and ?a = "alphaClosest target 3 bt"
  have sub: "set ?a \<subseteq> net" using alphaClosest_set assms(3) by blast
  have "wf_nodes ?a" using sub assms(4) by (auto simp: wf_nodes_def list_all_iff)
  moreover have "snsa_ok net ?s"
    using sna_inv_New [OF assms(1)] by (simp add: snsa_ok_def NewSafeNodeStateArray_def)
  ultimately have "snsa_ok net (fst (InsertArray ?a my ?s))" using sub by (intro InsertArray_ok)
  moreover have "\<not> wasQueried (fst (InsertArray ?a my ?s)) n" for n
    by (simp add: wasQueried_def InsertArray_def insert_loop_keeps NewSafeNodeStateArray_def)
  ultimately show ?thesis unfolding lookup_init_def
    by (intro startRound_inv) (auto simp: neq_Nil_conv)
qed

section \<open>What a lookup returns\<close>

lemma sorted_take_filter:
  assumes "sorted (map f xs)" "x \<in> set xs" "P x" "x \<notin> set (take k (filter P xs))" "y \<in> set (take k (filter P xs))"
  shows "f y \<le> f x \<and> length (take k (filter P xs)) = k"
proof -
  let ?l = "filter P xs"
  have s: "sorted (map f ?l)" using assms(1) by (metis sorted_filter)
  have "x \<in> set ?l" using assms(2,3) by simp
  then have x: "x \<in> set (drop k ?l)" using assms(4) by (metis UnE append_take_drop_id set_append)
  then have "k < length ?l" by (metis drop_all empty_iff empty_set not_less)
  moreover have "f y \<le> f x"
    using s x assms(5) by (subst (asm) append_take_drop_id [of k ?l, symmetric])
      (simp only: map_append sorted_append, auto)
  ultimately show ?thesis by simp
qed

lemma returned_closest:
  assumes "snsa_ok net s" "returned_ok s r"
  shows "closest_first (sna_Target s) r" "length r \<le> bucketSize" "distinct (map ns_NodeID r)"
    "set r \<subseteq> set (sna_array s)" "list_all (hasResponded s) r"
    "\<lbrakk>n \<in> set (sna_array s); hasResponded s n \<or> \<not> wasQueried s n; n \<notin> set r\<rbrakk> \<Longrightarrow>
       length r = bucketSize
       \<and> (\<forall>m \<in> set r. distance (sna_Target s) (ns_NodeID m) \<le> distance (sna_Target s) (ns_NodeID n))"
proof -
  let ?d = "\<lambda>n. distance (sna_Target s) (ns_NodeID n)"
  have r: "r = take bucketSize (candidates s)" and "list_all (hasResponded s) r"
    using assms(2) unfolding returned_ok_def by blast+
  have so: "sorted (map ?d (sna_array s))" "distinct (map ns_NodeID (sna_array s))"
    using assms(1) by (simp_all add: snsa_ok_def sna_inv_def closest_first_def)
  show "closest_first (sna_Target s) r" using sorted_filter [OF so(1)]
    by (simp add: r closest_first_def candidates_def sorted_wrt_take flip: take_map)
  show "distinct (map ns_NodeID r)" using so(2)
    by (simp add: r candidates_def distinct_map_filter flip: take_map)
  show "length r \<le> bucketSize" by (simp add: r)
  show "set r \<subseteq> set (sna_array s)" by (auto simp: r candidates_def dest: in_set_takeD)
  show "list_all (hasResponded s) r" by fact
  assume n: "n \<in> set (sna_array s)" "hasResponded s n \<or> \<not> wasQueried s n" "n \<notin> set r"
  have "r \<noteq> []" using n by (auto simp: r candidates_def bucketSize_def filter_empty_conv)
  then have "\<exists>m. m \<in> set r" by (cases r) auto
  then show "length r = bucketSize \<and> (\<forall>m \<in> set r. ?d m \<le> ?d n)"
    using n sorted_take_filter [OF so(1), of n "\<lambda>n. hasResponded s n \<or> \<not> wasQueried s n" bucketSize]
    by (auto simp: r candidates_def)
qed

text \<open>No step changes the target.\<close>

lemma next_phase_Target: "sna_Target (lk_snsa (next_phase lk)) = sna_Target (lk_snsa lk)"
  by (simp add: next_phase_def startRound_def startFinal_def ask_def Let_def split: prod.split)

lemma lookup_step_Target: "lookup_step my net lk lk' \<Longrightarrow> sna_Target (lk_snsa lk') = sna_Target (lk_snsa lk)"
  by (induction rule: lookup_step.induct)
    (simp_all add: lookupSingle_responded_def SetResponded_def timeout_def next_phase_Target receive_received received_def
      InsertArray_def insert_loop_keeps Let_def)

lemma lookup_reachable_Target: "lookup_reachable my net init lk \<Longrightarrow> sna_Target (lk_snsa lk) = sna_Target (lk_snsa init)"
  by (induction rule: lookup_reachable.induct) (simp_all add: lookup_step_Target)

lemma lookup_init_Target: "sna_Target (lk_snsa (lookup_init my target bt)) = target"
  by (simp add: lookup_init_def startRound_def ask_def InsertArray_def insert_loop_keeps NewSafeNodeStateArray_def Let_def)

section \<open>Every lookup ends\<close>

definition lookup_measures :: "NodeState set \<Rightarrow> (lookup \<Rightarrow> nat) list" where
  "lookup_measures net =
     [\<lambda>lk. if is_returned (lk_phase lk) then 0 else 1,
      \<lambda>lk. card (ns_NodeID ` net - sna_Queried (lk_snsa lk)),
      \<lambda>lk. length (lk_waiting lk),
      \<lambda>lk. card (ns_NodeID ` net - sna_Responded (lk_snsa lk))]"

definition progressed :: "SafeNodeStateArray \<Rightarrow> lookup \<Rightarrow> bool" where
  "progressed s lk \<longleftrightarrow> is_returned (lk_phase lk) \<or>
     sna_Queried s \<subseteq> sna_Queried (lk_snsa lk)
     \<and> (\<exists>n \<in> set (sna_array s). ns_NodeID n \<in> sna_Queried (lk_snsa lk) - sna_Queried s)"

lemma progressed_ask:
  "\<forall>n \<in> set ns. n \<in> set (sna_array s) \<and> \<not> wasQueried s n \<Longrightarrow>
     progressed s (ask (if ns = [] then Returned r else phase) ns s)"
  by (cases ns) (auto simp: progressed_def ask_def wasQueried_def)

lemma next_phase_progressed: "progressed (lk_snsa lk) (next_phase lk)"
proof -
  have "progressed s (startRound s)" for s
    unfolding startRound_def Let_def
    by (rule progressed_ask) (auto simp: GetAlphaUnqueried_3 dest: in_set_takeD)
  moreover have "progressed s (startFinal s)" for s
    unfolding startFinal_def GetKClosestUnqueried_bucket prod.case Let_def
    by (rule progressed_ask) (auto simp: candidates_def dest!: in_set_takeD)
  ultimately show ?thesis by (simp add: next_phase_def)
qed

lemma next_phase_measure:
  assumes "lk_inv net lk" "finite net" "\<not> is_returned (lk_phase lk)"
    "card (ns_NodeID ` net - sna_Queried (lk_snsa lk)) \<le> card (ns_NodeID ` net - sna_Queried (lk_snsa lk0))"
    "\<not> is_returned (lk_phase lk0)"
  shows "(next_phase lk, lk0) \<in> measures (lookup_measures net)"
proof (cases "is_returned (lk_phase (next_phase lk))")
  case True
  then show ?thesis using assms(5) by (simp add: lookup_measures_def)
next
  case False
  let ?Q = "sna_Queried (lk_snsa lk)" and ?Q' = "sna_Queried (lk_snsa (next_phase lk))"
  obtain n where n: "n \<in> set (sna_array (lk_snsa lk))" "ns_NodeID n \<in> ?Q' - ?Q" "?Q \<subseteq> ?Q'"
    using next_phase_progressed [of lk] False by (auto simp: progressed_def)
  then have "ns_NodeID n \<in> ns_NodeID ` net" using assms(1) by (auto simp: lk_inv_def snsa_ok_def)
  then have "ns_NodeID ` net - ?Q' \<subset> ns_NodeID ` net - ?Q" using n by auto
  then have "card (ns_NodeID ` net - ?Q') < card (ns_NodeID ` net - ?Q)"
    using assms(2) by (intro psubset_card_mono) auto
  then show ?thesis using False assms(4,5) by (simp add: lookup_measures_def)
qed

lemma lookup_step_measure:
  assumes "lookup_step my net lk lk'" "lk_inv net lk" "\<forall>n \<in> net. wf_id (ns_NodeID n)" "finite net"
  shows "(lk', lk) \<in> measures (lookup_measures net)"
  using assms(1)
proof cases
  case (responds ns)
  let ?R = "sna_Responded (lk_snsa lk)"
  have "ns_NodeID ns \<in> ns_NodeID ` net" using assms(2) responds by (auto simp: lk_inv_def snsa_ok_def)
  then have "ns_NodeID ` net - insert (ns_NodeID ns) ?R \<subset> ns_NodeID ` net - ?R"
    using responds by (auto simp: hasResponded_def)
  then have "card (ns_NodeID ` net - insert (ns_NodeID ns) ?R) < card (ns_NodeID ` net - ?R)"
    using assms(4) by (intro psubset_card_mono) auto
  then show ?thesis using responds
    by (simp add: lookup_measures_def lookupSingle_responded_def SetResponded_def)
next
  case (receives ns nodes)
  let ?lk = "received my ns nodes lk"
  have "wf_nodes nodes" using receives assms(3) by (auto simp: wf_nodes_def list_all_iff)
  then have inv: "lk_inv net ?lk" using received_inv [OF assms(2)] receives by simp
  have r: "lk_phase ?lk = lk_phase lk" "sna_Queried (lk_snsa ?lk) = sna_Queried (lk_snsa lk)"
    by (simp_all add: received_def InsertArray_def insert_loop_keeps)
  have "length (lk_waiting ?lk) < length (lk_waiting lk)"
    using receives Suc_length_remove1 [of ns "lk_waiting lk"] by (simp add: received_def)
  then have "(?lk, lk) \<in> measures (lookup_measures net)" using r by (simp add: lookup_measures_def)
  moreover have "(next_phase ?lk, lk) \<in> measures (lookup_measures net)"
    using inv assms(4) receives r by (intro next_phase_measure) simp_all
  ultimately show ?thesis using receives by (simp add: receive_received Let_def)
next
  case times_out
  then show ?thesis using assms by (auto simp: timeout_def intro!: next_phase_measure)
qed

text \<open>
  The final phase can always go on: its ticker fires.  A round cannot: it leaves \<open>InRound\<close>
  only once every node it asked has answered.
\<close>

lemma final_phase_live: "lk_phase lk = InFinal \<Longrightarrow> \<exists>lk'. lookup_step my net lk lk'"
  by (blast intro: lookup_step.times_out)

lemma round_waits_for_all:
  assumes "lookup_step my net lk lk'" "lk_phase lk = InRound" "lk_inv net lk"
    "\<exists>n \<in> set (lk_waiting lk). \<not> hasResponded (lk_snsa lk) n"
  shows "lk_phase lk' = InRound"
  using assms(1)
proof cases
  case (receives ns nodes)
  then have "length (lk_waiting lk) > 1"
    using assms(4) by (cases "lk_waiting lk") auto
  then show ?thesis using receives assms(2,3)
    by (auto simp: receive_received Let_def received_def lk_inv_def)
qed (use assms(2) in \<open>auto simp: lookupSingle_responded_def\<close>)

section \<open>Properties\<close>

text \<open>C8: when a lookup of a target returns, it returns at most 20 of the nodes it knows of, ordered by
  distance to the target, pairwise distinct, all of which have responded; and if another node that it
  knows of has responded or was never asked, the list has 20 nodes, all of them at least as close to the target
  as that node.  This holds for every network and every order in which answers, timeouts and responses occur.\<close>

theorem lookup_returns_closest:
  assumes "wf_id target" "bt_inv bt" "set (bt_nodes bt) \<subseteq> net" "\<forall>n \<in> net. wf_id (ns_NodeID n)"
    and "lookup_reachable my net (lookup_init my target bt) lk" "lk_phase lk = Returned r"
  defines "s \<equiv> lk_snsa lk"
  shows "closest_first target r \<and> length r \<le> bucketSize \<and> distinct (map ns_NodeID r)
    \<and> set r \<subseteq> set (sna_array s) \<and> list_all (hasResponded s) r
    \<and> (\<forall>n \<in> set (sna_array s) - set r. hasResponded s n \<or> \<not> wasQueried s n \<longrightarrow>
         length r = bucketSize \<and> (\<forall>m \<in> set r. distance target (ns_NodeID m) \<le> distance target (ns_NodeID n)))"
proof -
  have "lk_inv net lk"
    using lookup_reachable_inv [OF assms(5) lookup_init_inv [OF assms(1-4)] assms(4)] .
  then have "snsa_ok net s" "returned_ok s r" using assms(6) by (simp_all add: lk_inv_def s_def)
  note c = returned_closest [OF this]
  have t: "sna_Target s = target" using lookup_reachable_Target [OF assms(5)] by (simp add: s_def lookup_init_Target)
  show ?thesis using c(1-5) c(6) unfolding t by blast
qed

lemma lookup_empty:
  "lookup_init my target (newBucketTable my) = ask (Returned []) [] (NewSafeNodeStateArray target)"
proof -
  have "bt_nodes (newBucketTable my) = []" by (simp add: bt_nodes_def newBucketTable_def newBucket_def)
  then have "alphaClosest target 3 (newBucketTable my) = []"
    using alphaClosest_length [of target 3 "newBucketTable my"] by simp
  then show ?thesis
    by (simp add: lookup_init_def InsertArray_def startRound_def GetAlphaUnqueried_3 NewSafeNodeStateArray_def)
qed

text \<open>A lookup that asks its one known node, gets an empty answer and returns that node.\<close>

lemma example_lookup_run:
  "\<exists>lk. lookup_reachable (replicate 64 0) {example_node} (lookup_init (replicate 64 0) (replicate 64 2) example_table) lk
    \<and> lk_phase lk = Returned [example_node] \<and> sna_Target (lk_snsa lk) = replicate 64 2"
proof -
  let ?s = "fst (Insert example_node (NewSafeNodeStateArray (replicate 64 2)))"
  let ?lk = "lookup_init (replicate 64 0) (replicate 64 2) example_table"
  let ?lk1 = "lookupSingle_responded example_node ?lk"
  let ?lk2 = "receive (replicate 64 0) example_node [] ?lk1"
  have ia: "fst (InsertArray [example_node] (replicate 64 0) (NewSafeNodeStateArray (replicate 64 2))) = ?s" by code_simp
  have v0: "?lk = ask InRound [example_node] ?s"
    unfolding lookup_init_def example_alphaClosest ia
    by (simp add: startRound_def GetAlphaUnqueried_3 Insert_def NewSafeNodeStateArray_def wasQueried_def Let_def)
  have s1: "lookup_step (replicate 64 0) {example_node} ?lk ?lk1"
    unfolding v0 by (rule lookup_step.responds)
      (simp_all add: ask_def SetQueried_def Insert_def NewSafeNodeStateArray_def wasQueried_def hasResponded_def)
  have s2: "lookup_step (replicate 64 0) {example_node} ?lk1 ?lk2"
    unfolding v0 by (rule lookup_step.receives)
      (simp_all add: ask_def lookupSingle_responded_def SetResponded_def SetQueried_def Insert_def NewSafeNodeStateArray_def hasResponded_def)
  have tb: "take bucketSize [n] = [n]" for n :: NodeState by (simp add: bucketSize_def)
  have "lk_phase ?lk2 = Returned [example_node] \<and> sna_Target (lk_snsa ?lk2) = replicate 64 2"
    unfolding v0
    by (simp add: receive_def InsertArray_def next_phase_def startFinal_def GetKClosestUnqueried_bucket candidates_def tb
        ask_def lookupSingle_responded_def SetResponded_def SetQueried_def Insert_def NewSafeNodeStateArray_def
        hasResponded_def wasQueried_def Let_def)
  then show ?thesis using lookup_reachable.step [OF lookup_reachable.step [OF lookup_reachable.start s1] s2] by blast
qed

theorem lookup_returns_closest_witness:
  "\<exists>lk :: lookup. lk_phase lk = Returned [example_node] \<and> closest_first (replicate 64 2) [example_node]
    \<and> hasResponded (lk_snsa lk) example_node"
proof -
  obtain lk where lk: "lookup_reachable (replicate 64 0) {example_node} (lookup_init (replicate 64 0) (replicate 64 2) example_table) lk"
    "lk_phase lk = Returned [example_node]" "sna_Target (lk_snsa lk) = replicate 64 2" using example_lookup_run by blast
  have c: "closest_first (replicate 64 2) [example_node] \<and> hasResponded (lk_snsa lk) example_node"
    using lookup_returns_closest [OF _ example_table_inv _ _ lk(1,2)] lk(3) example_table_nodes
    by (simp add: example_node_def)
  show ?thesis by (rule exI [of _ lk]) (use lk(2) c in blast)
qed

text \<open>C9: no lookup runs forever: in a finite network every sequence of steps from a reachable
  state is finite, since each step answers a waiting question, records a first response, asks a
  node that was never asked before, or returns.\<close>

theorem lookup_terminates:
  assumes "wf_id target" "bt_inv bt" "set (bt_nodes bt) \<subseteq> net" "\<forall>n \<in> net. wf_id (ns_NodeID n)" "finite net"
  shows "wf {(lk', lk). lookup_reachable my net (lookup_init my target bt) lk \<and> lookup_step my net lk lk'}"
proof (rule wf_subset [OF wf_measures])
  show "{(lk', lk). lookup_reachable my net (lookup_init my target bt) lk \<and> lookup_step my net lk lk'}
      \<subseteq> measures (lookup_measures net)"
  proof clarify
    fix lk' lk assume r: "lookup_reachable my net (lookup_init my target bt) lk" and s: "lookup_step my net lk lk'"
    have "lk_inv net lk"
      using lookup_reachable_inv [OF r lookup_init_inv [OF assms(1-4)] assms(4)] .
    then show "(lk', lk) \<in> measures (lookup_measures net)" using lookup_step_measure [OF s _ assms(4,5)] by blast
  qed
qed

theorem lookup_terminates_witness:
  "wf {(lk', lk). lookup_reachable (replicate 64 1) {example_node} (lookup_init (replicate 64 1) (replicate 64 0)
      (newBucketTable (replicate 64 1))) lk \<and> lookup_step (replicate 64 1) {example_node} lk lk'}"
proof (rule lookup_terminates)
  show "set (bt_nodes (newBucketTable (replicate 64 1))) \<subseteq> {example_node}"
    by (auto simp: bt_nodes_def newBucketTable_def newBucket_def)
qed (simp_all add: bt_inv_new example_node_def)

text \<open>A round, whose ticker is stopped as soon as it is made, is left only when all nodes
  it asked have answered: while one of them has not responded, every step stays in the round.  A
  single unresponsive node therefore blocks the lookup.\<close>

theorem round_blocked_by_one_node:
  assumes "lookup_step my net lk lk'" "lk_phase lk = InRound" "lk_inv net lk"
    "\<exists>n \<in> set (lk_waiting lk). \<not> hasResponded (lk_snsa lk) n"
  shows "lk_phase lk' = InRound"
  using assms by (rule round_waits_for_all)

definition example_lookup :: lookup where
  "example_lookup = startRound (fst (Insert example_node (NewSafeNodeStateArray (replicate 64 0))))"

lemma example_lookup_inv: "lk_inv {example_node} example_lookup"
proof -
  have "sna_inv (fst (Insert example_node (NewSafeNodeStateArray (replicate 64 0))))"
    by (intro sna_inv_Insert sna_inv_New) (simp_all add: example_node_def)
  then show ?thesis unfolding example_lookup_def
    by (intro startRound_inv)
       (auto simp: snsa_ok_def Insert_def NewSafeNodeStateArray_def Let_def wasQueried_def)
qed

lemma example_lookup_eq:
  "example_lookup = ask InRound [example_node] (fst (Insert example_node (NewSafeNodeStateArray (replicate 64 0))))"
  by (simp add: example_lookup_def startRound_def GetAlphaUnqueried_3 Insert_def NewSafeNodeStateArray_def
      wasQueried_def Let_def)

theorem round_blocked_by_one_node_witness:
  "lk_phase (lookupSingle_responded example_node example_lookup) = InRound"
proof -
  have s: "lookup_step (replicate 64 1) {example_node} example_lookup
      (lookupSingle_responded example_node example_lookup)"
    by (rule lookup_step.responds)
       (simp_all add: example_lookup_eq ask_def SetQueried_def Insert_def NewSafeNodeStateArray_def
         wasQueried_def hasResponded_def)
  show ?thesis
    by (rule round_blocked_by_one_node [OF s _ example_lookup_inv])
       (simp_all add: example_lookup_eq ask_def SetQueried_def Insert_def NewSafeNodeStateArray_def hasResponded_def)
qed

end
