(* ===== verification/ValueLookup.thy ===== *)
theory ValueLookup
  imports NodeLookup
begin

text \<open>
  The value lookup of \<open>src/gossiper/dhtAPI.go\<close>.  \<open>lookupRoundValue\<close> and \<open>lookupFinalPhaseValue\<close>
  run as the node lookup does, with three differences: an answer with data ends the lookup with
  that data, the ticker of a round is not stopped, and a lookup that runs out of candidates
  returns that nothing was found.  The local database is the argument \<open>retrieve\<close>.
\<close>

record value_lookup =
  vk_lookup :: lookup
  vk_data :: "bytes option"

definition lookupRoundValue_start :: "SafeNodeStateArray \<Rightarrow> value_lookup" where
  "lookupRoundValue_start snsa = \<lparr>vk_lookup = startRound snsa, vk_data = None\<rparr>"

definition lookupFinalPhaseValue_start :: "SafeNodeStateArray \<Rightarrow> value_lookup" where
  "lookupFinalPhaseValue_start snsa = \<lparr>vk_lookup = startFinal snsa, vk_data = None\<rparr>"

definition value_next :: "lookup \<Rightarrow> value_lookup" where
  "value_next lk = (if lk_closer lk then lookupRoundValue_start (lk_snsa lk)
                    else lookupFinalPhaseValue_start (lk_snsa lk))"

definition value_receive :: "TypeID \<Rightarrow> NodeState \<Rightarrow> Message \<Rightarrow> value_lookup \<Rightarrow> value_lookup outcome" where
  "value_receive dhtMyID ns msg vk =
     (case msg_ValueReply msg of
        None \<Rightarrow> Inl (Panic ''nil value reply'')
      | Some reply \<Rightarrow>
          (case vr_Data reply of
             Some data \<Rightarrow> Inr (vk\<lparr>vk_data := Some data\<rparr>)
           | None \<Rightarrow>
               (case vr_NodeStates reply of
                  None \<Rightarrow> Inl (Panic ''nil node states'')
                | Some nodes \<Rightarrow>
                    (let lk = vk_lookup vk;
                         (snsa, closer) = InsertArray nodes dhtMyID (lk_snsa lk);
                         lk = lk\<lparr>lk_snsa := snsa, lk_closer := closer, lk_answered := lk_answered lk + 1,
                                 lk_waiting := remove1 ns (lk_waiting lk)\<rparr>
                     in Inr (if lk_answered lk = length (lk_asked lk) then value_next lk
                             else vk\<lparr>vk_lookup := lk\<rparr>)))))"

definition value_timeout :: "value_lookup \<Rightarrow> value_lookup" where
  "value_timeout vk = value_next (vk_lookup vk)"

definition lookupSingleValue_responded :: "NodeState \<Rightarrow> value_lookup \<Rightarrow> value_lookup" where
  "lookupSingleValue_responded ns vk =
     vk\<lparr>vk_lookup := (vk_lookup vk)\<lparr>lk_snsa := SetResponded ns (lk_snsa (vk_lookup vk))\<rparr>\<rparr>"

definition LookupValue_start ::
    "(TypeID \<Rightarrow> string \<Rightarrow> bytes option) \<Rightarrow> TypeID \<Rightarrow> TypeID \<Rightarrow> string \<Rightarrow> bucketTable \<Rightarrow> value_lookup" where
  "LookupValue_start retrieve dhtMyID i dbBucket bt =
     (case retrieve i dbBucket of
        Some data \<Rightarrow> \<lparr>vk_lookup = ask (Returned []) [] (NewSafeNodeStateArray i), vk_data = Some data\<rparr>
      | None \<Rightarrow> lookupRoundValue_start (fst (InsertArray (alphaClosest i 3 bt) dhtMyID (NewSafeNodeStateArray i))))"

text \<open>The result, once there is one: the data and whether it was found.\<close>

definition LookupValue_result :: "value_lookup \<Rightarrow> (bytes \<times> bool) option" where
  "LookupValue_result vk =
     (case vk_data vk of
        Some data \<Rightarrow> Some (data, True)
      | None \<Rightarrow> if is_returned (lk_phase (vk_lookup vk)) then Some ([], False) else None)"

definition running :: "value_lookup \<Rightarrow> bool" where
  "running vk \<longleftrightarrow> LookupValue_result vk = None"

text \<open>
  Peers answer with any message \<open>msg\<close> of \<open>answers\<close>; a message that makes the node panic has no
  successor.
\<close>

inductive value_step :: "TypeID \<Rightarrow> NodeState set \<Rightarrow> Message set \<Rightarrow> value_lookup \<Rightarrow> value_lookup \<Rightarrow> bool"
  for dhtMyID net answers where
  responds: "running vk \<Longrightarrow> ns \<in> set (sna_array (lk_snsa (vk_lookup vk))) \<Longrightarrow>
      wasQueried (lk_snsa (vk_lookup vk)) ns \<Longrightarrow> \<not> hasResponded (lk_snsa (vk_lookup vk)) ns \<Longrightarrow>
      value_step dhtMyID net answers vk (lookupSingleValue_responded ns vk)"
| receives: "running vk \<Longrightarrow> ns \<in> set (lk_waiting (vk_lookup vk)) \<Longrightarrow>
      hasResponded (lk_snsa (vk_lookup vk)) ns \<Longrightarrow> msg \<in> answers \<Longrightarrow>
      value_receive dhtMyID ns msg vk = Inr vk' \<Longrightarrow> value_step dhtMyID net answers vk vk'"
| times_out: "running vk \<Longrightarrow> value_step dhtMyID net answers vk (value_timeout vk)"

inductive value_reachable :: "TypeID \<Rightarrow> NodeState set \<Rightarrow> Message set \<Rightarrow> value_lookup \<Rightarrow> value_lookup \<Rightarrow> bool"
  for dhtMyID net answers init where
  start: "value_reachable dhtMyID net answers init init"
| step: "value_reachable dhtMyID net answers init vk \<Longrightarrow> value_step dhtMyID net answers vk vk' \<Longrightarrow>
      value_reachable dhtMyID net answers init vk'"

definition answer_nodes :: "Message set \<Rightarrow> NodeState set" where
  "answer_nodes answers = {n. \<exists>msg \<in> answers. \<exists>reply nodes. msg_ValueReply msg = Some reply
     \<and> vr_NodeStates reply = Some nodes \<and> n \<in> set nodes}"

definition answer_data :: "Message set \<Rightarrow> bytes set" where
  "answer_data answers = {d. \<exists>msg \<in> answers. \<exists>reply. msg_ValueReply msg = Some reply \<and> vr_Data reply = Some d}"

section \<open>The value lookup simulates the node lookup\<close>

lemma running_iff: "running vk \<longleftrightarrow> vk_data vk = None \<and> \<not> is_returned (lk_phase (vk_lookup vk))"
  by (auto simp: running_def LookupValue_result_def split: option.splits)

lemma value_next_eq: "value_next lk = \<lparr>vk_lookup = next_phase lk, vk_data = None\<rparr>"
  by (simp add: value_next_def next_phase_def lookupRoundValue_start_def lookupFinalPhaseValue_start_def)

lemma value_receive_cases:
  assumes "value_receive my ns msg vk = Inr vk'" "vk_data vk = None" "msg \<in> answers"
  obtains (found) d where "d \<in> answer_data answers" "vk' = vk\<lparr>vk_data := Some d\<rparr>"
    | (nodes) nodes where "set nodes \<subseteq> answer_nodes answers"
        "vk' = vk\<lparr>vk_lookup := receive my ns nodes (vk_lookup vk)\<rparr>"
proof -
  obtain reply where r: "msg_ValueReply msg = Some reply"
    using assms(1) by (auto simp: value_receive_def split: option.splits)
  show ?thesis
  proof (cases "vr_Data reply")
    case (Some d)
    then show ?thesis using assms r found by (auto simp: value_receive_def answer_data_def)
  next
    case None
    then obtain ns' where n: "vr_NodeStates reply = Some ns'"
      using assms(1) r by (auto simp: value_receive_def split: option.splits)
    then have "set ns' \<subseteq> answer_nodes answers" using assms(3) r by (auto simp: answer_nodes_def)
    moreover have "vk' = vk\<lparr>vk_lookup := receive my ns ns' (vk_lookup vk)\<rparr>"
      using assms(1,2) r None n
      by (cases vk) (auto simp: value_receive_def receive_def value_next_eq Let_def split: prod.splits)
    ultimately show ?thesis by (rule nodes)
  qed
qed

lemma value_step_cases:
  assumes "value_step my net answers vk vk'" "answer_nodes answers \<subseteq> net"
  obtains (found) d where "running vk" "d \<in> answer_data answers" "vk' = vk\<lparr>vk_data := Some d\<rparr>"
    | (node) "running vk" "lookup_step my net (vk_lookup vk) (vk_lookup vk')" "vk_data vk' = None"
    | (round_timeout) "running vk" "vk_lookup vk' = next_phase (vk_lookup vk)" "vk_data vk' = None"
  using assms(1)
proof cases
  case (responds ns)
  then have "lookup_step my net (vk_lookup vk) (vk_lookup vk')"
    using lookup_step.responds [of "vk_lookup vk" ns my net]
    by (simp add: running_iff lookupSingleValue_responded_def lookupSingle_responded_def)
  then show ?thesis using node responds by (simp add: running_iff lookupSingleValue_responded_def)
next
  case (receives ns msg)
  then have n: "vk_data vk = None" "\<not> is_returned (lk_phase (vk_lookup vk))" by (simp_all add: running_iff)
  from receives(5) n(1) receives(4) show ?thesis
  proof (cases rule: value_receive_cases)
    case (found d)
    then show ?thesis using that(1) receives(1) by blast
  next
    case (nodes ns')
    then have "lookup_step my net (vk_lookup vk) (receive my ns ns' (vk_lookup vk))"
      using receives n assms(2) by (intro lookup_step.receives) auto
    then show ?thesis using that(2) receives(1) nodes n(1) by simp
  qed
next
  case times_out
  then show ?thesis using that(3) by (simp add: value_timeout_def value_next_eq)
qed

lemma value_step_inv:
  assumes "value_step my net answers vk vk'" "answer_nodes answers \<subseteq> net" "lk_inv net (vk_lookup vk)"
    "\<forall>n \<in> net. wf_id (ns_NodeID n)"
  shows "lk_inv net (vk_lookup vk')"
  using assms(1,2)
proof (cases rule: value_step_cases)
  case node
  then show ?thesis using lookup_step_inv assms(3,4) by blast
qed (use assms(3) in \<open>simp_all add: next_phase_inv\<close>)

lemma value_reachable_inv:
  assumes "value_reachable my net answers init vk" "answer_nodes answers \<subseteq> net" "lk_inv net (vk_lookup init)"
    "\<forall>n \<in> net. wf_id (ns_NodeID n)"
  shows "lk_inv net (vk_lookup vk)"
  using assms by (induction rule: value_reachable.induct) (auto intro: value_step_inv)

lemma value_start_inv:
  assumes "wf_id i" "bt_inv bt" "set (bt_nodes bt) \<subseteq> net" "\<forall>n \<in> net. wf_id (ns_NodeID n)"
  shows "lk_inv net (vk_lookup (LookupValue_start retrieve my i b bt))"
proof -
  have "lk_inv net (ask (Returned []) [] (NewSafeNodeStateArray i))"
    using sna_inv_New [OF assms(1)]
    by (simp add: lk_inv_def ask_def snsa_ok_def returned_ok_def candidates_def NewSafeNodeStateArray_def)
  then show ?thesis using lookup_init_inv [OF assms, of my]
    by (simp add: LookupValue_start_def lookupRoundValue_start_def lookup_init_def split: option.splits)
qed

definition value_measures :: "NodeState set \<Rightarrow> (value_lookup \<Rightarrow> nat) list" where
  "value_measures net = (\<lambda>vk. if vk_data vk = None then 1 else 0) # map (\<lambda>f vk. f (vk_lookup vk)) (lookup_measures net)"

lemma value_measures_lookup:
  "vk_data vk = None \<Longrightarrow> vk_data vk' = None \<Longrightarrow> (vk_lookup vk', vk_lookup vk) \<in> measures (lookup_measures net) \<Longrightarrow>
     (vk', vk) \<in> measures (value_measures net)"
  by (simp add: value_measures_def lookup_measures_def)

lemma value_step_measure:
  assumes "value_step my net answers vk vk'" "answer_nodes answers \<subseteq> net" "lk_inv net (vk_lookup vk)"
    "\<forall>n \<in> net. wf_id (ns_NodeID n)" "finite net"
  shows "(vk', vk) \<in> measures (value_measures net)"
  using assms(1,2)
proof (cases rule: value_step_cases)
  case (found d)
  then show ?thesis by (simp add: value_measures_def running_iff)
next
  case node
  then show ?thesis using lookup_step_measure [OF node(2) assms(3-5)]
    by (intro value_measures_lookup) (simp_all add: running_iff)
next
  case round_timeout
  then have "(next_phase (vk_lookup vk), vk_lookup vk) \<in> measures (lookup_measures net)"
    using assms(3,5) by (intro next_phase_measure) (simp_all add: running_iff)
  then show ?thesis using round_timeout by (intro value_measures_lookup) (simp_all add: running_iff)
qed

section \<open>Properties\<close>

text \<open>C11: a value lookup ends: in a finite network, where peers may answer with any messages that
  name nodes of the network, every sequence of steps is finite; and it cannot be blocked, since
  as long as it runs its ticker can fire.\<close>

theorem value_lookup_terminates:
  assumes "wf_id i" "bt_inv bt" "set (bt_nodes bt) \<subseteq> net" "\<forall>n \<in> net. wf_id (ns_NodeID n)" "finite net"
    and "answer_nodes answers \<subseteq> net"
  shows "wf {(vk', vk). value_reachable my net answers (LookupValue_start retrieve my i b bt) vk \<and> value_step my net answers vk vk'}
    \<and> (\<forall>vk. LookupValue_result vk = None \<longleftrightarrow> (\<exists>vk'. value_step my net answers vk vk'))"
proof
  show "wf {(vk', vk). value_reachable my net answers (LookupValue_start retrieve my i b bt) vk \<and> value_step my net answers vk vk'}"
  proof (rule wf_subset [OF wf_measures])
    show "{(vk', vk). value_reachable my net answers (LookupValue_start retrieve my i b bt) vk \<and> value_step my net answers vk vk'}
        \<subseteq> measures (value_measures net)"
    proof clarify
      fix vk' vk
      assume r: "value_reachable my net answers (LookupValue_start retrieve my i b bt) vk"
        and s: "value_step my net answers vk vk'"
      have "lk_inv net (vk_lookup vk)" using value_reachable_inv [OF r assms(6) value_start_inv [OF assms(1-4)] assms(4)] .
      then show "(vk', vk) \<in> measures (value_measures net)" using value_step_measure [OF s assms(6) _ assms(4,5)] by blast
    qed
  qed
  have "running vk \<longleftrightarrow> (\<exists>vk'. value_step my net answers vk vk')" for vk
    by (meson value_step.times_out value_step.cases)
  then show "\<forall>vk. LookupValue_result vk = None \<longleftrightarrow> (\<exists>vk'. value_step my net answers vk vk')"
    by (simp only: running_def) blast
qed

definition example_answer :: Message where
  "example_answer = \<lparr>msg_Nonce = 0, msg_SenderID = replicate 64 1, msg_Store = None, msg_Ping = None,
     msg_PingReply = None, msg_NodeLookup = None, msg_NodeReply = None, msg_ValueLookup = None,
     msg_ValueReply = Some \<lparr>vr_NodeStates = None, vr_Data = Some [42], vr_Encrypted = False\<rparr>\<rparr>"

theorem value_lookup_terminates_witness:
  "wf {(vk', vk). value_reachable (replicate 64 0) {example_node} {example_answer}
      (LookupValue_start (\<lambda>_ _. None) (replicate 64 0) (replicate 64 2) ''keywords'' example_table) vk
      \<and> value_step (replicate 64 0) {example_node} {example_answer} vk vk'}"
proof -
  have "answer_nodes {example_answer} \<subseteq> {example_node}" by (simp add: answer_nodes_def example_answer_def)
  then show ?thesis
    using value_lookup_terminates [of "replicate 64 2" example_table "{example_node}" "{example_answer}"]
      example_table_inv example_table_nodes by (simp add: example_node_def)
qed

text \<open>C10: what a value lookup reports as found is the value of the local database or data that some
  peer sent; and it reports that nothing was found only if the local database has no value and
  every one of the 20 closest nodes it knows, those asked in vain left aside, has responded.\<close>

theorem value_lookup_sound:
  assumes "wf_id i" "bt_inv bt" "set (bt_nodes bt) \<subseteq> net" "\<forall>n \<in> net. wf_id (ns_NodeID n)"
    and "answer_nodes answers \<subseteq> net"
    and "value_reachable my net answers (LookupValue_start retrieve my i b bt) vk" "LookupValue_result vk = Some (d, found)"
  shows "if found then retrieve i b = Some d \<or> d \<in> answer_data answers
    else d = [] \<and> retrieve i b = None
      \<and> list_all (hasResponded (lk_snsa (vk_lookup vk))) (take bucketSize (candidates (lk_snsa (vk_lookup vk))))"
proof -
  have r: "(case retrieve i b of None \<Rightarrow> vk_data vk = None \<or> the (vk_data vk) \<in> answer_data answers | Some v \<Rightarrow> vk_data vk = Some v)"
    using assms(6)
  proof induction
    case start
    then show ?case by (simp add: LookupValue_start_def lookupRoundValue_start_def split: option.splits)
  next
    case (step vk vk')
    from step(2) assms(5) show ?case
      using step(3) by (cases rule: value_step_cases) (auto simp: running_iff split: option.splits)
  qed
  have inv: "lk_inv net (vk_lookup vk)"
    using value_reachable_inv [OF assms(6,5) value_start_inv [OF assms(1-4)] assms(4)] .
  show ?thesis
  proof (cases "vk_data vk")
    case None
    then obtain rs where ph: "lk_phase (vk_lookup vk) = Returned rs"
      using assms(7) by (cases "lk_phase (vk_lookup vk)") (auto simp: LookupValue_result_def)
    have "returned_ok (lk_snsa (vk_lookup vk)) rs" using inv ph by (simp add: lk_inv_def)
    then show ?thesis using None assms(7) r ph
      by (auto simp: LookupValue_result_def returned_ok_def split: option.splits)
  next
    case (Some v)
    then show ?thesis using assms(7) r by (auto simp: LookupValue_result_def split: option.splits)
  qed
qed

lemma example_value_run:
  "\<exists>vk. value_reachable (replicate 64 0) {example_node} {example_answer}
      (LookupValue_start (\<lambda>_ _. None) (replicate 64 0) (replicate 64 2) ''keywords'' example_table) vk
    \<and> LookupValue_result vk = Some ([42], True)"
proof -
  let ?s = "fst (Insert example_node (NewSafeNodeStateArray (replicate 64 2)))"
  let ?vk = "LookupValue_start (\<lambda>_ _. None) (replicate 64 0) (replicate 64 2) ''keywords'' example_table"
  have ia: "fst (InsertArray [example_node] (replicate 64 0) (NewSafeNodeStateArray (replicate 64 2))) = ?s" by code_simp
  have v0: "?vk = \<lparr>vk_lookup = ask InRound [example_node] ?s, vk_data = None\<rparr>"
    unfolding LookupValue_start_def option.case example_alphaClosest ia
    by (simp add: lookupRoundValue_start_def startRound_def GetAlphaUnqueried_3 Insert_def NewSafeNodeStateArray_def
        wasQueried_def Let_def)
  let ?v1 = "lookupSingleValue_responded example_node ?vk"
  have s1: "value_step (replicate 64 0) {example_node} {example_answer} ?vk ?v1"
    unfolding v0 by (rule value_step.responds)
      (simp_all add: running_iff ask_def SetQueried_def Insert_def NewSafeNodeStateArray_def wasQueried_def hasResponded_def)
  have "value_receive (replicate 64 0) example_node example_answer ?v1 = Inr (?v1\<lparr>vk_data := Some [42]\<rparr>)"
    by (simp add: value_receive_def example_answer_def)
  then have s2: "value_step (replicate 64 0) {example_node} {example_answer} ?v1 (?v1\<lparr>vk_data := Some [42]\<rparr>)"
    unfolding v0 by (intro value_step.receives [where ns = example_node and msg = example_answer])
      (simp_all add: running_iff lookupSingleValue_responded_def ask_def SetQueried_def SetResponded_def Insert_def
        NewSafeNodeStateArray_def hasResponded_def)
  have "LookupValue_result (?v1\<lparr>vk_data := Some [42]\<rparr>) = Some ([42], True)" by (simp add: LookupValue_result_def)
  then show ?thesis using value_reachable.step [OF value_reachable.step [OF value_reachable.start s1] s2] by blast
qed

theorem value_lookup_sound_witness:
  "\<exists>vk. LookupValue_result vk = Some ([42], True) \<and> [42] \<in> answer_data {example_answer}"
proof -
  obtain vk where vk: "value_reachable (replicate 64 0) {example_node} {example_answer}
      (LookupValue_start (\<lambda>_ _. None) (replicate 64 0) (replicate 64 2) ''keywords'' example_table) vk"
    "LookupValue_result vk = Some ([42], True)" using example_value_run by blast
  have "answer_nodes {example_answer} \<subseteq> {example_node}" by (simp add: answer_nodes_def example_answer_def)
  then show ?thesis
    using value_lookup_sound [OF _ example_table_inv _ _ _ vk] vk(2) example_table_nodes by (auto simp: example_node_def)
qed

text \<open>An answer that carries neither data nor nodes, or is no value reply at all, makes the
  node that waits for it panic; every other answer is handled.\<close>

theorem value_reply_panics:
  "ok (value_receive my ns msg vk) \<longleftrightarrow>
     (\<exists>reply. msg_ValueReply msg = Some reply \<and> (vr_Data reply \<noteq> None \<or> vr_NodeStates reply \<noteq> None))"
  by (auto simp: value_receive_def Let_def split: option.splits prod.splits)

end
