(* ===== verification/Storage.thy ===== *)
theory Storage
  imports XorMetric
begin

text \<open>
  The persistent storage of a node, \<open>src/dht/storage.go\<close>: the local part of the hash table, one
  bucket per kind of value, and the queue of pages the crawler still has to visit.  The key-value
  database (bolt) is third-party code: the record \<open>bolt\<close> holds its operations and \<open>bolt_laws\<close> what
  its documentation says of them.  A transaction is one step; a write that fails leaves the
  database as it was.  The protobuf coding of a keyword's links, SHA-512, the order in which
  \<open>sort.Slice\<close> leaves equal elements and the gob coding of the past map are arguments.
\<close>

section \<open>The database\<close>

record 'db bolt =
  bolt_CreateBucketIfNotExists :: "string \<Rightarrow> 'db \<Rightarrow> 'db option"
  bolt_Bucket :: "'db \<Rightarrow> string \<Rightarrow> bool"
  bolt_Get :: "'db \<Rightarrow> string \<Rightarrow> bytes \<Rightarrow> bytes option"
  bolt_Put :: "string \<Rightarrow> bytes \<Rightarrow> bytes \<Rightarrow> 'db \<Rightarrow> 'db option"
  bolt_Delete :: "string \<Rightarrow> bytes \<Rightarrow> 'db \<Rightarrow> 'db option"
  bolt_Sequence :: "'db \<Rightarrow> string \<Rightarrow> uint64"
  bolt_NextSequence :: "string \<Rightarrow> 'db \<Rightarrow> 'db \<times> uint64"

text \<open>
  The documented behaviour: reads see the last write of their bucket and key, writes touch
  nothing else, \<open>NextSequence\<close> increments the counter of its bucket and returns it.
\<close>

definition put_law :: "'db bolt \<Rightarrow> bool" where
  "put_law B \<longleftrightarrow> (\<forall>d b k v d'. bolt_Put B b k v d = Some d' \<longrightarrow>
     (\<forall>b' k'. bolt_Get B d' b' k' = (if b' = b \<and> k' = k then Some v else bolt_Get B d b' k'))
     \<and> bolt_Bucket B d' = bolt_Bucket B d \<and> bolt_Sequence B d' = bolt_Sequence B d)"

definition delete_law :: "'db bolt \<Rightarrow> bool" where
  "delete_law B \<longleftrightarrow> (\<forall>d b k d'. bolt_Delete B b k d = Some d' \<longrightarrow>
     (\<forall>b' k'. bolt_Get B d' b' k' = (if b' = b \<and> k' = k then None else bolt_Get B d b' k'))
     \<and> bolt_Bucket B d' = bolt_Bucket B d \<and> bolt_Sequence B d' = bolt_Sequence B d)"

definition create_law :: "'db bolt \<Rightarrow> bool" where
  "create_law B \<longleftrightarrow> (\<forall>d b d'. bolt_CreateBucketIfNotExists B b d = Some d' \<longrightarrow>
     (\<forall>b'. bolt_Bucket B d' b' = (b' = b \<or> bolt_Bucket B d b'))
     \<and> (\<forall>b'. b' \<noteq> b \<or> bolt_Bucket B d b \<longrightarrow>
          bolt_Get B d' b' = bolt_Get B d b' \<and> bolt_Sequence B d' b' = bolt_Sequence B d b')
     \<and> (\<not> bolt_Bucket B d b \<longrightarrow> (\<forall>k. bolt_Get B d' b k = None) \<and> bolt_Sequence B d' b = 0))"

definition sequence_law :: "'db bolt \<Rightarrow> bool" where
  "sequence_law B \<longleftrightarrow> (\<forall>d b d' n. bolt_NextSequence B b d = (d', n) \<and> bolt_Bucket B d b \<longrightarrow>
     n = bolt_Sequence B d b + 1 \<and> bolt_Sequence B d' = (bolt_Sequence B d)(b := n)
     \<and> bolt_Get B d' = bolt_Get B d \<and> bolt_Bucket B d' = bolt_Bucket B d)"

definition bolt_laws :: "'db bolt \<Rightarrow> bool" where
  "bolt_laws B \<longleftrightarrow> put_law B \<and> delete_law B \<and> create_law B \<and> sequence_law B"

definition KeywordsBucket :: string where "KeywordsBucket = ''keywords''"
definition LinksBucket :: string where "LinksBucket = ''links''"
definition CitationsBucket :: string where "CitationsBucket = ''citations''"
definition PageHashBucket :: string where "PageHashBucket = ''pageHash''"
definition PageRankBucket :: string where "PageRankBucket = ''pageRank''"
definition CrawlQueueBucket :: string where "CrawlQueueBucket = ''crawlQueue''"
definition QueueIndexBucket :: string where "QueueIndexBucket = ''queueIndex''"
definition PastMapBucket :: string where "PastMapBucket = ''pastMap''"

definition buckets :: "string list" where
  "buckets = [KeywordsBucket, LinksBucket, PageHashBucket, CrawlQueueBucket, QueueIndexBucket,
              CitationsBucket, PageRankBucket, PastMapBucket]"

definition queueCountID :: string where "queueCountID = ''queCount''"
definition pastMapID :: string where "pastMapID = ''pastMap''"

definition GenerateKeyHash :: "(bytes \<Rightarrow> TypeID) \<Rightarrow> string \<Rightarrow> TypeID" where
  "GenerateKeyHash sha512 key = sha512 (string_bytes key)"

text \<open>\<open>binary.BigEndian.Uint64\<close> panics on fewer than eight bytes.\<close>

definition BigEndian_Uint64 :: "bytes \<Rightarrow> uint64 outcome" where
  "BigEndian_Uint64 b = (if length b < 8 then Inl (Panic ''index out of range'') else Inr (of_nat (id_num (take 8 b))))"

lemma BigEndian_Itob [simp]: "BigEndian_Uint64 (Itob v) = Inr v"
  by (simp add: BigEndian_Uint64_def id_num_Itob)

section \<open>Storing and retrieving values\<close>

text \<open>\<open>tx.Bucket\<close> returns nil for an unknown bucket, and every operation on a nil bucket panics.\<close>

definition bucket_Get :: "'db bolt \<Rightarrow> 'db \<Rightarrow> string \<Rightarrow> bytes \<Rightarrow> bytes option outcome" where
  "bucket_Get B db bucket key =
     (if bolt_Bucket B db bucket then Inr (bolt_Get B db bucket key) else Inl (Panic ''nil bucket''))"

definition bucket_Put :: "'db bolt \<Rightarrow> string \<Rightarrow> bytes \<Rightarrow> bytes \<Rightarrow> 'db \<Rightarrow> 'db option outcome" where
  "bucket_Put B bucket key data db =
     (if bolt_Bucket B db bucket then Inr (bolt_Put B bucket key data db) else Inl (Panic ''nil bucket''))"

record KeywordToURLMap =
  kum_Keyword :: string
  kum_LinkData :: "(string, int) gomap option"

record keyword_codec =
  kc_Encode :: "KeywordToURLMap \<Rightarrow> bytes option"
  kc_Decode :: "bytes \<Rightarrow> KeywordToURLMap option"
  kc_Slice :: "(string \<times> int) list \<Rightarrow> (string \<times> int) list"

definition maxSize :: nat where "maxSize = 7500"

fun pack_links :: "keyword_codec \<Rightarrow> string \<Rightarrow> (string \<times> int) list \<Rightarrow> (string, int) gomap \<Rightarrow> bytes \<Rightarrow> bytes outcome" where
  "pack_links kc keyword [] newMap data = Inr data"
| "pack_links kc keyword ((url, f) # ds) newMap data =
     (if length data + length url + 100 > maxSize then Inr data
      else let newMap = gm_store url f newMap
           in case kc_Encode kc \<lparr>kum_Keyword = keyword, kum_LinkData = Some newMap\<rparr> of
                None \<Rightarrow> Inl (Panic ''protobuf'')
              | Some data \<Rightarrow> pack_links kc keyword ds newMap data)"

definition link_list :: "(string, int) gomap option \<Rightarrow> (string \<times> int) list" where
  "link_list m = (case m of None \<Rightarrow> [] | Some kvs \<Rightarrow> kvs)"

text \<open>The result is \<open>None\<close> when the key is not found (\<open>ok\<close> is false).\<close>

definition Retrieve :: "'db bolt \<Rightarrow> keyword_codec \<Rightarrow> 'db \<Rightarrow> TypeID \<Rightarrow> string \<Rightarrow> bytes option outcome" where
  "Retrieve B kc db key bucket =
     obind (bucket_Get B db bucket key) (\<lambda>dbData.
       case dbData of
         None \<Rightarrow> Inr None
       | Some data \<Rightarrow>
           if bucket = KeywordsBucket \<and> length data > maxSize then
             (case kc_Decode kc data of
                None \<Rightarrow> Inl (Panic ''protobuf'')
              | Some keywordMap \<Rightarrow>
                  obind (pack_links kc (kum_Keyword keywordMap) (kc_Slice kc (link_list (kum_LinkData keywordMap))) [] [])
                    (\<lambda>data. Inr (Some data)))
           else Inr (Some data))"

definition Put :: "'db bolt \<Rightarrow> TypeID \<Rightarrow> bytes \<Rightarrow> string \<Rightarrow> 'db \<Rightarrow> ('db \<times> bool) outcome" where
  "Put B key data bucket db =
     obind (bucket_Put B bucket key data db) (\<lambda>r. Inr (case r of None \<Rightarrow> (db, False) | Some db' \<Rightarrow> (db', True)))"

definition Delete :: "'db bolt \<Rightarrow> TypeID \<Rightarrow> string \<Rightarrow> 'db \<Rightarrow> ('db \<times> bool) outcome" where
  "Delete B key bucket db =
     (if bolt_Bucket B db bucket then
        Inr (case bolt_Delete B bucket key db of None \<Rightarrow> (db, False) | Some db' \<Rightarrow> (db', True))
      else Inl (Panic ''nil bucket''))"

text \<open>Writing to a nil map panics; reading one finds nothing.\<close>

definition set_links :: "(string, int) gomap option \<Rightarrow> (string, int) gomap option \<Rightarrow> (string, int) gomap option outcome" where
  "set_links new old =
     (case old of
        Some m \<Rightarrow> Inr (Some (fold (\<lambda>(k, v). gm_store k v) (link_list new) m))
      | None \<Rightarrow> if link_list new = [] then Inr None else Inl (Panic ''assignment to entry in nil map''))"

definition merged_entry :: "keyword_codec \<Rightarrow> KeywordToURLMap \<Rightarrow> bytes option \<Rightarrow> KeywordToURLMap outcome" where
  "merged_entry kc new data =
     (case data of
        None \<Rightarrow> Inr new
      | Some data \<Rightarrow>
          (case kc_Decode kc data of
             None \<Rightarrow> Inl (Panic ''protobuf'')
           | Some keywordMap \<Rightarrow>
               obind (set_links (kum_LinkData new) (kum_LinkData keywordMap)) (\<lambda>m.
                 Inr (keywordMap\<lparr>kum_LinkData := m\<rparr>))))"

text \<open>The error of \<open>Put\<close> is assigned to a variable of the loop body, so it is lost.\<close>

fun add_links :: "'db bolt \<Rightarrow> (bytes \<Rightarrow> TypeID) \<Rightarrow> keyword_codec \<Rightarrow> KeywordToURLMap list \<Rightarrow> 'db \<Rightarrow> 'db outcome" where
  "add_links B sha512 kc [] db = Inr db"
| "add_links B sha512 kc (new # urlMaps) db =
     (let i = GenerateKeyHash sha512 (kum_Keyword new) in
      obind (bucket_Get B db KeywordsBucket i) (\<lambda>data.
      obind (merged_entry kc new data) (\<lambda>keywordMap.
      case kc_Encode kc keywordMap of
        None \<Rightarrow> Inl (Panic ''protobuf'')
      | Some data \<Rightarrow>
          obind (bucket_Put B KeywordsBucket i data db) (\<lambda>r.
            add_links B sha512 kc urlMaps (case r of None \<Rightarrow> db | Some db' \<Rightarrow> db')))))"

definition BulkAddLinksForKeyword ::
    "'db bolt \<Rightarrow> (bytes \<Rightarrow> TypeID) \<Rightarrow> keyword_codec \<Rightarrow> KeywordToURLMap list \<Rightarrow> 'db \<Rightarrow> ('db \<times> bool) outcome" where
  "BulkAddLinksForKeyword B sha512 kc urlMaps db =
     obind (add_links B sha512 kc urlMaps db) (\<lambda>db. Inr (db, True))"

section \<open>The crawl queue\<close>

fun create_buckets :: "'db bolt \<Rightarrow> string list \<Rightarrow> 'db \<Rightarrow> 'db outcome" where
  "create_buckets B [] db = Inr db"
| "create_buckets B (b # bs) db =
     (case bolt_CreateBucketIfNotExists B b db of
        None \<Rightarrow> Inl (Panic ''bolt'')
      | Some db \<Rightarrow> create_buckets B bs db)"

definition NewStorage :: "'db bolt \<Rightarrow> (bytes \<Rightarrow> TypeID) \<Rightarrow> keyword_codec \<Rightarrow> 'db \<Rightarrow> 'db outcome" where
  "NewStorage B sha512 kc db =
     obind (create_buckets B buckets db) (\<lambda>db.
       (let keyHash = GenerateKeyHash sha512 queueCountID in
        obind (Retrieve B kc db keyHash QueueIndexBucket) (\<lambda>r.
          if r = None then
            obind (bucket_Put B QueueIndexBucket keyHash (Itob 0) db) (\<lambda>r.
              case r of None \<Rightarrow> Inl (Fatal ''Failed to initiate queue'') | Some db \<Rightarrow> Inr db)
          else Inr db)))"

definition UpdateCrawlQueue :: "'db bolt \<Rightarrow> (bytes \<Rightarrow> TypeID) \<Rightarrow> bytes \<Rightarrow> 'db \<Rightarrow> ('db \<times> bool) outcome" where
  "UpdateCrawlQueue B sha512 data db =
     (if bolt_Bucket B db CrawlQueueBucket then
        let (db1, i) = bolt_NextSequence B CrawlQueueBucket db in
        Inr (case bolt_Put B CrawlQueueBucket (sha512 (Itob (i - 1))) data db1 of
               None \<Rightarrow> (db, False)
             | Some db2 \<Rightarrow> (db2, True))
      else Inl (Panic ''nil bucket''))"

definition CrawlQueueHeadPointer :: "'db bolt \<Rightarrow> (bytes \<Rightarrow> TypeID) \<Rightarrow> keyword_codec \<Rightarrow> 'db \<Rightarrow> uint64 outcome" where
  "CrawlQueueHeadPointer B sha512 kc db =
     obind (Retrieve B kc db (GenerateKeyHash sha512 queueCountID) QueueIndexBucket) (\<lambda>r.
       case r of
         None \<Rightarrow> Inl (Fatal ''Error, sequence number not found.'')
       | Some val \<Rightarrow> BigEndian_Uint64 val)"

text \<open>The result is \<open>None\<close> when the queue is empty (the error of the code).\<close>

definition CrawlQueueHead :: "'db bolt \<Rightarrow> (bytes \<Rightarrow> TypeID) \<Rightarrow> keyword_codec \<Rightarrow> 'db \<Rightarrow> ('db \<times> bytes option) outcome" where
  "CrawlQueueHead B sha512 kc db =
     (let queueHash = GenerateKeyHash sha512 queueCountID in
      obind (Retrieve B kc db queueHash QueueIndexBucket) (\<lambda>r.
        case r of
          None \<Rightarrow> Inl (Fatal ''Error, queue head sequence number not found'')
        | Some val \<Rightarrow>
            obind (BigEndian_Uint64 val) (\<lambda>headSequenceNumber.
            obind (Retrieve B kc db (sha512 (Itob headSequenceNumber)) CrawlQueueBucket) (\<lambda>head.
              case head of
                None \<Rightarrow> Inr (db, None)
              | Some head \<Rightarrow>
                  obind (Put B queueHash (Itob (headSequenceNumber + 1)) QueueIndexBucket db) (\<lambda>(db, done).
                    if done then Inr (db, Some head)
                    else Inl (Fatal ''Error, updating queue head sequence number''))))))"

definition DeleteCrawlQueueHead :: "'db bolt \<Rightarrow> (bytes \<Rightarrow> TypeID) \<Rightarrow> keyword_codec \<Rightarrow> 'db \<Rightarrow> ('db \<times> bool) outcome" where
  "DeleteCrawlQueueHead B sha512 kc db =
     obind (CrawlQueueHeadPointer B sha512 kc db) (\<lambda>index.
       Delete B (sha512 (Itob (index - 1))) CrawlQueueBucket db)"

definition SavePast :: "'db bolt \<Rightarrow> (bytes \<Rightarrow> TypeID) \<Rightarrow> bytes \<Rightarrow> 'db \<Rightarrow> 'db outcome" where
  "SavePast B sha512 past db =
     obind (Put B (GenerateKeyHash sha512 pastMapID) past pastMapID db) (\<lambda>(db, _). Inr db)"

definition GetPast :: "'db bolt \<Rightarrow> (bytes \<Rightarrow> TypeID) \<Rightarrow> keyword_codec \<Rightarrow> (bytes \<Rightarrow> (string, bool) gomap option) \<Rightarrow> 'db
    \<Rightarrow> (string, bool) gomap outcome" where
  "GetPast B sha512 kc gob db =
     obind (Retrieve B kc db (GenerateKeyHash sha512 pastMapID) pastMapID) (\<lambda>r.
       case gob (case r of None \<Rightarrow> [] | Some pastBytes \<Rightarrow> pastBytes) of
         None \<Rightarrow> Inl (Panic ''gob'')
       | Some decodedMap \<Rightarrow> Inr decodedMap)"


section \<open>The crawl queue is a queue\<close>

lemma bolt_Put_laws:
  assumes "bolt_laws B" "bolt_Put B b k v d = Some d'"
  shows "bolt_Get B d' b' k' = (if b' = b \<and> k' = k then Some v else bolt_Get B d b' k')"
    and "bolt_Bucket B d' = bolt_Bucket B d" and "bolt_Sequence B d' = bolt_Sequence B d"
proof -
  have "put_law B" using assms(1) by (simp add: bolt_laws_def)
  note l = this [unfolded put_law_def, rule_format, OF assms(2)]
  show "bolt_Get B d' b' k' = (if b' = b \<and> k' = k then Some v else bolt_Get B d b' k')"
    using l [THEN conjunct1] by simp
  show "bolt_Bucket B d' = bolt_Bucket B d" "bolt_Sequence B d' = bolt_Sequence B d" using l by simp_all
qed

lemma bolt_Delete_laws:
  assumes "bolt_laws B" "bolt_Delete B b k d = Some d'"
  shows "bolt_Get B d' b' k' = (if b' = b \<and> k' = k then None else bolt_Get B d b' k')"
    and "bolt_Bucket B d' = bolt_Bucket B d" and "bolt_Sequence B d' = bolt_Sequence B d"
proof -
  have "delete_law B" using assms(1) by (simp add: bolt_laws_def)
  note l = this [unfolded delete_law_def, rule_format, OF assms(2)]
  show "bolt_Get B d' b' k' = (if b' = b \<and> k' = k then None else bolt_Get B d b' k')"
    using l [THEN conjunct1] by simp
  show "bolt_Bucket B d' = bolt_Bucket B d" "bolt_Sequence B d' = bolt_Sequence B d" using l by simp_all
qed

lemma bolt_Create_laws:
  assumes "bolt_laws B" "bolt_CreateBucketIfNotExists B b d = Some d'"
  shows "bolt_Bucket B d' b' \<longleftrightarrow> b' = b \<or> bolt_Bucket B d b'"
    and "b' \<noteq> b \<or> bolt_Bucket B d b \<Longrightarrow> bolt_Get B d' b' = bolt_Get B d b' \<and> bolt_Sequence B d' b' = bolt_Sequence B d b'"
    and "\<not> bolt_Bucket B d b \<Longrightarrow> bolt_Get B d' b k = None \<and> bolt_Sequence B d' b = 0"
proof -
  have "create_law B" using assms(1) by (simp add: bolt_laws_def)
  note l = this [unfolded create_law_def, THEN spec, THEN spec, THEN spec, THEN mp, OF assms(2)]
  show "bolt_Bucket B d' b' \<longleftrightarrow> b' = b \<or> bolt_Bucket B d b'" using l by blast
  show "b' \<noteq> b \<or> bolt_Bucket B d b \<Longrightarrow> bolt_Get B d' b' = bolt_Get B d b' \<and> bolt_Sequence B d' b' = bolt_Sequence B d b'"
    using l by blast
  show "\<not> bolt_Bucket B d b \<Longrightarrow> bolt_Get B d' b k = None \<and> bolt_Sequence B d' b = 0" using l by blast
qed

lemma bolt_NextSequence_laws:
  assumes "bolt_laws B" "bolt_NextSequence B b d = (d', n)" "bolt_Bucket B d b"
  shows "n = bolt_Sequence B d b + 1" "bolt_Sequence B d' = (bolt_Sequence B d)(b := n)"
    and "bolt_Get B d' = bolt_Get B d" "bolt_Bucket B d' = bolt_Bucket B d"
proof -
  have "sequence_law B" using assms(1) by (simp add: bolt_laws_def)
  note l = this [unfolded sequence_law_def, THEN spec, THEN spec, THEN spec, THEN spec, THEN mp, OF conjI [OF assms(2,3)]]
  show "n = bolt_Sequence B d b + 1" "bolt_Sequence B d' = (bolt_Sequence B d)(b := n)"
    "bolt_Get B d' = bolt_Get B d" "bolt_Bucket B d' = bolt_Bucket B d" using l by simp_all
qed

definition queue_index :: "'db bolt \<Rightarrow> (bytes \<Rightarrow> TypeID) \<Rightarrow> 'db \<Rightarrow> nat \<Rightarrow> bool" where
  "queue_index B sha512 db h \<longleftrightarrow>
     bolt_Get B db QueueIndexBucket (GenerateKeyHash sha512 queueCountID) = Some (Itob (of_nat h))"

definition link_at :: "'db bolt \<Rightarrow> (bytes \<Rightarrow> TypeID) \<Rightarrow> 'db \<Rightarrow> nat \<Rightarrow> bytes option" where
  "link_at B sha512 db i = bolt_Get B db CrawlQueueBucket (sha512 (Itob (of_nat i)))"

definition queue_end :: "'db bolt \<Rightarrow> 'db \<Rightarrow> nat" where
  "queue_end B db = unat (bolt_Sequence B db CrawlQueueBucket)"

text \<open>The links that are still to be visited, in order; the queue starts at index \<open>h\<close>.\<close>

definition pending :: "'db bolt \<Rightarrow> (bytes \<Rightarrow> TypeID) \<Rightarrow> 'db \<Rightarrow> nat \<Rightarrow> bytes list" where
  "pending B sha512 db h = map (the \<circ> link_at B sha512 db) [h..<queue_end B db]"

definition queue_inv :: "'db bolt \<Rightarrow> (bytes \<Rightarrow> TypeID) \<Rightarrow> 'db \<Rightarrow> nat \<Rightarrow> bool" where
  "queue_inv B sha512 db h \<longleftrightarrow>
     list_all (bolt_Bucket B db) buckets \<and> queue_index B sha512 db h \<and> h \<le> queue_end B db
     \<and> (\<forall>i. h \<le> i \<and> i < 2 ^ 64 \<longrightarrow> (link_at B sha512 db i \<noteq> None) = (i < queue_end B db))"

lemma Itob_inj: "Itob v = Itob w \<longleftrightarrow> v = w"
  by (metis id_num_Itob unsigned_word_eqI)

lemma queue_key_inj:
  assumes "inj (\<lambda>v. sha512 (Itob v))" "i < 2 ^ 64" "j < 2 ^ 64"
  shows "sha512 (Itob (of_nat i)) = sha512 (Itob (of_nat j)) \<longleftrightarrow> i = j"
proof
  assume "sha512 (Itob (of_nat i)) = sha512 (Itob (of_nat j))"
  then have "(of_nat i :: uint64) = of_nat j" using assms(1) by (auto dest: injD)
  then have "unat (of_nat i :: uint64) = unat (of_nat j :: uint64)" by simp
  then show "i = j" using assms(2,3) by (simp only: unat_of_nat64)
qed simp

lemma queue_end_less: "queue_end B db < 2 ^ 64"
  using unsigned_less [where 'a = nat, of "bolt_Sequence B db CrawlQueueBucket"] by (simp add: queue_end_def)

lemma bucket_neq [simp]:
  "CrawlQueueBucket \<noteq> KeywordsBucket" "QueueIndexBucket \<noteq> KeywordsBucket" "CrawlQueueBucket \<noteq> QueueIndexBucket"
  "QueueIndexBucket \<noteq> CrawlQueueBucket" "PastMapBucket \<noteq> KeywordsBucket"
  by (simp_all add: CrawlQueueBucket_def KeywordsBucket_def QueueIndexBucket_def PastMapBucket_def)

lemma queue_inv_buckets:
  "queue_inv B sha512 db h \<Longrightarrow> bolt_Bucket B db CrawlQueueBucket \<and> bolt_Bucket B db QueueIndexBucket"
  by (simp add: queue_inv_def buckets_def)

lemma Retrieve_plain:
  "b \<noteq> KeywordsBucket \<Longrightarrow> bolt_Bucket B db b \<Longrightarrow> Retrieve B kc db k b = Inr (bolt_Get B db b k)"
  by (simp add: Retrieve_def bucket_Get_def split: option.splits)

lemma queue_inv_less: "queue_inv B sha512 db h \<Longrightarrow> h < 2 ^ 64"
  using queue_end_less [of B db] unfolding queue_inv_def by linarith

lemma queue_inv_link:
  "queue_inv B sha512 db h \<Longrightarrow> h \<le> i \<Longrightarrow> i < 2 ^ 64 \<Longrightarrow> (\<exists>x. link_at B sha512 db i = Some x) \<longleftrightarrow> i < queue_end B db"
  by (simp add: queue_inv_def)

lemma UpdateCrawlQueue_refines:
  assumes "bolt_laws B" "inj (\<lambda>v. sha512 (Itob v))" "queue_inv B sha512 db h"
    and "UpdateCrawlQueue B sha512 data db = Inr (db', True)" "queue_end B db + 1 < 2 ^ 64"
  shows "queue_inv B sha512 db' h \<and> pending B sha512 db' h = pending B sha512 db h @ [data]
    \<and> queue_end B db' = queue_end B db + 1"
proof -
  obtain db1 n where n: "bolt_NextSequence B CrawlQueueBucket db = (db1, n)" by fastforce
  note seq = bolt_NextSequence_laws [OF assms(1) n queue_inv_buckets [OF assms(3), THEN conjunct1]]
  have p: "bolt_Put B CrawlQueueBucket (sha512 (Itob (n - 1))) data db1 = Some db'"
    using assms(4) n queue_inv_buckets [OF assms(3)] by (auto simp: UpdateCrawlQueue_def split: option.splits if_splits)
  note put = bolt_Put_laws [OF assms(1) p]
  have key: "n - 1 = of_nat (queue_end B db)" using seq(1) by (simp add: queue_end_def)
  have "unat n = queue_end B db + 1"
    using seq(1) assms(5) unat_of_nat64 [of "queue_end B db + 1"] by (simp add: queue_end_def add.commute)
  then have e: "queue_end B db' = queue_end B db + 1" by (simp add: queue_end_def put(3) seq(2))
  have l: "link_at B sha512 db' i = (if i = queue_end B db then Some data else link_at B sha512 db i)" if "i < 2 ^ 64" for i
    using queue_key_inj [OF assms(2) that queue_end_less [of B db]] by (simp add: link_at_def put(1) seq(3) key)
  have "queue_index B sha512 db' h" using assms(3) by (simp add: queue_inv_def queue_index_def put(1) seq(3))
  moreover have "pending B sha512 db' h = pending B sha512 db h @ [data]"
    using assms(3,5) l by (simp add: pending_def e queue_inv_def)
  ultimately show ?thesis
    using assms(3,5) l e by (auto simp: queue_inv_def put(2) seq(4) split: if_splits)
qed


lemma Put_result:
  assumes "bolt_Bucket B db b"
  shows "Put B k v b db = Inr (case bolt_Put B b k v db of None \<Rightarrow> (db, False) | Some db' \<Rightarrow> (db', True))"
  using assms by (simp add: Put_def bucket_Put_def)

lemma pending_Cons:
  "h < queue_end B db \<Longrightarrow> pending B sha512 db h = the (link_at B sha512 db h) # pending B sha512 db (h + 1)"
  by (simp add: pending_def upt_rec [of h])

text \<open>The result of \<open>CrawlQueueHead\<close> in a good state, when the write of the new index succeeds.\<close>

lemma CrawlQueueHead_result:
  assumes "queue_inv B sha512 db h"
  shows "CrawlQueueHead B sha512 kc db =
    (if h < queue_end B db then
       (case bolt_Put B QueueIndexBucket (GenerateKeyHash sha512 queueCountID) (Itob (of_nat (h + 1))) db of
          None \<Rightarrow> Inl (Fatal ''Error, updating queue head sequence number'')
        | Some db' \<Rightarrow> Inr (db', link_at B sha512 db h))
     else Inr (db, None))"
proof -
  have b: "bolt_Bucket B db CrawlQueueBucket" "bolt_Bucket B db QueueIndexBucket"
    using queue_inv_buckets [OF assms] by simp_all
  have "(link_at B sha512 db h \<noteq> None) = (h < queue_end B db)"
    using queue_inv_link [OF assms order.refl queue_inv_less [OF assms]] by auto
  then show ?thesis
    using assms b by (auto simp: CrawlQueueHead_def Let_def Retrieve_plain queue_inv_def queue_index_def link_at_def
        Put_result add.commute split: option.splits)
qed

lemma CrawlQueueHead_refines:
  assumes "bolt_laws B" "queue_inv B sha512 db h" "CrawlQueueHead B sha512 kc db = Inr (db', r)"
  shows "case r of
      None \<Rightarrow> db' = db \<and> pending B sha512 db h = []
    | Some x \<Rightarrow> queue_inv B sha512 db' (h + 1) \<and> pending B sha512 db h = x # pending B sha512 db' (h + 1)
        \<and> queue_end B db' = queue_end B db"
proof (cases "h < queue_end B db")
  case True
  then obtain x where x: "link_at B sha512 db h = Some x"
    using queue_inv_link [OF assms(2) order.refl queue_inv_less [OF assms(2)]] by blast
  obtain p: "bolt_Put B QueueIndexBucket (GenerateKeyHash sha512 queueCountID) (Itob (of_nat (h + 1))) db = Some db'"
    and r: "r = Some x"
    using assms(3) True x by (auto simp: CrawlQueueHead_result [OF assms(2)] split: option.splits)
  note put = bolt_Put_laws [OF assms(1) p]
  have same: "link_at B sha512 db' = link_at B sha512 db" "queue_end B db' = queue_end B db"
    by (simp_all add: fun_eq_iff link_at_def queue_end_def put)
  have "queue_inv B sha512 db' (h + 1)"
    using assms(2) True by (auto simp: queue_inv_def same put(2) queue_index_def put(1))
  moreover have "pending B sha512 db h = x # pending B sha512 db' (h + 1)"
    using pending_Cons [OF True] x by (simp add: pending_def same)
  ultimately show ?thesis by (simp add: r same)
next
  case False
  then show ?thesis using assms(3) by (simp add: CrawlQueueHead_result [OF assms(2)] pending_def)
qed

lemma CrawlQueueHeadPointer_result:
  assumes "queue_inv B sha512 db h"
  shows "CrawlQueueHeadPointer B sha512 kc db = Inr (of_nat h)"
  using assms queue_inv_buckets [OF assms]
  by (simp add: CrawlQueueHeadPointer_def Retrieve_plain queue_inv_def queue_index_def)

lemma DeleteCrawlQueueHead_refines:
  assumes "bolt_laws B" "inj (\<lambda>v. sha512 (Itob v))" "queue_inv B sha512 db h"
    and "queue_end B db + 1 < 2 ^ 64" "DeleteCrawlQueueHead B sha512 kc db = Inr (db', done)"
  shows "queue_inv B sha512 db' h \<and> pending B sha512 db' h = pending B sha512 db h \<and> queue_end B db' = queue_end B db"
proof -
  let ?i = "if h = 0 then 2 ^ 64 - 1 else h - 1"
  have hl: "h < 2 ^ 64" by (rule queue_inv_less [OF assms(3)])
  have i: "?i < 2 ^ 64" "(of_nat h :: uint64) - 1 = of_nat ?i" "?i < h \<or> queue_end B db < ?i" "?i \<noteq> h"
    using hl assms(4) by (auto simp: of_nat_diff)
  have r: "(case bolt_Delete B CrawlQueueBucket (sha512 (Itob (of_nat ?i))) db of None \<Rightarrow> (db, False) | Some d \<Rightarrow> (d, True)) = (db', done)"
    using assms(5) queue_inv_buckets [OF assms(3)] i(2)
    by (simp add: DeleteCrawlQueueHead_def CrawlQueueHeadPointer_result [OF assms(3)] Delete_def)
  show ?thesis
  proof (cases "bolt_Delete B CrawlQueueBucket (sha512 (Itob (of_nat ?i))) db")
    case None
    then show ?thesis using r assms(3) by simp
  next
    case (Some d)
    then have d: "d = db'" using r by simp
    note del = bolt_Delete_laws [OF assms(1) Some [unfolded d]]
    have l: "link_at B sha512 db' j = (if j = ?i then None else link_at B sha512 db j)" if "j < 2 ^ 64" for j
      using queue_key_inj [OF assms(2) that i(1)] by (simp only: link_at_def del(1)) simp
    have e: "queue_end B db' = queue_end B db" by (simp add: queue_end_def del)
    have "link_at B sha512 db' j = link_at B sha512 db j" if "h \<le> j" "j < queue_end B db" for j
      using l [of j] that i(3) queue_end_less [of B db] by auto
    then have "pending B sha512 db' h = pending B sha512 db h" by (auto simp: pending_def e)
    moreover have "queue_index B sha512 db' h" using assms(3) by (simp add: queue_inv_def queue_index_def del)
    moreover have "(link_at B sha512 db' j \<noteq> None) = (j < queue_end B db)" if "j < 2 ^ 64" "h \<le> j" for j
      using l [OF that(1)] assms(3) that i(3) by (auto simp: queue_inv_def)
    ultimately show ?thesis using assms(3) e by (auto simp: queue_inv_def del)
  qed
qed


lemma create_buckets_laws:
  assumes "bolt_laws B" "create_buckets B bs db = Inr db'"
  shows "(\<forall>b. bolt_Bucket B db' b \<longleftrightarrow> b \<in> set bs \<or> bolt_Bucket B db b)
    \<and> (\<forall>b. bolt_Bucket B db b \<longrightarrow> bolt_Get B db' b = bolt_Get B db b \<and> bolt_Sequence B db' b = bolt_Sequence B db b)
    \<and> (\<forall>b \<in> set bs. \<not> bolt_Bucket B db b \<longrightarrow> (\<forall>k. bolt_Get B db' b k = None) \<and> bolt_Sequence B db' b = 0)"
  using assms(2)
proof (induction bs arbitrary: db)
  case (Cons a bs)
  then obtain d where d: "bolt_CreateBucketIfNotExists B a db = Some d" and r: "create_buckets B bs d = Inr db'"
    by (auto split: option.splits)
  note c = bolt_Create_laws [OF assms(1) d] and IH = Cons.IH [OF r]
  have "bolt_Get B db' b = bolt_Get B db b \<and> bolt_Sequence B db' b = bolt_Sequence B db b" if "bolt_Bucket B db b" for b
    using that c(1,2) [of b] IH by metis
  moreover have "(\<forall>k. bolt_Get B db' b k = None) \<and> bolt_Sequence B db' b = 0" if "b \<in> set (a # bs)" "\<not> bolt_Bucket B db b" for b
    using that c(1) [of b] c(3) IH by (cases "b = a") auto
  ultimately show ?case using c(1) IH by auto
qed auto

lemma NewStorage_refines:
  assumes "bolt_laws B" "NewStorage B sha512 kc db = Inr db'"
  shows "(\<forall>b. \<not> bolt_Bucket B db b) \<Longrightarrow> queue_inv B sha512 db' 0 \<and> pending B sha512 db' 0 = [] \<and> queue_end B db' = 0"
    and "queue_inv B sha512 db h \<Longrightarrow> queue_inv B sha512 db' h \<and> pending B sha512 db' h = pending B sha512 db h
      \<and> queue_end B db' = queue_end B db"
proof -
  obtain d where d: "create_buckets B buckets db = Inr d"
    using assms(2) by (auto simp: NewStorage_def obind_Inr_iff)
  note c = create_buckets_laws [OF assms(1) d]
  have bs: "list_all (bolt_Bucket B d) buckets" using c by (simp add: list_all_iff)
  have q: "CrawlQueueBucket \<in> set buckets" "QueueIndexBucket \<in> set buckets" by (simp_all add: buckets_def)
  then have bi: "bolt_Bucket B d QueueIndexBucket" using c by simp
  let ?k = "GenerateKeyHash sha512 queueCountID"
  show "queue_inv B sha512 db' 0 \<and> pending B sha512 db' 0 = [] \<and> queue_end B db' = 0" if "\<forall>b. \<not> bolt_Bucket B db b"
  proof -
    have e: "bolt_Get B d QueueIndexBucket ?k = None" "bolt_Get B d CrawlQueueBucket k = None"
      "bolt_Sequence B d CrawlQueueBucket = 0" for k using c that q by auto
    then have p: "bolt_Put B QueueIndexBucket ?k (Itob 0) d = Some db'"
      using assms(2) d bi by (auto simp: NewStorage_def Retrieve_plain bucket_Put_def Let_def split: option.splits)
    note put = bolt_Put_laws [OF assms(1) p]
    show ?thesis using bs e by (simp add: queue_inv_def queue_index_def link_at_def queue_end_def pending_def put)
  qed
  show "queue_inv B sha512 db' h \<and> pending B sha512 db' h = pending B sha512 db h \<and> queue_end B db' = queue_end B db"
    if inv: "queue_inv B sha512 db h"
  proof -
    have s: "bolt_Get B d QueueIndexBucket = bolt_Get B db QueueIndexBucket"
      "bolt_Get B d CrawlQueueBucket = bolt_Get B db CrawlQueueBucket"
      "bolt_Sequence B d CrawlQueueBucket = bolt_Sequence B db CrawlQueueBucket"
      using c queue_inv_buckets [OF inv] by simp_all
    have "db' = d" using assms(2) d bi inv
      by (auto simp: NewStorage_def Retrieve_plain Let_def s queue_inv_def queue_index_def split: if_splits)
    then show ?thesis using inv bs by (simp add: queue_inv_def queue_index_def link_at_def queue_end_def pending_def comp_def s)
  qed
qed

section \<open>Runs of the crawler on the queue\<close>

text \<open>
  What the crawler does with the queue: new links are added, the head is taken when a page is
  finished, and the entry of the page before is deleted; the node may be restarted at any moment.
  The result has the links that were added and those that were taken.
\<close>

datatype queue_op = Enqueue bytes | Dequeue | DropHead | Restart

fun crawl_ops :: "'db bolt \<Rightarrow> (bytes \<Rightarrow> TypeID) \<Rightarrow> keyword_codec \<Rightarrow> queue_op list \<Rightarrow> 'db
    \<Rightarrow> ('db \<times> bytes list \<times> bytes list) outcome" where
  "crawl_ops B sha512 kc [] db = Inr (db, [], [])"
| "crawl_ops B sha512 kc (Enqueue x # ops) db =
     obind (UpdateCrawlQueue B sha512 x db) (\<lambda>(db, added).
     obind (crawl_ops B sha512 kc ops db) (\<lambda>(db, xs, ys). Inr (db, if added then x # xs else xs, ys)))"
| "crawl_ops B sha512 kc (Dequeue # ops) db =
     obind (CrawlQueueHead B sha512 kc db) (\<lambda>(db, r).
     obind (crawl_ops B sha512 kc ops db) (\<lambda>(db, xs, ys). Inr (db, xs, case r of None \<Rightarrow> ys | Some y \<Rightarrow> y # ys)))"
| "crawl_ops B sha512 kc (DropHead # ops) db =
     obind (DeleteCrawlQueueHead B sha512 kc db) (\<lambda>(db, _). crawl_ops B sha512 kc ops db)"
| "crawl_ops B sha512 kc (Restart # ops) db =
     obind (NewStorage B sha512 kc db) (\<lambda>db. crawl_ops B sha512 kc ops db)"

lemma UpdateCrawlQueue_failed: "UpdateCrawlQueue B sha512 x db = Inr (db', False) \<Longrightarrow> db' = db"
  by (auto simp: UpdateCrawlQueue_def split: if_splits option.splits prod.splits)

lemma crawl_ops_fifo:
  assumes "bolt_laws B" "inj (\<lambda>v. sha512 (Itob v))" "queue_inv B sha512 db h"
    and "queue_end B db + length ops + 1 < 2 ^ 64" "crawl_ops B sha512 kc ops db = Inr (db', xs, ys)"
  shows "\<exists>h'. queue_inv B sha512 db' h' \<and> pending B sha512 db h @ xs = ys @ pending B sha512 db' h'"
  using assms(3-5)
proof (induction ops arbitrary: db h xs ys)
  case (Cons op ops)
  show ?case
  proof (cases op)
    case (Enqueue x)
    obtain d added xs1 where u: "UpdateCrawlQueue B sha512 x db = Inr (d, added)"
      and r: "crawl_ops B sha512 kc ops d = Inr (db', xs1, ys)" and xs: "xs = (if added then x # xs1 else xs1)"
      using Cons.prems(3) by (auto simp: Enqueue obind_Inr_iff)
    show ?thesis
    proof (cases added)
      case True
      have "queue_end B db + 1 < 2 ^ 64" using Cons.prems(2) by simp
      moreover have "UpdateCrawlQueue B sha512 x db = Inr (d, True)" using u True by simp
      ultimately have s: "queue_inv B sha512 d h \<and> pending B sha512 d h = pending B sha512 db h @ [x]
          \<and> queue_end B d = queue_end B db + 1"
        using UpdateCrawlQueue_refines [OF assms(1,2) Cons.prems(1)] by blast
      show ?thesis using Cons.IH [of d h, OF _ _ r] s Cons.prems(2) by (simp add: xs True)
    next
      case False
      then have "d = db" using u by (simp add: UpdateCrawlQueue_failed)
      then show ?thesis using Cons.IH [OF Cons.prems(1) _ r [unfolded \<open>d = db\<close>]] Cons.prems(2) by (simp add: xs False)
    qed
  next
    case Dequeue
    obtain d x ys1 where u: "CrawlQueueHead B sha512 kc db = Inr (d, x)"
      and r: "crawl_ops B sha512 kc ops d = Inr (db', xs, ys1)" and ys: "ys = (case x of None \<Rightarrow> ys1 | Some y \<Rightarrow> y # ys1)"
      using Cons.prems(3) by (auto simp: Dequeue obind_Inr_iff)
    note s = CrawlQueueHead_refines [OF assms(1) Cons.prems(1) u]
    show ?thesis using s Cons.IH [of d h, OF _ _ r] Cons.IH [of d "h + 1", OF _ _ r] Cons.prems(1,2)
      by (cases x) (auto simp: ys)
  next
    case DropHead
    obtain d b where u: "DeleteCrawlQueueHead B sha512 kc db = Inr (d, b)"
      and r: "crawl_ops B sha512 kc ops d = Inr (db', xs, ys)"
      using Cons.prems(3) by (auto simp: DropHead obind_Inr_iff)
    have "queue_end B db + 1 < 2 ^ 64" using Cons.prems(2) by simp
    note s = DeleteCrawlQueueHead_refines [OF assms(1,2) Cons.prems(1) this u]
    show ?thesis using s Cons.IH [of d h, OF _ _ r] Cons.prems(2) by simp
  next
    case Restart
    obtain d where u: "NewStorage B sha512 kc db = Inr d" and r: "crawl_ops B sha512 kc ops d = Inr (db', xs, ys)"
      using Cons.prems(3) by (auto simp: Restart obind_Inr_iff)
    note s = NewStorage_refines(2) [OF assms(1) u Cons.prems(1)]
    show ?thesis using s Cons.IH [of d h, OF _ _ r] Cons.prems(2) by simp
  qed
qed auto


section \<open>Keywords\<close>

text \<open>Protobuf gives back what it was given; an empty map may come back as nil.\<close>

definition codec_ok :: "keyword_codec \<Rightarrow> bool" where
  "codec_ok kc \<longleftrightarrow> (\<forall>m e. kc_Encode kc m = Some e \<longrightarrow>
     (\<exists>m'. kc_Decode kc e = Some m' \<and> kum_Keyword m' = kum_Keyword m
        \<and> gm_load (link_list (kum_LinkData m')) = gm_load (link_list (kum_LinkData m))))"

text \<open>The links stored for a keyword: the frequency for each page.\<close>

definition keyword_links :: "'db bolt \<Rightarrow> (bytes \<Rightarrow> TypeID) \<Rightarrow> keyword_codec \<Rightarrow> 'db \<Rightarrow> string \<Rightarrow> string \<Rightarrow> int option" where
  "keyword_links B sha512 kc db kw =
     (case bolt_Get B db KeywordsBucket (GenerateKeyHash sha512 kw) of
        None \<Rightarrow> Map.empty
      | Some data \<Rightarrow> (case kc_Decode kc data of None \<Rightarrow> Map.empty | Some m \<Rightarrow> gm_load (link_list (kum_LinkData m))))"

definition merge_links :: "string \<Rightarrow> KeywordToURLMap list \<Rightarrow> (string \<Rightarrow> int option) \<Rightarrow> string \<Rightarrow> int option" where
  "merge_links kw = fold (\<lambda>new m. if kum_Keyword new = kw then m ++ gm_load (link_list (kum_LinkData new)) else m)"

lemma gm_load_Cons: "gm_load ((a, b) # m) k = (if k = a then Some b else gm_load m k)"
  by (simp add: gm_load_def)

lemma fold_store_links:
  assumes "gm_wf new"
  shows "gm_load (fold (\<lambda>(k, v). gm_store k v) new m) = gm_load m ++ gm_load new"
  using assms
proof (induction new arbitrary: m)
  case (Cons e new)
  obtain a b where e: "e = (a, b)" by (cases e)
  have n: "gm_load new a = None" and wf: "gm_wf new" using Cons.prems e by (auto simp: gm_wf_def gm_load_None_iff)
  show ?case
    using n by (simp add: e Cons.IH [OF wf] fun_eq_iff map_add_def gm_load_Cons gm.load_store split: option.splits)
qed (simp add: gm_load_def map_add_def fun_eq_iff)

lemma set_links_load:
  assumes "set_links new old = Inr m" "gm_wf (link_list new)"
  shows "gm_load (link_list m) = gm_load (link_list old) ++ gm_load (link_list new)"
proof -
  have e: "m ++ gm_load [] = m" "gm_load [] ++ m = m" for m :: "string \<Rightarrow> int option"
    by (simp_all add: gm_load_def map_add_def fun_eq_iff split: option.split)
  show ?thesis
    using assms unfolding set_links_def by (cases old; cases new) (auto simp: fold_store_links link_list_def e split: if_splits)
qed

lemma merged_entry_links:
  assumes "merged_entry kc new data = Inr m" "gm_wf (link_list (kum_LinkData new))"
  shows "gm_load (link_list (kum_LinkData m)) =
    (case data of None \<Rightarrow> Map.empty
     | Some d \<Rightarrow> (case kc_Decode kc d of None \<Rightarrow> Map.empty | Some old \<Rightarrow> gm_load (link_list (kum_LinkData old))))
    ++ gm_load (link_list (kum_LinkData new))"
  using assms by (auto simp: merged_entry_def obind_Inr_iff set_links_load split: option.splits)

lemma add_links_merges:
  assumes "bolt_laws B" "codec_ok kc" "\<forall>k v d. bolt_Bucket B d KeywordsBucket \<longrightarrow> bolt_Put B KeywordsBucket k v d \<noteq> None"
    and "\<forall>m \<in> set urlMaps. gm_wf (link_list (kum_LinkData m))
      \<and> (GenerateKeyHash sha512 (kum_Keyword m) = GenerateKeyHash sha512 kw \<longrightarrow> kum_Keyword m = kw)"
    and "add_links B sha512 kc urlMaps db = Inr db'"
  shows "keyword_links B sha512 kc db' kw = merge_links kw urlMaps (keyword_links B sha512 kc db kw)"
  using assms(4,5)
proof (induction urlMaps arbitrary: db)
  case (Cons new urlMaps)
  let ?k = "GenerateKeyHash sha512 (kum_Keyword new)"
  have b: "bolt_Bucket B db KeywordsBucket" using Cons.prems(2) by (auto simp: bucket_Get_def Let_def split: if_splits)
  then obtain m data where m: "merged_entry kc new (bolt_Get B db KeywordsBucket ?k) = Inr m"
    and data: "kc_Encode kc m = Some data"
    and r0: "add_links B sha512 kc urlMaps (case bolt_Put B KeywordsBucket ?k data db of None \<Rightarrow> db | Some d \<Rightarrow> d) = Inr db'"
    using Cons.prems(2) by (auto simp: bucket_Get_def bucket_Put_def Let_def obind_Inr_iff split: option.splits)
  obtain d where p: "bolt_Put B KeywordsBucket ?k data db = Some d"
    using assms(3) b by fast
  then have r: "add_links B sha512 kc urlMaps d = Inr db'" using r0 by simp
  note put = bolt_Put_laws [OF assms(1) p]
  obtain m' where m': "kc_Decode kc data = Some m'" "gm_load (link_list (kum_LinkData m')) = gm_load (link_list (kum_LinkData m))"
    using assms(2) data by (auto simp: codec_ok_def)
  have "gm_load (link_list (kum_LinkData m)) =
      keyword_links B sha512 kc db (kum_Keyword new) ++ gm_load (link_list (kum_LinkData new))"
    using merged_entry_links [OF m] Cons.prems(1) by (simp add: keyword_links_def)
  then have "keyword_links B sha512 kc d kw =
      (if kum_Keyword new = kw then keyword_links B sha512 kc db kw ++ gm_load (link_list (kum_LinkData new))
       else keyword_links B sha512 kc db kw)"
    using Cons.prems(1) m' put(1) by (auto simp: keyword_links_def)
  then show ?case using Cons.IH [OF _ r] Cons.prems(1) by (simp add: merge_links_def)
qed (simp add: merge_links_def)

text \<open>The answer for the links that were kept.\<close>

definition answer_for :: "keyword_codec \<Rightarrow> string \<Rightarrow> (string \<times> int) list \<Rightarrow> bytes \<Rightarrow> bool" where
  "answer_for kc keyword kept data =
     (if kept = [] then data = []
      else kc_Encode kc \<lparr>kum_Keyword = keyword, kum_LinkData = Some (fold (\<lambda>(k, v). gm_store k v) kept [])\<rparr> = Some data)"

lemma pack_links_greedy:
  assumes "pack_links kc keyword ds (fold (\<lambda>(k, v). gm_store k v) before []) data = Inr r" "answer_for kc keyword before data"
  shows "\<exists>kept dropped. ds = kept @ dropped \<and> answer_for kc keyword (before @ kept) r
    \<and> (\<forall>xs url f ys. kept = xs @ (url, f) # ys \<longrightarrow>
          (\<exists>d. answer_for kc keyword (before @ xs) d \<and> length d + length url + 100 \<le> maxSize))
    \<and> (\<forall>url f ys. dropped = (url, f) # ys \<longrightarrow> maxSize < length r + length url + 100)"
  using assms
proof (induction ds arbitrary: before data)
  case Nil
  then show ?case by simp
next
  case (Cons d ds)
  obtain url f where d: "d = (url, f)" by (cases d)
  show ?case
  proof (cases "length data + length url + 100 > maxSize")
    case True
    then show ?thesis using Cons.prems by (intro exI [of _ "[]"] exI [of _ "d # ds"]) (simp add: d)
  next
    case False
    let ?m = "fold (\<lambda>(k, v). gm_store k v) (before @ [d]) []"
    obtain e where e: "kc_Encode kc \<lparr>kum_Keyword = keyword, kum_LinkData = Some ?m\<rparr> = Some e"
      and r: "pack_links kc keyword ds ?m e = Inr r"
      using Cons.prems(1) False by (auto simp: d Let_def split: option.splits)
    have "answer_for kc keyword (before @ [d]) e" using e by (simp add: answer_for_def)
    from Cons.IH [OF r this] obtain kept dropped where k: "ds = kept @ dropped" "answer_for kc keyword ((before @ [d]) @ kept) r"
      "\<And>xs url f ys. kept = xs @ (url, f) # ys \<Longrightarrow>
          (\<exists>e. answer_for kc keyword ((before @ [d]) @ xs) e \<and> length e + length url + 100 \<le> maxSize)"
      "\<forall>url f ys. dropped = (url, f) # ys \<longrightarrow> maxSize < length r + length url + 100" by metis
    have "\<exists>e. answer_for kc keyword (before @ xs) e \<and> length e + length u + 100 \<le> maxSize" if "d # kept = xs @ (u, f') # ys" for xs u f' ys
    proof (cases xs)
      case Nil
      then show ?thesis using that False Cons.prems(2) by (auto simp: d)
    next
      case (Cons x xs')
      then show ?thesis using that k(3) [of xs' u f' ys] by simp
    qed
    then show ?thesis using k by (intro exI [of _ "d # kept"] exI [of _ dropped]) simp
  qed
qed

text \<open>Each link adds at most its page's name and 100 bytes to the encoding.\<close>

definition small_entries :: "keyword_codec \<Rightarrow> string \<Rightarrow> bool" where
  "small_entries kc keyword \<longleftrightarrow> (\<forall>kept url f d d'. answer_for kc keyword kept d \<longrightarrow> answer_for kc keyword (kept @ [(url, f)]) d' \<longrightarrow>
     length d' \<le> length d + length url + 100)"

section \<open>Properties\<close>

text \<open>A database in memory, for the examples.\<close>

type_synonym mem_db = "(string, uint64 \<times> (bytes, bytes) gomap) gomap"

definition mem_bolt :: "mem_db bolt" where
  "mem_bolt = \<lparr>bolt_CreateBucketIfNotExists = (\<lambda>b d. Some (case gm_load d b of None \<Rightarrow> gm_store b (0, []) d | Some _ \<Rightarrow> d)),
     bolt_Bucket = (\<lambda>d b. \<not> Option.is_none (gm_load d b)),
     bolt_Get = (\<lambda>d b k. case gm_load d b of None \<Rightarrow> None | Some (_, m) \<Rightarrow> gm_load m k),
     bolt_Put = (\<lambda>b k v d. case gm_load d b of None \<Rightarrow> None | Some (s, m) \<Rightarrow> Some (gm_store b (s, gm_store k v m) d)),
     bolt_Delete = (\<lambda>b k d. case gm_load d b of None \<Rightarrow> None | Some (s, m) \<Rightarrow> Some (gm_store b (s, gm_delete k m) d)),
     bolt_Sequence = (\<lambda>d b. case gm_load d b of None \<Rightarrow> 0 | Some (s, _) \<Rightarrow> s),
     bolt_NextSequence = (\<lambda>b d. case gm_load d b of None \<Rightarrow> (d, 0) | Some (s, m) \<Rightarrow> (gm_store b (s + 1, m) d, s + 1))\<rparr>"

lemma mem_bolt_put: "put_law mem_bolt"
  unfolding put_law_def
proof (intro allI impI)
  fix d b k v d' assume "bolt_Put mem_bolt b k v d = Some d'"
  then obtain s m where "gm_load d b = Some (s, m)" "d' = gm_store b (s, gm_store k v m) d"
    by (auto simp: mem_bolt_def split: option.splits)
  then show "(\<forall>b' k'. bolt_Get mem_bolt d' b' k' = (if b' = b \<and> k' = k then Some v else bolt_Get mem_bolt d b' k'))
      \<and> bolt_Bucket mem_bolt d' = bolt_Bucket mem_bolt d \<and> bolt_Sequence mem_bolt d' = bolt_Sequence mem_bolt d"
    by (simp add: mem_bolt_def fun_eq_iff gm.load_store)
qed

lemma mem_bolt_delete: "delete_law mem_bolt"
  unfolding delete_law_def
proof (intro allI impI)
  fix d b k d' assume "bolt_Delete mem_bolt b k d = Some d'"
  then obtain s m where "gm_load d b = Some (s, m)" "d' = gm_store b (s, gm_delete k m) d"
    by (auto simp: mem_bolt_def split: option.splits)
  then show "(\<forall>b' k'. bolt_Get mem_bolt d' b' k' = (if b' = b \<and> k' = k then None else bolt_Get mem_bolt d b' k'))
      \<and> bolt_Bucket mem_bolt d' = bolt_Bucket mem_bolt d \<and> bolt_Sequence mem_bolt d' = bolt_Sequence mem_bolt d"
    by (simp add: mem_bolt_def fun_eq_iff gm.load_store)
qed

lemma mem_bolt_create: "create_law mem_bolt"
  unfolding create_law_def
proof (intro allI impI)
  fix d b d' assume "bolt_CreateBucketIfNotExists mem_bolt b d = Some d'"
  then have "d' = (case gm_load d b of None \<Rightarrow> gm_store b (0, []) d | Some _ \<Rightarrow> d)" by (simp add: mem_bolt_def)
  then show "(\<forall>b'. bolt_Bucket mem_bolt d' b' = (b' = b \<or> bolt_Bucket mem_bolt d b'))
      \<and> (\<forall>b'. b' \<noteq> b \<or> bolt_Bucket mem_bolt d b \<longrightarrow>
           bolt_Get mem_bolt d' b' = bolt_Get mem_bolt d b' \<and> bolt_Sequence mem_bolt d' b' = bolt_Sequence mem_bolt d b')
      \<and> (\<not> bolt_Bucket mem_bolt d b \<longrightarrow> (\<forall>k. bolt_Get mem_bolt d' b k = None) \<and> bolt_Sequence mem_bolt d' b = 0)"
    by (cases "gm_load d b") (auto simp: mem_bolt_def gm.load_store gm.load_empty)
qed

lemma mem_bolt_sequence: "sequence_law mem_bolt"
  unfolding sequence_law_def
proof (intro allI impI)
  fix d b d' n assume "bolt_NextSequence mem_bolt b d = (d', n) \<and> bolt_Bucket mem_bolt d b"
  then obtain s m where "gm_load d b = Some (s, m)" "d' = gm_store b (s + 1, m) d" "n = s + 1"
    by (auto simp: mem_bolt_def Option.is_none_def split: option.splits)
  then show "n = bolt_Sequence mem_bolt d b + 1 \<and> bolt_Sequence mem_bolt d' = (bolt_Sequence mem_bolt d)(b := n)
      \<and> bolt_Get mem_bolt d' = bolt_Get mem_bolt d \<and> bolt_Bucket mem_bolt d' = bolt_Bucket mem_bolt d"
    by (simp add: mem_bolt_def fun_eq_iff gm.load_store)
qed

lemma mem_bolt_laws: "bolt_laws mem_bolt"
  by (simp add: bolt_laws_def mem_bolt_put mem_bolt_delete mem_bolt_create mem_bolt_sequence)

lemma fold_store_Nil: "fold (\<lambda>(k, v). gm_store k v) ds m = [] \<longleftrightarrow> ds = [] \<and> m = []"
proof (induction ds arbitrary: m)
  case (Cons d ds)
  obtain k v where d: "d = (k, v)" by (cases d)
  have "gm_store k v m \<noteq> []" using gm.load_store [of k v m k] by (auto simp: gm_load_def)
  then show ?case by (simp add: Cons.IH d)
qed simp

text \<open>C12: the crawl queue is first in, first out, and nothing is lost or visited twice: in any run on a
  fresh database of additions, removals of the head, deletions of the entry before the head and
  restarts of the node, the links added are those taken, in order, followed by those still
  pending.\<close>

theorem crawl_queue_fifo:
  assumes "bolt_laws B" "inj (\<lambda>v. sha512 (Itob v))" "\<forall>b. \<not> bolt_Bucket B db b"
    and "length ops + 1 < 2 ^ 64" "crawl_ops B sha512 kc (Restart # ops) db = Inr (db', added, taken)"
  shows "\<exists>h. queue_inv B sha512 db' h \<and> added = taken @ pending B sha512 db' h"
proof -
  obtain d where n: "NewStorage B sha512 kc db = Inr d" and r: "crawl_ops B sha512 kc ops d = Inr (db', added, taken)"
    using assms(5) by (auto simp: obind_Inr_iff)
  have q: "queue_inv B sha512 d 0" "pending B sha512 d 0 = []" "queue_end B d = 0"
    using NewStorage_refines(1) [OF assms(1) n assms(3)] by simp_all
  then show ?thesis using crawl_ops_fifo [OF assms(1,2) q(1) _ r] assms(4) by simp
qed

definition example_codec :: keyword_codec where
  "example_codec = \<lparr>kc_Encode = (\<lambda>_. None), kc_Decode = (\<lambda>_. None), kc_Slice = id\<rparr>"

lemmas bucket_names = KeywordsBucket_def LinksBucket_def PageHashBucket_def CrawlQueueBucket_def QueueIndexBucket_def
  CitationsBucket_def PageRankBucket_def PastMapBucket_def

lemmas queue_defs = bucket_names NewStorage_def buckets_def Retrieve_def bucket_Get_def bucket_Put_def Put_def Delete_def
  UpdateCrawlQueue_def CrawlQueueHead_def DeleteCrawlQueueHead_def CrawlQueueHeadPointer_def Let_def

theorem crawl_queue_fifo_witness:
  "\<exists>db'. crawl_ops mem_bolt id example_codec
      [Restart, Enqueue [1], Enqueue [2], Dequeue, DropHead] []
      = Inr (db', [[1], [2]], [[1]])
    \<and> (\<exists>h. queue_inv mem_bolt id db' h \<and> [[1], [2]] = [[1]] @ pending mem_bolt id db' h)"
proof -
  let ?ops = "[Enqueue [1], Enqueue [2], Dequeue, DropHead]"
  have "map_sum id snd (crawl_ops mem_bolt id example_codec (Restart # ?ops) []) = Inr ([[1], [2]], [[1]])"
    by (simp add: queue_defs mem_bolt_def gm_load_def gm_store_def gm_delete_def Itob_inj)
  then obtain db' where r: "crawl_ops mem_bolt id example_codec (Restart # ?ops) [] = Inr (db', [[1], [2]], [[1]])"
    by (cases "crawl_ops mem_bolt id example_codec (Restart # ?ops) []") auto
  have "inj (\<lambda>v. id (Itob v))" by (simp add: inj_def Itob_inj)
  then show ?thesis using r crawl_queue_fifo [OF mem_bolt_laws _ _ _ r] by (auto simp: mem_bolt_def gm.load_empty)
qed

text \<open>C25: storing keywords keeps every page and frequency: after \<open>BulkAddLinksForKeyword\<close> the links of
  a keyword are the old ones updated by each new entry for it, in order.\<close>

theorem keyword_links_merged:
  assumes "bolt_laws B" "codec_ok kc" "\<forall>k v d. bolt_Bucket B d KeywordsBucket \<longrightarrow> bolt_Put B KeywordsBucket k v d \<noteq> None"
    and "\<forall>m \<in> set urlMaps. gm_wf (link_list (kum_LinkData m))
      \<and> (GenerateKeyHash sha512 (kum_Keyword m) = GenerateKeyHash sha512 kw \<longrightarrow> kum_Keyword m = kw)"
    and "BulkAddLinksForKeyword B sha512 kc urlMaps db = Inr (db', stored)"
  shows "stored \<and> keyword_links B sha512 kc db' kw = merge_links kw urlMaps (keyword_links B sha512 kc db kw)"
  using add_links_merges [OF assms(1-4)] assms(5) by (auto simp: BulkAddLinksForKeyword_def obind_Inr_iff)

definition example_links :: "(string \<times> int) list \<Rightarrow> KeywordToURLMap" where
  "example_links kvs = \<lparr>kum_Keyword = ''graph'', kum_LinkData = Some kvs\<rparr>"

definition example_links_codec :: keyword_codec where
  "example_links_codec = \<lparr>kc_Encode = (\<lambda>m. if m = example_links [(''a'', 5)] then Some [1]
       else if m = example_links [(''a'', 5), (''b'', 3)] then Some [2] else None),
     kc_Decode = (\<lambda>e. if e = [1] then Some (example_links [(''a'', 5)])
       else if e = [2] then Some (example_links [(''a'', 5), (''b'', 3)]) else None), kc_Slice = id\<rparr>"

theorem keyword_links_merged_witness:
  "\<exists>db'. BulkAddLinksForKeyword mem_bolt id example_links_codec
      [example_links [(''a'', 5)], example_links [(''b'', 3)]] [(KeywordsBucket, 0, [])] = Inr (db', True)
    \<and> keyword_links mem_bolt id example_links_codec db' ''graph'' ''a'' = Some 5
    \<and> keyword_links mem_bolt id example_links_codec db' ''graph'' ''b'' = Some 3"
proof -
  let ?ms = "[example_links [(''a'', 5)], example_links [(''b'', 3)]]"
  let ?db = "[(KeywordsBucket, 0, [])] :: mem_db"
  have c: "codec_ok example_links_codec" by (auto simp: codec_ok_def example_links_codec_def split: if_splits)
  have p: "\<forall>k v d. bolt_Bucket mem_bolt d KeywordsBucket \<longrightarrow> bolt_Put mem_bolt KeywordsBucket k v d \<noteq> None"
    by (auto simp: mem_bolt_def Option.is_none_def split: option.splits)
  have h: "\<forall>m \<in> set ?ms. gm_wf (link_list (kum_LinkData m))
      \<and> (GenerateKeyHash id (kum_Keyword m) = GenerateKeyHash id ''graph'' \<longrightarrow> kum_Keyword m = ''graph'')"
    by (simp add: example_links_def link_list_def gm_wf_def)
  have "\<exists>db'. BulkAddLinksForKeyword mem_bolt id example_links_codec ?ms ?db = Inr (db', True)"
    by (simp add: BulkAddLinksForKeyword_def bucket_Get_def bucket_Put_def mem_bolt_def merged_entry_def set_links_def
        example_links_codec_def example_links_def link_list_def gm_load_def gm_store_def Let_def)
  then obtain db' where r: "BulkAddLinksForKeyword mem_bolt id example_links_codec ?ms ?db = Inr (db', True)" by blast
  have "keyword_links mem_bolt id example_links_codec ?db ''graph'' = Map.empty"
    by (simp add: keyword_links_def mem_bolt_def gm_load_def)
  then show ?thesis using keyword_links_merged [OF mem_bolt_laws c p h r] r
    by (simp add: merge_links_def example_links_def link_list_def gm_load_def map_add_def)
qed

text \<open>C29: how an answer for a keyword is cut to a packet: an entry of at most 7500 bytes is returned as it is
  stored.  Of a longer one, the answer keeps the most frequent links, taken in that order as long as the
  answer so far, the name of the next page and 100 bytes are together at most 7500 bytes, and stops at the
  first one that does not fit: no link that is left out is more frequent than one that is kept.  So the
  answer has at most 7500 bytes if a link adds at most its name and 100 bytes to the encoding.\<close>

theorem keyword_answer_bounded:
  assumes "Retrieve B kc db key KeywordsBucket = Inr (Some r)" "bolt_Get B db KeywordsBucket key = Some data"
    and "kc_Decode kc data = Some m"
    and "\<And>ds. mset (kc_Slice kc ds) = mset ds" "\<And>ds. sorted_wrt (\<lambda>(_, f) (_, f'). f \<ge> f') (kc_Slice kc ds)"
  shows "if length data \<le> maxSize then r = data
     else \<exists>kept dropped. mset (kept @ dropped) = mset (link_list (kum_LinkData m))
       \<and> (\<forall>(_, f) \<in> set kept. \<forall>(_, f') \<in> set dropped. f' \<le> f)
       \<and> answer_for kc (kum_Keyword m) kept r
       \<and> (\<forall>before url f after. kept = before @ (url, f) # after \<longrightarrow>
            (\<exists>d. answer_for kc (kum_Keyword m) before d \<and> length d + length url + 100 \<le> maxSize))
       \<and> (\<forall>url f after. dropped = (url, f) # after \<longrightarrow> maxSize < length r + length url + 100)
       \<and> (small_entries kc (kum_Keyword m) \<longrightarrow> length r \<le> maxSize)"
proof (cases "length data \<le> maxSize")
  case True
  then show ?thesis using assms(1,2) by (auto simp: Retrieve_def bucket_Get_def split: if_splits)
next
  case False
  let ?ds = "kc_Slice kc (link_list (kum_LinkData m))" and ?kw = "kum_Keyword m"
  have "pack_links kc ?kw ?ds (fold (\<lambda>(k, v). gm_store k v) [] []) [] = Inr r"
    using False assms(1-3) by (auto simp: Retrieve_def bucket_Get_def obind_Inr_iff split: if_splits)
  from pack_links_greedy [OF this] obtain kept dropped where k: "?ds = kept @ dropped" "answer_for kc ?kw kept r"
    "\<forall>xs url f ys. kept = xs @ (url, f) # ys \<longrightarrow> (\<exists>d. answer_for kc ?kw xs d \<and> length d + length url + 100 \<le> maxSize)"
    "\<forall>url f ys. dropped = (url, f) # ys \<longrightarrow> maxSize < length r + length url + 100" by (auto simp: answer_for_def [of _ _ "[]"])
  have m: "mset (kept @ dropped) = mset (link_list (kum_LinkData m))" unfolding k(1) [symmetric] by (rule assms(4))
  have "sorted_wrt (\<lambda>(_, f) (_, f'). f \<ge> f') (kept @ dropped)" unfolding k(1) [symmetric] by (rule assms(5))
  then have f: "\<forall>(_, f) \<in> set kept. \<forall>(_, f') \<in> set dropped. f' \<le> f" unfolding sorted_wrt_append by fast
  have "length r \<le> maxSize" if "small_entries kc ?kw"
  proof (cases kept rule: rev_cases)
    case Nil
    then show ?thesis using k(2) by (simp add: answer_for_def)
  next
    case (snoc xs x)
    obtain url g where x: "x = (url, g)" by (cases x)
    obtain d where d: "answer_for kc ?kw xs d" "length d + length url + 100 \<le> maxSize" using k(3) snoc x by blast
    have "length r \<le> length d + length url + 100"
      using that [unfolded small_entries_def, rule_format, OF d(1), of url g r] k(2) snoc x by simp
    then show ?thesis using d(2) by simp
  qed
  then show ?thesis unfolding if_not_P [OF False] using k(2-4) m f by blast
qed

definition names_codec :: keyword_codec where
  "names_codec = \<lparr>kc_Encode = (\<lambda>m. Some (concat (map (\<lambda>(url, _). string_bytes url) (link_list (kum_LinkData m))))),
     kc_Decode = (\<lambda>_. Some (example_links [(''a'', 5), (''b'', 3)])), kc_Slice = sort_key (\<lambda>(_, f). - f)\<rparr>"

lemma names_codec_small: "small_entries names_codec keyword"
proof -
  have "length (concat (map (\<lambda>(url, _). string_bytes url) (gm_store u f m)))
      \<le> length (concat (map (\<lambda>(url, _). string_bytes url) m)) + length u" for u f and m :: "(string, int) gomap"
    unfolding gm_store_def by (induction m) (auto simp: string_bytes_def)
  then show ?thesis
    by (auto simp: small_entries_def answer_for_def names_codec_def link_list_def trans_le_add1 gm_store_def string_bytes_def)
qed

lemma names_codec_sort:
  "mset (kc_Slice names_codec ds) = mset ds" "sorted_wrt (\<lambda>(_, f) (_, f'). f \<ge> f') (kc_Slice names_codec ds)"
proof -
  show "mset (kc_Slice names_codec ds) = mset ds" by (simp add: names_codec_def)
  have "sorted_wrt (\<lambda>x y. - snd x \<le> - snd y) (sort_key (\<lambda>(_, f). - f) ds)"
    using sorted_sort_key [of "\<lambda>(_, f). - f" ds] by (simp add: sorted_map case_prod_beta)
  then show "sorted_wrt (\<lambda>(_, f) (_, f'). f \<ge> f') (kc_Slice names_codec ds)"
    unfolding names_codec_def keyword_codec.simps by (rule sorted_wrt_mono_rel [rotated]) auto
qed

theorem keyword_answer_bounded_witness:
  "\<exists>r. Retrieve mem_bolt names_codec [(KeywordsBucket, 0, [([7], replicate 7501 0)])] [7] KeywordsBucket = Inr (Some r)
    \<and> length r \<le> maxSize"
proof -
  let ?db = "[(KeywordsBucket, 0, [([7], replicate 7501 0)])] :: mem_db"
  have g: "bolt_Get mem_bolt ?db KeywordsBucket [7] = Some (replicate 7501 0)" by (simp add: mem_bolt_def gm_load_def)
  have d: "kc_Decode names_codec (replicate 7501 0) = Some (example_links [(''a'', 5), (''b'', 3)])" by (simp add: names_codec_def)
  have "\<exists>r. Retrieve mem_bolt names_codec ?db [7] KeywordsBucket = Inr (Some r)"
    by (simp add: Retrieve_def bucket_Get_def mem_bolt_def gm_load_def names_codec_def example_links_def link_list_def
        maxSize_def Let_def)
  then obtain r where r: "Retrieve mem_bolt names_codec ?db [7] KeywordsBucket = Inr (Some r)" by blast
  have "\<not> length (replicate 7501 (0 :: byte)) \<le> maxSize" by (simp add: maxSize_def)
  then have "length r \<le> maxSize" using keyword_answer_bounded [OF r g d names_codec_sort] names_codec_small by auto
  then show ?thesis using r by blast
qed

text \<open>Looking a key up in a bucket that does not exist panics, and this is the only way a lookup
  outside the keywords bucket can fail; the bucket is named by the peer that asks.\<close>

theorem unknown_bucket_panics:
  assumes "bucket \<noteq> KeywordsBucket"
  shows "ok (Retrieve B kc db key bucket) \<longleftrightarrow> bolt_Bucket B db bucket"
  using assms by (auto simp: Retrieve_def bucket_Get_def split: option.splits)


theorem unknown_bucket_panics_witness:
  "\<not> ok (Retrieve mem_bolt names_codec [(KeywordsBucket, 0, [])] (replicate 64 0) ''nosuch'')"
proof -
  have "''nosuch'' \<noteq> KeywordsBucket" by (simp add: KeywordsBucket_def)
  moreover have "\<not> bolt_Bucket mem_bolt [(KeywordsBucket, 0, [])] ''nosuch''"
    by (simp add: mem_bolt_def gm_load_def KeywordsBucket_def)
  ultimately show ?thesis by (simp add: unknown_bucket_panics)
qed

end
