(* ===== verification/DhtStore.thy ===== *)
theory DhtStore
  imports Storage "HOL-Library.Countable"
begin

text \<open>
  What a node does with values other nodes ask it to store, \<open>replyStore\<close> of
  \<open>src/gossiper/dht.go\<close>: batches of keywords, page hashes, outbound links, citations and updates of
  page ranks.  The protobuf coding is an argument; \<open>bc_DecodeBatch\<close> returns the message as far as it
  was decoded, and whether there was no error.  Ranks are floating-point numbers, which are kept as
  their 64 bits: the page rank itself is not computed here, an update is the action \<open>RankUpdated\<close> (RankStore runs the updates).
  A goroutine that \<open>replyStore\<close> starts is run at once.
\<close>

type_synonym float64 = "64 word"

record RankInfo =
  ri_Url :: string
  ri_Rank :: float64
  ri_NumberOfOutboundLinks :: int

record RankUpdate =
  ru_OutboundLink :: string
  ru_RankInfo :: "RankInfo option"

text \<open>\<open>InitialRank\<close> is 1 - 0.85 = 0.15, rounded to the nearest double.\<close>

definition InitialRank :: float64 where
  "InitialRank = 0x3FC3333333333333"

record OutBoundLinksPackage =
  obl_Url :: string
  obl_OutBoundLinks :: "string list"

record Citations =
  cit_Url :: string
  cit_CitedBy :: "string list"

record BatchMessage =
  bm_UrlMapList :: "KeywordToURLMap list"
  bm_OutBoundLinksPackages :: "OutBoundLinksPackage list"
  bm_Citations :: "Citations list"
  bm_PageRankUpdates :: "RankUpdate list"

record store_codec =
  bc_Keywords :: keyword_codec
  bc_DecodeBatch :: "bytes \<Rightarrow> BatchMessage \<times> bool"
  bc_EncodeBatch :: "BatchMessage \<Rightarrow> bytes option"
  bc_EncodeLinks :: "OutBoundLinksPackage \<Rightarrow> bytes"
  bc_DecodeCitations :: "bytes \<Rightarrow> Citations option"
  bc_EncodeCitations :: "Citations \<Rightarrow> bytes"

datatype rank_action = RankUpdated RankUpdate bool bool

definition store_keywords ::
    "'db bolt \<Rightarrow> (bytes \<Rightarrow> TypeID) \<Rightarrow> store_codec \<Rightarrow> Store \<Rightarrow> 'db \<Rightarrow> ('db \<times> rank_action list) outcome" where
  "store_keywords B sha512 sc st db =
     obind (BulkAddLinksForKeyword B sha512 (bc_Keywords sc) (bm_UrlMapList (fst (bc_DecodeBatch sc (st_Data st)))) db)
       (\<lambda>(db, _). Inr (db, []))"

definition put_or_fatal :: "'db bolt \<Rightarrow> string \<Rightarrow> bytes \<Rightarrow> bytes \<Rightarrow> 'db \<Rightarrow> 'db outcome" where
  "put_or_fatal B bucket key data db =
     obind (bucket_Put B bucket key data db) (\<lambda>r. case r of None \<Rightarrow> Inl (Fatal ''bolt'') | Some db \<Rightarrow> Inr db)"

definition store_page_hash :: "'db bolt \<Rightarrow> Store \<Rightarrow> 'db \<Rightarrow> ('db \<times> rank_action list) outcome" where
  "store_page_hash B st db =
     obind (put_or_fatal B (st_Type st) (st_Key st) (st_Data st) db) (\<lambda>db. Inr (db, []))"

definition store_links ::
    "'db bolt \<Rightarrow> (bytes \<Rightarrow> TypeID) \<Rightarrow> store_codec \<Rightarrow> Store \<Rightarrow> 'db \<Rightarrow> ('db \<times> rank_action list) outcome" where
  "store_links B sha512 sc st db =
     (let (batchTemp, decoded) = bc_DecodeBatch sc (st_Data st);
          packages = bm_OutBoundLinksPackages batchTemp;
          links = concat (map obl_OutBoundLinks packages)
      in if \<not> decoded then Inl (Panic ''protobuf'')
         else case packages of
           [] \<Rightarrow> Inl (Panic ''index out of range'')
         | package # _ \<Rightarrow>
             let url = obl_Url package;
                 data = bc_EncodeLinks sc \<lparr>obl_Url = url, obl_OutBoundLinks = links\<rparr>;
                 rankInfo = \<lparr>ri_Url = url, ri_Rank = InitialRank, ri_NumberOfOutboundLinks = int (length links)\<rparr>
             in obind (put_or_fatal B LinksBucket (GenerateKeyHash sha512 url) data db) (\<lambda>db.
                  Inr (db, map (\<lambda>outLink. RankUpdated \<lparr>ru_OutboundLink = outLink, ru_RankInfo = Some rankInfo\<rparr> True True) links)))"

definition citation_entry :: "store_codec \<Rightarrow> Citations \<Rightarrow> bytes option \<Rightarrow> Citations option outcome" where
  "citation_entry sc item oldCitationsData =
     (case oldCitationsData of
        None \<Rightarrow> Inr (Some \<lparr>cit_Url = cit_Url item, cit_CitedBy = cit_CitedBy item\<rparr>)
      | Some d \<Rightarrow>
          (case bc_DecodeCitations sc d of
             None \<Rightarrow> Inl (Fatal ''protobuf'')
           | Some old \<Rightarrow>
               if cit_CitedBy old \<noteq> [] \<and> cit_CitedBy item = [] then Inl (Panic ''index out of range'')
               else if cit_CitedBy item \<noteq> [] \<and> hd (cit_CitedBy item) \<in> set (cit_CitedBy old) then Inr None
               else Inr (Some (old\<lparr>cit_CitedBy := cit_CitedBy old @ cit_CitedBy item\<rparr>))))"

text \<open>
  The loop over the citations of a batch, inside one transaction.  \<open>None\<close> stands for an error of
  \<open>Put\<close>: it is assigned to a variable of the loop, so the transaction is rolled back but the caller
  does not notice.  An error of decoding ends the process.
\<close>

fun citation_loop ::
    "'db bolt \<Rightarrow> (bytes \<Rightarrow> TypeID) \<Rightarrow> store_codec \<Rightarrow> Citations list \<Rightarrow> 'db \<Rightarrow> 'db option outcome" where
  "citation_loop B sha512 sc [] db = Inr (Some db)"
| "citation_loop B sha512 sc (item # items) db =
     (let i = GenerateKeyHash sha512 (cit_Url item) in
      obind (bucket_Get B db CitationsBucket i) (\<lambda>oldCitationsData.
      obind (citation_entry sc item oldCitationsData) (\<lambda>e.
      case e of
        None \<Rightarrow> citation_loop B sha512 sc items db
      | Some c \<Rightarrow>
          obind (bucket_Put B CitationsBucket i (bc_EncodeCitations sc c) db) (\<lambda>r.
            case r of None \<Rightarrow> Inr None | Some db \<Rightarrow> citation_loop B sha512 sc items db))))"

definition store_citations ::
    "'db bolt \<Rightarrow> (bytes \<Rightarrow> TypeID) \<Rightarrow> store_codec \<Rightarrow> Store \<Rightarrow> 'db \<Rightarrow> ('db \<times> rank_action list) outcome" where
  "store_citations B sha512 sc st db =
     (let (batchTemp, decoded) = bc_DecodeBatch sc (st_Data st)
      in if \<not> decoded then Inl (Panic ''protobuf'')
         else obind (citation_loop B sha512 sc (bm_Citations batchTemp) db) (\<lambda>r.
                Inr (case r of None \<Rightarrow> db | Some db' \<Rightarrow> db', [])))"

definition store_ranks :: "store_codec \<Rightarrow> Store \<Rightarrow> 'db \<Rightarrow> ('db \<times> rank_action list) outcome" where
  "store_ranks sc st db =
     (let (batchTemp, decoded) = bc_DecodeBatch sc (st_Data st)
      in if \<not> decoded then Inl (Panic ''protobuf'')
         else Inr (db, map (\<lambda>update. RankUpdated update False False) (bm_PageRankUpdates batchTemp)))"

definition replyStore ::
    "'db bolt \<Rightarrow> (bytes \<Rightarrow> TypeID) \<Rightarrow> store_codec \<Rightarrow> Store \<Rightarrow> 'db \<Rightarrow> ('db \<times> rank_action list) outcome" where
  "replyStore B sha512 sc st db =
     (if st_Type st = KeywordsBucket then store_keywords B sha512 sc st db
      else if st_Type st = PageHashBucket then store_page_hash B st db
      else if st_Type st = LinksBucket then store_links B sha512 sc st db
      else if st_Type st = CitationsBucket then store_citations B sha512 sc st db
      else if st_Type st = PageRankBucket then store_ranks sc st db
      else Inr (db, []))"


section \<open>A stored value touches one bucket\<close>

text \<open>All buckets but \<open>b\<close> are as before.\<close>

definition same_but :: "'db bolt \<Rightarrow> string \<Rightarrow> 'db \<Rightarrow> 'db \<Rightarrow> bool" where
  "same_but B b db db' \<longleftrightarrow> (\<forall>b' k. b' \<noteq> b \<longrightarrow> bolt_Get B db' b' k = bolt_Get B db b' k)
     \<and> bolt_Bucket B db' = bolt_Bucket B db \<and> bolt_Sequence B db' = bolt_Sequence B db"

lemma same_but_refl [simp]: "same_but B b db db"
  by (simp add: same_but_def)

lemma same_but_trans: "same_but B b db1 db2 \<Longrightarrow> same_but B b db2 db3 \<Longrightarrow> same_but B b db1 db3"
  by (simp add: same_but_def)

lemma same_but_Put: "bolt_laws B \<Longrightarrow> bolt_Put B b k v db = Some db' \<Longrightarrow> same_but B b db db'"
  by (simp add: same_but_def bolt_Put_laws)

lemma add_links_step:
  assumes "add_links B sha512 kc (m # ms) db = Inr db'"
  obtains k v where "add_links B sha512 kc ms (case bolt_Put B KeywordsBucket k v db of None \<Rightarrow> db | Some d \<Rightarrow> d) = Inr db'"
proof -
  let ?k = "GenerateKeyHash sha512 (kum_Keyword m)"
  obtain d km where "merged_entry kc m d = Inr km" and e: "(case kc_Encode kc km of
        None \<Rightarrow> Inl (Panic ''protobuf'')
      | Some data \<Rightarrow> obind (bucket_Put B KeywordsBucket ?k data db) (\<lambda>r.
            add_links B sha512 kc ms (case r of None \<Rightarrow> db | Some db' \<Rightarrow> db'))) = Inr db'"
    using assms by (simp only: add_links.simps Let_def obind_Inr_iff) blast
  obtain r where "obind (bucket_Put B KeywordsBucket ?k r db) (\<lambda>r.
      add_links B sha512 kc ms (case r of None \<Rightarrow> db | Some db' \<Rightarrow> db')) = Inr db'"
    using e by (cases "kc_Encode kc km") (simp_all only: option.case sum.distinct)
  then have "add_links B sha512 kc ms (case bolt_Put B KeywordsBucket ?k r db of None \<Rightarrow> db | Some d \<Rightarrow> d) = Inr db'"
    by (simp add: bucket_Put_def split: if_splits)
  then show thesis by (rule that)
qed

lemma add_links_same_but:
  assumes "bolt_laws B" "add_links B sha512 kc ms db = Inr db'"
  shows "same_but B KeywordsBucket db db'"
  using assms(2)
proof (induction ms arbitrary: db)
  case (Cons m ms)
  obtain k v where r: "add_links B sha512 kc ms (case bolt_Put B KeywordsBucket k v db of None \<Rightarrow> db | Some d \<Rightarrow> d) = Inr db'"
    using add_links_step [OF Cons.prems] .
  have "same_but B KeywordsBucket db (case bolt_Put B KeywordsBucket k v db of None \<Rightarrow> db | Some d \<Rightarrow> d)"
    using same_but_Put [OF assms(1), of KeywordsBucket k v db] by (simp split: option.split)
  from same_but_trans [OF this Cons.IH [OF r]] show ?case .
qed simp

lemma citation_loop_step:
  assumes "citation_loop B sha512 sc (item # items) db = Inr (Some db')"
  obtains "citation_entry sc item (bolt_Get B db CitationsBucket (GenerateKeyHash sha512 (cit_Url item))) = Inr None"
      "citation_loop B sha512 sc items db = Inr (Some db')"
  | c db1 where "citation_entry sc item (bolt_Get B db CitationsBucket (GenerateKeyHash sha512 (cit_Url item))) = Inr (Some c)"
      "bolt_Put B CitationsBucket (GenerateKeyHash sha512 (cit_Url item)) (bc_EncodeCitations sc c) db = Some db1"
      "citation_loop B sha512 sc items db1 = Inr (Some db')"
proof -
  let ?k = "GenerateKeyHash sha512 (cit_Url item)"
  have b: "bolt_Bucket B db CitationsBucket" using assms by (auto simp: Let_def bucket_Get_def split: if_splits)
  then obtain e where e: "citation_entry sc item (bolt_Get B db CitationsBucket ?k) = Inr e"
    and r: "(case e of
        None \<Rightarrow> citation_loop B sha512 sc items db
      | Some c \<Rightarrow>
          obind (bucket_Put B CitationsBucket ?k (bc_EncodeCitations sc c) db) (\<lambda>r.
            case r of None \<Rightarrow> Inr None | Some db \<Rightarrow> citation_loop B sha512 sc items db)) = Inr (Some db')"
    using assms by (simp only: citation_loop.simps Let_def bucket_Get_def if_True obind_simps) (auto simp only: obind_Inr_iff)
  show thesis
  proof (cases e)
    case None
    then show thesis using e r that(1) by simp
  next
    case (Some c)
    then obtain db1 where "bolt_Put B CitationsBucket ?k (bc_EncodeCitations sc c) db = Some db1"
      "citation_loop B sha512 sc items db1 = Inr (Some db')"
      using r b by (auto simp: bucket_Put_def split: option.splits)
    then show thesis using e Some that(2) by simp
  qed
qed

lemma citation_loop_same_but:
  assumes "bolt_laws B" "citation_loop B sha512 sc items db = Inr (Some db')"
  shows "same_but B CitationsBucket db db'"
  using assms(2)
proof (induction items arbitrary: db)
  case (Cons item items)
  from Cons.prems show ?case
  proof (cases rule: citation_loop_step)
    case 1
    then show ?thesis by (simp add: Cons.IH)
  next
    case (2 c db1)
    show ?thesis by (rule same_but_trans [OF same_but_Put [OF assms(1) 2(2)] Cons.IH [OF 2(3)]])
  qed
qed simp

lemma put_or_fatal_same_but:
  "bolt_laws B \<Longrightarrow> put_or_fatal B b k v db = Inr db' \<Longrightarrow> same_but B b db db'"
  by (auto simp: put_or_fatal_def bucket_Put_def same_but_Put split: if_splits option.splits)

lemma replyStore_same_but:
  assumes "bolt_laws B" "replyStore B sha512 sc st db = Inr (db', acts)"
  shows "same_but B (st_Type st) db db'"
  using assms unfolding replyStore_def
  by (auto simp: store_keywords_def BulkAddLinksForKeyword_def store_page_hash_def store_links_def store_citations_def
      store_ranks_def obind_Inr_iff Let_def dest: add_links_same_but put_or_fatal_same_but citation_loop_same_but
      split: if_splits prod.splits list.splits option.splits)

lemma replyStore_types:
  assumes "replyStore B sha512 sc st db = Inr (db', acts)"
    "st_Type st \<notin> {KeywordsBucket, PageHashBucket, LinksBucket, CitationsBucket}"
  shows "db' = db"
  using assms by (auto simp: replyStore_def store_ranks_def Let_def split: if_splits prod.splits)

section \<open>Citations\<close>

text \<open>The pages that are known to cite a page.\<close>

definition cited_by :: "'db bolt \<Rightarrow> (bytes \<Rightarrow> TypeID) \<Rightarrow> store_codec \<Rightarrow> 'db \<Rightarrow> string \<Rightarrow> string list" where
  "cited_by B sha512 sc db url =
     (case bolt_Get B db CitationsBucket (GenerateKeyHash sha512 url) of
        None \<Rightarrow> []
      | Some d \<Rightarrow> (case bc_DecodeCitations sc d of None \<Rightarrow> [] | Some c \<Rightarrow> cit_CitedBy c))"

definition add_citation :: "string \<Rightarrow> Citations \<Rightarrow> string list \<Rightarrow> string list" where
  "add_citation url item cs =
     (if cit_Url item = url \<and> hd (cit_CitedBy item) \<notin> set cs then cs @ [hd (cit_CitedBy item)] else cs)"

lemma citation_loop_adds:
  assumes "bolt_laws B" "\<forall>c. bc_DecodeCitations sc (bc_EncodeCitations sc c) = Some c"
    and "\<forall>item \<in> set items. length (cit_CitedBy item) = 1
      \<and> (GenerateKeyHash sha512 (cit_Url item) = GenerateKeyHash sha512 url \<longrightarrow> cit_Url item = url)"
    and "citation_loop B sha512 sc items db = Inr (Some db')"
  shows "cited_by B sha512 sc db' url = fold (add_citation url) items (cited_by B sha512 sc db url)"
  using assms(3,4)
proof (induction items arbitrary: db)
  case (Cons item items)
  obtain x where x: "cit_CitedBy item = [x]" using Cons.prems(1) by (auto simp: length_Suc_conv)
  have k: "GenerateKeyHash sha512 (cit_Url item) = GenerateKeyHash sha512 url \<longleftrightarrow> cit_Url item = url"
    using Cons.prems(1) by auto
  from Cons.prems(2) show ?case
  proof (cases rule: citation_loop_step)
    case 1
    then have "add_citation url item (cited_by B sha512 sc db url) = cited_by B sha512 sc db url"
      using x by (auto simp: add_citation_def cited_by_def citation_entry_def split: option.splits if_splits)
    then show ?thesis using Cons.IH [OF _ 1(2)] Cons.prems(1) by simp
  next
    case (2 c db1)
    note put = bolt_Put_laws(1) [OF assms(1) 2(2), of CitationsBucket "GenerateKeyHash sha512 url"]
    have "cited_by B sha512 sc db1 url = add_citation url item (cited_by B sha512 sc db url)"
    proof (cases "cit_Url item = url")
      case True
      have "cit_CitedBy c = add_citation url item (cited_by B sha512 sc db url)"
        using 2(1) x True by (auto simp: cited_by_def add_citation_def citation_entry_def split: option.splits if_splits)
      then show ?thesis using put True assms(2) by (simp add: cited_by_def)
    next
      case False
      then show ?thesis using put k by (simp add: cited_by_def add_citation_def)
    qed
    then show ?thesis using Cons.IH [OF _ 2(3)] Cons.prems(1) by simp
  qed
qed simp

lemma add_citation_fold:
  "distinct cs \<Longrightarrow> distinct (fold (add_citation url) items cs)
    \<and> set (fold (add_citation url) items cs) = set cs \<union> {hd (cit_CitedBy item) | item. item \<in> set items \<and> cit_Url item = url}"
  by (induction items arbitrary: cs) (auto simp: add_citation_def)


text \<open>A page hash that was stored is found: after a store request of type \<open>pageHash\<close>, a lookup of
  the same key in that bucket returns the stored bytes.\<close>

lemma page_hash_stored:
  assumes "bolt_laws B" "st_Type st = PageHashBucket" "replyStore B sha512 sc st db = Inr (db', acts)"
  shows "Retrieve B kc db' (st_Key st) PageHashBucket = Inr (Some (st_Data st))"
proof -
  have n: "PageHashBucket \<noteq> KeywordsBucket" by (simp add: bucket_names)
  then have p: "put_or_fatal B PageHashBucket (st_Key st) (st_Data st) db = Inr db'"
    using assms(2,3) by (auto simp: replyStore_def store_page_hash_def obind_Inr_iff)
  then obtain "bolt_Put B PageHashBucket (st_Key st) (st_Data st) db = Some db'" "bolt_Bucket B db PageHashBucket"
    by (auto simp: put_or_fatal_def bucket_Put_def split: if_splits option.splits)
  then show ?thesis using bolt_Put_laws [OF assms(1)] n by (simp add: Retrieve_plain)
qed

section \<open>Properties\<close>

definition example_store :: "string \<Rightarrow> Store" where
  "example_store t = \<lparr>st_Key = replicate 64 3, st_Type = t, st_Data = [9], st_Encrypted = False\<rparr>"

definition example_batch :: BatchMessage where
  "example_batch = \<lparr>bm_UrlMapList = [], bm_OutBoundLinksPackages = [],
     bm_Citations = [\<lparr>cit_Url = ''b'', cit_CitedBy = [''a'']\<rparr>, \<lparr>cit_Url = ''b'', cit_CitedBy = [''a'']\<rparr>], bm_PageRankUpdates = []\<rparr>"

definition example_store_codec :: store_codec where
  "example_store_codec = \<lparr>bc_Keywords = example_codec, bc_DecodeBatch = (\<lambda>_. (example_batch, True)), bc_EncodeBatch = (\<lambda>_. None),
     bc_EncodeLinks = (\<lambda>_. []), bc_DecodeCitations = (\<lambda>_. None), bc_EncodeCitations = (\<lambda>_. [])\<rparr>"

text \<open>Citations accumulate without repetition: after a batch of citations the pages citing a page
  are those known before and those of the batch, each once.\<close>

theorem citations_collected:
  assumes "bolt_laws B" "\<forall>c. bc_DecodeCitations sc (bc_EncodeCitations sc c) = Some c"
    and "\<forall>item \<in> set items. length (cit_CitedBy item) = 1
      \<and> (GenerateKeyHash sha512 (cit_Url item) = GenerateKeyHash sha512 url \<longrightarrow> cit_Url item = url)"
    and "citation_loop B sha512 sc items db = Inr (Some db')" "distinct (cited_by B sha512 sc db url)"
  shows "distinct (cited_by B sha512 sc db' url)
    \<and> set (cited_by B sha512 sc db' url) = set (cited_by B sha512 sc db url)
        \<union> {hd (cit_CitedBy item) | item. item \<in> set items \<and> cit_Url item = url}"
  unfolding citation_loop_adds [OF assms(1-4)] by (rule add_citation_fold [OF assms(5)])

text \<open>An encoding of citations for the example: a code number in unary.\<close>

definition counting_codec :: store_codec where
  "counting_codec = example_store_codec\<lparr>
     bc_EncodeCitations := (\<lambda>c. replicate (to_nat (map of_char (cit_Url c) :: nat list, map (map of_char) (cit_CitedBy c) :: nat list list)) 0),
     bc_DecodeCitations := (\<lambda>b. let (u, cs) = from_nat (length b) :: nat list \<times> nat list list
                               in Some \<lparr>cit_Url = map char_of u, cit_CitedBy = map (map char_of) cs\<rparr>)\<rparr>"

lemma counting_codec_roundtrip: "bc_DecodeCitations counting_codec (bc_EncodeCitations counting_codec c) = Some c"
  by (simp add: counting_codec_def comp_def)

theorem citations_collected_witness:
  "\<exists>db'. citation_loop mem_bolt id counting_codec (bm_Citations example_batch) [(CitationsBucket, 0, [])] = Inr (Some db')
    \<and> set (cited_by mem_bolt id counting_codec db' ''b'') = {''a''}"
proof -
  let ?db = "[(CitationsBucket, 0, [])] :: mem_db"
  have "\<exists>db'. citation_loop mem_bolt id counting_codec (bm_Citations example_batch) ?db = Inr (Some db')"
    by (simp add: example_batch_def bucket_Get_def bucket_Put_def mem_bolt_def citation_entry_def Let_def gm_load_def
        gm_store_def counting_codec_roundtrip)
  then obtain db' where r: "citation_loop mem_bolt id counting_codec (bm_Citations example_batch) ?db = Inr (Some db')" by blast
  have i: "\<forall>item \<in> set (bm_Citations example_batch). length (cit_CitedBy item) = 1
      \<and> (GenerateKeyHash id (cit_Url item) = GenerateKeyHash id ''b'' \<longrightarrow> cit_Url item = ''b'')"
    by (simp add: example_batch_def)
  have e: "cited_by mem_bolt id counting_codec ?db ''b'' = []" by (simp add: cited_by_def mem_bolt_def gm_load_def)
  then have d: "distinct (cited_by mem_bolt id counting_codec ?db ''b'')" by simp
  have c: "\<forall>c. bc_DecodeCitations counting_codec (bc_EncodeCitations counting_codec c) = Some c"
    by (simp add: counting_codec_roundtrip)
  show ?thesis using citations_collected [OF mem_bolt_laws c i r d] r e by (auto simp: example_batch_def)
qed

end
