(* ===== verification/BigInt.thy ===== *)
theory BigInt
  imports GoText
begin

text \<open>
  What the key agreement uses of Go's \<open>math/big\<close>: numbers from and to big-endian bytes and
  hexadecimal text, and modular exponentiation.
\<close>

definition big_SetBytes :: "bytes \<Rightarrow> int" where
  "big_SetBytes bs = foldl (\<lambda>n b. n * 256 + int (unat b)) 0 bs"

fun nat_bytes :: "nat \<Rightarrow> bytes" where
  "nat_bytes n = (if n = 0 then [] else nat_bytes (n div 256) @ [of_nat (n mod 256)])"

declare nat_bytes.simps [simp del]

text \<open>\<open>Bytes\<close> is the absolute value, without leading zero bytes.\<close>

definition big_Bytes :: "int \<Rightarrow> bytes" where
  "big_Bytes x = nat_bytes (nat \<bar>x\<bar>)"

text \<open>
  \<open>Exp(x, y, m)\<close> for an exponent that is not negative: the remainder modulo the absolute value
  of \<open>m\<close>, and the plain power if \<open>m\<close> is zero.
\<close>

definition big_Exp :: "int \<Rightarrow> nat \<Rightarrow> int \<Rightarrow> int" where
  "big_Exp x y m = (if m = 0 then x ^ y else x ^ y mod \<bar>m\<bar>)"

fun hex_digits :: "nat \<Rightarrow> string" where
  "hex_digits n = (if n < 16 then [hex_digit n] else hex_digits (n div 16) @ [hex_digit (n mod 16)])"

declare hex_digits.simps [simp del]

text \<open>The verb \<open>%x\<close> of \<open>fmt.Sprintf\<close> on a number.\<close>

definition big_hex :: "int \<Rightarrow> string" where
  "big_hex x = (if x < 0 then CHR ''-'' # hex_digits (nat \<bar>x\<bar>) else hex_digits (nat x))"

fun parse_hex :: "nat \<Rightarrow> string \<Rightarrow> nat option" where
  "parse_hex acc [] = Some acc"
| "parse_hex acc (c # cs) = (case hex_value c of None \<Rightarrow> None | Some d \<Rightarrow> parse_hex (acc * 16 + d) cs)"

definition parse_digits :: "string \<Rightarrow> int option" where
  "parse_digits cs = (if cs = [] then None else map_option int (parse_hex 0 cs))"

text \<open>\<open>SetString(s, 16)\<close>: digits with an optional sign; \<open>None\<close> is its second result \<open>false\<close>.\<close>

definition big_SetString :: "string \<Rightarrow> int option" where
  "big_SetString s =
     (case s of
        [] \<Rightarrow> None
      | c # cs \<Rightarrow> if c = CHR ''-'' then map_option uminus (parse_digits cs)
                   else if c = CHR ''+'' then parse_digits cs else parse_digits s)"

section \<open>Round trips\<close>

lemma big_SetBytes_snoc: "big_SetBytes (bs @ [b]) = big_SetBytes bs * 256 + int (unat b)"
  by (simp add: big_SetBytes_def)

lemma big_SetBytes_nat_bytes: "big_SetBytes (nat_bytes n) = int n"
proof (induction n rule: nat_bytes.induct)
  case (1 n)
  show ?case
  proof (cases "n = 0")
    case False
    then have "big_SetBytes (nat_bytes n) = int (n div 256) * 256 + int (unat (of_nat (n mod 256) :: byte))"
      using 1 [OF False] nat_bytes.simps [of n] by (simp only: big_SetBytes_snoc if_False)
    moreover have "unat (of_nat (n mod 256) :: byte) = n mod 256" by (simp add: unat_of_nat)
    ultimately show ?thesis by (metis add.commute div_mult_mod_eq of_nat_add of_nat_mult of_nat_numeral add.commute)
  qed (simp add: nat_bytes.simps big_SetBytes_def)
qed

lemma big_SetBytes_Bytes [simp]: "big_SetBytes (big_Bytes x) = \<bar>x\<bar>"
  by (simp add: big_Bytes_def big_SetBytes_nat_bytes)

lemma big_SetBytes_nonneg [simp]: "0 \<le> big_SetBytes bs"
proof -
  have "0 \<le> n \<Longrightarrow> 0 \<le> foldl (\<lambda>n b. n * 256 + int (unat b)) n bs" for n :: int
    by (induction bs arbitrary: n) simp_all
  then show ?thesis by (simp add: big_SetBytes_def)
qed

lemma parse_hex_append: "parse_hex acc (cs @ ds) = Option.bind (parse_hex acc cs) (\<lambda>n. parse_hex n ds)"
  by (induction cs arbitrary: acc) (auto split: option.splits)

lemma parse_hex_digits: "parse_hex 0 (hex_digits n) = Some n"
proof (induction n rule: hex_digits.induct)
  case (1 n)
  show ?case
  proof (cases "n < 16")
    case False
    then have "parse_hex 0 (hex_digits n) = Some (n div 16 * 16 + n mod 16)"
      using 1 hex_digits.simps [of n] by (simp add: parse_hex_append)
    then show ?thesis by simp
  qed (simp add: hex_digits.simps)
qed

lemma hex_digits_nonempty: "hex_digits n \<noteq> []"
  by (subst hex_digits.simps) simp

lemma hex_digits_hd: "hd (hex_digits n) \<noteq> CHR ''-'' \<and> hd (hex_digits n) \<noteq> CHR ''+''"
proof (induction n rule: hex_digits.induct)
  case (1 n)
  have "hex_digit d \<noteq> CHR ''-'' \<and> hex_digit d \<noteq> CHR ''+''" if "d < 16" for d
    using hex_value_digit [OF that] by (auto simp: hex_value_def)
  then show ?case using 1 hex_digits_nonempty [of "n div 16"]
    by (subst (1 2) hex_digits.simps) simp
qed

lemma big_SetString_hex [simp]: "big_SetString (big_hex x) = Some x"
proof -
  have d: "parse_digits (hex_digits n) = Some (int n)" for n
    by (simp add: parse_digits_def parse_hex_digits hex_digits_nonempty)
  have "big_SetString (hex_digits n) = parse_digits (hex_digits n)" for n
    using hex_digits_nonempty [of n] hex_digits_hd [of n]
    by (cases "hex_digits n") (auto simp: big_SetString_def)
  then show ?thesis using d by (auto simp: big_hex_def big_SetString_def)
qed

lemma big_Exp_range: "m \<noteq> 0 \<Longrightarrow> 0 \<le> big_Exp x y m \<and> big_Exp x y m < \<bar>m\<bar>"
  by (simp add: big_Exp_def)

lemma big_Exp_Exp: "0 < m \<Longrightarrow> big_Exp (big_Exp x a m) b m = big_Exp (big_Exp x b m) a m"
  by (simp add: big_Exp_def power_mod power_mult [symmetric] mult.commute)

end
