(* ===== verification/Containers.thy ===== *)
theory Containers
  imports Packets
begin

text \<open>
  The lock-protected containers of \<open>src/dto\<close>: \<open>SafeStringArray\<close> and
  \<open>SafeHashFilenamePairArray\<close> (arrays without repeated insertions), \<open>SafeCounter\<close>,
  \<open>SafeMessageArray\<close>, \<open>SafeChanMap\<close> and \<open>QuitChanMap\<close>.  Each operation runs under the
  container's mutex, so it is one atomic function of the container.  A channel is a number:
  \<open>make(chan ...)\<close> is the next unused one, given by the caller.
\<close>

section \<open>SafeStringArray\<close>

record SafeStringArray =
  ssa_exists :: "(string, bool) gomap"
  ssa_array :: "string list"

definition NewSafeStringArray :: "string list \<Rightarrow> SafeStringArray" where
  "NewSafeStringArray members =
     \<lparr>ssa_exists = fold (\<lambda>member m. gm_store member True m) members [], ssa_array = members\<rparr>"

definition AppendUniqueToArray :: "string \<Rightarrow> SafeStringArray \<Rightarrow> SafeStringArray \<times> bool" where
  "AppendUniqueToArray item a =
     (case gm_load (ssa_exists a) item of
        None \<Rightarrow> (a\<lparr>ssa_exists := gm_store item True (ssa_exists a),
                   ssa_array := ssa_array a @ [item]\<rparr>, True)
      | Some _ \<Rightarrow> (a, False))"

definition GetArrayCopy :: "SafeStringArray \<Rightarrow> string list" where
  "GetArrayCopy a = ssa_array a"

definition GetLength :: "SafeStringArray \<Rightarrow> nat" where
  "GetLength a = length (ssa_array a)"

definition ssa_inv :: "SafeStringArray \<Rightarrow> bool" where
  "ssa_inv a = (set (gm_keys (ssa_exists a)) = set (ssa_array a))"

section \<open>SafeHashFilenamePairArray\<close>

record MetahashFilenamePair =
  mfp_Metahash :: string
  mfp_Filename :: string

record SafeHashFilenamePairArray =
  shfpa_exists :: "(MetahashFilenamePair, bool) gomap"
  shfpa_array :: "MetahashFilenamePair list"

definition NewSafeHashFilenamePairArray :: SafeHashFilenamePairArray where
  "NewSafeHashFilenamePairArray = \<lparr>shfpa_exists = [], shfpa_array = []\<rparr>"

definition pair_AppendUniqueToArray ::
    "hash32 \<Rightarrow> string \<Rightarrow> SafeHashFilenamePairArray \<Rightarrow> SafeHashFilenamePairArray \<times> bool" where
  "pair_AppendUniqueToArray metahash filename a =
     (let hash = hex_EncodeToString metahash;
          item = \<lparr>mfp_Metahash = hash, mfp_Filename = filename\<rparr>
      in case gm_load (shfpa_exists a) item of
           None \<Rightarrow> (a\<lparr>shfpa_exists := gm_store item True (shfpa_exists a),
                      shfpa_array := shfpa_array a @ [item]\<rparr>, True)
         | Some _ \<Rightarrow> (a, False))"

definition pair_GetArrayCopy :: "SafeHashFilenamePairArray \<Rightarrow> MetahashFilenamePair list" where
  "pair_GetArrayCopy a = shfpa_array a"

definition pair_GetLength :: "SafeHashFilenamePairArray \<Rightarrow> nat" where
  "pair_GetLength a = length (shfpa_array a)"

definition shfpa_inv :: "SafeHashFilenamePairArray \<Rightarrow> bool" where
  "shfpa_inv a = (set (gm_keys (shfpa_exists a)) = set (shfpa_array a))"

section \<open>The contract of an array without repeated insertions\<close>

locale unique_array =
  fixes elems :: "'a \<Rightarrow> 'e list"
    and append :: "'x \<Rightarrow> 'a \<Rightarrow> 'a \<times> bool"
    and item :: "'x \<Rightarrow> 'e"
    and inv :: "'a \<Rightarrow> bool"
  assumes append_elems: "inv a \<Longrightarrow>
      elems (fst (append x a)) = (if item x \<in> set (elems a) then elems a else elems a @ [item x])"
    and append_new: "inv a \<Longrightarrow> snd (append x a) \<longleftrightarrow> item x \<notin> set (elems a)"
    and append_inv: "inv a \<Longrightarrow> inv (fst (append x a))"
begin

fun append_all :: "'x list \<Rightarrow> 'a \<Rightarrow> 'a" where
  "append_all [] a = a"
| "append_all (x # xs) a = append_all xs (fst (append x a))"

lemma append_all_inv: "inv a \<Longrightarrow> inv (append_all xs a)"
  by (induction xs arbitrary: a) (auto simp: append_inv)

lemma append_all_set: "inv a \<Longrightarrow> set (elems (append_all xs a)) = set (elems a) \<union> item ` set xs"
  by (induction xs arbitrary: a) (auto simp: append_inv append_elems)

lemma append_distinct: "inv a \<Longrightarrow> distinct (elems a) \<Longrightarrow> distinct (elems (fst (append x a)))"
  by (simp add: append_elems)

lemma append_all_distinct: "inv a \<Longrightarrow> distinct (elems a) \<Longrightarrow> distinct (elems (append_all xs a))"
  by (induction xs arbitrary: a) (auto simp: append_inv append_distinct)

lemma append_all_prefix: "inv a \<Longrightarrow> prefix (elems a) (elems (append_all xs a))"
proof (induction xs arbitrary: a)
  case (Cons x xs)
  have "prefix (elems a) (elems (fst (append x a)))"
    using Cons.prems by (simp add: append_elems)
  with Cons show ?case by (auto simp: append_inv intro: prefix_order.trans)
qed simp

end

lemma ssa_inv_New: "ssa_inv (NewSafeStringArray ms)"
proof -
  have "set (gm_keys (fold (\<lambda>x m. gm_store x True m) ms m)) = set (gm_keys m) \<union> set ms"
    for m :: "(string, bool) gomap"
    by (induction ms arbitrary: m) (auto simp: gm_keys_store)
  from this [of "[]"] show ?thesis
    by (simp add: ssa_inv_def NewSafeStringArray_def gm_keys_def)
qed

lemma ssa_inv_iff:
  "ssa_inv a \<longleftrightarrow> (\<forall>x. gm_load (ssa_exists a) x = None \<longleftrightarrow> x \<notin> set (ssa_array a))"
  unfolding ssa_inv_def set_gm_keys set_eq_iff mem_Collect_eq by metis

lemma shfpa_inv_iff:
  "shfpa_inv a \<longleftrightarrow> (\<forall>x. gm_load (shfpa_exists a) x = None \<longleftrightarrow> x \<notin> set (shfpa_array a))"
  unfolding shfpa_inv_def set_gm_keys set_eq_iff mem_Collect_eq by metis

interpretation ssa: unique_array ssa_array AppendUniqueToArray "\<lambda>x. x" ssa_inv
  by unfold_locales
     (auto simp: AppendUniqueToArray_def ssa_inv_iff option.case_eq_if split: if_splits)

interpretation shfpa: unique_array shfpa_array "\<lambda>(h, n). pair_AppendUniqueToArray h n"
  "\<lambda>(h, n). \<lparr>mfp_Metahash = hex_EncodeToString h, mfp_Filename = n\<rparr>" shfpa_inv
  by unfold_locales
     (auto simp: pair_AppendUniqueToArray_def Let_def shfpa_inv_iff option.case_eq_if split: if_splits)

section \<open>SafeCounter and SafeMessageArray\<close>

record SafeCounter =
  sc_v :: uint32

definition NewSafeCounter :: SafeCounter where
  "NewSafeCounter = \<lparr>sc_v = 1\<rparr>"

definition GetAndIncrement :: "SafeCounter \<Rightarrow> SafeCounter \<times> uint32" where
  "GetAndIncrement c = (c\<lparr>sc_v := sc_v c + 1\<rparr>, sc_v c)"

definition SwapIfLess :: "uint32 \<Rightarrow> SafeCounter \<Rightarrow> SafeCounter" where
  "SwapIfLess new c = (if sc_v c < new then c\<lparr>sc_v := new\<rparr> else c)"

record SafeMessageArray =
  sma_array :: "RumorMessage list"

definition NewSafeMessageArray :: SafeMessageArray where
  "NewSafeMessageArray = \<lparr>sma_array = []\<rparr>"

definition AppendToArray :: "RumorMessage \<Rightarrow> SafeMessageArray \<Rightarrow> SafeMessageArray" where
  "AppendToArray item a = a\<lparr>sma_array := sma_array a @ [item]\<rparr>"

definition GetArrayCopyAndDelete :: "SafeMessageArray \<Rightarrow> SafeMessageArray \<times> RumorMessage list" where
  "GetArrayCopyAndDelete a = (a\<lparr>sma_array := []\<rparr>, sma_array a)"

text \<open>\<open>n\<close> calls of \<open>GetAndIncrement\<close> on one counter, by any number of goroutines.\<close>

fun take_tickets :: "nat \<Rightarrow> SafeCounter \<Rightarrow> uint32 list" where
  "take_tickets 0 c = []"
| "take_tickets (Suc n) c = (let (c', v) = GetAndIncrement c in v # take_tickets n c')"

lemma take_tickets_eq: "take_tickets n c = map (\<lambda>i. sc_v c + of_nat i) [0..<n]"
proof (induction n arbitrary: c)
  case (Suc n)
  have "map (\<lambda>i. sc_v c + of_nat i) [0..<Suc n]
      = sc_v c # map (\<lambda>i. sc_v c + of_nat (Suc i)) [0..<n]"
    by (subst upt_conv_Cons) (simp_all add: map_Suc_upt [symmetric] comp_def del: upt_Suc)
  then show ?case by (simp add: Suc GetAndIncrement_def Let_def add.assoc del: upt_Suc)
qed simp

lemma take_tickets_distinct: "n \<le> 2 ^ 32 \<Longrightarrow> distinct (take_tickets n c)"
  by (auto simp: take_tickets_eq distinct_map inj_on_def of_nat_eq_iff
      word_of_nat_eq_iff take_bit_nat_eq_self)

section \<open>SafeChanMap\<close>

type_synonym chan = nat

record SafeChanMap =
  scm_peersMap :: "(address, chan) gomap"

definition NewSafeChanMap :: SafeChanMap where
  "NewSafeChanMap = \<lparr>scm_peersMap = []\<rparr>"

definition AddOrGetPeerStatusListener ::
    "chan \<Rightarrow> address \<Rightarrow> SafeChanMap \<Rightarrow> SafeChanMap \<times> chan \<times> bool" where
  "AddOrGetPeerStatusListener cStatus peerAddress s =
     (let (m, c, loaded) = gm_loadOrStore peerAddress cStatus (scm_peersMap s)
      in (s\<lparr>scm_peersMap := m\<rparr>, c, \<not> loaded))"

section \<open>QuitChanMap\<close>

text \<open>Per peer and origin, the rumors being sent (by message id) with their quit channels.\<close>

type_synonym quit_origin = "(uint32, chan) gomap"
type_synonym quit_peer = "(string, quit_origin) gomap"

record QuitChanMap =
  qcm_peersMap :: "(address, quit_peer) gomap"

definition NewQuitChanMap :: QuitChanMap where
  "NewQuitChanMap = \<lparr>qcm_peersMap = []\<rparr>"

definition AddListener ::
    "chan \<Rightarrow> address \<Rightarrow> string \<Rightarrow> uint32 \<Rightarrow> QuitChanMap \<Rightarrow> QuitChanMap \<times> chan \<times> bool" where
  "AddListener quit peerAddress origin messageID q =
     (let (pmap, pm, _) = gm_loadOrStore peerAddress [] (qcm_peersMap q);
          (omap, om, _) = gm_loadOrStore origin [] pm;
          (om', v, loaded) = gm_loadOrStore messageID quit om
      in (q\<lparr>qcm_peersMap := gm_store peerAddress (gm_store origin om' omap) pmap\<rparr>, v, loaded))"

definition DeleteListener :: "address \<Rightarrow> string \<Rightarrow> uint32 \<Rightarrow> QuitChanMap \<Rightarrow> QuitChanMap" where
  "DeleteListener peerAddress origin messageID q =
     (let (pmap, pm, _) = gm_loadOrStore peerAddress [] (qcm_peersMap q);
          (omap, om, _) = gm_loadOrStore origin [] pm
      in q\<lparr>qcm_peersMap := gm_store peerAddress (gm_store origin (gm_delete messageID om) omap) pmap\<rparr>)"

text \<open>
  \<open>InformListeners\<close> ranges over the listeners of each wanted origin: those whose message the
  peer already has are closed and removed, any other one makes the answer false.  The model
  also returns the channels it closes.
\<close>

definition inform_origin :: "uint32 \<Rightarrow> quit_origin \<Rightarrow> quit_origin \<times> chan list \<times> bool" where
  "inform_origin nextID om =
     (filter (\<lambda>(i, _). \<not> i < nextID) om, map snd (filter (\<lambda>(i, _). i < nextID) om),
      list_all (\<lambda>(i, _). i < nextID) om)"

fun inform_wants :: "PeerStatus list \<Rightarrow> quit_peer \<Rightarrow> quit_peer \<times> chan list \<times> bool" where
  "inform_wants [] pm = (pm, [], True)"
| "inform_wants (v # vs) pm =
     (let (omap, om, _) = gm_loadOrStore (ps_Identifier v) [] pm;
          (om', closed, stopped) = inform_origin (ps_NextID v) om;
          (pm', closed', stopped') = inform_wants vs (gm_store (ps_Identifier v) om' omap)
      in (pm', closed @ closed', stopped \<and> stopped'))"

definition InformListeners ::
    "address \<Rightarrow> StatusPacket \<Rightarrow> QuitChanMap \<Rightarrow> QuitChanMap \<times> chan list \<times> bool" where
  "InformListeners peerAddress sp q =
     (let (pmap, pm, _) = gm_loadOrStore peerAddress [] (qcm_peersMap q);
          (pm', closed, allStopped) = inform_wants (sp_Want sp) pm
      in (q\<lparr>qcm_peersMap := gm_store peerAddress pm' pmap\<rparr>, closed, allStopped))"

text \<open>The abstract view: which channel listens for (peer, origin, id).\<close>

definition listener :: "QuitChanMap \<Rightarrow> address \<Rightarrow> string \<Rightarrow> uint32 \<Rightarrow> chan option" where
  "listener q p orig i =
     Option.bind (gm_load (qcm_peersMap q) p) (\<lambda>pm.
     Option.bind (gm_load pm orig) (\<lambda>om. gm_load om i))"

lemma listener_AddListener:
  "listener (fst (AddListener quit p orig i q)) p' orig' i' =
     (if (p', orig', i') = (p, orig, i)
      then Some (case listener q p orig i of None \<Rightarrow> quit | Some c \<Rightarrow> c) else listener q p' orig' i')"
  by (auto simp: AddListener_def listener_def Let_def gm_loadOrStore_def split: option.splits)

lemma listener_DeleteListener:
  "listener (DeleteListener p orig i q) p' orig' i' =
     (if (p', orig', i') = (p, orig, i) then None else listener q p' orig' i')"
  by (auto simp: DeleteListener_def listener_def Let_def gm_loadOrStore_def split: option.splits)

definition origin_listener :: "quit_peer \<Rightarrow> string \<Rightarrow> uint32 \<Rightarrow> chan option" where
  "origin_listener pm orig i = Option.bind (gm_load pm orig) (\<lambda>om. gm_load om i)"

text \<open>The listener (origin, id) is satisfied by a status that wants a later id of the origin.\<close>

definition satisfied :: "PeerStatus list \<Rightarrow> string \<Rightarrow> uint32 \<Rightarrow> bool" where
  "satisfied want orig i = (\<exists>v \<in> set want. ps_Identifier v = orig \<and> i < ps_NextID v)"

lemma gm_load_filter_keys:
  "gm_load (filter (\<lambda>(i, _). P i) m) k = (if P k then gm_load m k else None)"
  by (induction m) (auto simp: gm_load_def)

text \<open>One step of the loop over the wants, on the maps alone.\<close>

definition inform_one :: "PeerStatus \<Rightarrow> quit_peer \<Rightarrow> quit_peer" where
  "inform_one v pm = (let (omap, om, _) = gm_loadOrStore (ps_Identifier v) [] pm
     in gm_store (ps_Identifier v) (fst (inform_origin (ps_NextID v) om)) omap)"

lemma inform_wants_fst: "fst (inform_wants (v # vs) pm) = fst (inform_wants vs (inform_one v pm))"
  by (simp add: Let_def inform_one_def split: prod.splits)

lemma inform_wants_answer:
  "snd (snd (inform_wants (v # vs) pm)) \<longleftrightarrow>
     (\<forall>i. origin_listener (inform_one v pm) (ps_Identifier v) i = None)
     \<and> snd (snd (inform_wants vs (inform_one v pm)))"
  by (auto simp: Let_def inform_one_def inform_origin_def origin_listener_def gm_load_None_iff
      list_all_iff split: prod.splits)

lemma origin_listener_one:
  "origin_listener (inform_one v pm) orig i =
     (if satisfied [v] orig i then None else origin_listener pm orig i)"
  by (auto simp: inform_one_def Let_def inform_origin_def satisfied_def origin_listener_def
      gm_loadOrStore_def gm_load_filter_keys split: option.splits)

lemma origin_listener_inform:
  "origin_listener (fst (inform_wants want pm)) orig i =
     (if satisfied want orig i then None else origin_listener pm orig i)"
proof (induction want arbitrary: pm)
  case (Cons v vs)
  show ?case
    unfolding inform_wants_fst Cons.IH origin_listener_one by (auto simp: satisfied_def)
qed (simp add: satisfied_def)

text \<open>The answer speaks of the listeners of the wanted origins only.\<close>

lemma inform_wants_stopped:
  assumes "distinct (map ps_Identifier want)"
  shows "snd (snd (inform_wants want pm)) \<longleftrightarrow>
   (\<forall>v \<in> set want. \<forall>i. origin_listener (fst (inform_wants want pm)) (ps_Identifier v) i = None)"
  using assms
proof (induction want arbitrary: pm)
  case (Cons v vs)
  have "ps_Identifier v \<notin> ps_Identifier ` set vs" using Cons.prems by simp
  then have "\<not> satisfied vs (ps_Identifier v) i" for i
    unfolding satisfied_def by (metis image_eqI)
  then have "origin_listener (fst (inform_wants vs (inform_one v pm))) (ps_Identifier v) i
      = origin_listener (inform_one v pm) (ps_Identifier v) i" for i
    by (simp add: origin_listener_inform)
  then show ?case
    using Cons unfolding inform_wants_answer inform_wants_fst by simp
qed simp

section \<open>Properties\<close>

text \<open>C39: the sequence numbers handed out by \<open>GetAndIncrement\<close> are pairwise distinct,
  whichever goroutines ask for them, up to the 2 to the 32 values of the counter.\<close>

theorem tickets_distinct:
  assumes "n \<le> 2 ^ 32"
  shows "distinct (take_tickets n c)"
  using assms by (rule take_tickets_distinct)

theorem tickets_distinct_witness: "distinct (take_tickets 3 NewSafeCounter)"
  using tickets_distinct [of 3 NewSafeCounter] by simp

text \<open>C36: \<open>InformListeners\<close> removes exactly the listeners of that peer whose message the
  status acknowledges, and leaves every other listener in place.\<close>

theorem InformListeners_removes_satisfied:
  "listener (fst (InformListeners p sp q)) p' orig i =
     (if p' = p \<and> satisfied (sp_Want sp) orig i then None else listener q p' orig i)"
proof -
  obtain pmap pm l where l: "gm_loadOrStore p [] (qcm_peersMap q) = (pmap, pm, l)" by (cases "gm_loadOrStore p [] (qcm_peersMap q)")
  have pm: "origin_listener pm orig i = listener q p orig i"
    using l by (auto simp: gm_loadOrStore_def listener_def origin_listener_def split: option.splits)
  have "listener (fst (InformListeners p sp q)) p orig i =
      origin_listener (fst (inform_wants (sp_Want sp) pm)) orig i"
    by (simp add: InformListeners_def l Let_def listener_def origin_listener_def split: prod.splits)
  moreover have "listener (fst (InformListeners p sp q)) p' orig i = listener q p' orig i" if "p' \<noteq> p"
    using l that by (auto simp: InformListeners_def Let_def listener_def gm_loadOrStore_def split: prod.splits option.splits)
  ultimately show ?thesis by (cases "p' = p") (simp_all add: origin_listener_inform pm)
qed

end
