(* ===== verification/MessageStore.thy ===== *)
theory MessageStore
  imports Containers
begin

text \<open>
  The rumors a node knows (\<open>src/dto/SafeMessagesMap.go\<close>) and the comparison of two vector
  clocks (\<open>src/gossiper/helpers.go\<close>).  The store keeps, per origin, a map from message id to
  rumor; the refinement lemmas show that it implements a log: the messages of an origin are
  numbered 1, 2, 3, ... without a gap, \<open>AddMessage\<close> accepts exactly the next one, and the own
  status packet names the first missing id.
\<close>

section \<open>SafeMessagesMap\<close>

type_synonym origin_messages = "(uint32, RumorMessage) gomap"

record SafeMessagesMap =
  smm_originsMap :: "(string, origin_messages) gomap"

definition NewSafeMessagesMap :: SafeMessagesMap where
  "NewSafeMessagesMap = \<lparr>smm_originsMap = []\<rparr>"

definition AddMessage :: "RumorMessage \<Rightarrow> SafeMessagesMap \<Rightarrow> SafeMessagesMap \<times> bool" where
  "AddMessage msg s =
     (let (om, pm, _) = gm_loadOrStore (rm_Origin msg) [] (smm_originsMap s);
          (pm', notNew) =
            (if rm_ID msg = 1 then
               (let (p, _, loaded) = gm_loadOrStore (rm_ID msg) msg pm in (p, loaded))
             else case gm_load pm (rm_ID msg - 1) of
                    Some _ \<Rightarrow> (let (p, _, loaded) = gm_loadOrStore (rm_ID msg) msg pm in (p, loaded))
                  | None \<Rightarrow> (pm, True))
      in (s\<lparr>smm_originsMap := gm_store (rm_Origin msg) pm' om\<rparr>, \<not> notNew))"

definition GetMessage ::
    "string \<Rightarrow> uint32 \<Rightarrow> SafeMessagesMap \<Rightarrow> SafeMessagesMap \<times> RumorMessage option" where
  "GetMessage origin messageID s =
     (let (om, pm, _) = gm_loadOrStore origin [] (smm_originsMap s)
      in (s\<lparr>smm_originsMap := om\<rparr>, gm_load pm messageID))"

definition maxID :: "origin_messages \<Rightarrow> uint32" where
  "maxID pm = fold (\<lambda>(i, _) mx. if i > mx then i else mx) pm 0"

definition GetOwnStatusPacket :: "SafeMessagesMap \<Rightarrow> StatusPacket" where
  "GetOwnStatusPacket s = \<lparr>sp_Want = map (\<lambda>(origin, pm).
     \<lparr>ps_Identifier = origin, ps_NextID = maxID pm + 1\<rparr>) (smm_originsMap s)\<rparr>"

section \<open>Vector clocks\<close>

definition want_map :: "PeerStatus list \<Rightarrow> (string, uint32) gomap" where
  "want_map want = fold (\<lambda>ps m. gm_store (ps_Identifier ps) (ps_NextID ps) m) want []"

definition peerStatusDifference :: "PeerStatus list \<Rightarrow> PeerStatus list \<Rightarrow> PeerStatus list" where
  "peerStatusDifference have want =
     concat (map (\<lambda>ps. case gm_load (want_map want) (ps_Identifier ps) of
         Some w \<Rightarrow> if w < ps_NextID ps
                   then [\<lparr>ps_Identifier = ps_Identifier ps, ps_NextID = w\<rparr>] else []
       | None \<Rightarrow> [\<lparr>ps_Identifier = ps_Identifier ps, ps_NextID = 1\<rparr>]) have)"

definition peerStatusUpdated :: "PeerStatus list \<Rightarrow> PeerStatus list \<Rightarrow> PeerStatus list" where
  "peerStatusUpdated have want =
     want @ concat (map (\<lambda>ps. if gm_load (want_map want) (ps_Identifier ps) = None
       then [\<lparr>ps_Identifier = ps_Identifier ps, ps_NextID = 1\<rparr>] else []) have)"

definition stringArrayDifference :: "string list \<Rightarrow> string list \<Rightarrow> string list" where
  "stringArrayDifference first second =
     (let mSecond = fold (\<lambda>key m. gm_store key True m) second []
      in filter (\<lambda>key. gm_load mSecond key = None) first)"

section \<open>The invariant\<close>

text \<open>
  Every stored rumor sits under its own origin and id, and its predecessor is stored too
  unless it is the first one.
\<close>

definition om_inv :: "string \<Rightarrow> origin_messages \<Rightarrow> bool" where
  "om_inv origin pm \<longleftrightarrow> gm_wf pm \<and>
     list_all (\<lambda>(i, m). rm_Origin m = origin \<and> rm_ID m = i
        \<and> (i = 1 \<or> i - 1 \<in> set (gm_keys pm))) pm"

definition smm_inv :: "SafeMessagesMap \<Rightarrow> bool" where
  "smm_inv s \<longleftrightarrow> gm_wf (smm_originsMap s)
     \<and> list_all (\<lambda>(origin, pm). om_inv origin pm) (smm_originsMap s)"

definition messages_of :: "SafeMessagesMap \<Rightarrow> string \<Rightarrow> origin_messages" where
  "messages_of s origin = (case gm_load (smm_originsMap s) origin of None \<Rightarrow> [] | Some pm \<Rightarrow> pm)"

lemma om_inv_Nil [simp]: "om_inv origin []"
  by (simp add: om_inv_def gm_wf_def)

lemma messages_of_inv: "smm_inv s \<Longrightarrow> om_inv origin (messages_of s origin)"
  by (auto simp: messages_of_def smm_inv_def list_all_iff gm_load_Some_iff split: option.splits)

lemma set_gm_store: "set (gm_store k v m) \<subseteq> insert (k, v) (set m)"
  unfolding gm_store_def by (induction m) auto

lemma smm_inv_store:
  assumes "smm_inv s" "om_inv origin pm"
  shows "smm_inv (s\<lparr>smm_originsMap := gm_store origin pm (smm_originsMap s)\<rparr>)"
  using assms set_gm_store [of origin pm "smm_originsMap s"]
  by (auto simp: smm_inv_def list_all_iff)

lemma om_inv_insert:
  assumes "om_inv origin pm" "rm_Origin msg = origin" "gm_load pm (rm_ID msg) = None"
    "rm_ID msg = 1 \<or> gm_load pm (rm_ID msg - 1) \<noteq> None"
  shows "om_inv origin (gm_store (rm_ID msg) msg pm)"
  using assms
  by (auto simp: om_inv_def list_all_iff gm_store_new gm_keys_def gm_wf_def gm_load_None_iff)

section \<open>No gaps\<close>

text \<open>A set of ids closed under predecessors down to 1 is an interval from 1.\<close>

lemma pred_closed_down:
  fixes K :: "uint32 set"
  assumes "\<forall>i \<in> K. i = 1 \<or> i - 1 \<in> K" "i \<in> K" "1 \<le> j" "j \<le> i"
  shows "j \<in> K"
  using assms(2,4)
proof (induction "unat i - unat j" arbitrary: i)
  case 0
  then have "unat i = unat j" by (simp add: word_le_nat_alt)
  then have "i = j" by (rule unsigned_word_eqI)
  with 0 show ?case by simp
next
  case (Suc d)
  then have "j < i" by (simp add: word_less_nat_alt)
  with assms(3) have i1: "i \<noteq> 1" and i0: "i \<noteq> 0" by auto
  have u: "unat (i - 1) = unat i - 1" using i0 by (rule unat_minus_one)
  have "i - 1 \<in> K" using assms(1) Suc.prems(1) i1 by blast
  moreover have "j \<le> i - 1" using \<open>j < i\<close> u by (simp add: word_less_nat_alt word_le_nat_alt)
  moreover have "d = unat (i - 1) - unat j" using Suc.hyps(2) u by simp
  ultimately show ?case using Suc.hyps(1) by blast
qed

lemma word_interval_image: "{1..m} = of_nat ` {1..unat (m :: uint32)}"
proof
  have "i \<in> of_nat ` {1..unat m}" if "i \<in> {1..m}" for i
  proof -
    have "i = of_nat (unat i)" by simp
    moreover have "unat i \<in> {1..unat m}"
      using that by (auto simp: word_le_nat_alt)
    ultimately show ?thesis by blast
  qed
  then show "{1..m} \<subseteq> of_nat ` {1..unat m}" by blast
  have "of_nat k \<in> {1..m}" if "k \<in> {1..unat m}" for k
  proof -
    have "k < 2 ^ 32" using that unsigned_less [where 'a = nat, of m] by simp
    then have "unat (of_nat k :: uint32) = k" by (simp add: unat_of_nat)
    then show ?thesis using that by (simp add: word_le_nat_alt)
  qed
  then show "of_nat ` {1..unat m} \<subseteq> {1..m}" by blast
qed

lemma card_word_interval: "card {1..m :: uint32} = unat m"
proof -
  have "inj_on (of_nat :: nat \<Rightarrow> uint32) {1..unat m}"
  proof (rule inj_onI)
    fix a b assume ab: "a \<in> {1..unat m}" "b \<in> {1..unat m}" "(of_nat a :: uint32) = of_nat b"
    have "a < 2 ^ 32" "b < 2 ^ 32" using ab unsigned_less [where 'a = nat, of m] by auto
    then have "unat (of_nat a :: uint32) = a" "unat (of_nat b :: uint32) = b"
      by (simp_all add: unat_of_nat)
    with ab(3) show "a = b" by metis
  qed
  then have "card (of_nat ` {1..unat m} :: uint32 set) = unat m" by (simp add: card_image)
  then show ?thesis by (simp only: word_interval_image)
qed

lemma pred_closed_interval:
  fixes K :: "uint32 set"
  assumes "\<forall>i \<in> K. i = 1 \<or> i - 1 \<in> K" "card K < 2 ^ 32"
  shows "K = {1..of_nat (card K)}"
proof -
  have no0: "0 \<notin> K"
  proof
    assume z: "0 \<in> K"
    then have m1: "- 1 \<in> K" using assms(1) by fastforce
    have "j \<in> K" for j
      using pred_closed_down [OF assms(1) m1, of j] z by (cases "j = 0") (auto simp: u32_ge_1)
    then have "K = UNIV" by blast
    then show False using assms(2) by (simp add: card_word)
  qed
  show ?thesis
  proof (cases "K = {}")
    case False
    let ?m = "Max K"
    have fin: "finite K" by simp
    have "K = {1..?m}"
    proof
      show "K \<subseteq> {1..?m}" using no0 fin by (auto simp: u32_ge_1)
      show "{1..?m} \<subseteq> K"
        using pred_closed_down [OF assms(1) Max_in [OF fin False]] by auto
    qed
    then have "card K = unat ?m" using card_word_interval by metis
    then show ?thesis using \<open>K = {1..?m}\<close> by simp
  qed simp
qed

lemma maxID_eq_Max: "maxID pm = Max (insert 0 (set (gm_keys pm)))"
proof -
  have "fold (\<lambda>(i, _) mx. if i > mx then i else mx) pm a = fold max (map fst pm) a" for a :: uint32
    by (induction pm arbitrary: a) (auto simp: max_def)
  then show ?thesis by (simp add: maxID_def gm_keys_def Max.set_eq_fold [symmetric])
qed

lemma om_inv_keys:
  assumes "om_inv origin pm" "length pm < 2 ^ 32"
  shows "set (gm_keys pm) = {1..of_nat (length pm)}"
proof -
  have d: "distinct (gm_keys pm)" using assms(1) by (simp add: om_inv_def gm_wf_def gm_keys_def)
  then have c: "card (set (gm_keys pm)) = length pm"
    using distinct_card [OF d] by (simp add: gm_keys_def)
  have "\<forall>i \<in> set (gm_keys pm). i = 1 \<or> i - 1 \<in> set (gm_keys pm)"
    using assms(1) by (auto simp: om_inv_def list_all_iff gm_keys_def)
  from pred_closed_interval [OF this] assms(2) c show ?thesis by simp
qed

lemma om_inv_maxID:
  assumes "om_inv origin pm" "length pm < 2 ^ 32"
  shows "maxID pm = of_nat (length pm)"
proof -
  have "finite {1..of_nat (length pm) :: uint32}" by simp
  moreover have "(of_nat (length pm) :: uint32) \<in> insert 0 {1..of_nat (length pm)}"
    by (auto simp: u32_ge_1)
  ultimately show ?thesis
    unfolding maxID_eq_Max om_inv_keys [OF assms] by (intro Max_eqI) auto
qed

section \<open>Refinement: a log per origin\<close>

text \<open>What is known of an origin, as the list of its rumors in order.\<close>

definition message_log :: "SafeMessagesMap \<Rightarrow> string \<Rightarrow> RumorMessage list" where
  "message_log s origin = (let pm = messages_of s origin
     in map (\<lambda>i. the (gm_load pm (of_nat i))) [1..<Suc (length pm)])"

lemma length_message_log [simp]: "length (message_log s origin) = length (messages_of s origin)"
  by (simp add: message_log_def Let_def del: upt_Suc)

lemma gm_load_key: "gm_load m k \<noteq> None \<longleftrightarrow> k \<in> set (gm_keys m)"
  by (simp add: set_gm_keys)

lemma unat_of_nat_small: "n < 2 ^ 32 \<Longrightarrow> unat (of_nat n :: uint32) = n"
  by (simp add: unat_of_nat)

lemma om_inv_has_iff:
  assumes "om_inv origin pm" "length pm < 2 ^ 32"
  shows "gm_load pm i \<noteq> None \<longleftrightarrow> i \<noteq> 0 \<and> unat i \<le> length pm"
proof -
  have "i \<le> of_nat (length pm) \<longleftrightarrow> unat i \<le> length pm"
    by (simp add: word_le_nat_alt unat_of_nat_small [OF assms(2)])
  then show ?thesis
    unfolding gm_load_key om_inv_keys [OF assms] atLeastAtMost_iff u32_ge_1 by simp
qed

lemma messages_of_GetMessage [simp]:
  "messages_of (fst (GetMessage origin i s)) origin' = messages_of s origin'"
  by (auto simp: GetMessage_def messages_of_def gm_loadOrStore_def Let_def split: option.splits)

lemma GetMessage_result: "snd (GetMessage origin i s) = gm_load (messages_of s origin) i"
  by (auto simp: GetMessage_def messages_of_def gm_loadOrStore_def Let_def split: option.splits)

lemma GetMessage_inv:
  assumes "smm_inv s"
  shows "smm_inv (fst (GetMessage origin i s))"
  using assms smm_inv_store [OF assms, of origin "[]"]
  by (auto simp: GetMessage_def gm_loadOrStore_def Let_def split: option.splits)

text \<open>The guard of \<open>AddMessage\<close>, read off its two branches.\<close>

definition accepts :: "origin_messages \<Rightarrow> uint32 \<Rightarrow> bool" where
  "accepts pm i \<longleftrightarrow> gm_load pm i = None \<and> (i = 1 \<or> gm_load pm (i - 1) \<noteq> None)"

lemma AddMessage_new: "snd (AddMessage msg s) \<longleftrightarrow> accepts (messages_of s (rm_Origin msg)) (rm_ID msg)"
  by (auto simp: AddMessage_def accepts_def messages_of_def gm_loadOrStore_def Let_def
      split: option.splits)

lemma AddMessage_messages:
  "messages_of (fst (AddMessage msg s)) origin =
     (if origin = rm_Origin msg \<and> accepts (messages_of s origin) (rm_ID msg)
      then gm_store (rm_ID msg) msg (messages_of s origin) else messages_of s origin)"
  by (auto simp: AddMessage_def accepts_def messages_of_def gm_loadOrStore_def Let_def
      split: option.splits)

lemma AddMessage_state:
  "fst (AddMessage msg s) = s\<lparr>smm_originsMap :=
     gm_store (rm_Origin msg) (messages_of (fst (AddMessage msg s)) (rm_Origin msg))
       (fst (gm_loadOrStore (rm_Origin msg) [] (smm_originsMap s)))\<rparr>"
  by (auto simp: AddMessage_def messages_of_def gm_loadOrStore_def Let_def split: option.splits)

lemma AddMessage_inv:
  assumes "smm_inv s"
  shows "smm_inv (fst (AddMessage msg s))"
proof -
  let ?o = "rm_Origin msg"
  have "om_inv ?o (messages_of (fst (AddMessage msg s)) ?o)"
    using messages_of_inv [OF assms, of ?o]
    by (auto simp: AddMessage_messages accepts_def intro: om_inv_insert)
  moreover have "smm_inv (s\<lparr>smm_originsMap := fst (gm_loadOrStore ?o [] (smm_originsMap s))\<rparr>)"
    using GetMessage_inv [OF assms, of ?o 0] by (simp add: GetMessage_def Let_def split: prod.splits)
  ultimately show ?thesis
    using smm_inv_store by (subst AddMessage_state) fastforce
qed

lemma accepts_next:
  assumes "om_inv origin pm" "length pm < 2 ^ 32 - 1"
  shows "accepts pm i \<longleftrightarrow> unat i = length pm + 1"
proof -
  have l: "length pm < 2 ^ 32" using assms(2) by simp
  note has = om_inv_has_iff [OF assms(1) l]
  show ?thesis
  proof (cases "i = 0")
    case True
    have "unat (- 1 :: uint32) = 2 ^ 32 - 1"
      by (simp add: unsigned_minus_1_eq_mask mask_eq_exp_minus_1)
    then show ?thesis using has [of "- 1"] assms(2) True by (simp add: accepts_def)
  next
    case False
    then have u: "unat (i - 1) = unat i - 1" by (rule unat_minus_one)
    have z: "i - 1 = 0 \<longleftrightarrow> i = 1" by simp
    have pos: "unat i > 0" using False by (simp add: unat_gt_0)
    have one: "i = 1 \<longleftrightarrow> unat i = 1" by (simp add: word_unat_eq_iff)
    have none: "gm_load pm i = None \<longleftrightarrow> length pm < unat i"
      using has [of i] False by (metis leD leI)
    show ?thesis
      unfolding accepts_def none has z u one using pos by linarith
  qed
qed

lemma message_log_snoc:
  assumes "om_inv origin pm" "length pm < 2 ^ 32 - 1" "unat (rm_ID msg) = length pm + 1"
  shows "map (\<lambda>i. the (gm_load (gm_store (rm_ID msg) msg pm) (of_nat i)))
      [1..<Suc (length (gm_store (rm_ID msg) msg pm))]
    = map (\<lambda>i. the (gm_load pm (of_nat i))) [1..<Suc (length pm)] @ [msg]"
proof -
  have acc: "accepts pm (rm_ID msg)" using accepts_next [OF assms(1,2)] assms(3) by simp
  then have len: "length (gm_store (rm_ID msg) msg pm) = Suc (length pm)"
    by (simp add: accepts_def gm_store_new)
  have "rm_ID msg = of_nat (unat (rm_ID msg))" by simp
  then have idn: "rm_ID msg = of_nat (Suc (length pm))" using assms(3) by simp
  have ne: "(of_nat i :: uint32) \<noteq> of_nat (Suc (length pm))" if "i \<in> set [1..<Suc (length pm)]" for i
  proof -
    have "i < 2 ^ 32" "Suc (length pm) < 2 ^ 32" using that assms(2) by (auto simp del: upt_Suc)
    then have "unat (of_nat i :: uint32) = i"
      "unat (of_nat (Suc (length pm)) :: uint32) = Suc (length pm)"
      by (simp_all only: unat_of_nat_small)
    then show ?thesis using that by (metis atLeastLessThan_iff less_irrefl set_upt)
  qed
  have "[1..<Suc (Suc (length pm))] = [1..<Suc (length pm)] @ [Suc (length pm)]" by simp
  then show ?thesis using ne unfolding len by (simp add: idn del: of_nat_Suc upt_Suc)
qed

theorem message_log_AddMessage:
  assumes "smm_inv s" "length (message_log s (rm_Origin msg)) < 2 ^ 32 - 1"
  shows "message_log (fst (AddMessage msg s)) origin =
      (if origin = rm_Origin msg \<and> unat (rm_ID msg) = length (message_log s origin) + 1
       then message_log s origin @ [msg] else message_log s origin)"
    and "snd (AddMessage msg s) \<longleftrightarrow>
      unat (rm_ID msg) = length (message_log s (rm_Origin msg)) + 1"
proof -
  let ?o = "rm_Origin msg"
  have inv: "om_inv ?o (messages_of s ?o)" using assms(1) by (rule messages_of_inv)
  have l: "length (messages_of s ?o) < 2 ^ 32 - 1" using assms(2) by simp
  note acc = accepts_next [OF inv l]
  show "snd (AddMessage msg s) \<longleftrightarrow> unat (rm_ID msg) = length (message_log s ?o) + 1"
    by (simp add: AddMessage_new acc)
  show "message_log (fst (AddMessage msg s)) origin =
      (if origin = ?o \<and> unat (rm_ID msg) = length (message_log s origin) + 1
       then message_log s origin @ [msg] else message_log s origin)"
  proof (cases "origin = ?o \<and> unat (rm_ID msg) = length (messages_of s ?o) + 1")
    case True
    then show ?thesis
      using acc message_log_snoc [OF inv l]
      by (simp add: message_log_def Let_def AddMessage_messages del: upt_Suc)
  next
    case False
    then have "messages_of (fst (AddMessage msg s)) origin = messages_of s origin"
      using acc by (auto simp: AddMessage_messages)
    then have "message_log (fst (AddMessage msg s)) origin = message_log s origin"
      by (simp add: message_log_def)
    then show ?thesis using False by (auto simp: length_message_log)
  qed
qed

section \<open>Status packets and what a peer lacks\<close>

definition small_store :: "SafeMessagesMap \<Rightarrow> bool" where
  "small_store s = list_all (\<lambda>(_, pm). length pm < 2 ^ 32 - 1) (smm_originsMap s)"

lemma small_store_log: "small_store s \<Longrightarrow> length (message_log s origin) < 2 ^ 32 - 1"
  by (auto simp: small_store_def list_all_iff messages_of_def gm_load_def
      dest!: map_of_SomeD split: option.splits)

lemma own_status_next:
  assumes "smm_inv s" "small_store s" "ps \<in> set (sp_Want (GetOwnStatusPacket s))"
  shows "unat (ps_NextID ps) = length (message_log s (ps_Identifier ps)) + 1"
proof -
  obtain origin pm where op: "(origin, pm) \<in> set (smm_originsMap s)"
    and ps: "ps = \<lparr>ps_Identifier = origin, ps_NextID = maxID pm + 1\<rparr>"
    using assms(3) by (auto simp: GetOwnStatusPacket_def)
  have m: "messages_of s origin = pm"
    using op assms(1) by (simp add: messages_of_def smm_inv_def gm_load_Some_iff [THEN iffD2])
  have inv: "om_inv origin pm" using messages_of_inv [OF assms(1)] m by metis
  have l: "length pm < 2 ^ 32 - 1" using small_store_log [OF assms(2), of origin] m by simp
  have "maxID pm + 1 = of_nat (Suc (length pm))"
    using om_inv_maxID [OF inv] l by simp
  moreover have "unat (of_nat (Suc (length pm)) :: uint32) = Suc (length pm)"
    using l by (intro unat_of_nat_small) simp
  ultimately show ?thesis using ps m by (simp del: of_nat_Suc)
qed

lemma own_status_identifiers:
  "ps_Identifier ` set (sp_Want (GetOwnStatusPacket s)) = set (gm_keys (smm_originsMap s))"
  by (force simp: GetOwnStatusPacket_def gm_keys_def)

lemma want_map_load:
  "gm_load (want_map want) origin =
     map_of (rev (map (\<lambda>ps. (ps_Identifier ps, ps_NextID ps)) want)) origin"
proof (induction want rule: rev_induct)
  case (snoc ps want)
  then show ?case by (simp add: want_map_def)
qed (simp add: want_map_def)

lemma want_map_Some: "gm_load (want_map want) origin = Some w \<Longrightarrow>
    \<exists>ps \<in> set want. ps_Identifier ps = origin \<and> ps_NextID ps = w"
  unfolding want_map_load by (auto dest!: map_of_SomeD)

lemma want_map_None: "gm_load (want_map want) origin = None \<longleftrightarrow> origin \<notin> ps_Identifier ` set want"
  unfolding want_map_load by (auto simp: map_of_eq_None_iff image_comp comp_def)

lemma peerStatusDifference_iff:
  "d \<in> set (peerStatusDifference have want) \<longleftrightarrow>
     (\<exists>ps \<in> set have. ps_Identifier d = ps_Identifier ps \<and>
        (case gm_load (want_map want) (ps_Identifier ps) of
           Some w \<Rightarrow> w < ps_NextID ps \<and> ps_NextID d = w | None \<Rightarrow> ps_NextID d = 1))"
  unfolding peerStatusDifference_def
  by (cases d) (auto split: option.splits if_splits)

text \<open>
  A message the difference asks for is in the store: if the peer asks for ids from 1 on and no
  known origin is empty.
\<close>

lemma desired_in_store:
  assumes inv: "smm_inv s" and small: "small_store s"
    and d: "d \<in> set (peerStatusDifference (sp_Want (GetOwnStatusPacket s)) want)"
    and pos: "\<forall>ps \<in> set want. ps_NextID ps \<noteq> 0"
    and nonempty: "\<forall>(_, pm) \<in> set (smm_originsMap s). pm \<noteq> []"
  shows "ps_NextID d \<noteq> 0 \<and> unat (ps_NextID d) \<le> length (message_log s (ps_Identifier d))"
proof -
  obtain ps where ps: "ps \<in> set (sp_Want (GetOwnStatusPacket s))" "ps_Identifier d = ps_Identifier ps"
    and c: "case gm_load (want_map want) (ps_Identifier ps) of
           Some w \<Rightarrow> w < ps_NextID ps \<and> ps_NextID d = w | None \<Rightarrow> ps_NextID d = 1"
    using d unfolding peerStatusDifference_iff by blast
  note n = own_status_next [OF inv small ps(1)]
  show ?thesis
  proof (cases "gm_load (want_map want) (ps_Identifier ps)")
    case None
    obtain pm where "(ps_Identifier ps, pm) \<in> set (smm_originsMap s)"
      using ps(1) by (auto simp: GetOwnStatusPacket_def)
    then have "messages_of s (ps_Identifier ps) = pm" "pm \<noteq> []"
      using inv nonempty by (auto simp: messages_of_def smm_inv_def gm_load_Some_iff [THEN iffD2])
    then show ?thesis using c None ps(2) by (cases pm) auto
  next
    case (Some w)
    then have "w \<noteq> 0" using want_map_Some pos by blast
    moreover have "unat w < unat (ps_NextID ps)" using c Some by (simp add: word_less_nat_alt)
    ultimately show ?thesis using c Some ps(2) n by simp
  qed
qed

lemma stringArrayDifference_eq: "stringArrayDifference first second = filter (\<lambda>k. k \<notin> set second) first"
proof -
  have "gm_load (fold (\<lambda>key m. gm_store key True m) second m) k = None \<longleftrightarrow>
      gm_load m k = None \<and> k \<notin> set second" for k and m :: "(string, bool) gomap"
    by (induction second arbitrary: m) auto
  then show ?thesis by (simp add: stringArrayDifference_def Let_def)
qed

section \<open>Properties\<close>

definition example_rumor :: "uint32 \<Rightarrow> RumorMessage" where
  "example_rumor i = \<lparr>rm_Origin = ''a'', rm_ID = i, rm_Text = ''hi''\<rparr>"

definition example_store :: SafeMessagesMap where
  "example_store = fst (AddMessage (example_rumor 1) NewSafeMessagesMap)"

lemma NewSafeMessagesMap_inv: "smm_inv NewSafeMessagesMap" "small_store NewSafeMessagesMap"
  by (simp_all add: smm_inv_def small_store_def NewSafeMessagesMap_def gm_wf_def)

lemma example_store_eq: "example_store = \<lparr>smm_originsMap = [(''a'', [(1, example_rumor 1)])]\<rparr>"
  by (simp add: example_store_def AddMessage_def NewSafeMessagesMap_def gm_loadOrStore_def gm_load_def
      gm_store_def example_rumor_def)

lemma example_store_inv: "smm_inv example_store" "small_store example_store"
  by (simp_all add: example_store_def AddMessage_inv NewSafeMessagesMap_inv)
     (simp add: example_store_eq [unfolded example_store_def] small_store_def)

text \<open>C1: \<open>AddMessage\<close> refines appending to a log per origin.  A rumor is accepted exactly
  when its id is one more than the length of its origin's log; then it becomes the last entry,
  and every other log, and every log on a rejected rumor, stays as it is.\<close>

theorem AddMessage_refines_log:
  assumes "smm_inv s" "length (message_log s (rm_Origin msg)) < 2 ^ 32 - 1"
  shows "message_log (fst (AddMessage msg s)) origin =
      (if origin = rm_Origin msg \<and> unat (rm_ID msg) = length (message_log s origin) + 1
       then message_log s origin @ [msg] else message_log s origin)
    \<and> (snd (AddMessage msg s) \<longleftrightarrow> unat (rm_ID msg) = length (message_log s (rm_Origin msg)) + 1)"
  using message_log_AddMessage [OF assms] by blast

theorem AddMessage_refines_log_witness:
  "message_log (fst (AddMessage (example_rumor 1) NewSafeMessagesMap)) ''a'' = [example_rumor 1]"
proof -
  have "message_log NewSafeMessagesMap ''a'' = []"
    by (simp add: message_log_def messages_of_def NewSafeMessagesMap_def)
  then show ?thesis
    using AddMessage_refines_log [of NewSafeMessagesMap "example_rumor 1" "''a''"] NewSafeMessagesMap_inv(1)
    by (simp add: example_rumor_def del: length_message_log)
qed

text \<open>C30: the store invariant (each rumor filed under its origin and id, no id without its
  predecessor) holds of the new store and is kept by \<open>AddMessage\<close> and by \<open>GetMessage\<close>, whatever
  rumors peers send.\<close>

theorem store_invariant:
  assumes "smm_inv s"
  shows "smm_inv (fst (AddMessage msg s)) \<and> smm_inv (fst (GetMessage origin i s))"
  using AddMessage_inv [OF assms] GetMessage_inv [OF assms] by blast

theorem store_invariant_witness:
  "smm_inv (fst (AddMessage (example_rumor 7) NewSafeMessagesMap))"
  using store_invariant [OF NewSafeMessagesMap_inv(1)] by blast

text \<open>The own status packet names, for every origin in the store, the id of the first
  message that is missing.\<close>

theorem status_names_first_missing:
  assumes "smm_inv s" "small_store s" "ps \<in> set (sp_Want (GetOwnStatusPacket s))"
  shows "unat (ps_NextID ps) = length (message_log s (ps_Identifier ps)) + 1
    \<and> gm_load (messages_of s (ps_Identifier ps)) (ps_NextID ps) = None"
proof -
  note n = own_status_next [OF assms]
  have "length (messages_of s (ps_Identifier ps)) < 2 ^ 32"
    using small_store_log [OF assms(2), of "ps_Identifier ps"] by simp
  then show ?thesis using n om_inv_has_iff [OF messages_of_inv [OF assms(1)], of "ps_Identifier ps" "ps_NextID ps"]
    by (auto simp del: not_None_eq)
qed

theorem status_names_first_missing_witness:
  "gm_load (messages_of example_store ''a'') 2 = None"
  using status_names_first_missing [OF example_store_inv, of "\<lparr>ps_Identifier = ''a'', ps_NextID = 2\<rparr>"]
  by (simp add: example_store_eq GetOwnStatusPacket_def maxID_def)

end
