(* ===== verification/Routing.thy ===== *)
theory Routing
  imports Containers
begin

text \<open>
  The DSDV routing table (\<open>src/routing\<close>): per origin, the sequence number and the sender of
  the freshest rumor seen.  The abstract specification folds the updates of an origin into the
  first one with the largest sequence number; the table implements it.
\<close>

record SafeRoutingTableEntry =
  srte_seqNum :: uint32
  srte_address :: address

definition NewSafeRoutingTableEntry :: "uint32 \<Rightarrow> address \<Rightarrow> SafeRoutingTableEntry" where
  "NewSafeRoutingTableEntry seqNum addr = \<lparr>srte_seqNum = seqNum, srte_address = addr\<rparr>"

definition Update :: "uint32 \<Rightarrow> address \<Rightarrow> SafeRoutingTableEntry \<Rightarrow> SafeRoutingTableEntry \<times> bool" where
  "Update seqNum addr e =
     (if seqNum > srte_seqNum e
      then (e\<lparr>srte_seqNum := seqNum, srte_address := addr\<rparr>, True) else (e, False))"

definition GetAddress :: "SafeRoutingTableEntry \<Rightarrow> address" where
  "GetAddress e = srte_address e"

record SafeRoutingTable =
  srt_originsMap :: "(string, SafeRoutingTableEntry) gomap"

definition NewSafeRoutingTable :: SafeRoutingTable where
  "NewSafeRoutingTable = \<lparr>srt_originsMap = []\<rparr>"

definition UpdateEntry ::
    "uint32 \<Rightarrow> string \<Rightarrow> address \<Rightarrow> SafeRoutingTable \<Rightarrow> SafeRoutingTable \<times> bool" where
  "UpdateEntry seqID origin addressSender t =
     (let srte = NewSafeRoutingTableEntry seqID addressSender;
          (om, srtei, loaded) = gm_loadOrStore origin srte (srt_originsMap t)
      in if loaded then
           (let (e, updated) = Update seqID addressSender srtei
            in (t\<lparr>srt_originsMap := gm_store origin e om\<rparr>, updated))
         else (t\<lparr>srt_originsMap := om\<rparr>, True))"

definition GetNextHop :: "string \<Rightarrow> SafeRoutingTable \<Rightarrow> address option" where
  "GetNextHop origin t = map_option GetAddress (gm_load (srt_originsMap t) origin)"

definition makeRoutingGossip :: "string \<Rightarrow> SafeCounter \<Rightarrow> SafeCounter \<times> GossipPacket" where
  "makeRoutingGossip origin seqIDCounter =
     (let (c, v) = GetAndIncrement seqIDCounter
      in (c, emptyPacket\<lparr>gp_Rumor := Some \<lparr>rm_Origin = origin, rm_ID = v, rm_Text = ''''\<rparr>\<rparr>))"

section \<open>Specification: the freshest route\<close>

text \<open>
  A run of updates \<open>(seqID, origin, sender)\<close>, oldest first.  \<open>freshest\<close> is the first update
  with the largest sequence number, if there is one.
\<close>

fun fresher :: "(uint32 \<times> address) option \<Rightarrow> (uint32 \<times> address) option \<Rightarrow> (uint32 \<times> address) option" where
  "fresher None s = s"
| "fresher r None = r"
| "fresher (Some (n, a)) (Some (n', a')) = (if n' > n then Some (n', a') else Some (n, a))"

fun freshest :: "(uint32 \<times> address) list \<Rightarrow> (uint32 \<times> address) option" where
  "freshest [] = None"
| "freshest (u # us) = fresher (Some u) (freshest us)"

fun updates :: "(uint32 \<times> string \<times> address) list \<Rightarrow> SafeRoutingTable \<Rightarrow> SafeRoutingTable" where
  "updates [] t = t"
| "updates ((n, origin, a) # us) t = updates us (fst (UpdateEntry n origin a t))"

definition route :: "SafeRoutingTable \<Rightarrow> string \<Rightarrow> (uint32 \<times> address) option" where
  "route t origin = map_option (\<lambda>e. (srte_seqNum e, srte_address e)) (gm_load (srt_originsMap t) origin)"

lemma GetNextHop_route: "GetNextHop origin t = map_option snd (route t origin)"
  by (cases "gm_load (srt_originsMap t) origin") (auto simp: GetNextHop_def route_def GetAddress_def)

lemma route_UpdateEntry:
  "route (fst (UpdateEntry n origin a t)) origin' =
     (if origin' = origin
      then fresher (route t origin) (Some (n, a)) else route t origin')"
  by (auto simp: UpdateEntry_def Update_def NewSafeRoutingTableEntry_def route_def Let_def
      gm_loadOrStore_def split: option.splits)

lemma UpdateEntry_updated:
  "snd (UpdateEntry n origin a t) \<longleftrightarrow> (case route t origin of None \<Rightarrow> True | Some (n', _) \<Rightarrow> n > n')"
  by (auto simp: UpdateEntry_def Update_def NewSafeRoutingTableEntry_def route_def Let_def
      gm_loadOrStore_def split: option.splits)

text \<open>The table after a run of updates is the freshest of its old route and the updates.\<close>

lemma fresher_None [simp]: "fresher r None = r"
  by (cases r) auto

lemma fresher_assoc: "fresher (fresher r s) t = fresher r (fresher s t)"
  by (cases r; cases s; cases t) auto

lemma route_updates:
  "route (updates us t) origin =
     fresher (route t origin)
       (freshest (map (\<lambda>(n, _, a). (n, a)) (filter (\<lambda>(_, o', _). o' = origin) us)))"
  by (induction us t rule: updates.induct) (auto simp: route_UpdateEntry fresher_assoc)

lemma fresher_Some: "fresher (Some u) s \<noteq> None"
  by (cases u; cases s) auto

lemma freshest_None [simp]: "freshest us = None \<longleftrightarrow> us = []"
  by (cases us) (simp_all add: fresher_Some del: not_None_eq)

lemma freshest_max:
  "freshest us = Some (n, a) \<Longrightarrow> (n, a) \<in> set us \<and> (\<forall>(n', _) \<in> set us. n' \<le> n)"
proof (induction us arbitrary: n a)
  case (Cons u us)
  show ?case
  proof (cases "freshest us")
    case None
    then show ?thesis using Cons.prems by (cases u) auto
  next
    case (Some v)
    then show ?thesis using Cons.prems Cons.IH [of "fst v" "snd v"]
      by (cases u; cases v) (fastforce split: if_splits)
  qed
qed simp

section \<open>Properties\<close>

lemma route_new [simp]: "route NewSafeRoutingTable origin = None"
  by (simp add: route_def NewSafeRoutingTable_def)

text \<open>C32: after any run of updates the next hop to an origin is the sender of the first update
  with the largest sequence number for that origin, and there is none before the first update.\<close>

theorem next_hop_is_freshest:
  "GetNextHop origin (updates us NewSafeRoutingTable) =
     map_option snd (freshest (map (\<lambda>(n, _, a). (n, a)) (filter (\<lambda>(_, o', _). o' = origin) us)))"
  by (simp add: GetNextHop_route route_updates)

text \<open>The entry of the routing table carries the largest sequence number seen for its
  origin, and came with one of the updates.\<close>

theorem route_number_is_maximal:
  assumes "route (updates us NewSafeRoutingTable) origin = Some (n, a)"
  shows "(n, origin, a) \<in> set us \<and> (\<forall>(n', o', a') \<in> set us. o' = origin \<longrightarrow> n' \<le> n)"
proof -
  let ?us = "map (\<lambda>(n, _, a). (n, a)) (filter (\<lambda>(_, o', _). o' = origin) us)"
  have "freshest ?us = Some (n, a)"
    using assms by (simp add: route_updates)
  from freshest_max [OF this] show ?thesis by fastforce
qed

theorem route_number_is_maximal_witness:
  "(5, ''a'', ''1.1.1.1:5'') \<in> set [(3, ''a'', ''1.1.1.1:3''), (5 :: uint32, ''a'', ''1.1.1.1:5'')]"
  using route_number_is_maximal
    [of "[(3, ''a'', ''1.1.1.1:3''), (5, ''a'', ''1.1.1.1:5'')]" "''a''" 5 "''1.1.1.1:5''"]
  by (simp add: route_updates)

end
