(* ===== verification/Listeners.thy ===== *)
theory Listeners
  imports Containers
begin

text \<open>
  One-shot listeners: \<open>src/fileparsing/DLChanMap.go\<close> (goroutines waiting for a chunk) and
  \<open>src/dht/chanMap.go\<close> (goroutines waiting for the answer to a DHT message).  Both register a
  channel under a key with \<open>LoadOrStore\<close> and hand over one value.  \<open>InformListener\<close> returns the
  channel the value is sent on, if any.
\<close>

record DLChanMap =
  dlcm_checksumMap :: "(hash32, chan) gomap"

definition NewDLChanMap :: DLChanMap where
  "NewDLChanMap = \<lparr>dlcm_checksumMap = []\<rparr>"

definition dlcm_AddListener :: "chan \<Rightarrow> hash32 \<Rightarrow> DLChanMap \<Rightarrow> DLChanMap \<times> chan \<times> bool" where
  "dlcm_AddListener cData checksum m =
     (let (cm, c, loaded) = gm_loadOrStore checksum cData (dlcm_checksumMap m)
      in (m\<lparr>dlcm_checksumMap := cm\<rparr>, c, \<not> loaded))"

definition dlcm_InformListener :: "hash32 \<Rightarrow> DLChanMap \<Rightarrow> DLChanMap \<times> chan option" where
  "dlcm_InformListener checksum m =
     (case gm_load (dlcm_checksumMap m) checksum of
        Some c \<Rightarrow> (m\<lparr>dlcm_checksumMap := gm_delete checksum (dlcm_checksumMap m)\<rparr>, Some c)
      | None \<Rightarrow> (m, None))"

record ChanMap =
  cm_NonceMessageMap :: "(uint64, chan) gomap"

definition NewChanMap :: ChanMap where
  "NewChanMap = \<lparr>cm_NonceMessageMap = []\<rparr>"

definition cm_AddListener :: "chan \<Rightarrow> uint64 \<Rightarrow> ChanMap \<Rightarrow> ChanMap \<times> chan \<times> bool" where
  "cm_AddListener cMsg nonce m =
     (let (cm, c, loaded) = gm_loadOrStore nonce cMsg (cm_NonceMessageMap m)
      in (m\<lparr>cm_NonceMessageMap := cm\<rparr>, c, \<not> loaded))"

definition cm_RemoveListener :: "uint64 \<Rightarrow> ChanMap \<Rightarrow> ChanMap" where
  "cm_RemoveListener nonce m = m\<lparr>cm_NonceMessageMap := gm_delete nonce (cm_NonceMessageMap m)\<rparr>"

definition cm_InformListener :: "uint64 \<Rightarrow> ChanMap \<Rightarrow> ChanMap \<times> chan option" where
  "cm_InformListener nonce m =
     (case gm_load (cm_NonceMessageMap m) nonce of
        Some c \<Rightarrow> (m\<lparr>cm_NonceMessageMap := gm_delete nonce (cm_NonceMessageMap m)\<rparr>, Some c)
      | None \<Rightarrow> (m, None))"

section \<open>The contract\<close>

locale one_shot =
  fixes waiting :: "'m \<Rightarrow> 'k \<Rightarrow> chan option"
    and add :: "chan \<Rightarrow> 'k \<Rightarrow> 'm \<Rightarrow> 'm \<times> chan \<times> bool"
    and inform :: "'k \<Rightarrow> 'm \<Rightarrow> 'm \<times> chan option"
  assumes add_waiting: "waiting (fst (add c k m)) k' =
      (if k' = k then Some (case waiting m k of None \<Rightarrow> c | Some c' \<Rightarrow> c') else waiting m k')"
    and add_result: "snd (add c k m) = (case waiting m k of None \<Rightarrow> (c, True) | Some c' \<Rightarrow> (c', False))"
    and inform_waiting: "waiting (fst (inform k m)) k' = (if k' = k then None else waiting m k')"
    and inform_result: "snd (inform k m) = waiting m k"
begin

text \<open>A run of values arriving under the given keys; which channel each is sent on.\<close>

fun arrivals :: "'k list \<Rightarrow> 'm \<Rightarrow> chan option list" where
  "arrivals [] m = []"
| "arrivals (k # ks) m = snd (inform k m) # arrivals ks (fst (inform k m))"

lemma arrivals_none: "waiting m k = None \<Longrightarrow> i < length ks \<Longrightarrow> ks ! i = k \<Longrightarrow> arrivals ks m ! i = None"
proof (induction ks arbitrary: m i)
  case (Cons k' ks)
  then show ?case by (cases i) (auto simp: inform_result inform_waiting)
qed simp

lemma arrivals_first:
  "i < length ks \<Longrightarrow> arrivals ks m ! i = (if ks ! i \<in> set (take i ks) then None else waiting m (ks ! i))"
proof (induction ks arbitrary: m i)
  case (Cons k ks)
  then show ?case by (cases i) (auto simp: inform_result inform_waiting)
qed simp

lemma second_add_not_new: "snd (snd (add c' k (fst (add c k m)))) = False"
  by (simp add: add_result add_waiting)

end

interpretation dlcm: one_shot "\<lambda>m. gm_load (dlcm_checksumMap m)" dlcm_AddListener dlcm_InformListener
  by unfold_locales (auto simp: dlcm_AddListener_def dlcm_InformListener_def gm_loadOrStore_def
      Let_def split: option.splits)

interpretation cm: one_shot "\<lambda>m. gm_load (cm_NonceMessageMap m)" cm_AddListener cm_InformListener
  by unfold_locales (auto simp: cm_AddListener_def cm_InformListener_def gm_loadOrStore_def
      Let_def split: option.splits)

end
