(* ===== verification/FileParsing.thy ===== *)
theory FileParsing
  imports Listeners
begin

text \<open>
  \<open>src/fileparsing\<close>: files as 8 KiB chunks, the metafile that concatenates the checksums of the
  chunks, and the stores of chunks and of file entries.  SHA-256 is the argument \<open>sha256\<close> of the
  operations that call it; what is used of it is that a sum has 32 bytes (\<open>sum32\<close>) and, where two
  files are compared, that the sums at hand do not collide.

  A file of the disk is \<open>GoodFile\<close> with its contents, \<open>NoFile\<close> when \<open>os.Open\<close> fails, or
  \<open>BadFile\<close> when a read fails after the given bytes.  A read of a regular file fills the
  8192-byte slice unless the file ends.
\<close>

section \<open>Chunks\<close>

definition shareBaseDir :: string where
  "shareBaseDir = ''./_SharedFiles/''"

definition dlBaseDir :: string where
  "dlBaseDir = ''./_Downloads/''"

definition dlBaseDirHW3 :: string where
  "dlBaseDirHW3 = ''./hw3/_Downloads/''"

definition defaultChunkSize :: nat where
  "defaultChunkSize = 8192"

datatype go_file = NoFile | GoodFile bytes | BadFile bytes

function read_chunks :: "bytes \<Rightarrow> bytes list" where
  "read_chunks rest =
     (if rest = [] then []
      else take defaultChunkSize rest # read_chunks (drop defaultChunkSize rest))"
  by auto
termination
  by (relation "measure length") (auto simp: defaultChunkSize_def)

declare read_chunks.simps [simp del]

definition ReadChunks :: "(string \<Rightarrow> go_file) \<Rightarrow> string \<Rightarrow> (bytes list \<times> nat) option" where
  "ReadChunks disk fileName =
     (case disk (shareBaseDir @ fileName) of
        NoFile \<Rightarrow> None
      | BadFile _ \<Rightarrow> None
      | GoodFile content \<Rightarrow>
          (let chunks = read_chunks content in Some (chunks, sum_list (map length chunks))))"

text \<open>\<open>writable\<close> tells for each path whether \<open>os.Create\<close> and the writes succeed.\<close>

definition WriteFileFromChunks ::
    "(string \<Rightarrow> bool) \<Rightarrow> string \<Rightarrow> bytes list \<Rightarrow> bool \<Rightarrow> (string \<Rightarrow> go_file) \<Rightarrow> (string \<Rightarrow> go_file) \<times> bool" where
  "WriteFileFromChunks writable name chunks hw3 disk =
     (let dir = (if hw3 then dlBaseDirHW3 else dlBaseDir) in
      if \<not> writable (dir @ name) then (disk, False)
      else (disk(dir @ name := GoodFile (concat chunks)), True))"

definition CreateChunksMap ::
    "(bytes \<Rightarrow> hash32) \<Rightarrow> bytes list \<Rightarrow> (hash32, bytes) gomap \<times> bytes \<times> hash32" where
  "CreateChunksMap sha256 chunks =
     (let chunkMap = fold (\<lambda>chunk m. gm_store (sha256 chunk) chunk m) chunks [];
          metafile = concat (map sha256 chunks)
      in (chunkMap, metafile, sha256 metafile))"

definition ParseMetafile :: "bytes \<Rightarrow> hash32 list option" where
  "ParseMetafile metafile =
     (if length metafile mod 32 \<noteq> 0 then None
      else Some (map (\<lambda>i. take 32 (drop (i * 32) metafile)) [0..<length metafile div 32]))"

definition ConvertToHash32 :: "bytes \<Rightarrow> hash32 \<times> bool" where
  "ConvertToHash32 hash = (if length hash \<noteq> 32 then (replicate 32 0, False) else (hash, True))"

definition VerifyDataHash :: "(bytes \<Rightarrow> hash32) \<Rightarrow> bytes \<Rightarrow> bytes \<Rightarrow> bool" where
  "VerifyDataHash sha256 hash data = (if length hash \<noteq> 32 then False else hash = sha256 data)"

definition EstimateFileSize :: "bytes \<Rightarrow> int" where
  "EstimateFileSize metafile =
     (if length metafile mod 32 \<noteq> 0 then -1
      else int (length metafile div 32 * defaultChunkSize))"

fun ContainsKeyword :: "string \<Rightarrow> string list \<Rightarrow> bool" where
  "ContainsKeyword name [] = False"
| "ContainsKeyword name (keyword # keywords) =
     (if strings_Contains name keyword then True else ContainsKeyword name keywords)"

section \<open>The stores\<close>

record SafeChunkMap =
  scm_chunksMap :: "(hash32, bytes) gomap"

definition NewSafeChunkMap :: SafeChunkMap where
  "NewSafeChunkMap = \<lparr>scm_chunksMap = []\<rparr>"

definition AddChunk :: "hash32 \<Rightarrow> bytes \<Rightarrow> SafeChunkMap \<Rightarrow> SafeChunkMap \<times> bool" where
  "AddChunk checksum chunk m =
     (let (cm, _, notNew) = gm_loadOrStore checksum chunk (scm_chunksMap m)
      in (m\<lparr>scm_chunksMap := cm\<rparr>, \<not> notNew))"

definition AddUncheckedChunk :: "(bytes \<Rightarrow> hash32) \<Rightarrow> bytes \<Rightarrow> SafeChunkMap \<Rightarrow> SafeChunkMap \<times> bool" where
  "AddUncheckedChunk sha256 chunk m =
     (let (cm, _, notNew) = gm_loadOrStore (sha256 chunk) chunk (scm_chunksMap m)
      in (m\<lparr>scm_chunksMap := cm\<rparr>, \<not> notNew))"

definition GetChunk :: "hash32 \<Rightarrow> SafeChunkMap \<Rightarrow> bytes option" where
  "GetChunk checksum m = gm_load (scm_chunksMap m) checksum"

record SafeFileEntry =
  sfe_name :: string
  sfe_size :: int
  sfe_metafile :: bytes
  sfe_metahash :: hash32
  sfe_chunkIndices :: "uint64 list"

definition NewSafeFileEntry :: "string \<Rightarrow> int \<Rightarrow> bytes \<Rightarrow> hash32 \<Rightarrow> SafeFileEntry" where
  "NewSafeFileEntry name fsize metafile metahash =
     (let chunkNum = length metafile div 32
      in \<lparr>sfe_name = name, sfe_size = fsize, sfe_metafile = metafile, sfe_metahash = metahash,
          sfe_chunkIndices = map of_nat [1..<Suc chunkNum]\<rparr>)"

text \<open>\<open>sort.Slice\<close> sorts the entry's own slice.\<close>

definition SafeGetContents ::
    "SafeFileEntry \<Rightarrow> SafeFileEntry \<times> string \<times> int \<times> bytes \<times> hash32 \<times> uint64 list" where
  "SafeGetContents sfe =
     (let chunkIndices = sort (sfe_chunkIndices sfe)
      in (sfe\<lparr>sfe_chunkIndices := chunkIndices\<rparr>, sfe_name sfe, sfe_size sfe, sfe_metafile sfe,
          sfe_metahash sfe, chunkIndices))"

definition SafeSetSize :: "int \<Rightarrow> SafeFileEntry \<Rightarrow> SafeFileEntry" where
  "SafeSetSize newSize sfe = sfe\<lparr>sfe_size := newSize\<rparr>"

definition SafeAddChunkIndex :: "uint64 \<Rightarrow> SafeFileEntry \<Rightarrow> SafeFileEntry" where
  "SafeAddChunkIndex index sfe = sfe\<lparr>sfe_chunkIndices := sfe_chunkIndices sfe @ [index]\<rparr>"

record SafeFileMap =
  sfm_filesMap :: "(hash32, SafeFileEntry) gomap"

definition NewSafeFileMap :: SafeFileMap where
  "NewSafeFileMap = \<lparr>sfm_filesMap = []\<rparr>"

definition AddEntry :: "string \<Rightarrow> int \<Rightarrow> bytes \<Rightarrow> hash32 \<Rightarrow> SafeFileMap \<Rightarrow> SafeFileMap \<times> bool" where
  "AddEntry name fsize metafile metahash m =
     (let sfe = NewSafeFileEntry name fsize metafile metahash;
          (fm, _, notNew) = gm_loadOrStore (sfe_metahash sfe) sfe (sfm_filesMap m)
      in (m\<lparr>sfm_filesMap := fm\<rparr>, \<not> notNew))"

definition GetEntry :: "hash32 \<Rightarrow> SafeFileMap \<Rightarrow> SafeFileEntry option" where
  "GetEntry metahash m = gm_load (sfm_filesMap m) metahash"

fun match_entries :: "string list \<Rightarrow> (hash32, SafeFileEntry) gomap
    \<Rightarrow> (hash32, SafeFileEntry) gomap \<times> SearchResult list" where
  "match_entries keywords [] = ([], [])"
| "match_entries keywords ((k, sfe) # rest) =
     (let (sfe', name, _, metafile, metahash, chunkIndices) = SafeGetContents sfe;
          (rest', sress) = match_entries keywords rest;
          chunkCount = of_nat (length metafile div 32);
          sres = \<lparr>sres_FileName = name, sres_MetafileHash = metahash,
                  sres_ChunkMap = chunkIndices, sres_ChunkCount = chunkCount\<rparr>
      in ((k, sfe') # rest', if ContainsKeyword name keywords then sres # sress else sress))"

definition GetMatches :: "string list \<Rightarrow> SafeFileMap \<Rightarrow> SafeFileMap \<times> SearchResult list" where
  "GetMatches keywords m =
     (let (fm, sress) = match_entries keywords (sfm_filesMap m) in (m\<lparr>sfm_filesMap := fm\<rparr>, sress))"

record SafeFileSet =
  sfs_filesSet :: "(hash32, bool) gomap"

definition NewSafeFileSet :: SafeFileSet where
  "NewSafeFileSet = \<lparr>sfs_filesSet = []\<rparr>"

definition AddUnique :: "hash32 \<Rightarrow> SafeFileSet \<Rightarrow> SafeFileSet \<times> bool" where
  "AddUnique metahash s =
     (let (fs, _, notNew) = gm_loadOrStore metahash True (sfs_filesSet s)
      in (s\<lparr>sfs_filesSet := fs\<rparr>, \<not> notNew))"

definition sfs_Delete :: "hash32 \<Rightarrow> SafeFileSet \<Rightarrow> SafeFileSet" where
  "sfs_Delete metahash s = s\<lparr>sfs_filesSet := gm_delete metahash (sfs_filesSet s)\<rparr>"

section \<open>Chunking loses nothing\<close>

lemma concat_read_chunks: "concat (read_chunks c) = c"
  by (induction c rule: read_chunks.induct) (subst read_chunks.simps, auto)

lemma read_chunks_nonempty: "[] \<notin> set (read_chunks c)"
  by (induction c rule: read_chunks.induct)
     (subst read_chunks.simps, auto simp: defaultChunkSize_def)

lemma sum_read_chunks: "sum_list (map length (read_chunks c)) = length c"
  by (metis concat_read_chunks length_concat)

lemma read_chunks_sizes:
  "list_all (\<lambda>k. length k = defaultChunkSize) (butlast (read_chunks c))
   \<and> list_all (\<lambda>k. length k \<le> defaultChunkSize) (read_chunks c)"
proof (induction c rule: read_chunks.induct)
  case (1 rest)
  show ?case
  proof (cases "length rest \<le> defaultChunkSize")
    case True
    then have "read_chunks (drop defaultChunkSize rest) = []" by (simp add: read_chunks.simps)
    then show ?thesis by (subst (1 2) read_chunks.simps) simp
  next
    case False
    then have "rest \<noteq> []" "read_chunks (drop defaultChunkSize rest) \<noteq> []"
      by (auto simp: read_chunks.simps)
    then show ?thesis using 1 False by (subst (1 2) read_chunks.simps) auto
  qed
qed

lemma length_read_chunks:
  "length c \<le> length (read_chunks c) * defaultChunkSize
   \<and> (length (read_chunks c) * defaultChunkSize < length c + defaultChunkSize)"
proof (induction c rule: read_chunks.induct)
  case (1 rest)
  have pos: "0 < defaultChunkSize" by (simp add: defaultChunkSize_def)
  show ?case
  proof (cases "rest = []")
    case False
    have eq: "length (read_chunks rest) = Suc (length (read_chunks (drop defaultChunkSize rest)))"
      using False by (subst read_chunks.simps) simp
    show ?thesis
    proof (cases "length rest \<le> defaultChunkSize")
      case True
      then have "read_chunks (drop defaultChunkSize rest) = []" by (simp add: read_chunks.simps)
      then show ?thesis using eq True False by simp
    next
      case False
      then show ?thesis using 1 \<open>rest \<noteq> []\<close> eq by simp linarith
    qed
  qed (simp add: read_chunks.simps pos)
qed

section \<open>Metafiles\<close>

definition sum32 :: "(bytes \<Rightarrow> hash32) \<Rightarrow> bool" where
  "sum32 sha256 \<longleftrightarrow> (\<forall>x. length (sha256 x) = 32)"

lemma ParseMetafile_Some:
  assumes "ParseMetafile m = Some hs"
  shows "concat hs = m" "list_all (\<lambda>h. length h = 32) hs" "length hs = length m div 32"
proof -
  have d: "length m = 32 * (length m div 32)"
    and hs: "hs = map (\<lambda>i. take 32 (drop (i * 32) m)) [0..<length m div 32]"
    using assms by (auto simp: ParseMetafile_def split: if_splits)
  have "take (Suc n * 32) m = take (n * 32) m @ take 32 (drop (n * 32) m)" for n
    by (metis add.commute mult_Suc take_add)
  then have "concat (map (\<lambda>i. take 32 (drop (i * 32) m)) [0..<n]) = take (n * 32) m" for n
    by (induction n) (simp_all del: mult_Suc)
  then show "concat hs = m" using d hs by (metis dual_order.refl mult.commute take_all)
  have "length (take 32 (drop (i * 32) m)) = 32" if "i < length m div 32" for i
    using that d by simp
  then show "list_all (\<lambda>h. length h = 32) hs" by (simp add: hs list_all_iff)
  show "length hs = length m div 32" by (simp add: hs)
qed

lemma length_concat_32: "list_all (\<lambda>h. length h = 32) hs \<Longrightarrow> length (concat hs) = 32 * length hs"
  by (induction hs) auto

lemma concat_32_inj:
  "concat gs = concat hs \<Longrightarrow> list_all (\<lambda>h. length h = 32) gs \<Longrightarrow> list_all (\<lambda>h. length h = 32) hs \<Longrightarrow> gs = hs"
proof (induction gs arbitrary: hs)
  case Nil
  then show ?case by (cases hs) auto
next
  case (Cons g gs)
  then show ?case by (cases hs) auto
qed

lemma ParseMetafile_concat:
  assumes "list_all (\<lambda>h. length h = 32) hs"
  shows "ParseMetafile (concat hs) = Some hs"
proof -
  have l: "length (concat hs) = 32 * length hs" using assms by (rule length_concat_32)
  then obtain gs where gs: "ParseMetafile (concat hs) = Some gs" by (simp add: ParseMetafile_def)
  then show ?thesis using ParseMetafile_Some [OF gs] assms by (simp add: concat_32_inj)
qed

lemma sums_32: "sum32 sha256 \<Longrightarrow> list_all (\<lambda>h. length h = 32) (map sha256 chunks)"
  by (simp add: sum32_def list_all_iff)

lemma fold_store_load:
  "gm_load (fold (\<lambda>chunk m. gm_store (sha256 chunk) chunk m) chunks m0) h =
     (let cs = filter (\<lambda>c. sha256 c = h) chunks
      in if cs = [] then gm_load m0 h else Some (last cs))"
  by (induction chunks arbitrary: m0) (auto simp: Let_def)

lemma CreateChunksMap_load:
  assumes "inj_on sha256 (set chunks)" "c \<in> set chunks"
  shows "gm_load (fst (CreateChunksMap sha256 chunks)) (sha256 c) = Some c"
proof -
  have "set (filter (\<lambda>c'. sha256 c' = sha256 c) chunks) = {c}"
    using assms by (auto dest: inj_onD)
  then have "filter (\<lambda>c'. sha256 c' = sha256 c) chunks \<noteq> []"
    "last (filter (\<lambda>c'. sha256 c' = sha256 c) chunks) = c"
    by (metis empty_set insert_not_empty, metis empty_set insert_not_empty last_in_set singletonD)
  then show ?thesis by (simp add: CreateChunksMap_def Let_def fold_store_load split: if_splits)
qed

lemma CreateChunksMap_sums:
  "gm_load (fst (CreateChunksMap sha256 chunks)) h = Some c \<Longrightarrow> sha256 c = h \<and> c \<in> set chunks"
proof -
  assume a: "gm_load (fst (CreateChunksMap sha256 chunks)) h = Some c"
  let ?f = "filter (\<lambda>c'. sha256 c' = h) chunks"
  have "?f \<noteq> [] \<and> c = last ?f"
    using a by (auto simp: CreateChunksMap_def Let_def fold_store_load split: if_splits)
  then have "c \<in> set ?f" by (metis last_in_set)
  then show ?thesis by simp
qed

section \<open>Stored chunks match their checksum\<close>

definition scm_inv :: "(bytes \<Rightarrow> hash32) \<Rightarrow> SafeChunkMap \<Rightarrow> bool" where
  "scm_inv sha256 m \<longleftrightarrow> list_all (\<lambda>(h, c). sha256 c = h) (scm_chunksMap m) \<and> gm_wf (scm_chunksMap m)"

lemma scm_inv_Get: "scm_inv sha256 m \<Longrightarrow> GetChunk h m = Some c \<Longrightarrow> sha256 c = h"
  by (auto simp: scm_inv_def GetChunk_def gm_load_Some_iff list_all_iff)

lemma scm_inv_AddChunk:
  assumes "scm_inv sha256 m" "h = sha256 c"
  shows "scm_inv sha256 (fst (AddChunk h c m))"
proof -
  have "gm_wf (fst (gm_loadOrStore h c (scm_chunksMap m)))" using assms(1) by (simp add: scm_inv_def)
  then show ?thesis using assms
    by (auto simp: scm_inv_def AddChunk_def gm_loadOrStore_def Let_def gm_store_new split: option.splits)
qed

lemma GetChunk_AddChunk:
  "GetChunk h' (fst (AddChunk h c m)) =
     (if h' = h \<and> GetChunk h m = None then Some c else GetChunk h' m)"
  by (auto simp: GetChunk_def AddChunk_def gm_loadOrStore_def Let_def split: option.splits)

lemma AddChunk_new: "snd (AddChunk h c m) \<longleftrightarrow> GetChunk h m = None"
  by (auto simp: GetChunk_def AddChunk_def gm_loadOrStore_def Let_def split: option.splits)

section \<open>Properties\<close>

text \<open>A stand-in for SHA-256 in the examples: 32 bytes, the first one the length of the data.\<close>

definition example_sum :: "bytes \<Rightarrow> hash32" where
  "example_sum bs = of_nat (length bs) # replicate 31 0"

lemma example_sum32: "sum32 example_sum"
  by (simp add: sum32_def example_sum_def)

text \<open>Reading a file into chunks loses nothing: the chunks concatenate to the contents,
  the reported size is the file's size, no chunk is empty, every chunk but the last has 8192
  bytes and none has more.\<close>

theorem ReadChunks_lossless:
  assumes "disk (shareBaseDir @ name) = GoodFile content"
  shows "\<exists>chunks. ReadChunks disk name = Some (chunks, length content) \<and> concat chunks = content
    \<and> [] \<notin> set chunks \<and> list_all (\<lambda>c. length c \<le> defaultChunkSize) chunks
    \<and> list_all (\<lambda>c. length c = defaultChunkSize) (butlast chunks)"
  using assms concat_read_chunks [of content] read_chunks_nonempty [of content]
    sum_read_chunks [of content] read_chunks_sizes [of content]
  by (simp add: ReadChunks_def Let_def)

theorem ReadChunks_lossless_witness:
  "\<exists>chunks. ReadChunks (\<lambda>_. GoodFile [1, 2, 3]) ''f'' = Some (chunks, 3) \<and> concat chunks = [1, 2, 3]"
  using ReadChunks_lossless [of "\<lambda>_. GoodFile [1, 2, 3]" "''f''" "[1, 2, 3]"] by auto

text \<open>C36: \<open>ParseMetafile\<close> inverts \<open>CreateChunksMap\<close>: it splits the metafile into the checksums
  of the chunks, in order.\<close>

theorem metafile_roundtrip:
  assumes "sum32 sha256"
  shows "ParseMetafile (fst (snd (CreateChunksMap sha256 chunks))) = Some (map sha256 chunks)"
  using ParseMetafile_concat [OF sums_32 [OF assms]] by (simp add: CreateChunksMap_def Let_def)

theorem metafile_roundtrip_witness:
  "ParseMetafile (fst (snd (CreateChunksMap example_sum [[1], [2, 3]]))) = Some [example_sum [1], example_sum [2, 3]]"
  using metafile_roundtrip [OF example_sum32, of "[[1], [2, 3]]"] by simp

text \<open>C32: \<open>ParseMetafile\<close> fails exactly on a length that is no multiple of 32, and otherwise
  returns 32-byte checksums whose concatenation is the metafile.\<close>

theorem ParseMetafile_spec:
  "case ParseMetafile m of
     None \<Rightarrow> length m mod 32 \<noteq> 0
   | Some hs \<Rightarrow> length m mod 32 = 0 \<and> concat hs = m \<and> list_all (\<lambda>h. length h = 32) hs"
proof (cases "ParseMetafile m")
  case None
  then show ?thesis by (simp add: ParseMetafile_def split: if_splits)
next
  case (Some hs)
  moreover from this have "length m mod 32 = 0" by (simp add: ParseMetafile_def split: if_splits)
  ultimately show ?thesis using ParseMetafile_Some [OF Some] by simp
qed

text \<open>The size estimated from the metafile of a file is at least the file's size and less
  than one chunk above it.\<close>

theorem EstimateFileSize_bounds:
  assumes "sum32 sha256"
  shows "int (length content) \<le> EstimateFileSize (fst (snd (CreateChunksMap sha256 (read_chunks content))))
    \<and> EstimateFileSize (fst (snd (CreateChunksMap sha256 (read_chunks content)))) < int (length content) + 8192"
proof -
  let ?m = "concat (map sha256 (read_chunks content))"
  have "length ?m = 32 * length (read_chunks content)"
    using length_concat_32 [OF sums_32 [OF assms, of "read_chunks content"]] by simp
  then have "EstimateFileSize ?m = int (length (read_chunks content) * defaultChunkSize)"
    by (simp add: EstimateFileSize_def)
  then show ?thesis using length_read_chunks [of content]
    by (simp add: CreateChunksMap_def Let_def defaultChunkSize_def del: of_nat_mult)
qed

theorem EstimateFileSize_bounds_witness:
  "int (length ([1, 2, 3] :: bytes)) \<le> EstimateFileSize (fst (snd (CreateChunksMap example_sum (read_chunks [1, 2, 3]))))"
  using EstimateFileSize_bounds [OF example_sum32, of "[1, 2, 3]"] by blast

end
