(* ===== verification/FileSearching.thy ===== *)
theory FileSearching
  imports FileParsing
begin

text \<open>
  \<open>src/filesearching\<close>: who owns which chunk of a file (\<open>FileChunkOwnersMap.go\<close>), which names a
  metahash goes by (\<open>SafeFilenamesMap.go\<close>) and the keyword searches in progress
  (\<open>SafeSearchMap.go\<close>).
\<close>

section \<open>Chunk owners\<close>

record ChunkOwnersMap =
  com_numChunks :: uint64
  com_chunkOwners :: "(uint64, SafeStringArray) gomap"

definition NewChunkOwnersMap :: "uint64 \<Rightarrow> ChunkOwnersMap" where
  "NewChunkOwnersMap numChunks = \<lparr>com_numChunks = numChunks, com_chunkOwners = []\<rparr>"

definition add_owner :: "string \<Rightarrow> uint64 \<Rightarrow> (uint64, SafeStringArray) gomap \<Rightarrow> (uint64, SafeStringArray) gomap" where
  "add_owner origin v owners =
     (case gm_load owners v of
        Some array \<Rightarrow> gm_store v (fst (AppendUniqueToArray origin array)) owners
      | None \<Rightarrow> gm_store v (NewSafeStringArray [origin]) owners)"

definition total_match :: "ChunkOwnersMap \<Rightarrow> bool" where
  "total_match com = (int (length (com_chunkOwners com)) = sint (com_numChunks com))"

definition UpdateMap :: "string \<Rightarrow> uint64 list \<Rightarrow> ChunkOwnersMap \<Rightarrow> ChunkOwnersMap \<times> bool \<times> bool" where
  "UpdateMap origin chunkMap com =
     (let hadTotalMatch = total_match com;
          com' = com\<lparr>com_chunkOwners := fold (add_owner origin) chunkMap (com_chunkOwners com)\<rparr>;
          hasTotalMatch = total_match com'
      in (com', \<not> hadTotalMatch \<and> hasTotalMatch, hasTotalMatch))"

definition com_GetMapCopy :: "ChunkOwnersMap \<Rightarrow> (uint64, SafeStringArray) gomap \<times> bool" where
  "com_GetMapCopy com = (com_chunkOwners com, total_match com)"

record MetahashToChunkOwnersMap =
  mtcom_chunkOwnersMaps :: "(hash32, ChunkOwnersMap) gomap"

definition NewMetahashToChunkOwnersMap :: MetahashToChunkOwnersMap where
  "NewMetahashToChunkOwnersMap = \<lparr>mtcom_chunkOwnersMaps = []\<rparr>"

definition UpdateWithSearchResult ::
    "string \<Rightarrow> SearchResult \<Rightarrow> MetahashToChunkOwnersMap \<Rightarrow> MetahashToChunkOwnersMap \<times> bool \<times> bool" where
  "UpdateWithSearchResult origin sr m =
     (let (hash32, isHash) = ConvertToHash32 (sres_MetafileHash sr) in
      if isHash then
        (let (cms, com, _) = gm_loadOrStore hash32 (NewChunkOwnersMap (sres_ChunkCount sr))
                               (mtcom_chunkOwnersMaps m);
             (com', madeTotalMatch, hasTotalMatch) = UpdateMap origin (sres_ChunkMap sr) com
         in (m\<lparr>mtcom_chunkOwnersMaps := gm_store hash32 com' cms\<rparr>, madeTotalMatch, hasTotalMatch))
      else (m, False, False))"

definition GetMapCopy ::
    "hash32 \<Rightarrow> MetahashToChunkOwnersMap \<Rightarrow> (uint64, SafeStringArray) gomap \<times> bool \<times> bool" where
  "GetMapCopy metahash m =
     (case gm_load (mtcom_chunkOwnersMaps m) metahash of
        Some com \<Rightarrow> (let (chunkOwners, hasTotalMatch) = com_GetMapCopy com
                     in (chunkOwners, hasTotalMatch, True))
      | None \<Rightarrow> ([], False, False))"

section \<open>Filenames\<close>

record SafeFilenamesMap =
  sfnm_filenamesMap :: "(hash32, SafeStringArray) gomap"

definition NewSafefileNamesMap :: SafeFilenamesMap where
  "NewSafefileNamesMap = \<lparr>sfnm_filenamesMap = []\<rparr>"

definition AddMapping :: "hash32 \<Rightarrow> string \<Rightarrow> SafeFilenamesMap \<Rightarrow> SafeFilenamesMap \<times> bool" where
  "AddMapping metahash filename m =
     (let arr = NewSafeStringArray [filename];
          (fm, arrI, notNew) = gm_loadOrStore metahash arr (sfnm_filenamesMap m);
          fm' = (if notNew then gm_store metahash (fst (AppendUniqueToArray filename arrI)) fm else fm)
      in (m\<lparr>sfnm_filenamesMap := fm'\<rparr>, \<not> notNew))"

definition GetMapping :: "hash32 \<Rightarrow> SafeFilenamesMap \<Rightarrow> SafeStringArray option" where
  "GetMapping metahash m = gm_load (sfnm_filenamesMap m) metahash"

definition matching_names :: "string list \<Rightarrow> SafeStringArray \<Rightarrow> SafeStringArray" where
  "matching_names keywords ssa =
     fold (\<lambda>name new. if ContainsKeyword name keywords then fst (AppendUniqueToArray name new) else new)
       (GetArrayCopy ssa) (NewSafeStringArray [])"

definition names_GetMatches :: "string list \<Rightarrow> SafeFilenamesMap \<Rightarrow> (hash32, SafeStringArray) gomap" where
  "names_GetMatches keywords m =
     fold (\<lambda>(metahash, ssa) mp.
             let newssa = matching_names keywords ssa
             in if GetLength newssa > 0 then gm_store metahash newssa mp else mp)
       (sfnm_filenamesMap m) []"

definition GetAllMatches :: "SafeFilenamesMap \<Rightarrow> (hash32, string list) gomap" where
  "GetAllMatches m = map (\<lambda>(k, v). (k, GetArrayCopy v)) (names_GetMatches [''''] m)"

section \<open>Searches in progress\<close>

definition ThresholdTotalMatches :: nat where
  "ThresholdTotalMatches = 2"

definition keywordsToHashable :: "string list \<Rightarrow> string" where
  "keywordsToHashable ss = strings_Join ss '',''"

definition hashableToKeywords :: "string \<Rightarrow> string list" where
  "hashableToKeywords s = strings_Split s CHR '',''"

type_synonym files_map = "(hash32, SafeStringArray) gomap"

record SearchMapEntry =
  sme_Files :: files_map
  sme_cFiles :: chan

definition NewSearchMapEntry :: "chan \<Rightarrow> SearchMapEntry" where
  "NewSearchMapEntry cRes = \<lparr>sme_Files = [], sme_cFiles = cRes\<rparr>"

definition NewSearchMapEntryWithFiles :: "chan \<Rightarrow> files_map \<Rightarrow> SearchMapEntry" where
  "NewSearchMapEntryWithFiles cRes files = \<lparr>sme_Files = files, sme_cFiles = cRes\<rparr>"

definition AppendFiles :: "string list \<Rightarrow> hash32 \<Rightarrow> SearchMapEntry \<Rightarrow> SearchMapEntry \<times> bool" where
  "AppendFiles filenames metahash sme =
     (let files = (case gm_load (sme_Files sme) metahash of
                     Some arr \<Rightarrow> gm_store metahash
                       (fold (\<lambda>name a. fst (AppendUniqueToArray name a)) filenames arr) (sme_Files sme)
                   | None \<Rightarrow> gm_store metahash (NewSafeStringArray []) (sme_Files sme))
      in (sme\<lparr>sme_Files := files\<rparr>, length files \<ge> ThresholdTotalMatches))"

record SafeSearchMap =
  ssm_searchesMap :: "(string, SearchMapEntry) gomap"

definition NewSafeSearchMap :: SafeSearchMap where
  "NewSafeSearchMap = \<lparr>ssm_searchesMap = []\<rparr>"

definition ssm_AddListener :: "chan \<Rightarrow> string list \<Rightarrow> SafeSearchMap \<Rightarrow> SafeSearchMap \<times> chan \<times> bool" where
  "ssm_AddListener cFiles keywords m =
     (let (sm, _, notNew) = gm_loadOrStore (keywordsToHashable keywords) (NewSearchMapEntry cFiles)
                              (ssm_searchesMap m)
      in (m\<lparr>ssm_searchesMap := sm\<rparr>, cFiles, \<not> notNew))"

definition ssm_RemoveListener :: "string list \<Rightarrow> SafeSearchMap \<Rightarrow> SafeSearchMap" where
  "ssm_RemoveListener keywords m =
     m\<lparr>ssm_searchesMap := gm_delete (keywordsToHashable keywords) (ssm_searchesMap m)\<rparr>"

definition AddListenerWithFiles ::
    "chan \<Rightarrow> string list \<Rightarrow> files_map \<Rightarrow> SafeSearchMap \<Rightarrow> SafeSearchMap \<times> chan \<times> bool" where
  "AddListenerWithFiles cFiles keywords files m =
     (let (sm, _, notNew) = gm_loadOrStore (keywordsToHashable keywords)
                              (NewSearchMapEntryWithFiles cFiles files) (ssm_searchesMap m)
      in (m\<lparr>ssm_searchesMap := sm\<rparr>, cFiles, \<not> notNew))"

definition CheckIfMatches :: "string list \<Rightarrow> SafeSearchMap \<Rightarrow> bool" where
  "CheckIfMatches filenames m =
     list_ex (\<lambda>(keywords, _). list_ex (\<lambda>name. ContainsKeyword name (hashableToKeywords keywords)) filenames)
       (ssm_searchesMap m)"

text \<open>
  The body of the range in \<open>InformListeners\<close>, for one search: the loop over the names, left
  once the search is informed.
\<close>

fun inform_search :: "string list \<Rightarrow> string list \<Rightarrow> hash32 \<Rightarrow> SearchMapEntry \<Rightarrow> SearchMapEntry \<times> bool" where
  "inform_search keywords [] metahash sme = (sme, False)"
| "inform_search keywords (name # names) metahash sme =
     (if ContainsKeyword name keywords then
        (let (sme', shouldInform) = AppendFiles [name] metahash sme
         in if shouldInform then (sme', True) else inform_search keywords names metahash sme')
      else inform_search keywords names metahash sme)"

fun inform_searches :: "string list \<Rightarrow> hash32 \<Rightarrow> (string, SearchMapEntry) gomap
    \<Rightarrow> (string, SearchMapEntry) gomap \<times> (chan \<times> files_map) list" where
  "inform_searches filenames metahash [] = ([], [])"
| "inform_searches filenames metahash ((k, sme) # rest) =
     (let (sme', informed) = inform_search (hashableToKeywords k) filenames metahash sme;
          (rest', sent) = inform_searches filenames metahash rest
      in if informed then (rest', (sme_cFiles sme', sme_Files sme') # sent)
         else ((k, sme') # rest', sent))"

definition ssm_InformListeners ::
    "string list \<Rightarrow> hash32 \<Rightarrow> SafeSearchMap \<Rightarrow> SafeSearchMap \<times> (chan \<times> files_map) list" where
  "ssm_InformListeners filenames metahash m =
     (let (sm, sent) = inform_searches filenames metahash (ssm_searchesMap m)
      in (m\<lparr>ssm_searchesMap := sm\<rparr>, sent))"

section \<open>Total matches\<close>

definition owners :: "ChunkOwnersMap \<Rightarrow> uint64 \<Rightarrow> string set" where
  "owners com v = (case gm_load (com_chunkOwners com) v of None \<Rightarrow> {} | Some a \<Rightarrow> set (ssa_array a))"

definition com_inv :: "ChunkOwnersMap \<Rightarrow> bool" where
  "com_inv com \<longleftrightarrow> gm_wf (com_chunkOwners com)
     \<and> list_all (\<lambda>(_, a). ssa_inv a \<and> ssa_array a \<noteq> []) (com_chunkOwners com)"

lemma gm_store_list_all:
  "list_all (\<lambda>(k, v). P v) m \<Longrightarrow> P v \<Longrightarrow> list_all (\<lambda>(k, v). P v) (gm_store k v m)"
  unfolding gm_store_def by (induction m) auto

lemma com_inv_load:
  "com_inv com \<Longrightarrow> gm_load (com_chunkOwners com) v = Some a \<Longrightarrow> ssa_inv a \<and> ssa_array a \<noteq> []"
  unfolding com_inv_def by (fastforce simp: list_all_iff gm_load_def dest!: map_of_SomeD)

lemma add_owner_inv:
  assumes "com_inv com"
  shows "com_inv (com\<lparr>com_chunkOwners := add_owner origin v (com_chunkOwners com)\<rparr>)"
proof (cases "gm_load (com_chunkOwners com) v")
  case None
  then show ?thesis using assms ssa_inv_New [of "[origin]"]
    by (auto simp: com_inv_def add_owner_def NewSafeStringArray_def intro!: gm_store_list_all)
next
  case (Some a)
  have "ssa_inv a \<and> ssa_array a \<noteq> []"
    using assms Some by (rule com_inv_load)
  then have "ssa_inv (fst (AppendUniqueToArray origin a)) \<and> ssa_array (fst (AppendUniqueToArray origin a)) \<noteq> []"
    by (simp add: ssa.append_inv ssa.append_elems)
  then show ?thesis using assms Some
    by (auto simp: com_inv_def add_owner_def intro!: gm_store_list_all)
qed

lemma owners_add_owner:
  assumes "com_inv com"
  shows "owners (com\<lparr>com_chunkOwners := add_owner origin v (com_chunkOwners com)\<rparr>) w =
     (if w = v then insert origin (owners com w) else owners com w)"
proof (cases "gm_load (com_chunkOwners com) v")
  case None
  then show ?thesis by (simp add: owners_def add_owner_def NewSafeStringArray_def)
next
  case (Some a)
  then have "ssa_inv a" using assms com_inv_load by blast
  then show ?thesis using Some by (auto simp: owners_def add_owner_def ssa.append_elems)
qed

lemma add_owners_inv:
  "com_inv com \<Longrightarrow> com_inv (com\<lparr>com_chunkOwners := fold (add_owner origin) vs (com_chunkOwners com)\<rparr>)"
proof (induction vs arbitrary: com)
  case (Cons v vs)
  then show ?case using add_owner_inv [OF Cons.prems] Cons.IH by fastforce
qed simp

lemma owners_add_owners:
  "com_inv com \<Longrightarrow> owners (com\<lparr>com_chunkOwners := fold (add_owner origin) vs (com_chunkOwners com)\<rparr>) w =
     owners com w \<union> (if w \<in> set vs then {origin} else {})"
proof (induction vs arbitrary: com)
  case (Cons v vs)
  let ?com = "com\<lparr>com_chunkOwners := add_owner origin v (com_chunkOwners com)\<rparr>"
  have "owners (?com\<lparr>com_chunkOwners := fold (add_owner origin) vs (com_chunkOwners ?com)\<rparr>) w =
      owners ?com w \<union> (if w \<in> set vs then {origin} else {})"
    using add_owner_inv [OF Cons.prems] by (rule Cons.IH)
  then show ?case using owners_add_owner [OF Cons.prems] by auto
qed simp

lemma UpdateMap_inv: "com_inv com \<Longrightarrow> com_inv (fst (UpdateMap origin vs com))"
  by (simp add: UpdateMap_def Let_def add_owners_inv)

lemma owners_UpdateMap:
  "com_inv com \<Longrightarrow> owners (fst (UpdateMap origin vs com)) w =
     owners com w \<union> (if w \<in> set vs then {origin} else {})"
  by (simp add: UpdateMap_def Let_def owners_add_owners)

lemma owned_keys: "com_inv com \<Longrightarrow> set (gm_keys (com_chunkOwners com)) = {v. owners com v \<noteq> {}}"
  by (auto simp: set_gm_keys owners_def dest: com_inv_load split: option.splits)

text \<open>Chunk indices as peers number them: from 1 to the number of chunks.\<close>

definition chunk_indices :: "uint64 \<Rightarrow> uint64 set" where
  "chunk_indices n = of_nat ` {1..unat n}"

lemma card_chunk_indices: "card (chunk_indices n) = unat n"
proof -
  have "inj_on (of_nat :: nat \<Rightarrow> uint64) {1..unat n}"
  proof (rule inj_onI)
    fix x y assume a: "x \<in> {1..unat n}" "y \<in> {1..unat n}" "(of_nat x :: uint64) = of_nat y"
    have "x < 2 ^ 64" "y < 2 ^ 64" using a unsigned_less [where 'a = nat, of n] by auto
    then show "x = y" using a(3) by (metis unat_of_nat64)
  qed
  then show ?thesis by (simp add: chunk_indices_def card_image)
qed

lemma total_match_iff:
  assumes "com_inv com" "{v. owners com v \<noteq> {}} \<subseteq> chunk_indices (com_numChunks com)"
    "unat (com_numChunks com) < 2 ^ 63"
  shows "total_match com \<longleftrightarrow> (\<forall>v \<in> chunk_indices (com_numChunks com). owners com v \<noteq> {})"
proof -
  let ?I = "chunk_indices (com_numChunks com)" and ?K = "{v. owners com v \<noteq> {}}"
  have len: "length (com_chunkOwners com) = card ?K"
    using assms(1) owned_keys [OF assms(1)]
    by (metis com_inv_def distinct_card gm_keys_def gm_wf_def length_map)
  have "sint (com_numChunks com) = int (unat (com_numChunks com))"
    using assms(3) by (rule sint_small64)
  then have "total_match com \<longleftrightarrow> card ?K = card ?I"
    by (simp only: total_match_def len card_chunk_indices of_nat_eq_iff)
  also have "\<dots> \<longleftrightarrow> ?K = ?I"
    using assms(2) by (metis card_subset_eq chunk_indices_def finite_atLeastAtMost finite_imageI)
  finally show ?thesis using assms(2) by auto
qed

section \<open>When a search is informed\<close>

lemma ContainsKeyword_iff: "ContainsKeyword name ks \<longleftrightarrow> (\<exists>k \<in> set ks. strings_Contains name k)"
  by (induction ks) auto

lemma length_gm_store:
  "length (gm_store k v m) = (if gm_load m k = None then Suc (length m) else length m)"
proof (cases "gm_load m k")
  case (Some v')
  then show ?thesis unfolding gm_load_def gm_store_def by (induction m) (auto split: if_splits)
qed (simp add: gm_store_new)

lemma AppendFiles_keys:
  "length (sme_Files (fst (AppendFiles names h sme))) =
     (if gm_load (sme_Files sme) h = None then Suc (length (sme_Files sme)) else length (sme_Files sme))"
  "gm_load (sme_Files (fst (AppendFiles names h sme))) h \<noteq> None"
  "sme_cFiles (fst (AppendFiles names h sme)) = sme_cFiles sme"
  "snd (AppendFiles names h sme) \<longleftrightarrow>
     length (sme_Files (fst (AppendFiles names h sme))) \<ge> ThresholdTotalMatches"
  by (auto simp: AppendFiles_def Let_def length_gm_store split: option.splits)

definition matches_known :: "hash32 \<Rightarrow> SearchMapEntry \<Rightarrow> nat" where
  "matches_known h sme =
     (if gm_load (sme_Files sme) h = None then Suc (length (sme_Files sme)) else length (sme_Files sme))"

lemma AppendFiles_known: "matches_known h (fst (AppendFiles names h sme)) = matches_known h sme"
  using AppendFiles_keys [of names h sme] by (auto simp: matches_known_def)

lemma inform_search_Cons:
  "inform_search ks (n # ns) h sme =
     (if ContainsKeyword n ks then
        (if matches_known h sme \<ge> ThresholdTotalMatches then (fst (AppendFiles [n] h sme), True)
         else inform_search ks ns h (fst (AppendFiles [n] h sme)))
      else inform_search ks ns h sme)"
proof -
  have "snd (AppendFiles [n] h sme) \<longleftrightarrow> matches_known h sme \<ge> ThresholdTotalMatches"
    unfolding AppendFiles_keys(4) AppendFiles_keys(1) matches_known_def by (rule refl)
  then show ?thesis by (cases "AppendFiles [n] h sme") simp
qed

declare inform_search.simps(2) [simp del]

lemma inform_search_informed:
  "snd (inform_search ks names h sme) \<longleftrightarrow>
     list_ex (\<lambda>n. ContainsKeyword n ks) names \<and> matches_known h sme \<ge> ThresholdTotalMatches"
  by (induction names arbitrary: sme) (simp_all add: inform_search_Cons AppendFiles_known)

lemma inform_search_chan: "sme_cFiles (fst (inform_search ks names h sme)) = sme_cFiles sme"
  by (induction names arbitrary: sme) (simp_all add: inform_search_Cons AppendFiles_keys(3))

lemma inform_search_files:
  "length (sme_Files (fst (inform_search ks names h sme))) =
     (if list_ex (\<lambda>n. ContainsKeyword n ks) names then matches_known h sme else length (sme_Files sme))"
proof (induction names arbitrary: sme)
  case (Cons name names)
  have "length (sme_Files (fst (AppendFiles [name] h sme))) = matches_known h sme"
    unfolding AppendFiles_keys(1) matches_known_def by (rule refl)
  then show ?case by (simp add: Cons inform_search_Cons AppendFiles_known)
qed simp

lemma inform_searches_sent:
  "inform_searches names h m =
     (map (\<lambda>(k, sme). (k, fst (inform_search (hashableToKeywords k) names h sme)))
        (filter (\<lambda>(k, sme). \<not> snd (inform_search (hashableToKeywords k) names h sme)) m),
      map (\<lambda>(k, sme). let sme' = fst (inform_search (hashableToKeywords k) names h sme)
                      in (sme_cFiles sme', sme_Files sme'))
        (filter (\<lambda>(k, sme). snd (inform_search (hashableToKeywords k) names h sme)) m))"
  by (induction m) (auto simp: Let_def split: prod.splits)

lemma keywords_roundtrip:
  "ss \<noteq> [] \<Longrightarrow> list_all (\<lambda>s. CHR '','' \<notin> set s) ss \<Longrightarrow> hashableToKeywords (keywordsToHashable ss) = ss"
  by (simp add: hashableToKeywords_def keywordsToHashable_def list_all_iff strings_Split_Join)

section \<open>Names of a metahash\<close>

definition names_of :: "SafeFilenamesMap \<Rightarrow> hash32 \<Rightarrow> string list" where
  "names_of m h = (case gm_load (sfnm_filenamesMap m) h of None \<Rightarrow> [] | Some a \<Rightarrow> ssa_array a)"

definition sfnm_inv :: "SafeFilenamesMap \<Rightarrow> bool" where
  "sfnm_inv m \<longleftrightarrow> list_all (\<lambda>(_, a). ssa_inv a) (sfnm_filenamesMap m)"

lemma sfnm_inv_load: "sfnm_inv m \<Longrightarrow> gm_load (sfnm_filenamesMap m) h = Some a \<Longrightarrow> ssa_inv a"
  unfolding sfnm_inv_def by (fastforce simp: list_all_iff gm_load_def dest!: map_of_SomeD)

lemma names_of_AddMapping:
  assumes "sfnm_inv m"
  shows "names_of (fst (AddMapping h name m)) h' =
    (if h' = h \<and> name \<notin> set (names_of m h) then names_of m h' @ [name] else names_of m h')"
proof (cases "gm_load (sfnm_filenamesMap m) h")
  case None
  then show ?thesis
    by (auto simp: names_of_def AddMapping_def gm_loadOrStore_def NewSafeStringArray_def Let_def)
next
  case (Some a)
  then show ?thesis using ssa.append_elems [OF sfnm_inv_load [OF assms Some], of name]
    by (auto simp: names_of_def AddMapping_def gm_loadOrStore_def Let_def)
qed

lemma sfnm_inv_AddMapping:
  assumes "sfnm_inv m"
  shows "sfnm_inv (fst (AddMapping h name m))"
proof (cases "gm_load (sfnm_filenamesMap m) h")
  case None
  then show ?thesis using assms ssa_inv_New
    by (auto simp: sfnm_inv_def AddMapping_def gm_loadOrStore_def Let_def intro!: gm_store_list_all)
next
  case (Some a)
  then have "ssa_inv (fst (AppendUniqueToArray name a))"
    using sfnm_inv_load [OF assms Some] by (rule_tac ssa.append_inv)
  then show ?thesis using assms Some
    by (auto simp: sfnm_inv_def AddMapping_def gm_loadOrStore_def Let_def intro!: gm_store_list_all)
qed

section \<open>Properties\<close>

text \<open>As long as peers report chunk indices between 1 and the number of chunks, the file has
  a total match exactly when every chunk has a known owner.\<close>

theorem total_match_means_all_owned:
  assumes "com_inv com" "{v. owners com v \<noteq> {}} \<subseteq> chunk_indices (com_numChunks com)"
    "unat (com_numChunks com) < 2 ^ 63"
  shows "total_match com \<longleftrightarrow> (\<forall>v \<in> chunk_indices (com_numChunks com). owners com v \<noteq> {})"
  using assms by (rule total_match_iff)

lemma NewChunkOwnersMap_inv: "com_inv (NewChunkOwnersMap n)" "owners (NewChunkOwnersMap n) v = {}"
  by (simp_all add: com_inv_def NewChunkOwnersMap_def gm_wf_def owners_def)

theorem total_match_means_all_owned_witness:
  "total_match (NewChunkOwnersMap 3) \<longleftrightarrow> (\<forall>v \<in> chunk_indices 3. owners (NewChunkOwnersMap 3) v \<noteq> {})"
  using total_match_means_all_owned [of "NewChunkOwnersMap 3"] NewChunkOwnersMap_inv [of 3]
  by (simp add: NewChunkOwnersMap_def)

text \<open>A report of a peer makes that peer an owner of exactly the chunks it names and
  changes no other ownership.\<close>

theorem UpdateMap_owners:
  assumes "com_inv com"
  shows "com_inv (fst (UpdateMap origin chunkMap com))
    \<and> owners (fst (UpdateMap origin chunkMap com)) v =
        owners com v \<union> (if v \<in> set chunkMap then {origin} else {})"
  using UpdateMap_inv [OF assms] owners_UpdateMap [OF assms] by blast

theorem UpdateMap_owners_witness: "owners (fst (UpdateMap ''p'' [1, 2] (NewChunkOwnersMap 3))) 2 = {''p''}"
  using UpdateMap_owners [OF NewChunkOwnersMap_inv(1), of "''p''" "[1, 2]" 3 2] NewChunkOwnersMap_inv(2) [of 3 2]
  by simp

text \<open>The keywords of a search are recovered from the key it is filed under, provided
  there is at least one and none contains a comma.\<close>

theorem keywords_recovered:
  assumes "ss \<noteq> []" "list_all (\<lambda>s. CHR '','' \<notin> set s) ss"
  shows "hashableToKeywords (keywordsToHashable ss) = ss"
  using assms by (rule keywords_roundtrip)

theorem keywords_recovered_witness: "hashableToKeywords (keywordsToHashable [''ab'', ''c'']) = [''ab'', ''c'']"
  using keywords_recovered [of "[''ab'', ''c'']"] by simp

text \<open>A search is informed of a new total match, and removed, exactly when one of the
  file's names contains one of its keywords and it then has at least two matches; every other
  search stays.\<close>

theorem searches_informed:
  "map fst (ssm_searchesMap (fst (ssm_InformListeners names h m))) =
     map fst (filter (\<lambda>(k, sme). \<not> (list_ex (\<lambda>n. ContainsKeyword n (hashableToKeywords k)) names
        \<and> matches_known h sme \<ge> ThresholdTotalMatches)) (ssm_searchesMap m))
   \<and> map fst (snd (ssm_InformListeners names h m)) =
     map (\<lambda>(k, sme). sme_cFiles sme) (filter (\<lambda>(k, sme). list_ex (\<lambda>n. ContainsKeyword n (hashableToKeywords k)) names
        \<and> matches_known h sme \<ge> ThresholdTotalMatches) (ssm_searchesMap m))"
  by (simp add: ssm_InformListeners_def inform_searches_sent inform_search_informed inform_search_chan
      Let_def comp_def split_beta)

text \<open>A file of zero chunks counts as a total match before any peer has reported a chunk,
  so its list of chunk owners has no entry for the first chunk.\<close>

theorem empty_file_matches_without_owner:
  "total_match (NewChunkOwnersMap 0) \<and> gm_load (fst (com_GetMapCopy (NewChunkOwnersMap 0))) 1 = None"
  by (simp add: total_match_def NewChunkOwnersMap_def com_GetMapCopy_def)

end
