(* ===== verification/Gossiper.thy ===== *)
theory Gossiper
  imports MessageStore Routing FileSearching KBuckets
begin

text \<open>
  The node itself: \<open>src/gossiper/gossiper.go\<close>, \<open>rumorMongering.go\<close>, \<open>antiEntropy.go\<close>,
  \<open>DSDV.go\<close> and \<open>UIfunctions.go\<close>.  Each listening routine of the code is an endless loop over a
  channel; its body is one handler here, a function of the node's state that returns the new
  state and the list of actions, in order: packets sent, goroutines started, values put on
  channels.  An accessor that ends the process makes the handler return that error.  Printing
  is left out; \<open>sendUDP\<close> is the action \<open>SendUDP\<close>.

  Random choices and the outcome of waiting (a ticker against a channel) are arguments.  The
  counter \<open>g_nextChan\<close> numbers the channels made so far.
\<close>

section \<open>State and actions\<close>

record Gossiper =
  g_address :: address
  g_name :: string
  g_UseSimple :: bool
  g_peers :: SafeStringArray
  g_seqIDCounter :: SafeCounter
  g_statusChanMap :: SafeChanMap
  g_quitChanMap :: QuitChanMap
  g_msgMap :: SafeMessagesMap
  g_latestMessages :: SafeMessageArray
  g_origins :: SafeStringArray
  g_routingTable :: SafeRoutingTable
  g_rtimeout :: int
  g_chunkMap :: SafeChunkMap
  g_fileMap :: SafeFileMap
  g_dlFilesSet :: SafeFileSet
  g_dlChunkListeners :: DLChanMap
  g_metahashToChunkOwnersMap :: MetahashToChunkOwnersMap
  g_searchMap :: SafeSearchMap
  g_filenamesMap :: SafeFilenamesMap
  g_matchesGUImap :: SafeHashFilenamePairArray
  g_dhtMyID :: TypeID
  g_dhtChanMap :: ChanMap
  g_bucketTable :: bucketTable
  g_dhtBootstrap :: string
  g_nextChan :: chan

definition NewGossiper :: "address \<Rightarrow> string \<Rightarrow> string list \<Rightarrow> bool \<Rightarrow> int \<Rightarrow> string \<Rightarrow> TypeID \<Rightarrow> Gossiper" where
  "NewGossiper address name peers simple rtimeout dhtBootstrap nodeId =
     \<lparr>g_address = address, g_name = name, g_UseSimple = simple,
      g_peers = NewSafeStringArray peers, g_seqIDCounter = NewSafeCounter,
      g_statusChanMap = NewSafeChanMap, g_quitChanMap = NewQuitChanMap,
      g_msgMap = NewSafeMessagesMap, g_latestMessages = NewSafeMessageArray,
      g_origins = NewSafeStringArray [], g_routingTable = NewSafeRoutingTable,
      g_rtimeout = rtimeout, g_chunkMap = NewSafeChunkMap, g_fileMap = NewSafeFileMap,
      g_dlFilesSet = NewSafeFileSet, g_dlChunkListeners = NewDLChanMap,
      g_metahashToChunkOwnersMap = NewMetahashToChunkOwnersMap, g_searchMap = NewSafeSearchMap,
      g_filenamesMap = NewSafefileNamesMap, g_matchesGUImap = NewSafeHashFilenamePairArray,
      g_dhtMyID = nodeId, g_dhtChanMap = NewChanMap, g_bucketTable = newBucketTable nodeId,
      g_dhtBootstrap = dhtBootstrap, g_nextChan = 0\<rparr>"

datatype action =
    SendUDP GossipPacket address
  | GoRumorMonger GossipPacket address
  | GoPeerStatusListenRoutine address chan
  | PutStatus chan StatusPacket
  | CloseChan chan
  | PutData chan bytes
  | PutFiles chan files_map
  | PutFileNaming PacketAddressPair
  | GoDownloadFile string hash32 string
  | GoSearchFiles "string list" uint64
  | WriteFile string "bytes list" bool

type_synonym handled = "(Gossiper \<times> action list) outcome"

definition addToPeers :: "address \<Rightarrow> Gossiper \<Rightarrow> Gossiper \<times> bool" where
  "addToPeers peerAddr g =
     (let (a, isNew) = AppendUniqueToArray peerAddr (g_peers g) in (g\<lparr>g_peers := a\<rparr>, isNew))"

definition addMessage :: "RumorMessage \<Rightarrow> Gossiper \<Rightarrow> Gossiper \<times> bool" where
  "addMessage rm g =
     (let (m, isNew) = AddMessage rm (g_msgMap g);
          g = g\<lparr>g_msgMap := m\<rparr>;
          g = (if isNew \<and> IsChatRumor rm
               then g\<lparr>g_latestMessages := AppendToArray rm (g_latestMessages g)\<rparr> else g)
      in (g, isNew))"

definition sendAllPeers :: "GossipPacket \<Rightarrow> address \<Rightarrow> Gossiper \<Rightarrow> action list" where
  "sendAllPeers packet exception g =
     map (SendUDP packet) (stringArrayDifference (GetArrayCopy (g_peers g)) [exception])"

definition sendStatusPacket :: "address \<Rightarrow> Gossiper \<Rightarrow> action list" where
  "sendStatusPacket peerAddress g =
     (let status = GetOwnStatusPacket (g_msgMap g)
      in [SendUDP (emptyPacket\<lparr>gp_Status := Some status\<rparr>) peerAddress])"

section \<open>Dispatch of incoming packets\<close>

datatype channel =
    CRumor | CStatus | CPrivate | CDataRequest | CDataReply | CSearchRequest | CSearchReply
  | CFileNaming | CBlocks | CDHT | CHyperlink | CEncryptedHyperlink | CDiffieHellman | Ignored

definition receiveExternalUDP :: "bool \<Rightarrow> GossipPacket \<Rightarrow> channel" where
  "receiveExternalUDP useSimple packet =
     (case subtype_of packet of
        StatusS _ \<Rightarrow> if useSimple then Ignored else CStatus
      | RumorS _ \<Rightarrow> if useSimple then Ignored else CRumor
      | PrivateS _ \<Rightarrow> if useSimple then Ignored else CPrivate
      | SimpleS _ \<Rightarrow> if useSimple then CRumor else Ignored
      | DataRequestS _ \<Rightarrow> if useSimple then Ignored else CDataRequest
      | DataReplyS _ \<Rightarrow> if useSimple then Ignored else CDataReply
      | SearchRequestS _ \<Rightarrow> if useSimple then Ignored else CSearchRequest
      | SearchReplyS _ \<Rightarrow> if useSimple then Ignored else CSearchReply
      | TxPublishS _ \<Rightarrow> if useSimple then Ignored else CFileNaming
      | BlockPublishS _ \<Rightarrow> if useSimple then Ignored else CBlocks
      | DHTMessageS _ \<Rightarrow> if useSimple then Ignored else CDHT
      | HyperlinkS _ \<Rightarrow> CHyperlink
      | EncryptedS _ \<Rightarrow> CEncryptedHyperlink
      | DiffieHellmanS _ \<Rightarrow> if useSimple then Ignored else CDiffieHellman
      | NoneS \<Rightarrow> Ignored)"

datatype client_input =
    UIRumor GossipPacket | UIPrivate GossipPacket | UIFileShare string
  | UIFileDownload FileToDownload | UIFileSearch FileToSearch | UIDHT DHTRequest | UINothing

definition client_packet :: "string \<Rightarrow> GossipPacket \<Rightarrow> client_input" where
  "client_packet name packet =
     (case subtype_of packet of
        SimpleS m \<Rightarrow> if sm_Contents m = '''' then UINothing
                     else UIRumor (packet\<lparr>gp_Simple := Some (m\<lparr>sm_OriginalName := name\<rparr>)\<rparr>)
      | RumorS m \<Rightarrow> if rm_Text m = '''' then UINothing
                    else UIRumor (packet\<lparr>gp_Rumor := Some (m\<lparr>rm_Origin := name\<rparr>)\<rparr>)
      | PrivateS m \<Rightarrow> if pm_Text m = '''' then UINothing else UIPrivate packet
      | _ \<Rightarrow> UINothing)"

definition receiveClientUDP :: "string \<Rightarrow> ClientRequest \<Rightarrow> client_input" where
  "receiveClientUDP name request =
     (case cr_Packet request of Some packet \<Rightarrow> client_packet name packet | None \<Rightarrow>
     (case cr_FileShare request of Some fileName \<Rightarrow> UIFileShare fileName | None \<Rightarrow>
     (case cr_FileDownload request of Some f \<Rightarrow> UIFileDownload f | None \<Rightarrow>
     (case cr_FileSearch request of Some f \<Rightarrow> UIFileSearch f | None \<Rightarrow>
        let t = ClientRequest_GetUnderlyingType request in
        if t = ''nodeSearch'' \<or> t = ''keySearch''
        then UIDHT \<lparr>dr_Store = None, dr_Lookup = cr_DHTLookup request\<rparr>
        else if t = ''store'' then UIDHT \<lparr>dr_Store = cr_DHTStore request, dr_Lookup = None\<rparr>
        else UINothing))))"

section \<open>Rumors\<close>

definition makeGossip :: "GossipPacket \<Rightarrow> bool \<Rightarrow> Gossiper \<Rightarrow> (Gossiper \<times> GossipPacket) outcome" where
  "makeGossip received isFromClient g =
     obind (GetOrigin received) (\<lambda>origin.
     obind (GetContents received) (\<lambda>contents.
       if g_UseSimple g then
         Inr (g, emptyPacket\<lparr>gp_Simple := Some \<lparr>sm_OriginalName = origin,
                   sm_RelayPeerAddr = g_address g, sm_Contents = contents\<rparr>\<rparr>)
       else if isFromClient then
         (let (c, v) = GetAndIncrement (g_seqIDCounter g)
          in Inr (g\<lparr>g_seqIDCounter := c\<rparr>,
                  emptyPacket\<lparr>gp_Rumor := Some \<lparr>rm_Origin = origin, rm_ID = v, rm_Text = contents\<rparr>\<rparr>))
       else obind (GetSeqID received) (\<lambda>seqID.
              Inr (g, emptyPacket\<lparr>gp_Rumor := Some \<lparr>rm_Origin = origin, rm_ID = seqID, rm_Text = contents\<rparr>\<rparr>))))"

definition updateDSDV :: "PacketAddressPair \<Rightarrow> Gossiper \<Rightarrow> Gossiper outcome" where
  "updateDSDV pap g =
     obind (GetOrigin (pap_Packet pap)) (\<lambda>origin.
       if origin = g_name g then Inr g
       else obind (GetSeqID (pap_Packet pap)) (\<lambda>seqID.
         let (t, updated) = UpdateEntry seqID origin (GetSenderAddress pap) (g_routingTable g)
         in Inr (g\<lparr>g_routingTable := t,
                   g_origins := fst (AppendUniqueToArray origin (g_origins g))\<rparr>)))"

definition clientListen :: "GossipPacket \<Rightarrow> Gossiper \<Rightarrow> handled" where
  "clientListen received g =
     obind (makeGossip received True g) (\<lambda>(g, packet).
       if \<not> g_UseSimple g then
         (case gp_Rumor packet of
            Some rm \<Rightarrow> Inr (fst (addMessage rm g), [GoRumorMonger packet ''''])
          | None \<Rightarrow> Inl (Panic ''nil rumor''))
       else Inr (g, sendAllPeers packet '''' g))"

definition rumorListen :: "PacketAddressPair \<Rightarrow> Gossiper \<Rightarrow> handled" where
  "rumorListen pap g =
     (let g = fst (addToPeers (GetSenderAddress pap) g) in
      obind (makeGossip (pap_Packet pap) False g) (\<lambda>(g, packet).
        if \<not> g_UseSimple g then
          obind (updateDSDV pap g) (\<lambda>g.
            case gp_Rumor packet of
              Some rm \<Rightarrow>
                (let (g, isNew) = addMessage rm g
                 in Inr (g, sendStatusPacket (GetSenderAddress pap) g @
                          (if isNew then [GoRumorMonger packet (GetSenderAddress pap)] else [])))
            | None \<Rightarrow> Inl (Panic ''nil rumor''))
        else Inr (g, sendAllPeers packet (GetSenderAddress pap) g)))"

section \<open>Status packets\<close>

definition statusListen :: "PacketAddressPair \<Rightarrow> Gossiper \<Rightarrow> handled" where
  "statusListen pap g =
     (case gp_Status (pap_Packet pap) of
        None \<Rightarrow> Inl (Panic ''nil status'')
      | Some sp \<Rightarrow>
          (let peer = GetSenderAddress pap;
               g = fst (addToPeers peer g);
               (cm, c, isNew) = AddOrGetPeerStatusListener (g_nextChan g) peer (g_statusChanMap g);
               g = g\<lparr>g_statusChanMap := cm, g_nextChan := g_nextChan g + 1\<rparr>
           in Inr (g, (if isNew then [GoPeerStatusListenRoutine peer c] else []) @ [PutStatus c sp])))"

text \<open>One iteration of \<open>peerStatusListenRoutine\<close>.  The rumor it sends may be nil.\<close>

fun send_desired :: "address \<Rightarrow> PeerStatus list \<Rightarrow> SafeMessagesMap \<Rightarrow> SafeMessagesMap \<times> action list" where
  "send_desired peerAddress [] m = (m, [])"
| "send_desired peerAddress (v # vs) m =
     (let (m', rm) = GetMessage (ps_Identifier v) (ps_NextID v) m;
          packet = emptyPacket\<lparr>gp_Rumor := rm\<rparr>;
          (m'', acts) = send_desired peerAddress vs m'
      in (m'', SendUDP packet peerAddress # acts))"

definition peerStatusListen :: "address \<Rightarrow> StatusPacket \<Rightarrow> Gossiper \<Rightarrow> Gossiper \<times> action list" where
  "peerStatusListen peerAddress sp g =
     (let mySp = GetOwnStatusPacket (g_msgMap g);
          (q, closed, notMongering) = InformListeners peerAddress sp (g_quitChanMap g);
          theirDesiredMsgs = peerStatusDifference (sp_Want mySp) (sp_Want sp);
          (m, sent) = send_desired peerAddress theirDesiredMsgs (g_msgMap g);
          g = g\<lparr>g_quitChanMap := q, g_msgMap := m\<rparr>;
          ourDesiredMsgs = peerStatusDifference (sp_Want sp) (sp_Want mySp);
          answer = (if notMongering \<and> theirDesiredMsgs = [] \<and> ourDesiredMsgs \<noteq> []
                    then sendStatusPacket peerAddress g else [])
      in (g, map CloseChan closed @ sent @ answer))"

section \<open>Mongering\<close>

definition pickRandom :: "nat \<Rightarrow> string list \<Rightarrow> string" where
  "pickRandom r choices = choices ! (r mod length choices)"

definition pickRandomPeer :: "nat \<Rightarrow> string list \<Rightarrow> SafeStringArray \<Rightarrow> string option" where
  "pickRandomPeer r exceptions peers =
     (let possiblePicks = stringArrayDifference (GetArrayCopy peers) exceptions
      in if possiblePicks = [] then None else Some (pickRandom r possiblePicks))"

text \<open>
  \<open>trySend\<close> up to its \<open>select\<close>; then either the ticker fires, which removes the listener, or
  the quit channel is closed, which has removed it already.
\<close>

definition trySend_start :: "GossipPacket \<Rightarrow> address \<Rightarrow> Gossiper \<Rightarrow> (Gossiper \<times> action list \<times> bool) outcome" where
  "trySend_start packet peer g =
     obind (GetOrigin packet) (\<lambda>origin. obind (GetSeqID packet) (\<lambda>seqID.
       let (q, quit, alreadySending) = AddListener (g_nextChan g) peer origin seqID (g_quitChanMap g);
           g = g\<lparr>g_quitChanMap := q, g_nextChan := g_nextChan g + 1\<rparr>
       in if alreadySending then Inr (g, [], False) else Inr (g, [SendUDP packet peer], True)))"

definition trySend_timeout :: "GossipPacket \<Rightarrow> address \<Rightarrow> Gossiper \<Rightarrow> Gossiper outcome" where
  "trySend_timeout packet peer g =
     obind (GetOrigin packet) (\<lambda>origin. obind (GetSeqID packet) (\<lambda>seqID.
       Inr (g\<lparr>g_quitChanMap := DeleteListener peer origin seqID (g_quitChanMap g)\<rparr>)))"

text \<open>
  \<open>rumorMonger\<close>: the peers it tries in turn.  Each turn after the first flips the coin and
  draws a number, and sees the peers known then; the run shown ends with the list of turns.
\<close>

fun monger_turns :: "(bool \<times> nat \<times> SafeStringArray) list \<Rightarrow> address \<Rightarrow> address list" where
  "monger_turns [] peer = [peer]"
| "monger_turns ((coin, r, peers) # turns) peer =
     (if coin then [peer]
      else case pickRandomPeer r [peer] peers of
             None \<Rightarrow> [peer]
           | Some peer' \<Rightarrow> peer # monger_turns turns peer')"

definition rumorMonger ::
    "nat \<Rightarrow> (bool \<times> nat \<times> SafeStringArray) list \<Rightarrow> address \<Rightarrow> SafeStringArray \<Rightarrow> address list" where
  "rumorMonger r turns ex peers =
     (let exceptions = (if ex \<noteq> '''' then [ex] else [])
      in case pickRandomPeer r exceptions peers of
           None \<Rightarrow> []
         | Some peer \<Rightarrow> monger_turns turns peer)"

definition antiEntropy_tick :: "nat \<Rightarrow> Gossiper \<Rightarrow> action list" where
  "antiEntropy_tick r g =
     (if g_UseSimple g then []
      else case pickRandomPeer r [] (g_peers g) of
             None \<Rightarrow> []
           | Some pick \<Rightarrow> sendStatusPacket pick g)"

section \<open>Point-to-point packets\<close>

definition defaultHopLimit :: uint32 where
  "defaultHopLimit = 10"

definition getNextHop :: "string \<Rightarrow> Gossiper \<Rightarrow> address option" where
  "getNextHop origin g = GetNextHop origin (g_routingTable g)"

text \<open>
  \<open>forward\<close> decrements the hop limit of the packet it is given, in place: the packet comes back
  with the actions, for the caller that uses it again.
\<close>

definition forward :: "GossipPacket \<Rightarrow> Gossiper \<Rightarrow> (GossipPacket \<times> action list) outcome" where
  "forward packet g =
     obind (DecrementHopCount packet) (\<lambda>(packet, shouldSend).
       if shouldSend then
         obind (GetDestination packet) (\<lambda>dest.
           case getNextHop dest g of
             Some nextHop \<Rightarrow> Inr (packet, [SendUDP packet nextHop])
           | None \<Rightarrow> Inr (packet, []))
       else Inr (packet, []))"

definition makeRouteRumorPacket :: "Gossiper \<Rightarrow> Gossiper \<times> RumorMessage" where
  "makeRouteRumorPacket g =
     (let (c, v) = GetAndIncrement (g_seqIDCounter g)
      in (g\<lparr>g_seqIDCounter := c\<rparr>, \<lparr>rm_Origin = g_name g, rm_ID = v, rm_Text = ''''\<rparr>))"

text \<open>One iteration of \<open>periodicRouteRumor\<close>, up to the wait of \<open>trySend\<close>.\<close>

definition periodicRouteRumor_tick :: "nat \<Rightarrow> Gossiper \<Rightarrow> handled" where
  "periodicRouteRumor_tick r g =
     (if g_rtimeout g = 0 then Inr (g, [])
      else case pickRandomPeer r [''''] (g_peers g) of
             None \<Rightarrow> Inr (g, [])
           | Some peer \<Rightarrow>
               (let (g, rumor) = makeRouteRumorPacket g;
                    g = fst (addMessage rumor g)
                in obind (trySend_start (emptyPacket\<lparr>gp_Rumor := Some rumor\<rparr>) peer g)
                     (\<lambda>(g, acts, sent). Inr (g, acts))))"

definition clientPMListen :: "GossipPacket \<Rightarrow> Gossiper \<Rightarrow> handled" where
  "clientPMListen packet g =
     (case gp_Private packet of
        None \<Rightarrow> Inl (Panic ''nil private message'')
      | Some pm \<Rightarrow>
          (let pm = pm\<lparr>pm_ID := 0, pm_HopLimit := defaultHopLimit, pm_Origin := g_name g\<rparr>;
               packet = packet\<lparr>gp_Private := Some pm\<rparr>
           in if pm_HopLimit pm > 0 then
                obind (GetDestination packet) (\<lambda>dest.
                  case getNextHop dest g of
                    Some nextHop \<Rightarrow> Inr (g, [SendUDP packet nextHop])
                  | None \<Rightarrow> Inr (g, []))
              else Inr (g, [])))"

definition privateMessageListen :: "PacketAddressPair \<Rightarrow> Gossiper \<Rightarrow> handled" where
  "privateMessageListen pap g =
     (let g = fst (addToPeers (GetSenderAddress pap) g) in
      obind (GetDestination (pap_Packet pap)) (\<lambda>dest.
        if dest = g_name g then
          (case gp_Private (pap_Packet pap) of
             None \<Rightarrow> Inl (Panic ''nil private message'')
           | Some pm \<Rightarrow> Inr (g\<lparr>g_latestMessages := AppendToArray (ToRumorMessage pm) (g_latestMessages g)\<rparr>, []))
        else obind (forward (pap_Packet pap) g) (\<lambda>(_, acts). Inr (g, acts))))"

section \<open>The front end's calls\<close>

record FrontEndMessage =
  fem_Origin :: string
  fem_Text :: string
  fem_Type :: string

definition GetLatestMessagesList :: "Gossiper \<Rightarrow> Gossiper \<times> RumorMessage list" where
  "GetLatestMessagesList g =
     (let (a, ms) = GetArrayCopyAndDelete (g_latestMessages g) in (g\<lparr>g_latestMessages := a\<rparr>, ms))"

definition GetPeersList :: "Gossiper \<Rightarrow> string list" where
  "GetPeersList g = GetArrayCopy (g_peers g)"

definition AddPeer :: "address \<Rightarrow> Gossiper \<Rightarrow> Gossiper" where
  "AddPeer peerAddress g = fst (addToPeers peerAddress g)"

definition GetOriginsList :: "Gossiper \<Rightarrow> string list" where
  "GetOriginsList g = GetArrayCopy (g_origins g)"

definition ConvertToFEMList :: "RumorMessage list \<Rightarrow> FrontEndMessage list" where
  "ConvertToFEMList rmList =
     map (\<lambda>rm. \<lparr>fem_Origin = rm_Origin rm, fem_Text = rm_Text rm,
               fem_Type = (if rm_ID rm = 0 then ''Private'' else ''Gossip'')\<rparr>) rmList"

definition GetMatchesList :: "Gossiper \<Rightarrow> MetahashFilenamePair list" where
  "GetMatchesList g = pair_GetArrayCopy (g_matchesGUImap g)"

section \<open>The peers a rumor is sent to\<close>

lemma pickRandomPeer_Some:
  assumes "pickRandomPeer r ex peers = Some p"
  shows "p \<in> set (ssa_array peers) \<and> p \<notin> set ex"
proof -
  let ?ps = "filter (\<lambda>k. k \<notin> set ex) (ssa_array peers)"
  have p: "?ps \<noteq> []" "p = ?ps ! (r mod length ?ps)"
    using assms
    by (auto simp: pickRandomPeer_def stringArrayDifference_eq GetArrayCopy_def pickRandom_def Let_def
        split: if_splits)
  then have "p \<in> set ?ps" by (metis length_greater_0_conv mod_less_divisor nth_mem)
  then show ?thesis by simp
qed

lemma pickRandomPeer_None:
  "pickRandomPeer r ex peers = None \<longleftrightarrow> set (ssa_array peers) \<subseteq> set ex"
  by (auto simp: pickRandomPeer_def stringArrayDifference_eq GetArrayCopy_def Let_def filter_empty_conv)

lemma monger_turns_hd: "monger_turns turns peer \<noteq> [] \<and> hd (monger_turns turns peer) = peer"
  by (induction turns peer rule: monger_turns.induct) (auto split: option.splits)

lemma monger_turns_alternate: "successively (\<noteq>) (monger_turns turns peer)"
proof (induction turns peer rule: monger_turns.induct)
  case (2 coin r peers turns peer)
  show ?case
  proof (cases "coin \<or> pickRandomPeer r [peer] peers = None")
    case False
    then obtain p where p: "pickRandomPeer r [peer] peers = Some p" by auto
    then have "p \<noteq> peer" using pickRandomPeer_Some by fastforce
    then show ?thesis using 2 p False monger_turns_hd [of turns p]
      by (cases "monger_turns turns p") auto
  qed (auto split: option.splits)
qed simp

lemma monger_turns_known:
  "list_all (\<lambda>(_, _, ps). set (ssa_array ps) \<subseteq> P) turns \<Longrightarrow> peer \<in> P \<Longrightarrow>
     set (monger_turns turns peer) \<subseteq> P"
proof (induction turns peer rule: monger_turns.induct)
  case (2 coin r peers turns peer)
  then show ?case using pickRandomPeer_Some [of r "[peer]" peers]
    by (auto split: option.splits)
qed simp

section \<open>Properties\<close>

text \<open>A mongering run never sends a rumor back to the peer it came from on the first pick,
  never tries the same peer twice in a row, and picks known peers only.\<close>

theorem rumorMonger_alternates:
  assumes "set (ssa_array peers) \<subseteq> known" "list_all (\<lambda>(_, _, ps). set (ssa_array ps) \<subseteq> known) turns"
  shows "successively (\<noteq>) (rumorMonger r turns ex peers) \<and> set (rumorMonger r turns ex peers) \<subseteq> known
   \<and> (ex = '''' \<or> take 1 (rumorMonger r turns ex peers) \<noteq> [ex])"
proof (cases "pickRandomPeer r (if ex \<noteq> '''' then [ex] else []) peers")
  case None
  then show ?thesis by (simp add: rumorMonger_def Let_def)
next
  case (Some p)
  then have "rumorMonger r turns ex peers = monger_turns turns p" by (simp add: rumorMonger_def Let_def)
  then show ?thesis
    using pickRandomPeer_Some [OF Some] monger_turns_hd [of turns p] monger_turns_alternate [of turns p]
      monger_turns_known [OF assms(2), of p] assms(1)
    by (cases "monger_turns turns p") (auto split: if_splits)
qed

theorem rumorMonger_alternates_witness:
  "rumorMonger 1 [(False, 0, NewSafeStringArray [''a'', ''b''])] ''b'' (NewSafeStringArray [''a'', ''b'']) = [''a'', ''b'']
   \<and> set (rumorMonger 1 [(False, 0, NewSafeStringArray [''a'', ''b''])] ''b'' (NewSafeStringArray [''a'', ''b''])) \<subseteq> {''a'', ''b''}"
proof
  show "rumorMonger 1 [(False, 0, NewSafeStringArray [''a'', ''b''])] ''b'' (NewSafeStringArray [''a'', ''b'']) = [''a'', ''b'']"
    by code_simp
  have "set (ssa_array (NewSafeStringArray [''a'', ''b''])) \<subseteq> {''a'', ''b''}" by code_simp
  then show "set (rumorMonger 1 [(False, 0, NewSafeStringArray [''a'', ''b''])] ''b'' (NewSafeStringArray [''a'', ''b''])) \<subseteq> {''a'', ''b''}"
    using rumorMonger_alternates [of "NewSafeStringArray [''a'', ''b'']" "{''a'', ''b''}" "[(False, 0, NewSafeStringArray [''a'', ''b''])]"]
    by simp
qed

text \<open>In simple mode a node takes simple messages only (besides crawler packets), and in
  normal mode it ignores them; a packet without contents is always ignored.\<close>

theorem dispatch_by_mode:
  "(receiveExternalUDP True p \<in> {CRumor, CHyperlink, CEncryptedHyperlink, Ignored})
   \<and> (receiveExternalUDP True p = CRumor \<longleftrightarrow> GetUnderlyingType p = ''simple'')
   \<and> (receiveExternalUDP False p = Ignored \<longleftrightarrow> GetUnderlyingType p \<in> {''simple'', ''''})"
  by (cases "subtype_of p") (simp_all add: receiveExternalUDP_def GetUnderlyingType_def)

end
