(* ===== verification/KeyAgreement.thy ===== *)
theory KeyAgreement
  imports BigInt Gossiper
begin

text \<open>
  Key agreement between two nodes: \<open>src/diffie_hellman/diffiehellman\<close>,
  \<open>src/diffie_hellman/aesencryptor\<close>, \<open>src/gossiper/diffiehellman.go\<close> and \<open>getKey\<close> of
  \<open>src/gossiper/webcrawler.go\<close>.  SHA-256, the protobuf encoding, ECDSA and AES-GCM are arguments,
  gathered in the record \<open>crypto\<close>; the private key is part of \<open>cr_sign\<close>.  A negotiation blocks
  while it waits for packets, so each side is a state machine: its code between two waits is one
  function.  The random token and the random secret are arguments, as is the result of the node
  lookup that \<open>verifyPublicKey\<close> makes.
\<close>

section \<open>Diffie-Hellman\<close>

record DiffieHellman =
  dhi_g :: int
  dhi_p :: int
  dhi_secret :: nat

definition dh_New :: "bytes \<Rightarrow> int \<Rightarrow> int \<Rightarrow> DiffieHellman" where
  "dh_New rnd grp p = \<lparr>dhi_g = grp, dhi_p = p, dhi_secret = nat (big_SetBytes rnd)\<rparr>"

definition Group :: int where
  "Group = 2"

definition P_text :: string where
  "P_text = ''FFFFFFFFFFFFFFFFC90FDAA22168C234C4C6628B80DC1CD1'' @
     ''29024E088A67CC74020BBEA63B139B22514A08798E3404DD'' @
     ''EF9519B3CD3A431B302B0A6DF25F14374FE1356D6D51C245'' @
     ''E485B576625E7EC6F44C42E9A637ED6B0BFF5CB6F406B7ED'' @
     ''EE386BFB5A899FA5AE9F24117C4B1FE649286651ECE45B3D'' @
     ''C2007CB8A163BF0598DA48361C55D39A69163FA8FD24CF5F'' @
     ''83655D23DCA3AD961C62F356208552BB9ED529077096966D'' @
     ''670C354E4ABC9804F1746C08CA18217C32905E462E36CE3B'' @
     ''E39E772C180E86039B2783A2EC07A28FB5C55DF06F4C52C9'' @
     ''DE2BCBF6955817183995497CEA956AE515D2261898FA0510'' @
     ''15728E5A8AACAA68FFFFFFFFFFFFFFFF''"

definition P :: "int outcome" where
  "P = (case big_SetString P_text of Some p \<Rightarrow> Inr p | None \<Rightarrow> Inl (Fatal ''Failed to generate p.''))"

definition GeneratePublicKey :: "DiffieHellman \<Rightarrow> bytes" where
  "GeneratePublicKey dh = big_Bytes (big_Exp (dhi_g dh) (dhi_secret dh) (dhi_p dh))"

definition GenerateSymmetricKey :: "(bytes \<Rightarrow> hash32) \<Rightarrow> bytes \<Rightarrow> DiffieHellman \<Rightarrow> bytes" where
  "GenerateSymmetricKey sha256 publicKey dh =
     (let pk = big_SetBytes publicKey;
          sharedSecret = big_Exp pk (dhi_secret dh) (dhi_p dh)
      in sha256 (big_Bytes sharedSecret))"

section \<open>Authenticated encryption\<close>

text \<open>\<open>gseal k n p\<close> and \<open>gopen k n c\<close> are GCM with key \<open>k\<close> and nonce \<open>n\<close>; \<open>None\<close> is its error.\<close>

definition aes_New :: "bytes \<Rightarrow> bytes outcome" where
  "aes_New key = (if length key \<in> {16, 24, 32} then Inr key else Inl (Fatal ''invalid key size''))"

definition Encrypt :: "(bytes \<Rightarrow> bytes \<Rightarrow> bytes \<Rightarrow> bytes) \<Rightarrow> bytes \<Rightarrow> bytes \<Rightarrow> bytes \<Rightarrow> bytes" where
  "Encrypt gseal nonce key plaintext = nonce @ gseal key nonce plaintext"

definition Decrypt :: "(bytes \<Rightarrow> bytes \<Rightarrow> bytes \<Rightarrow> bytes option) \<Rightarrow> bytes \<Rightarrow> bytes \<Rightarrow> bytes option outcome" where
  "Decrypt gopen key ciphertext =
     (if length ciphertext < 12 then Inl (Panic ''slice bounds out of range'')
      else Inr (gopen key (take 12 ciphertext) (drop 12 ciphertext)))"

section \<open>Sessions\<close>

definition zeroTime :: time where
  "zeroTime = - 62135596800000000000"

definition seconds :: "int \<Rightarrow> time" where
  "seconds n = n * 1000000000"

record DiffieHellmanNegotiationSession =
  dns_ch :: chan
  dns_ID :: TypeID

record DiffieHellmanSession =
  dhs_Key :: bytes
  dhs_LastTimeUsed :: time
  dhs_ExpirationDate :: time

definition NewDiffieHellmanSession :: "bytes \<Rightarrow> time \<Rightarrow> DiffieHellmanSession" where
  "NewDiffieHellmanSession key expirationDate =
     \<lparr>dhs_Key = key, dhs_LastTimeUsed = zeroTime, dhs_ExpirationDate = expirationDate\<rparr>"

definition expired :: "time \<Rightarrow> DiffieHellmanSession \<Rightarrow> bool" where
  "expired now ds = (now > dhs_ExpirationDate ds)"

text \<open>The fields of the node that only the key agreement uses.\<close>

record KeyState =
  ks_diffieHellmanMap :: "(TypeID, DiffieHellmanNegotiationSession list) gomap"
  ks_activeOutgoing :: "(TypeID, DiffieHellmanSession list) gomap"
  ks_activeIngoing :: "(TypeID, DiffieHellmanSession list) gomap"
  ks_negotiationMap :: "(TypeID, chan) gomap"
  ks_nextChan :: chan

definition clean_sessions :: "time \<Rightarrow> DiffieHellmanSession list \<Rightarrow> DiffieHellmanSession list" where
  "clean_sessions now sessions =
     filter (\<lambda>s. \<not> (expired now s \<and> now > dhs_LastTimeUsed s + seconds 30)) sessions"

definition CleanOldDiffieHellmanSessions_tick :: "time \<Rightarrow> KeyState \<Rightarrow> KeyState" where
  "CleanOldDiffieHellmanSessions_tick now ks =
     ks\<lparr>ks_activeOutgoing := map (\<lambda>(key, sessions). (key, clean_sessions now sessions)) (ks_activeOutgoing ks),
        ks_activeIngoing := map (\<lambda>(key, sessions). (key, clean_sessions now sessions)) (ks_activeIngoing ks)\<rparr>"

fun getSession :: "DiffieHellmanNegotiationSession list \<Rightarrow> TypeID \<Rightarrow> DiffieHellmanNegotiationSession option" where
  "getSession [] i = None"
| "getSession (session # sessions) i = (if dns_ID session = i then Some session else getSession sessions i)"

definition append_at :: "'k \<Rightarrow> 'v \<Rightarrow> ('k, 'v list) gomap \<Rightarrow> ('k, 'v list) gomap" where
  "append_at k v m = gm_store k ((case gm_load m k of Some xs \<Rightarrow> xs | None \<Rightarrow> []) @ [v]) m"

section \<open>Signatures\<close>

record crypto =
  cr_sha256 :: "bytes \<Rightarrow> hash32"
  cr_encode :: "DiffieHellmanPacket \<Rightarrow> bytes"
  cr_sign :: "hash32 \<Rightarrow> nat \<times> nat"
  cr_verify :: "int \<times> int \<Rightarrow> hash32 \<Rightarrow> int \<Rightarrow> int \<Rightarrow> bool"
  cr_closest :: "TypeID \<Rightarrow> NodeState list"

definition signPacket :: "crypto \<Rightarrow> DiffieHellmanPacket \<Rightarrow> bytes \<times> bytes" where
  "signPacket c packet =
     (let hash = cr_sha256 c (cr_encode c packet);
          (r, s) = cr_sign c hash
      in (big_Bytes (int r), big_Bytes (int s)))"

definition extractEcdsaPublicKeyComponents :: "DiffieHellmanPacket \<Rightarrow> int \<times> int" where
  "extractEcdsaPublicKeyComponents packet =
     (big_SetBytes (take 32 (dh_NodeID packet)), big_SetBytes (drop 32 (dh_NodeID packet)))"

text \<open>The packet comes back without its signature: the code clears the fields in place.\<close>

definition verifySignature :: "crypto \<Rightarrow> DiffieHellmanPacket \<Rightarrow> DiffieHellmanPacket \<times> bool" where
  "verifySignature c packet =
     (let r = big_SetBytes (dh_R packet);
          s = big_SetBytes (dh_S packet);
          packet = packet\<lparr>dh_S := [], dh_R := []\<rparr>;
          hash = cr_sha256 c (cr_encode c packet)
      in (packet, cr_verify c (extractEcdsaPublicKeyComponents packet) hash r s))"

definition verifyPublicKey :: "crypto \<Rightarrow> TypeID \<Rightarrow> address \<Rightarrow> bool" where
  "verifyPublicKey c k sender =
     (case cr_closest c k of [] \<Rightarrow> False | n # _ \<Rightarrow> ns_NodeID n = k \<and> ns_Address n = sender)"

definition emptyDiffie :: DiffieHellmanPacket where
  "emptyDiffie = \<lparr>dh_Origin = '''', dh_Destination = '''', dh_HopLimit = 0, dh_P = '''', dh_G = '''',
     dh_DiffiePublicKey = [], dh_R = [], dh_S = [], dh_ExpirationDate = zeroTime,
     dh_NodeID = replicate 64 0, dh_Init = False, dh_ID = replicate 64 0\<rparr>"

definition attach_signature :: "crypto \<Rightarrow> DiffieHellmanPacket \<Rightarrow> DiffieHellmanPacket" where
  "attach_signature c packet = (let (r, s) = signPacket c packet in packet\<lparr>dh_R := r, dh_S := s\<rparr>)"

definition diffieAcklowledge :: "crypto \<Rightarrow> time \<Rightarrow> address \<Rightarrow> TypeID \<Rightarrow> Gossiper \<Rightarrow> DiffieHellmanPacket \<times> action list" where
  "diffieAcklowledge c now dest i g =
     (let ack = attach_signature c (emptyDiffie\<lparr>dh_NodeID := g_dhtMyID g, dh_Init := False, dh_ID := i,
                  dh_ExpirationDate := now + seconds 60\<rparr>)
      in (ack, [SendUDP (emptyPacket\<lparr>gp_DiffieHellman := Some ack\<rparr>) dest]))"

text \<open>\<open>waitForAcknowledge\<close> once a packet is there; the other branch is a timeout and \<open>None\<close> too.\<close>

definition waitForAcknowledge :: "crypto \<Rightarrow> address \<Rightarrow> DiffieHellmanPacket \<Rightarrow> DiffieHellmanPacket option" where
  "waitForAcknowledge c dest res =
     (if \<not> verifyPublicKey c (dh_NodeID res) dest then None
      else let (res, valid) = verifySignature c res in if \<not> valid then None else Some res)"

section \<open>Negotiation\<close>

record initiator =
  ini_dest :: address
  ini_nodeID :: TypeID
  ini_token :: TypeID
  ini_dh :: DiffieHellman
  ini_ch :: chan
  ini_publicKey :: bytes
  ini_expiration :: time

definition initiator_start ::
    "crypto \<Rightarrow> TypeID \<Rightarrow> bytes \<Rightarrow> address \<Rightarrow> TypeID \<Rightarrow> Gossiper \<Rightarrow> KeyState
       \<Rightarrow> (initiator \<times> KeyState \<times> action list) outcome" where
  "initiator_start c token rnd dest nodeID g ks =
     obind P (\<lambda>p.
       let ks' = ks\<lparr>ks_diffieHellmanMap := append_at nodeID \<lparr>dns_ch = ks_nextChan ks, dns_ID = token\<rparr> (ks_diffieHellmanMap ks),
                   ks_nextChan := ks_nextChan ks + 1\<rparr>;
           diffieHellman = dh_New rnd Group p;
           diffiePacket = attach_signature c (emptyDiffie\<lparr>dh_Origin := g_name g, dh_Destination := dest,
             dh_P := big_hex p, dh_G := big_hex Group, dh_DiffiePublicKey := GeneratePublicKey diffieHellman,
             dh_NodeID := g_dhtMyID g, dh_Init := True, dh_ID := token\<rparr>)
       in Inr (\<lparr>ini_dest = dest, ini_nodeID = nodeID, ini_token = token, ini_dh = diffieHellman,
                ini_ch = ks_nextChan ks, ini_publicKey = [], ini_expiration = zeroTime\<rparr>, ks',
               [SendUDP (emptyPacket\<lparr>gp_DiffieHellman := Some diffiePacket\<rparr>) dest]))"

text \<open>\<open>None\<close> is the nil key the initiator hands back.\<close>

definition initiator_reply :: "crypto \<Rightarrow> time \<Rightarrow> DiffieHellmanPacket \<Rightarrow> initiator \<Rightarrow> Gossiper
    \<Rightarrow> (initiator \<times> action list) option" where
  "initiator_reply c now reply ini g =
     (if \<not> verifyPublicKey c (dh_NodeID reply) (ini_dest ini) then None
      else let (reply, valid) = verifySignature c reply in
        if \<not> valid then None
        else let (ack, acts) = diffieAcklowledge c now (ini_dest ini) (ini_token ini) g
             in Some (ini\<lparr>ini_publicKey := dh_DiffiePublicKey reply, ini_expiration := dh_ExpirationDate ack\<rparr>, acts))"

definition initiator_ack :: "crypto \<Rightarrow> DiffieHellmanPacket \<Rightarrow> initiator \<Rightarrow> KeyState \<Rightarrow> (bytes \<times> KeyState) option" where
  "initiator_ack c res ini ks =
     (case waitForAcknowledge c (ini_dest ini) res of
        None \<Rightarrow> None
      | Some _ \<Rightarrow>
          (let symmetricKey = GenerateSymmetricKey (cr_sha256 c) (ini_publicKey ini) (ini_dh ini)
           in Some (symmetricKey, ks\<lparr>ks_activeOutgoing :=
                append_at (ini_nodeID ini) (NewDiffieHellmanSession symmetricKey (ini_expiration ini)) (ks_activeOutgoing ks)\<rparr>)))"

record responder =
  res_dest :: address
  res_nodeID :: TypeID
  res_ID :: TypeID
  res_key :: bytes
  res_ch :: chan

definition responder_start :: "crypto \<Rightarrow> bytes \<Rightarrow> address \<Rightarrow> TypeID \<Rightarrow> DiffieHellmanPacket \<Rightarrow> Gossiper \<Rightarrow> KeyState
    \<Rightarrow> (responder \<times> KeyState \<times> action list) outcome" where
  "responder_start c rnd dest nodeID packet g ks =
     (case big_SetString (dh_G packet) of None \<Rightarrow> Inl (Fatal ''Could not find group.'') | Some grp \<Rightarrow>
     (case big_SetString (dh_P packet) of None \<Rightarrow> Inl (Fatal ''Could not find p.'') | Some p \<Rightarrow>
       let diffieHellman = dh_New rnd grp p;
           symmetricKey = GenerateSymmetricKey (cr_sha256 c) (dh_DiffiePublicKey packet) diffieHellman;
           ks' = ks\<lparr>ks_diffieHellmanMap := append_at nodeID \<lparr>dns_ch = ks_nextChan ks, dns_ID = dh_ID packet\<rparr> (ks_diffieHellmanMap ks),
                   ks_nextChan := ks_nextChan ks + 1\<rparr>;
           diffiePacket = attach_signature c (emptyDiffie\<lparr>dh_Origin := g_name g, dh_Destination := dest,
             dh_HopLimit := 10, dh_P := dh_P packet, dh_G := dh_G packet,
             dh_DiffiePublicKey := GeneratePublicKey diffieHellman, dh_NodeID := g_dhtMyID g,
             dh_Init := False, dh_ID := dh_ID packet\<rparr>)
       in Inr (\<lparr>res_dest = dest, res_nodeID = nodeID, res_ID = dh_ID packet, res_key = symmetricKey,
                res_ch = ks_nextChan ks\<rparr>, ks', [SendUDP (emptyPacket\<lparr>gp_DiffieHellman := Some diffiePacket\<rparr>) dest])))"

definition responder_ack :: "crypto \<Rightarrow> time \<Rightarrow> DiffieHellmanPacket \<Rightarrow> responder \<Rightarrow> Gossiper \<Rightarrow> KeyState
    \<Rightarrow> (KeyState \<times> action list) option" where
  "responder_ack c now res rsp g ks =
     (case waitForAcknowledge c (res_dest rsp) res of
        None \<Rightarrow> None
      | Some ack \<Rightarrow>
          (let (_, acts) = diffieAcklowledge c now (res_dest rsp) (res_ID rsp) g
           in Some (ks\<lparr>ks_activeIngoing :=
                append_at (res_nodeID rsp) (NewDiffieHellmanSession (res_key rsp) (dh_ExpirationDate ack)) (ks_activeIngoing ks)\<rparr>, acts)))"

section \<open>Dispatch and the choice of a key\<close>

datatype diffie_action = GoNegotiate address TypeID DiffieHellmanPacket | PutDiffie chan DiffieHellmanPacket

definition diffieListen :: "PacketAddressPair \<Rightarrow> Gossiper \<Rightarrow> KeyState \<Rightarrow> (Gossiper \<times> diffie_action list) outcome" where
  "diffieListen pap g ks =
     (let g = fst (addToPeers (GetSenderAddress pap) g) in
      case gp_DiffieHellman (pap_Packet pap) of
        None \<Rightarrow> Inl (Panic ''nil diffie hellman packet'')
      | Some packet \<Rightarrow>
          if dh_Init packet then Inr (g, [GoNegotiate (GetSenderAddress pap) (dh_NodeID packet) packet])
          else case gm_load (ks_diffieHellmanMap ks) (dh_NodeID packet) of
                 None \<Rightarrow> Inr (g, [])
               | Some d \<Rightarrow> (case getSession d (dh_ID packet) of
                              Some session \<Rightarrow> Inr (g, [PutDiffie (dns_ch session) packet])
                            | None \<Rightarrow> Inr (g, [])))"

datatype key_choice = UseKey bytes | Negotiate | AwaitNegotiation chan

fun scan_sessions :: "time \<Rightarrow> DiffieHellmanSession list \<Rightarrow> nat \<Rightarrow> bool \<times> nat option \<Rightarrow> bool \<times> nat option" where
  "scan_sessions now [] index st = st"
| "scan_sessions now (session # sessions) index (_, indexNonExpired) =
     scan_sessions now sessions (index + 1)
       (expired now session, if \<not> expired now session then Some index else indexNonExpired)"

definition getKey :: "time \<Rightarrow> TypeID \<Rightarrow> KeyState \<Rightarrow> (key_choice \<times> KeyState) outcome" where
  "getKey now nodeID ks =
     (let diffieSessions = (case gm_load (ks_activeOutgoing ks) nodeID of Some ss \<Rightarrow> ss | None \<Rightarrow> []);
          (allSessionsExpired, indexNonExpired) = scan_sessions now diffieSessions 0 (True, None)
      in if length diffieSessions > 0 \<and> \<not> allSessionsExpired then
           (case indexNonExpired of
              Some i \<Rightarrow> Inr (UseKey (dhs_Key (diffieSessions ! i)), ks)
            | None \<Rightarrow> Inl (Panic ''index out of range''))
         else case gm_load (ks_negotiationMap ks) nodeID of
                Some ch \<Rightarrow> Inr (AwaitNegotiation ch, ks)
              | None \<Rightarrow> Inr (Negotiate, ks\<lparr>ks_negotiationMap := gm_store nodeID (ks_nextChan ks) (ks_negotiationMap ks),
                                         ks_nextChan := ks_nextChan ks + 1\<rparr>))"

text \<open>
  What follows the negotiation: a key is handed over and the entry removed.  A nil key is handed
  over and then sent a second time, which blocks for good, since every caller reads the channel
  once: the entry stays.
\<close>

definition getKey_negotiated :: "bytes option \<Rightarrow> TypeID \<Rightarrow> KeyState \<Rightarrow> KeyState \<times> bytes option" where
  "getKey_negotiated k nodeID ks =
     (case k of
        None \<Rightarrow> (ks, None)
      | Some key \<Rightarrow> (ks\<lparr>ks_negotiationMap := gm_delete nodeID (ks_negotiationMap ks)\<rparr>, Some key))"

definition getKey_timeout :: "TypeID \<Rightarrow> KeyState \<Rightarrow> KeyState" where
  "getKey_timeout nodeID ks = ks\<lparr>ks_negotiationMap := gm_delete nodeID (ks_negotiationMap ks)\<rparr>"

section \<open>Both sides compute the same key\<close>

lemma symmetric_key:
  assumes "0 < p"
  shows "GenerateSymmetricKey sha256 (GeneratePublicKey (dh_New a grp p)) (dh_New b grp p) =
    GenerateSymmetricKey sha256 (GeneratePublicKey (dh_New b grp p)) (dh_New a grp p)"
  using big_Exp_Exp [OF assms, of grp "nat (big_SetBytes a)" "nat (big_SetBytes b)"]
    big_Exp_range [of p grp "nat (big_SetBytes a)"] big_Exp_range [of p grp "nat (big_SetBytes b)"] assms
  by (simp add: GenerateSymmetricKey_def GeneratePublicKey_def dh_New_def Let_def)

lemma parse_hex_total: "list_all (\<lambda>c. hex_value c \<noteq> None) cs \<Longrightarrow> \<exists>n \<ge> acc. parse_hex acc cs = Some n"
proof (induction cs arbitrary: acc)
  case (Cons c cs)
  then obtain d where d: "hex_value c = Some d" by auto
  then obtain n where "n \<ge> acc * 16 + d" "parse_hex (acc * 16 + d) cs = Some n"
    using Cons.IH [of "acc * 16 + d"] Cons.prems by auto
  then show ?case using d by (intro exI [of _ n]) simp
qed simp

lemma hex_upper: "list_all (\<lambda>c. hex_value c \<noteq> None) ''0123456789ABCDEF''"
  by (simp add: hex_value_def)

lemma P_value: "\<exists>p. P = Inr p \<and> 0 < p"
proof -
  have "set P_text \<subseteq> set ''0123456789ABCDEF''" by (simp add: P_text_def)
  then have all: "list_all (\<lambda>c. hex_value c \<noteq> None) P_text" using hex_upper by (auto simp: list_all_iff)
  obtain cs where cs: "P_text = CHR ''F'' # cs" by (simp add: P_text_def)
  have F: "hex_value CHR ''F'' = Some 15" by (simp add: hex_value_def)
  have "list_all (\<lambda>c. hex_value c \<noteq> None) cs" using all unfolding cs by simp
  then obtain n where "parse_hex 15 cs = Some n" "n \<ge> 15" using parse_hex_total by blast
  then have "parse_hex 0 P_text = Some n" "n \<ge> 15" unfolding cs using F by simp_all
  then show ?thesis by (simp add: P_def big_SetString_def parse_digits_def cs)
qed

text \<open>
  An honest pair of nodes: what one signs under its identifier the other accepts, and the node
  lookups find each identifier at the address it is used from.
\<close>

definition accepts_signatures :: "crypto \<Rightarrow> TypeID \<Rightarrow> crypto \<Rightarrow> bool" where
  "accepts_signatures signer i verifier \<longleftrightarrow>
     cr_sha256 verifier = cr_sha256 signer \<and> cr_encode verifier = cr_encode signer \<and>
     (\<forall>hash r s. cr_sign signer hash = (r, s) \<longrightarrow>
        cr_verify verifier (big_SetBytes (take 32 i), big_SetBytes (drop 32 i)) hash (int r) (int s))"

definition finds :: "crypto \<Rightarrow> TypeID \<Rightarrow> address \<Rightarrow> bool" where
  "finds c i addr \<longleftrightarrow> (\<exists>n ns. cr_closest c i = n # ns \<and> ns_NodeID n = i \<and> ns_Address n = addr)"

lemma verify_attached:
  assumes "accepts_signatures signer (dh_NodeID packet) verifier" "dh_R packet = []" "dh_S packet = []"
  shows "verifySignature verifier (attach_signature signer packet) = (packet, True)"
proof -
  obtain r s where rs: "cr_sign signer (cr_sha256 signer (cr_encode signer packet)) = (r, s)" by fastforce
  have "packet\<lparr>dh_R := [], dh_S := []\<rparr> = packet" "packet\<lparr>dh_R := x, dh_S := y\<rparr>\<lparr>dh_S := [], dh_R := []\<rparr> = packet" for x y
    using assms(2,3) by simp_all
  then show ?thesis using assms(1) rs
    by (simp add: verifySignature_def attach_signature_def signPacket_def accepts_signatures_def
        extractEcdsaPublicKeyComponents_def Let_def)
qed

lemma attach_NodeID [simp]: "dh_NodeID (attach_signature c packet) = dh_NodeID packet"
  by (simp add: attach_signature_def split_beta)

lemma verifyPublicKey_finds: "finds c i addr \<Longrightarrow> verifyPublicKey c i addr"
  by (auto simp: finds_def verifyPublicKey_def)

lemma wait_attached:
  assumes "accepts_signatures signer (dh_NodeID packet) verifier" "dh_R packet = []" "dh_S packet = []"
    "finds verifier (dh_NodeID packet) dest"
  shows "waitForAcknowledge verifier dest (attach_signature signer packet) = Some packet"
  using verify_attached [OF assms(1-3)] verifyPublicKey_finds [OF assms(4)]
  by (simp add: waitForAcknowledge_def)

section \<open>A whole negotiation\<close>

text \<open>
  The four packets of a negotiation between an initiator \<open>gA\<close> at \<open>addrA\<close> and a responder \<open>gB\<close>
  at \<open>addrB\<close>, delivered in order: the initial packet, the reply, and the two acknowledgements.
\<close>

fun diffie_packets :: "action list \<Rightarrow> DiffieHellmanPacket list" where
  "diffie_packets [] = []"
| "diffie_packets (SendUDP p a # acts) =
     (case gp_DiffieHellman p of Some d \<Rightarrow> d # diffie_packets acts | None \<Rightarrow> diffie_packets acts)"
| "diffie_packets (_ # acts) = diffie_packets acts"

definition negotiate ::
    "crypto \<Rightarrow> crypto \<Rightarrow> TypeID \<Rightarrow> bytes \<Rightarrow> bytes \<Rightarrow> time \<Rightarrow> time \<Rightarrow> address \<Rightarrow> address \<Rightarrow> Gossiper \<Rightarrow> Gossiper
       \<Rightarrow> KeyState \<Rightarrow> KeyState \<Rightarrow> (KeyState \<times> KeyState \<times> bytes) option" where
  "negotiate cA cB token rndA rndB nowA nowB addrA addrB gA gB ksA ksB =
     (case initiator_start cA token rndA addrB (g_dhtMyID gB) gA ksA of Inl _ \<Rightarrow> None | Inr (ini, ksA, acts1) \<Rightarrow>
     (case responder_start cB rndB addrA (dh_NodeID (hd (diffie_packets acts1))) (hd (diffie_packets acts1)) gB ksB of
        Inl _ \<Rightarrow> None | Inr (rsp, ksB, acts2) \<Rightarrow>
     (case initiator_reply cA nowA (hd (diffie_packets acts2)) ini gA of None \<Rightarrow> None | Some (ini, acts3) \<Rightarrow>
     (case responder_ack cB nowB (hd (diffie_packets acts3)) rsp gB ksB of None \<Rightarrow> None | Some (ksB, acts4) \<Rightarrow>
     (case initiator_ack cA (hd (diffie_packets acts4)) ini ksA of None \<Rightarrow> None | Some (key, ksA) \<Rightarrow>
        Some (ksA, ksB, key))))))"

definition sessions_of :: "(TypeID, DiffieHellmanSession list) gomap \<Rightarrow> TypeID \<Rightarrow> DiffieHellmanSession list" where
  "sessions_of m i = (case gm_load m i of Some ss \<Rightarrow> ss | None \<Rightarrow> [])"

lemma sessions_append_at: "sessions_of (append_at k s m) i = sessions_of m i @ (if i = k then [s] else [])"
  by (simp add: sessions_of_def append_at_def split: option.splits)

lemma attach_DiffieID [simp]:
  "dh_ID (attach_signature c packet) = dh_ID packet" "dh_G (attach_signature c packet) = dh_G packet"
  "dh_P (attach_signature c packet) = dh_P packet"
  "dh_DiffiePublicKey (attach_signature c packet) = dh_DiffiePublicKey packet"
  "dh_ExpirationDate (attach_signature c packet) = dh_ExpirationDate packet"
  by (simp_all add: attach_signature_def split_beta)

lemma emptyDiffie_unsigned [simp]: "dh_R emptyDiffie = []" "dh_S emptyDiffie = []"
  by (simp_all add: emptyDiffie_def)

section \<open>Properties\<close>

text \<open>When two honest nodes run the negotiation, both end with a session of the same key and the same
  expiration date; NodeIdentity has this with the identifiers that nodes make from their keys.\<close>

lemma negotiation_agrees:
  assumes "accepts_signatures cA (g_dhtMyID gA) cB" "accepts_signatures cB (g_dhtMyID gB) cA"
    and "finds cA (g_dhtMyID gB) addrB" "finds cB (g_dhtMyID gA) addrA"
  shows "\<exists>ksA' ksB' key. negotiate cA cB token rndA rndB nowA nowB addrA addrB gA gB ksA ksB = Some (ksA', ksB', key)
    \<and> sessions_of (ks_activeOutgoing ksA') (g_dhtMyID gB) =
        sessions_of (ks_activeOutgoing ksA) (g_dhtMyID gB) @ [NewDiffieHellmanSession key (nowA + seconds 60)]
    \<and> sessions_of (ks_activeIngoing ksB') (g_dhtMyID gA) =
        sessions_of (ks_activeIngoing ksB) (g_dhtMyID gA) @ [NewDiffieHellmanSession key (nowA + seconds 60)]"
proof -
  obtain p where p: "P = Inr p" "0 < p" using P_value by blast
  have sha: "cr_sha256 cB = cr_sha256 cA" using assms(1) by (simp add: accepts_signatures_def)
  let ?dhA = "dh_New rndA Group p" and ?dhB = "dh_New rndB Group p"
  let ?key = "GenerateSymmetricKey (cr_sha256 cA) (GeneratePublicKey ?dhA) ?dhB"
  let ?m1 = "emptyDiffie\<lparr>dh_Origin := g_name gA, dh_Destination := addrB, dh_P := big_hex p, dh_G := big_hex Group,
    dh_DiffiePublicKey := GeneratePublicKey ?dhA, dh_NodeID := g_dhtMyID gA, dh_Init := True, dh_ID := token\<rparr>"
  let ?m2 = "emptyDiffie\<lparr>dh_Origin := g_name gB, dh_Destination := addrA, dh_HopLimit := 10, dh_P := big_hex p,
    dh_G := big_hex Group, dh_DiffiePublicKey := GeneratePublicKey ?dhB, dh_NodeID := g_dhtMyID gB,
    dh_Init := False, dh_ID := token\<rparr>"
  let ?ack = "\<lambda>g now. emptyDiffie\<lparr>dh_NodeID := g_dhtMyID g, dh_Init := False, dh_ID := token,
    dh_ExpirationDate := now + seconds 60\<rparr>"
  obtain ini ksA1 acts1 where 1: "initiator_start cA token rndA addrB (g_dhtMyID gB) gA ksA = Inr (ini, ksA1, acts1)"
      "diffie_packets acts1 = [attach_signature cA ?m1]" "ini_dh ini = ?dhA" "ini_dest ini = addrB"
      "ini_nodeID ini = g_dhtMyID gB" "ini_token ini = token" "ks_activeOutgoing ksA1 = ks_activeOutgoing ksA"
    by (simp add: initiator_start_def p(1) Let_def)
  obtain rsp ksB1 acts2 where 2: "responder_start cB rndB addrA (g_dhtMyID gA) (attach_signature cA ?m1) gB ksB = Inr (rsp, ksB1, acts2)"
      "diffie_packets acts2 = [attach_signature cB ?m2]" "res_dest rsp = addrA" "res_nodeID rsp = g_dhtMyID gA"
      "res_ID rsp = token" "res_key rsp = ?key" "ks_activeIngoing ksB1 = ks_activeIngoing ksB"
    by (simp add: responder_start_def Let_def sha)
  obtain ini3 acts3 where 3: "initiator_reply cA nowA (attach_signature cB ?m2) ini gA = Some (ini3, acts3)"
      "diffie_packets acts3 = [attach_signature cA (?ack gA nowA)]"
      "ini3 = ini\<lparr>ini_publicKey := GeneratePublicKey ?dhB, ini_expiration := nowA + seconds 60\<rparr>"
    using assms(2,3) 1 by (simp add: initiator_reply_def diffieAcklowledge_def verify_attached verifyPublicKey_finds Let_def)
  obtain ksB4 acts4 where 4: "responder_ack cB nowB (attach_signature cA (?ack gA nowA)) rsp gB ksB1 = Some (ksB4, acts4)"
      "diffie_packets acts4 = [attach_signature cB (?ack gB nowB)]"
      "ks_activeIngoing ksB4 = append_at (g_dhtMyID gA) (NewDiffieHellmanSession ?key (nowA + seconds 60)) (ks_activeIngoing ksB)"
    using assms(1,4) 2 by (simp add: responder_ack_def diffieAcklowledge_def wait_attached Let_def)
  obtain ksA5 where 5: "initiator_ack cA (attach_signature cB (?ack gB nowB)) ini3 ksA1 = Some (?key, ksA5)"
      "ks_activeOutgoing ksA5 = append_at (g_dhtMyID gB) (NewDiffieHellmanSession ?key (nowA + seconds 60)) (ks_activeOutgoing ksA)"
    using assms(2,3) 1 3(3) symmetric_key [OF p(2), of "cr_sha256 cA" rndA Group rndB]
    by (simp add: initiator_ack_def wait_attached Let_def)
  have "negotiate cA cB token rndA rndB nowA nowB addrA addrB gA gB ksA ksB = Some (ksA5, ksB4, ?key)"
    using 1(1,2) 2(1,2) 3(1,2) 4(1,2) 5(1) by (simp add: negotiate_def)
  then show ?thesis using 4(3) 5(2) by (simp add: sessions_append_at)
qed

text \<open>A pair of nodes with a trivial signature scheme that accepts the signature \<open>(1, 1)\<close>.\<close>

definition example_crypto :: "address \<Rightarrow> TypeID \<Rightarrow> crypto" where
  "example_crypto peerAddr peerID =
     \<lparr>cr_sha256 = (\<lambda>_. replicate 32 0), cr_encode = (\<lambda>p. dh_DiffiePublicKey p), cr_sign = (\<lambda>_. (1, 1)),
      cr_verify = (\<lambda>_ _ r s. r = 1 \<and> s = 1), cr_closest = (\<lambda>_. [\<lparr>ns_NodeID = peerID, ns_Address = peerAddr\<rparr>])\<rparr>"

definition example_peer :: "byte \<Rightarrow> Gossiper" where
  "example_peer b = NewGossiper ''x'' ''A'' [] False 0 '''' (replicate 64 b)"

definition emptyKeyState :: KeyState where
  "emptyKeyState = \<lparr>ks_diffieHellmanMap = [], ks_activeOutgoing = [], ks_activeIngoing = [],
     ks_negotiationMap = [], ks_nextChan = 0\<rparr>"

text \<open>Decryption with the key of the encryption gives the plaintext back, for every nonce of
  12 bytes, provided GCM opens what it sealed.\<close>

theorem encryption_roundtrip:
  assumes "\<And>k n p. gopen k n (gseal k n p) = Some p" "length nonce = 12"
  shows "Decrypt gopen key (Encrypt gseal nonce key plaintext) = Inr (Some plaintext)"
  using assms by (simp add: Decrypt_def Encrypt_def)

theorem encryption_roundtrip_witness:
  "Decrypt (\<lambda>k n c. Some (rev c)) [1] (Encrypt (\<lambda>k n p. rev p) (replicate 12 0) [1] [2, 3]) = Inr (Some [2, 3])"
  by (rule encryption_roundtrip) simp_all

text \<open>An initial packet whose group or modulus is no hexadecimal number ends the responder's
  process, and nothing else an initial packet contains does: its signature is not looked at before.\<close>

theorem responder_fatal:
  "ok (responder_start c rnd dest nodeID packet g ks) \<longleftrightarrow>
     big_SetString (dh_G packet) \<noteq> None \<and> big_SetString (dh_P packet) \<noteq> None"
  by (simp add: responder_start_def Let_def split: option.splits)

text \<open>The cleaning routine drops exactly the sessions that have expired and were not used in
  the last 30 seconds, on both sides and for every peer.\<close>

theorem cleaning_keeps_live_sessions:
  "set (sessions_of (ks_activeOutgoing (CleanOldDiffieHellmanSessions_tick now ks)) i) =
     {s \<in> set (sessions_of (ks_activeOutgoing ks) i). now \<le> dhs_ExpirationDate s \<or> now - dhs_LastTimeUsed s \<le> seconds 30}
   \<and> set (sessions_of (ks_activeIngoing (CleanOldDiffieHellmanSessions_tick now ks)) i) =
     {s \<in> set (sessions_of (ks_activeIngoing ks) i). now \<le> dhs_ExpirationDate s \<or> now - dhs_LastTimeUsed s \<le> seconds 30}"
proof -
  have m: "sessions_of (map (\<lambda>(key, sessions). (key, clean_sessions now sessions)) m) i = clean_sessions now (sessions_of m i)" for m
    unfolding sessions_of_def gm_load_def by (induction m) (auto simp: clean_sessions_def)
  have c: "set (clean_sessions now ss) = {s \<in> set ss. now \<le> dhs_ExpirationDate s \<or> now - dhs_LastTimeUsed s \<le> seconds 30}" for ss
    by (auto simp: clean_sessions_def expired_def)
  show ?thesis by (simp add: CleanOldDiffieHellmanSessions_tick_def m c)
qed

text \<open>Once a negotiation with a node has failed, the entry of that negotiation stays: a later
  request for a key, without an unexpired session, waits for a negotiation nobody runs.\<close>

theorem failed_negotiation_blocks:
  assumes "getKey now nodeID ks = Inr (Negotiate, ks1)"
    and "ks2 = fst (getKey_negotiated None nodeID ks1)"
    and "sessions_of (ks_activeOutgoing ks2) nodeID = []"
  shows "\<exists>ch. getKey later nodeID ks2 = Inr (AwaitNegotiation ch, ks2)"
proof -
  have "gm_load (ks_negotiationMap ks2) nodeID \<noteq> None"
    using assms(1,2) by (auto simp: getKey_def getKey_negotiated_def Let_def split: if_splits option.splits prod.splits)
  then show ?thesis using assms(3) by (auto simp: getKey_def sessions_of_def Let_def)
qed

theorem failed_negotiation_blocks_witness:
  "\<exists>ks1 ch. getKey 0 [1] emptyKeyState = Inr (Negotiate, ks1) \<and> getKey 99 [1] ks1 = Inr (AwaitNegotiation ch, ks1)"
proof -
  let ?ks = "emptyKeyState\<lparr>ks_negotiationMap := [([1], 0)], ks_nextChan := 1\<rparr>"
  have "getKey 0 [1] emptyKeyState = Inr (Negotiate, ?ks)" by code_simp
  moreover have "fst (getKey_negotiated None [1] ?ks) = ?ks" by (simp add: getKey_negotiated_def)
  moreover have "sessions_of (ks_activeOutgoing ?ks) [1] = []" by code_simp
  ultimately show ?thesis using failed_negotiation_blocks [of 0 "[1]" emptyKeyState ?ks ?ks 99] by metis
qed

end
