(* ===== verification/DhtHandlers.thy ===== *)
theory DhtHandlers
  imports DhtStore KeyAgreement
begin

text \<open>
  The remote procedures of the hash table, \<open>src/gossiper/dht.go\<close>: requests and their replies, the
  dispatch of incoming messages, optional encryption, and joining the network.  A request
  registers a channel under a fresh nonce; the reply with that nonce is handed over on it.  A
  goroutine the dispatcher starts is a value of \<open>dht_goroutine\<close>, which \<open>run_goroutine\<close> executes.
  Nonces, keys handed over by \<open>getKey\<close> and the clock are arguments.
\<close>

section \<open>State\<close>

record 'db DhtNode =
  dn_g :: Gossiper
  dn_keys :: KeyState
  dn_db :: 'db
  dn_encryptDHTOperations :: bool

record 'db dht_env =
  de_bolt :: "'db bolt"
  de_sha512 :: "bytes \<Rightarrow> TypeID"
  de_codec :: store_codec
  de_gseal :: "bytes \<Rightarrow> bytes \<Rightarrow> bytes \<Rightarrow> bytes"
  de_gopen :: "bytes \<Rightarrow> bytes \<Rightarrow> bytes \<Rightarrow> bytes option"

datatype dht_action = DhtSend GossipPacket address | DhtDeliver chan Message | DhtRank rank_action

section \<open>Messages\<close>

definition emptyMessage :: "uint64 \<Rightarrow> TypeID \<Rightarrow> Message" where
  "emptyMessage nonce i = \<lparr>msg_Nonce = nonce, msg_SenderID = i, msg_Store = None, msg_Ping = None,
     msg_PingReply = None, msg_NodeLookup = None, msg_NodeReply = None, msg_ValueLookup = None, msg_ValueReply = None\<rparr>"

definition newDHTStore :: "uint64 \<Rightarrow> TypeID \<Rightarrow> bytes \<Rightarrow> string \<Rightarrow> bool \<Rightarrow> Gossiper \<Rightarrow> Message" where
  "newDHTStore nonce key data storeType encrypted g = (emptyMessage nonce (g_dhtMyID g))
     \<lparr>msg_Store := Some \<lparr>st_Key = key, st_Type = storeType, st_Data = data, st_Encrypted = encrypted\<rparr>\<rparr>"

definition newDHTPing :: "uint64 \<Rightarrow> Gossiper \<Rightarrow> Message" where
  "newDHTPing nonce g = (emptyMessage nonce (g_dhtMyID g))\<lparr>msg_Ping := Some ()\<rparr>"

definition newDHTPingReply :: "uint64 \<Rightarrow> Gossiper \<Rightarrow> Message" where
  "newDHTPingReply nonce g = (emptyMessage nonce (g_dhtMyID g))\<lparr>msg_PingReply := Some ()\<rparr>"

definition newDHTNodeLookup :: "uint64 \<Rightarrow> TypeID \<Rightarrow> Gossiper \<Rightarrow> Message" where
  "newDHTNodeLookup nonce i g = (emptyMessage nonce (g_dhtMyID g))\<lparr>msg_NodeLookup := Some i\<rparr>"

definition newDHTNodeReply :: "NodeState list \<Rightarrow> uint64 \<Rightarrow> Gossiper \<Rightarrow> Message" where
  "newDHTNodeReply nodeStates nonce g = (emptyMessage nonce (g_dhtMyID g))\<lparr>msg_NodeReply := Some nodeStates\<rparr>"

definition newDHTValueLookup :: "uint64 \<Rightarrow> TypeID \<Rightarrow> string \<Rightarrow> bool \<Rightarrow> Gossiper \<Rightarrow> Message" where
  "newDHTValueLookup nonce key dbBucket encrypt g = (emptyMessage nonce (g_dhtMyID g))
     \<lparr>msg_ValueLookup := Some \<lparr>vl_Key = key, vl_DbKey = '''', vl_DbBucket = dbBucket, vl_Encrypted = encrypt, vl_EncryptedKey = []\<rparr>\<rparr>"

definition newDHTValueReplyData :: "bytes \<Rightarrow> uint64 \<Rightarrow> bool \<Rightarrow> Gossiper \<Rightarrow> Message" where
  "newDHTValueReplyData data nonce encrypt g = (emptyMessage nonce (g_dhtMyID g))
     \<lparr>msg_ValueReply := Some \<lparr>vr_NodeStates = None, vr_Data = Some data, vr_Encrypted = encrypt\<rparr>\<rparr>"

definition newDHTValueReplyNodes :: "NodeState list \<Rightarrow> uint64 \<Rightarrow> Gossiper \<Rightarrow> Message" where
  "newDHTValueReplyNodes nodeStates nonce g = (emptyMessage nonce (g_dhtMyID g))
     \<lparr>msg_ValueReply := Some \<lparr>vr_NodeStates = Some nodeStates, vr_Data = None, vr_Encrypted = False\<rparr>\<rparr>"

definition dht_packet :: "Message \<Rightarrow> GossipPacket" where
  "dht_packet msg = emptyPacket\<lparr>gp_DHTMessage := Some msg\<rparr>"

section \<open>Requests\<close>

text \<open>Register a fresh channel for the reply and send the message; a nonce in use is a panic.\<close>

definition send_rpc :: "Message \<Rightarrow> NodeState \<Rightarrow> 'db DhtNode \<Rightarrow> ('db DhtNode \<times> chan \<times> dht_action list) outcome" where
  "send_rpc msg ns node =
     (let g = dn_g node;
          (cm, c, isNew) = cm_AddListener (g_nextChan g) (msg_Nonce msg) (g_dhtChanMap g);
          g = g\<lparr>g_dhtChanMap := cm, g_nextChan := g_nextChan g + 1\<rparr>
      in if \<not> isNew then Inl (Panic ''Something went very wrong'')
         else Inr (node\<lparr>dn_g := g\<rparr>, c, [DhtSend (dht_packet msg) (ns_Address ns)]))"

definition sendPing_start :: "uint64 \<Rightarrow> NodeState \<Rightarrow> 'db DhtNode \<Rightarrow> ('db DhtNode \<times> chan \<times> dht_action list) outcome" where
  "sendPing_start nonce ns node = send_rpc (newDHTPing nonce (dn_g node)) ns node"

text \<open>The wait for the reply ends with a value on the channel, or with the ticker.\<close>

definition sendPing_reply :: "'db DhtNode \<Rightarrow> 'db DhtNode \<times> bool" where
  "sendPing_reply node = (node, True)"

definition sendPing_timeout :: "uint64 \<Rightarrow> 'db DhtNode \<Rightarrow> 'db DhtNode \<times> bool" where
  "sendPing_timeout rpcNum node =
     (node\<lparr>dn_g := (dn_g node)\<lparr>g_dhtChanMap := cm_RemoveListener rpcNum (g_dhtChanMap (dn_g node))\<rparr>\<rparr>, False)"

definition sendLookupNode :: "uint64 \<Rightarrow> NodeState \<Rightarrow> TypeID \<Rightarrow> 'db DhtNode \<Rightarrow> ('db DhtNode \<times> chan \<times> dht_action list) outcome" where
  "sendLookupNode nonce ns i node = send_rpc (newDHTNodeLookup nonce i (dn_g node)) ns node"

text \<open>
  \<open>key\<close> is what \<open>getKey\<close> hands over: \<open>None\<close> when it times out, \<open>Some None\<close> for a nil key.  An
  encrypted lookup carries the encrypted key beside the key itself, which \<open>newDHTValueLookup\<close> has set.
\<close>

definition sendLookupKey :: "'db dht_env \<Rightarrow> uint64 \<Rightarrow> bytes \<Rightarrow> bytes option option \<Rightarrow> NodeState \<Rightarrow> TypeID \<Rightarrow> string \<Rightarrow> bool
    \<Rightarrow> 'db DhtNode \<Rightarrow> ('db DhtNode \<times> chan \<times> dht_action list) outcome" where
  "sendLookupKey env nonce iv k ns key dbBucket encrypt node =
     (let msg = newDHTValueLookup nonce key dbBucket encrypt (dn_g node);
          vl = the (msg_ValueLookup msg)
      in obind (if dn_encryptDHTOperations node then
                  (case k of
                     Some (Some k) \<Rightarrow> obind (aes_New k) (\<lambda>k.
                       Inr (vl\<lparr>vl_EncryptedKey := Encrypt (de_gseal env) iv k (vl_Key vl)\<rparr>))
                   | _ \<Rightarrow> Inr (vl\<lparr>vl_Encrypted := False\<rparr>))
                else Inr vl)
           (\<lambda>vl. send_rpc (msg\<lparr>msg_ValueLookup := Some vl\<rparr>) ns node))"

definition sendStore :: "uint64 \<Rightarrow> NodeState \<Rightarrow> TypeID \<Rightarrow> bytes \<Rightarrow> string \<Rightarrow> 'db DhtNode \<Rightarrow> dht_action list" where
  "sendStore nonce ns key data storeType node =
     [DhtSend (dht_packet (newDHTStore nonce key data storeType False (dn_g node))) (ns_Address ns)]"

text \<open>The result is the actions and whether there was no error.\<close>

definition sendEncryptedStore :: "'db dht_env \<Rightarrow> uint64 \<Rightarrow> bytes \<Rightarrow> bytes option option \<Rightarrow> NodeState \<Rightarrow> TypeID \<Rightarrow> bytes \<Rightarrow> string
    \<Rightarrow> 'db DhtNode \<Rightarrow> (dht_action list \<times> bool) outcome" where
  "sendEncryptedStore env nonce iv k ns key data storeType node =
     (case k of
        None \<Rightarrow> Inr ([], False)
      | Some None \<Rightarrow> Inr (sendStore nonce ns key data storeType node, True)
      | Some (Some k) \<Rightarrow> obind (aes_New k) (\<lambda>k.
          Inr ([DhtSend (dht_packet (newDHTStore nonce key (Encrypt (de_gseal env) iv k data) storeType True (dn_g node)))
                  (ns_Address ns)], True)))"

section \<open>Replies\<close>

definition replyPing :: "address \<Rightarrow> Message \<Rightarrow> 'db DhtNode \<Rightarrow> dht_action list" where
  "replyPing senderAddr ping node = [DhtSend (dht_packet (newDHTPingReply (msg_Nonce ping) (dn_g node))) senderAddr]"

definition replyLookupNode :: "address \<Rightarrow> Message \<Rightarrow> 'db DhtNode \<Rightarrow> dht_action list outcome" where
  "replyLookupNode senderAddr lk node =
     (case msg_NodeLookup lk of
        None \<Rightarrow> Inl (Panic ''nil pointer'')
      | Some i \<Rightarrow>
          (let results = alphaClosest i bucketSize (g_bucketTable (dn_g node))
           in Inr [DhtSend (dht_packet (newDHTNodeReply results (msg_Nonce lk) (dn_g node))) senderAddr]))"

text \<open>The loop over the sessions tries the last one in every iteration.\<close>

fun decrypt_loop :: "(bytes \<Rightarrow> bytes \<Rightarrow> bytes \<Rightarrow> bytes option) \<Rightarrow> bytes \<Rightarrow> DiffieHellmanSession list \<Rightarrow> nat
    \<Rightarrow> bytes option outcome" where
  "decrypt_loop gopen cipher sessions 0 = Inr None"
| "decrypt_loop gopen cipher sessions (Suc n) =
     obind (aes_New (dhs_Key (last sessions))) (\<lambda>k.
     obind (Decrypt gopen k cipher) (\<lambda>r.
       case r of Some data \<Rightarrow> Inr (Some data) | None \<Rightarrow> decrypt_loop gopen cipher sessions n))"

definition touch_last :: "time \<Rightarrow> DiffieHellmanSession list \<Rightarrow> DiffieHellmanSession list" where
  "touch_last now sessions = butlast sessions @ [(last sessions)\<lparr>dhs_LastTimeUsed := now\<rparr>]"

text \<open>
  Decryption with the sessions of a peer: \<open>None\<close> if there is no entry for it, else what the loop
  found.
\<close>

definition decrypt_from :: "'db dht_env \<Rightarrow> time \<Rightarrow> TypeID \<Rightarrow> bytes \<Rightarrow> KeyState \<Rightarrow> (bytes option option \<times> KeyState) outcome" where
  "decrypt_from env now sender cipher ks =
     (case gm_load (ks_activeIngoing ks) sender of
        None \<Rightarrow> Inr (None, ks)
      | Some sessions \<Rightarrow>
          obind (decrypt_loop (de_gopen env) cipher sessions (length sessions)) (\<lambda>r.
            Inr (Some r, if r = None then ks
              else ks\<lparr>ks_activeIngoing := gm_store sender (touch_last now sessions) (ks_activeIngoing ks)\<rparr>)))"

text \<open>\<open>copy\<close> into an array of 64 bytes that starts as zeros.\<close>

definition copy_id :: "bytes \<Rightarrow> TypeID" where
  "copy_id data = take 64 data @ replicate (64 - length data) 0"

definition answer_lookup :: "'db dht_env \<Rightarrow> TypeID \<Rightarrow> ValueLookup \<Rightarrow> uint64 \<Rightarrow> 'db DhtNode \<Rightarrow> Message outcome" where
  "answer_lookup env key vl nonce node =
     obind (Retrieve (de_bolt env) (bc_Keywords (de_codec env)) (dn_db node) key (vl_DbBucket vl)) (\<lambda>r.
       Inr (case r of
              Some data \<Rightarrow> newDHTValueReplyData data nonce (vl_Encrypted vl) (dn_g node)
            | None \<Rightarrow> newDHTValueReplyNodes (alphaClosest (vl_Key vl) bucketSize (g_bucketTable (dn_g node))) nonce (dn_g node)))"

text \<open>The key that is looked up: a lookup that cannot be decrypted goes on with the zero key.\<close>

definition lookup_key :: "'db dht_env \<Rightarrow> time \<Rightarrow> TypeID \<Rightarrow> ValueLookup \<Rightarrow> KeyState \<Rightarrow> (TypeID option \<times> KeyState) outcome" where
  "lookup_key env now sender vl ks =
     (if vl_Encrypted vl then
        obind (decrypt_from env now sender (vl_EncryptedKey vl) ks) (\<lambda>(r, ks).
          Inr (map_option (\<lambda>d. case d of None \<Rightarrow> replicate 64 0 | Some data \<Rightarrow> copy_id data) r, ks))
      else Inr (Some (vl_Key vl), ks))"

definition replyLookupKey :: "'db dht_env \<Rightarrow> time \<Rightarrow> address \<Rightarrow> Message \<Rightarrow> 'db DhtNode \<Rightarrow> ('db DhtNode \<times> dht_action list) outcome" where
  "replyLookupKey env now senderAddr lookupKey node =
     (case msg_ValueLookup lookupKey of
        None \<Rightarrow> Inl (Panic ''nil pointer'')
      | Some vl \<Rightarrow>
          obind (lookup_key env now (msg_SenderID lookupKey) vl (dn_keys node)) (\<lambda>(key, ks).
            let node = node\<lparr>dn_keys := ks\<rparr> in
            case key of
              None \<Rightarrow> Inr (node, [])
            | Some key \<Rightarrow>
                obind (answer_lookup env key vl (msg_Nonce lookupKey) node) (\<lambda>msg.
                  Inr (node, [DhtSend (dht_packet msg) senderAddr]))))"

section \<open>The dispatcher\<close>

datatype dht_goroutine =
    GoReplyPing address Message
  | GoReplyLookupNode address Message
  | GoReplyLookupKey address Message
  | GoInformListener Message
  | GoReplyStore Message
  | GoDecryptStore Message

text \<open>\<open>ping\<close> answers whether a node is alive; \<open>updateNode\<close> may ping the oldest node of a full bucket.\<close>

definition dhtMessageListen :: "(NodeState \<Rightarrow> bool) \<Rightarrow> PacketAddressPair \<Rightarrow> 'db DhtNode
    \<Rightarrow> ('db DhtNode \<times> dht_goroutine list) outcome" where
  "dhtMessageListen ping pap node =
     (case gp_DHTMessage (pap_Packet pap) of
        None \<Rightarrow> Inl (Panic ''nil pointer'')
      | Some msg \<Rightarrow>
          (let sender = GetSenderAddress pap;
               ns = \<lparr>ns_NodeID = msg_SenderID msg, ns_Address = sender\<rparr>;
               g = dn_g node;
               node = node\<lparr>dn_g := g\<lparr>g_bucketTable := fst (bt_updateNode ping ns (g_bucketTable g))\<rparr>\<rparr>
           in Inr (node,
                case Message_GetUnderlyingType msg of
                  PingT \<Rightarrow> [GoReplyPing sender msg]
                | NodeLookupT \<Rightarrow> [GoReplyLookupNode sender msg]
                | ValueLookupT \<Rightarrow> [GoReplyLookupKey sender msg]
                | PingReplyT \<Rightarrow> [GoInformListener msg]
                | NodeReplyT \<Rightarrow> [GoInformListener msg]
                | ValueReplyT \<Rightarrow> [GoInformListener msg]
                | StoreT \<Rightarrow> (if map_option st_Encrypted (msg_Store msg) = Some True then [GoDecryptStore msg] else [GoReplyStore msg])
                | NoMessageT \<Rightarrow> [])))"

definition run_store :: "'db dht_env \<Rightarrow> Store \<Rightarrow> 'db DhtNode \<Rightarrow> ('db DhtNode \<times> dht_action list) outcome" where
  "run_store env st node =
     obind (replyStore (de_bolt env) (de_sha512 env) (de_codec env) st (dn_db node)) (\<lambda>(db, ranks).
       Inr (node\<lparr>dn_db := db\<rparr>, map DhtRank ranks))"

fun run_goroutine :: "'db dht_env \<Rightarrow> time \<Rightarrow> dht_goroutine \<Rightarrow> 'db DhtNode \<Rightarrow> ('db DhtNode \<times> dht_action list) outcome" where
  "run_goroutine env now (GoReplyPing sender msg) node = Inr (node, replyPing sender msg node)"
| "run_goroutine env now (GoReplyLookupNode sender msg) node =
     obind (replyLookupNode sender msg node) (\<lambda>acts. Inr (node, acts))"
| "run_goroutine env now (GoReplyLookupKey sender msg) node = replyLookupKey env now sender msg node"
| "run_goroutine env now (GoInformListener msg) node =
     (let (cm, c) = cm_InformListener (msg_Nonce msg) (g_dhtChanMap (dn_g node))
      in Inr (node\<lparr>dn_g := (dn_g node)\<lparr>g_dhtChanMap := cm\<rparr>\<rparr>, case c of None \<Rightarrow> [] | Some c \<Rightarrow> [DhtDeliver c msg]))"
| "run_goroutine env now (GoReplyStore msg) node =
     (case msg_Store msg of None \<Rightarrow> Inl (Panic ''nil pointer'') | Some st \<Rightarrow> run_store env st node)"
| "run_goroutine env now (GoDecryptStore msg) node =
     (case msg_Store msg of
        None \<Rightarrow> Inl (Panic ''nil pointer'')
      | Some st \<Rightarrow>
          obind (decrypt_from env now (msg_SenderID msg) (st_Data st) (dn_keys node)) (\<lambda>(r, ks).
            let node = node\<lparr>dn_keys := ks\<rparr> in
            case r of
              Some (Some data) \<Rightarrow> run_store env (st\<lparr>st_Data := data\<rparr>) node
            | _ \<Rightarrow> Inr (node, [])))"

text \<open>A packet is handled: the dispatcher, then the goroutine it started.\<close>

definition dht_handle :: "'db dht_env \<Rightarrow> time \<Rightarrow> (NodeState \<Rightarrow> bool) \<Rightarrow> PacketAddressPair \<Rightarrow> 'db DhtNode
    \<Rightarrow> ('db DhtNode \<times> dht_action list) outcome" where
  "dht_handle env now ping pap node =
     obind (dhtMessageListen ping pap node) (\<lambda>(node, gos).
       case gos of [] \<Rightarrow> Inr (node, []) | go # _ \<Rightarrow> run_goroutine env now go node)"

section \<open>Joining, and requests of the client\<close>

text \<open>
  \<open>dhtJoin\<close> pings the bootstrap node and then looks up the node's own identifier and one random
  identifier for every possible length of the common prefix.
\<close>

definition dhtJoin_bootstrap :: "Gossiper \<Rightarrow> NodeState" where
  "dhtJoin_bootstrap g = \<lparr>ns_NodeID = replicate 64 0, ns_Address = g_dhtBootstrap g\<rparr>"

definition dhtJoin_lookups :: "(nat \<Rightarrow> TypeID) \<Rightarrow> TypeID \<Rightarrow> TypeID outcome list" where
  "dhtJoin_lookups rnd dhtMyID = Inr dhtMyID # map (\<lambda>i. RandNodeID (rnd i) dhtMyID i) [0..<IDByteSize * 8]"

text \<open>\<open>closest\<close> is the result of \<open>LookupNodes\<close>; only its first node is asked to store.\<close>

definition StoreInDHT :: "uint64 \<Rightarrow> NodeState list \<Rightarrow> TypeID \<Rightarrow> bytes \<Rightarrow> string \<Rightarrow> 'db DhtNode \<Rightarrow> dht_action list" where
  "StoreInDHT nonce closest key data storeType node =
     (case closest of [] \<Rightarrow> [] | ns # _ \<Rightarrow> sendStore nonce ns key data storeType node)"

datatype client_dht = ClientLookupNode TypeID | ClientSearch string | ClientStore TypeID bytes string | ClientUnknown

definition clientDHTListen :: "DHTRequest \<Rightarrow> client_dht outcome" where
  "clientDHTListen request =
     (case dr_Lookup request of
        Some lk \<Rightarrow>
          (case dl_Node lk of
             Some i \<Rightarrow> Inr (ClientLookupNode i)
           | None \<Rightarrow> (case dl_Key lk of None \<Rightarrow> Inl (Panic ''nil pointer'') | Some q \<Rightarrow> Inr (ClientSearch q)))
      | None \<Rightarrow>
          (case dr_Store request of
             Some s \<Rightarrow> (case ds_Key s of None \<Rightarrow> Inl (Panic ''nil pointer'') | Some k \<Rightarrow> Inr (ClientStore k (ds_Value s) (ds_Type s)))
           | None \<Rightarrow> Inr ClientUnknown))"


section \<open>Shapes of messages\<close>

definition kinds :: "Message \<Rightarrow> bool list" where
  "kinds m = [msg_Store m \<noteq> None, msg_Ping m \<noteq> None, msg_PingReply m \<noteq> None, msg_NodeLookup m \<noteq> None,
     msg_NodeReply m \<noteq> None, msg_ValueLookup m \<noteq> None, msg_ValueReply m \<noteq> None]"

text \<open>A well-formed packet is a DHT packet whose message is of exactly one kind, from this node.\<close>

definition dht_wf :: "TypeID \<Rightarrow> GossipPacket \<Rightarrow> bool" where
  "dht_wf my p = (case gp_DHTMessage p of
      None \<Rightarrow> False
    | Some m \<Rightarrow> p = dht_packet m \<and> length (filter id (kinds m)) = 1 \<and> msg_SenderID m = my)"

definition sent :: "dht_action list outcome \<Rightarrow> GossipPacket list" where
  "sent r = (case r of Inl _ \<Rightarrow> [] | Inr acts \<Rightarrow> List.map_filter (\<lambda>a. case a of DhtSend p _ \<Rightarrow> Some p | _ \<Rightarrow> None) acts)"

named_theorems message_defs \<open>the constructors of DHT messages\<close>

lemmas [message_defs] = newDHTStore_def newDHTPing_def newDHTPingReply_def newDHTNodeLookup_def newDHTNodeReply_def
  newDHTValueLookup_def newDHTValueReplyData_def newDHTValueReplyNodes_def emptyMessage_def

lemma dht_packet_wf: "dht_wf my (dht_packet m) \<longleftrightarrow> length (filter id (kinds m)) = 1 \<and> msg_SenderID m = my"
  by (simp add: dht_wf_def dht_packet_def)

lemma sent_simps [simp]:
  "sent (Inl e) = []" "sent (Inr []) = []" "sent (Inr (DhtSend p a # acts)) = p # sent (Inr acts)"
  "sent (Inr (DhtDeliver c m # acts)) = sent (Inr acts)" "sent (Inr (DhtRank u # acts)) = sent (Inr acts)"
  by (simp_all add: sent_def List.map_filter_simps)

lemma sent_ranks [simp]: "sent (Inr (map DhtRank us)) = []"
  by (induction us) simp_all

lemma send_rpc_sent:
  "send_rpc msg ns node = Inr (node', c, acts) \<Longrightarrow> acts = [DhtSend (dht_packet msg) (ns_Address ns)]"
  by (auto simp: send_rpc_def Let_def split: prod.splits if_splits)

section \<open>Decryption\<close>

lemma decrypt_loop_last:
  "decrypt_loop gopen cipher sessions (Suc n) = obind (aes_New (dhs_Key (last sessions))) (\<lambda>k. Decrypt gopen k cipher)"
proof (induction n)
  case 0
  show ?case
  proof (cases "aes_New (dhs_Key (last sessions))")
    case (Inr k)
    then show ?thesis by (cases "Decrypt gopen k cipher") (auto split: option.split)
  qed simp
next
  case (Suc n)
  then show ?case
  proof (cases "aes_New (dhs_Key (last sessions))")
    case (Inr k)
    then show ?thesis using Suc
      by (cases "Decrypt gopen k cipher") (auto simp del: decrypt_loop.simps simp: decrypt_loop.simps(2) [of _ _ _ "Suc n"] split: option.split)
  qed simp
qed

lemma decrypt_from_last:
  assumes "gm_load (ks_activeIngoing ks) sender = Some sessions" "sessions \<noteq> []"
    and "length (dhs_Key (last sessions)) \<in> {16, 24, 32}" "Decrypt (de_gopen env) (dhs_Key (last sessions)) cipher = Inr r"
  shows "decrypt_from env now sender cipher ks = Inr (Some r, if r = None then ks
      else ks\<lparr>ks_activeIngoing := gm_store sender (touch_last now sessions) (ks_activeIngoing ks)\<rparr>)"
proof -
  obtain n where n: "length sessions = Suc n" using assms(2) by (cases sessions) auto
  have "decrypt_loop (de_gopen env) cipher sessions (length sessions) = Inr r"
    unfolding n decrypt_loop_last using assms(3,4) by (simp add: aes_New_def)
  then show ?thesis using assms(1) by (simp add: decrypt_from_def)
qed

lemma Decrypt_Encrypt:
  assumes "\<forall>k n p. gopen k n (gseal k n p) = Some p" "length iv = 12"
  shows "Decrypt gopen key (Encrypt gseal iv key plaintext) = Inr (Some plaintext)"
  using assms by (simp add: Decrypt_def Encrypt_def)

lemma copy_id_id: "length i = 64 \<Longrightarrow> copy_id i = i"
  by (simp add: copy_id_def)

section \<open>A message on its way\<close>

lemma GetSenderAddress_dht [simp]: "GetSenderAddress \<lparr>pap_Packet = dht_packet m, pap_SenderAddress = a\<rparr> = a"
  by (simp add: GetSenderAddress_def subtype_of_def dht_packet_def emptyPacket_def)

lemma gp_dht_packet [simp]: "gp_DHTMessage (dht_packet m) = Some m"
  by (simp add: dht_packet_def)

text \<open>The dispatcher first records the sender.\<close>

definition sees :: "(NodeState \<Rightarrow> bool) \<Rightarrow> TypeID \<Rightarrow> address \<Rightarrow> 'db DhtNode \<Rightarrow> 'db DhtNode" where
  "sees ping i a node = node\<lparr>dn_g := (dn_g node)\<lparr>g_bucketTable :=
     fst (bt_updateNode ping \<lparr>ns_NodeID = i, ns_Address = a\<rparr> (g_bucketTable (dn_g node)))\<rparr>\<rparr>"

lemma dht_handle_packet:
  "dht_handle env now ping \<lparr>pap_Packet = dht_packet m, pap_SenderAddress = a\<rparr> node =
     (case Message_GetUnderlyingType m of
        PingT \<Rightarrow> run_goroutine env now (GoReplyPing a m) (sees ping (msg_SenderID m) a node)
      | NodeLookupT \<Rightarrow> run_goroutine env now (GoReplyLookupNode a m) (sees ping (msg_SenderID m) a node)
      | ValueLookupT \<Rightarrow> run_goroutine env now (GoReplyLookupKey a m) (sees ping (msg_SenderID m) a node)
      | StoreT \<Rightarrow> run_goroutine env now
          (if map_option st_Encrypted (msg_Store m) = Some True then GoDecryptStore m else GoReplyStore m)
          (sees ping (msg_SenderID m) a node)
      | NoMessageT \<Rightarrow> Inr (sees ping (msg_SenderID m) a node, [])
      | _ \<Rightarrow> run_goroutine env now (GoInformListener m) (sees ping (msg_SenderID m) a node))"
  unfolding dht_handle_def dhtMessageListen_def Let_def sees_def
  by (simp only: PacketAddressPair.simps gp_dht_packet option.case obind_simps GetSenderAddress_dht prod.case
      split: MessageType.split) (auto simp del: run_goroutine.simps)

lemma sees_simps [simp]:
  "dn_keys (sees ping i a node) = dn_keys node" "dn_db (sees ping i a node) = dn_db node"
  "g_dhtMyID (dn_g (sees ping i a node)) = g_dhtMyID (dn_g node)"
  "g_dhtChanMap (dn_g (sees ping i a node)) = g_dhtChanMap (dn_g node)"
  by (simp_all add: sees_def)


section \<open>Request and reply\<close>

lemma send_rpc_result:
  assumes "gm_load (cm_NonceMessageMap (g_dhtChanMap (dn_g node))) (msg_Nonce msg) = None"
  shows "\<exists>node'. send_rpc msg ns node = Inr (node', g_nextChan (dn_g node), [DhtSend (dht_packet msg) (ns_Address ns)])
    \<and> gm_load (cm_NonceMessageMap (g_dhtChanMap (dn_g node'))) (msg_Nonce msg) = Some (g_nextChan (dn_g node))
    \<and> g_dhtMyID (dn_g node') = g_dhtMyID (dn_g node)"
  using cm.add_result [of "g_nextChan (dn_g node)" "msg_Nonce msg" "g_dhtChanMap (dn_g node)"]
    cm.add_waiting [of "g_nextChan (dn_g node)" "msg_Nonce msg" "g_dhtChanMap (dn_g node)" "msg_Nonce msg"] assms
  by (auto simp: send_rpc_def Let_def split: prod.splits)

lemma send_rpc_in_use:
  assumes "gm_load (cm_NonceMessageMap (g_dhtChanMap (dn_g node))) (msg_Nonce msg) = Some c"
  shows "send_rpc msg ns node = Inl (Panic ''Something went very wrong'')"
  using cm.add_result [of "g_nextChan (dn_g node)" "msg_Nonce msg" "g_dhtChanMap (dn_g node)"] assms
  by (auto simp: send_rpc_def Let_def split: prod.splits)

text \<open>A reply is handed to the channel that waits for its nonce, which is then forgotten.\<close>

lemma reply_delivered:
  assumes "Message_GetUnderlyingType m \<in> {PingReplyT, NodeReplyT, ValueReplyT}"
    and "gm_load (cm_NonceMessageMap (g_dhtChanMap (dn_g node))) (msg_Nonce m) = Some c"
  shows "\<exists>node'. dht_handle env now ping \<lparr>pap_Packet = dht_packet m, pap_SenderAddress = a\<rparr> node = Inr (node', [DhtDeliver c m])
    \<and> gm_load (cm_NonceMessageMap (g_dhtChanMap (dn_g node'))) (msg_Nonce m) = None"
  using assms cm.inform_result [of "msg_Nonce m" "g_dhtChanMap (dn_g node)"]
    cm.inform_waiting [of "msg_Nonce m" "g_dhtChanMap (dn_g node)" "msg_Nonce m"]
  by (auto simp: dht_handle_packet Let_def split: prod.splits)

lemma reply_ignored:
  assumes "Message_GetUnderlyingType m \<in> {PingReplyT, NodeReplyT, ValueReplyT}"
    and "gm_load (cm_NonceMessageMap (g_dhtChanMap (dn_g node))) (msg_Nonce m) = None"
  shows "\<exists>node'. dht_handle env now ping \<lparr>pap_Packet = dht_packet m, pap_SenderAddress = a\<rparr> node = Inr (node', [])"
  using assms cm.inform_result [of "msg_Nonce m" "g_dhtChanMap (dn_g node)"]
  by (auto simp: dht_handle_packet Let_def split: prod.splits)

lemma message_types [simp]:
  "Message_GetUnderlyingType (newDHTPing n g) = PingT" "Message_GetUnderlyingType (newDHTPingReply n g) = PingReplyT"
  "Message_GetUnderlyingType (newDHTNodeLookup n i g) = NodeLookupT" "Message_GetUnderlyingType (newDHTNodeReply ns n g) = NodeReplyT"
  "Message_GetUnderlyingType (newDHTValueReplyData d n e g) = ValueReplyT"
  "Message_GetUnderlyingType (newDHTValueReplyNodes ns n g) = ValueReplyT"
  "Message_GetUnderlyingType (newDHTStore n k d t e g) = StoreT"
  "Message_GetUnderlyingType (newDHTValueLookup n k b e g) = ValueLookupT"
  "msg_SenderID (newDHTValueLookup n k b e g\<lparr>msg_ValueLookup := Some vl\<rparr>) = g_dhtMyID g"
  "msg_Nonce (newDHTValueLookup n k b e g\<lparr>msg_ValueLookup := Some vl\<rparr>) = n"
  "Message_GetUnderlyingType (newDHTValueLookup n k b e g\<lparr>msg_ValueLookup := Some vl\<rparr>) = ValueLookupT"
  by (simp_all add: message_defs Message_GetUnderlyingType_def)

lemma message_fields [simp]:
  "msg_Nonce (newDHTPing n g) = n" "msg_Nonce (newDHTPingReply n g) = n" "msg_Nonce (newDHTNodeLookup n i g) = n"
  "msg_Nonce (newDHTNodeReply ns n g) = n" "msg_Nonce (newDHTValueReplyData d n e g) = n"
  "msg_Nonce (newDHTValueReplyNodes ns n g) = n" "msg_Nonce (newDHTValueLookup n k b e g) = n"
  "msg_SenderID (newDHTPing n g) = g_dhtMyID g" "msg_SenderID (newDHTPingReply n g) = g_dhtMyID g"
  "msg_SenderID (newDHTNodeLookup n i g) = g_dhtMyID g" "msg_SenderID (newDHTNodeReply ns n g) = g_dhtMyID g"
  "msg_SenderID (newDHTValueLookup n k b e g) = g_dhtMyID g" "msg_SenderID (newDHTStore n k d t e g) = g_dhtMyID g"
  "msg_NodeLookup (newDHTNodeLookup n i g) = Some i" "msg_NodeReply (newDHTNodeReply ns n g) = Some ns"
  "msg_ValueReply (newDHTValueReplyData d n e g) = Some \<lparr>vr_NodeStates = None, vr_Data = Some d, vr_Encrypted = e\<rparr>"
  "msg_ValueReply (newDHTValueReplyNodes ns n g) = Some \<lparr>vr_NodeStates = Some ns, vr_Data = None, vr_Encrypted = False\<rparr>"
  "msg_Store (newDHTStore n k d t e g) = Some \<lparr>st_Key = k, st_Type = t, st_Data = d, st_Encrypted = e\<rparr>"
  by (simp_all add: message_defs)


lemma kinds_new [simp]:
  "length (filter id (kinds (newDHTPing n g))) = 1" "length (filter id (kinds (newDHTPingReply n g))) = 1"
  "length (filter id (kinds (newDHTNodeLookup n i g))) = 1" "length (filter id (kinds (newDHTNodeReply ns n g))) = 1"
  "length (filter id (kinds (newDHTValueReplyData d n e g))) = 1" "length (filter id (kinds (newDHTValueReplyNodes ns n g))) = 1"
  "length (filter id (kinds (newDHTStore n key d t e g))) = 1"
  "length (filter id (kinds ((newDHTValueLookup n key b e g)\<lparr>msg_ValueLookup := Some vl\<rparr>))) = 1"
  by (simp_all add: message_defs kinds_def)

lemma message_senders [simp]:
  "msg_SenderID (newDHTNodeReply ns n g) = g_dhtMyID g" "msg_SenderID (newDHTValueReplyData d n e g) = g_dhtMyID g"
  "msg_SenderID (newDHTValueReplyNodes ns n g) = g_dhtMyID g"
  by (simp_all add: message_defs)

lemma run_store_sent [simp]: "sent (map_sum id snd (run_store env st node)) = []"
  by (cases "replyStore (de_bolt env) (de_sha512 env) (de_codec env) st (dn_db node)") (auto simp: run_store_def)

lemma answer_lookup_wf:
  "answer_lookup env key vl nonce node = Inr m \<Longrightarrow> dht_wf (g_dhtMyID (dn_g node)) (dht_packet m)"
  by (auto simp: answer_lookup_def obind_Inr_iff dht_packet_wf split: option.splits)

lemma replyLookupKey_wf:
  "list_all (dht_wf (g_dhtMyID (dn_g node))) (sent (map_sum id snd (replyLookupKey env now a m node)))"
proof (cases "replyLookupKey env now a m node")
  case (Inr r)
  obtain node' acts where r: "r = (node', acts)" by (cases r)
  have "acts = [] \<or> (\<exists>key vl ks msg. answer_lookup env key vl (msg_Nonce m) (node\<lparr>dn_keys := ks\<rparr>) = Inr msg
      \<and> acts = [DhtSend (dht_packet msg) a])"
    using Inr r by (fastforce simp: replyLookupKey_def Let_def obind_Inr_iff split: option.splits)
  then show ?thesis using Inr r answer_lookup_wf by fastforce
qed simp

lemma run_goroutine_wf:
  "list_all (dht_wf (g_dhtMyID (dn_g node))) (sent (map_sum id snd (run_goroutine env now go node)))"
proof (cases go)
  case (GoReplyLookupKey a m)
  then show ?thesis using replyLookupKey_wf by simp
next
  case (GoDecryptStore m)
  then show ?thesis
    by (cases "msg_Store m"; cases "decrypt_from env now (msg_SenderID m) (st_Data (the (msg_Store m))) (dn_keys node)")
      (auto simp: Let_def split: option.split)
next
  case (GoReplyStore m)
  then show ?thesis by (simp split: option.split)
next
  case (GoInformListener m)
  then show ?thesis by (simp add: Let_def split: prod.split option.split)
next
  case (GoReplyLookupNode a m)
  then show ?thesis by (simp add: replyLookupNode_def Let_def dht_packet_wf split: option.split)
qed (simp add: replyPing_def dht_packet_wf)

lemma dht_handle_wf:
  "list_all (dht_wf (g_dhtMyID (dn_g node))) (sent (map_sum id snd (dht_handle env now ping pap node)))"
proof (cases "dhtMessageListen ping pap node")
  case (Inr r)
  obtain node' gos where r: "r = (node', gos)" by (cases r)
  have "g_dhtMyID (dn_g node') = g_dhtMyID (dn_g node)"
    using Inr r by (auto simp: dhtMessageListen_def Let_def split: option.splits)
  then show ?thesis using Inr r run_goroutine_wf [of node' env now] by (cases gos) (simp_all add: dht_handle_def)
qed (simp add: dht_handle_def)

lemma send_rpc_wf:
  assumes "length (filter id (kinds msg)) = 1" "msg_SenderID msg = g_dhtMyID (dn_g node)"
  shows "list_all (dht_wf (g_dhtMyID (dn_g node))) (sent (map_sum id (snd \<circ> snd) (send_rpc msg ns node)))"
  using assms send_rpc_sent [of msg ns node] by (cases "send_rpc msg ns node") (auto simp: dht_packet_wf)

section \<open>Properties\<close>

text \<open>Node A's packet \<open>p\<close> travels to B, and B's answer, if it sends one, back to A.\<close>

definition exchange :: "'a dht_env \<Rightarrow> 'b dht_env \<Rightarrow> time \<Rightarrow> (NodeState \<Rightarrow> bool) \<Rightarrow> (NodeState \<Rightarrow> bool) \<Rightarrow> address \<Rightarrow> address
    \<Rightarrow> GossipPacket \<Rightarrow> 'a DhtNode \<Rightarrow> 'b DhtNode \<Rightarrow> ('a DhtNode \<times> 'b DhtNode \<times> dht_action list) outcome" where
  "exchange envA envB now pingA pingB addrA addrB p A B =
     obind (dht_handle envB now pingB \<lparr>pap_Packet = p, pap_SenderAddress = addrA\<rparr> B) (\<lambda>(B, acts).
       case acts of
         [DhtSend q _] \<Rightarrow> obind (dht_handle envA now pingA \<lparr>pap_Packet = q, pap_SenderAddress = addrB\<rparr> A) (\<lambda>(A, acts). Inr (A, B, acts))
       | _ \<Rightarrow> Inr (A, B, []))"

abbreviation waits :: "'db DhtNode \<Rightarrow> uint64 \<Rightarrow> chan option" where
  "waits node nonce \<equiv> gm_load (cm_NonceMessageMap (g_dhtChanMap (dn_g node))) nonce"

lemma waits_sees [simp]: "waits (sees ping i a node) nonce = waits node nonce"
  by simp

lemma exchange_reply:
  assumes "dht_handle envB now pingB \<lparr>pap_Packet = p, pap_SenderAddress = addrA\<rparr> B = Inr (B', [DhtSend (dht_packet m) addrA])"
    and "Message_GetUnderlyingType m \<in> {PingReplyT, NodeReplyT, ValueReplyT}" "waits A (msg_Nonce m) = Some c"
  shows "\<exists>A'. exchange envA envB now pingA pingB addrA addrB p A B = Inr (A', B', [DhtDeliver c m]) \<and> waits A' (msg_Nonce m) = None"
  using reply_delivered [OF assms(2,3), of envA now pingA addrB] assms(1) by (auto simp: exchange_def)

lemma replyLookupKey_result:
  assumes "msg_ValueLookup m = Some vl" "lookup_key env now (msg_SenderID m) vl (dn_keys node) = Inr (Some key, ks)"
    and "Retrieve (de_bolt env) (bc_Keywords (de_codec env)) (dn_db node) key (vl_DbBucket vl) = Inr r"
  shows "replyLookupKey env now a m node = Inr (node\<lparr>dn_keys := ks\<rparr>, [DhtSend (dht_packet
    (case r of Some data \<Rightarrow> newDHTValueReplyData data (msg_Nonce m) (vl_Encrypted vl) (dn_g node)
     | None \<Rightarrow> newDHTValueReplyNodes (alphaClosest (vl_Key vl) bucketSize (g_bucketTable (dn_g node))) (msg_Nonce m) (dn_g node))) a])"
  using assms by (cases r) (simp_all add: replyLookupKey_def answer_lookup_def Let_def)

text \<open>C21: a lookup of nodes between two nodes works end to end: the asking node gets, on the channel it
  waits on, the 20 candidates the asked node knows after it has noted the asking one, and the
  nonce is forgotten, so a second answer is not delivered.\<close>

theorem node_lookup_rpc:
  assumes "waits A nonce = None"
  shows "\<exists>A1 A2 B' c p m. sendLookupNode nonce \<lparr>ns_NodeID = i, ns_Address = addrB\<rparr> target A = Inr (A1, c, [DhtSend p addrB])
    \<and> exchange envA envB now pingA pingB addrA addrB p A1 B = Inr (A2, B', [DhtDeliver c m])
    \<and> B' = sees pingB (g_dhtMyID (dn_g A)) addrA B
    \<and> msg_NodeReply m = Some (alphaClosest target bucketSize (g_bucketTable (dn_g B')))
    \<and> waits A2 nonce = None"
proof -
  let ?req = "newDHTNodeLookup nonce target (dn_g A)"
  let ?B' = "sees pingB (g_dhtMyID (dn_g A)) addrA B"
  let ?rep = "newDHTNodeReply (alphaClosest target bucketSize (g_bucketTable (dn_g ?B'))) nonce (dn_g ?B')"
  obtain A1 where A1: "send_rpc ?req \<lparr>ns_NodeID = i, ns_Address = addrB\<rparr> A
      = Inr (A1, g_nextChan (dn_g A), [DhtSend (dht_packet ?req) addrB])" "waits A1 nonce = Some (g_nextChan (dn_g A))"
    using send_rpc_result [of A ?req "\<lparr>ns_NodeID = i, ns_Address = addrB\<rparr>"] assms by auto
  have h: "dht_handle envB now pingB \<lparr>pap_Packet = dht_packet ?req, pap_SenderAddress = addrA\<rparr> B
      = Inr (?B', [DhtSend (dht_packet ?rep) addrA])"
    by (simp add: dht_handle_packet replyLookupNode_def Let_def)
  have t: "Message_GetUnderlyingType ?rep \<in> {PingReplyT, NodeReplyT, ValueReplyT}" by simp
  have n: "msg_Nonce ?rep = nonce" by simp
  have w: "waits A1 (msg_Nonce ?rep) = Some (g_nextChan (dn_g A))" using A1(2) n by simp
  obtain A2 where e:
    "exchange envA envB now pingA pingB addrA addrB (dht_packet ?req) A1 B = Inr (A2, ?B', [DhtDeliver (g_nextChan (dn_g A)) ?rep])"
    "waits A2 nonce = None" using exchange_reply [OF h t w] unfolding n by blast
  show ?thesis unfolding sendLookupNode_def
    by (intro exI conjI) (rule A1(1) e refl message_fields)+
qed

definition example_dht_env :: "mem_db dht_env" where
  "example_dht_env = \<lparr>de_bolt = mem_bolt, de_sha512 = id, de_codec = example_store_codec,
     de_gseal = (\<lambda>k n p. p), de_gopen = (\<lambda>k n c. Some c)\<rparr>"

definition example_dht :: "byte \<Rightarrow> bool \<Rightarrow> mem_db DhtNode" where
  "example_dht b e = \<lparr>dn_g = example_peer b, dn_keys = emptyKeyState\<lparr>ks_activeIngoing :=
       [(replicate 64 1, [NewDiffieHellmanSession (replicate 32 7) 100])]\<rparr>,
     dn_db = [(PageHashBucket, 0, [(replicate 64 3, [9])])], dn_encryptDHTOperations = e\<rparr>"

lemma example_dht_env_simps [simp]:
  "de_bolt example_dht_env = mem_bolt" "de_sha512 example_dht_env = id" "de_codec example_dht_env = example_store_codec"
  by (simp_all add: example_dht_env_def)

lemma example_dht_simps [simp]:
  "waits (example_dht b e) n = None" "g_dhtMyID (dn_g (example_dht b e)) = replicate 64 b"
  "dn_encryptDHTOperations (example_dht b e) = e"
  "gm_load (ks_activeIngoing (dn_keys (example_dht b e))) (replicate 64 1) = Some [NewDiffieHellmanSession (replicate 32 7) 100]"
  "Retrieve mem_bolt kc (dn_db (example_dht b e)) (replicate 64 3) PageHashBucket = Inr (Some [9])"
  by (simp_all add: example_dht_def example_peer_def NewGossiper_def NewChanMap_def gm_load_def Retrieve_def bucket_Get_def
      mem_bolt_def bucket_names)

theorem node_lookup_rpc_witness:
  "\<exists>A1 c p. sendLookupNode 5 \<lparr>ns_NodeID = replicate 64 2, ns_Address = ''b''\<rparr> (replicate 64 9) (example_dht 1 False)
      = Inr (A1, c, [DhtSend p ''b''])
    \<and> (\<exists>A2 B' m. exchange example_dht_env example_dht_env 0 (\<lambda>_. True) (\<lambda>_. True) ''a'' ''b'' p A1 (example_dht 2 False)
      = Inr (A2, B', [DhtDeliver c m]))"
proof -
  obtain A1 c p A2 B' m where
    "sendLookupNode 5 \<lparr>ns_NodeID = replicate 64 2, ns_Address = ''b''\<rparr> (replicate 64 9) (example_dht 1 False)
       = Inr (A1, c, [DhtSend p ''b''])"
    "exchange example_dht_env example_dht_env 0 (\<lambda>_. True) (\<lambda>_. True) ''a'' ''b'' p A1 (example_dht 2 False)
      = Inr (A2, B', [DhtDeliver c m])"
    using node_lookup_rpc [OF example_dht_simps(1) [of 1 False 5]] by metis
  then show ?thesis by blast
qed

text \<open>C20: a lookup of a value between two nodes works end to end, with or without encryption: the asking
  node gets the answer of the other node's \<open>Retrieve\<close> for the key (the stored data; a keyword entry
  that is too large for a packet is cut), or else, when nothing is stored, the at most 20 candidates
  that \<open>alphaClosest\<close> picks from its bucket table, which are not always the closest it knows.  With
  encryption, the last session the asked node keeps for the asking one must have the key that was used.\<close>

theorem value_lookup_rpc:
  assumes "waits A nonce = None" "length key = 64"
    and "Retrieve (de_bolt envB) (bc_Keywords (de_codec envB)) (dn_db B) key bucket = Inr r"
    and "dn_encryptDHTOperations A \<Longrightarrow> \<exists>K sessions. k = Some (Some K) \<and> length K \<in> {16, 24, 32}
      \<and> gm_load (ks_activeIngoing (dn_keys B)) (g_dhtMyID (dn_g A)) = Some sessions \<and> sessions \<noteq> []
      \<and> dhs_Key (last sessions) = K"
    and "\<forall>k n p. de_gopen envB k n (de_gseal envA k n p) = Some p" "length iv = 12"
  shows "\<exists>A1 A2 B' c p m reply.
      sendLookupKey envA nonce iv k \<lparr>ns_NodeID = i, ns_Address = addrB\<rparr> key bucket (dn_encryptDHTOperations A) A
        = Inr (A1, c, [DhtSend p addrB])
    \<and> exchange envA envB now pingA pingB addrA addrB p A1 B = Inr (A2, B', [DhtDeliver c m])
    \<and> msg_ValueReply m = Some reply
    \<and> (case r of Some data \<Rightarrow> vr_Data reply = Some data
        | None \<Rightarrow> vr_Data reply = None \<and> vr_NodeStates reply = Some (alphaClosest key bucketSize (g_bucketTable (dn_g B'))))"
proof -
  let ?B' = "sees pingB (g_dhtMyID (dn_g A)) addrA B"
  let ?enc = "dn_encryptDHTOperations A"
  let ?vl = "\<lparr>vl_Key = key, vl_DbKey = '''', vl_DbBucket = bucket, vl_Encrypted = ?enc,
      vl_EncryptedKey = if ?enc then Encrypt (de_gseal envA) iv (the (the k)) key else []\<rparr>"
  let ?req = "(newDHTValueLookup nonce key bucket ?enc (dn_g A))\<lparr>msg_ValueLookup := Some ?vl\<rparr>"
  obtain A1 where A1: "send_rpc ?req \<lparr>ns_NodeID = i, ns_Address = addrB\<rparr> A
      = Inr (A1, g_nextChan (dn_g A), [DhtSend (dht_packet ?req) addrB])" "waits A1 nonce = Some (g_nextChan (dn_g A))"
    using send_rpc_result [of A ?req "\<lparr>ns_NodeID = i, ns_Address = addrB\<rparr>"] assms(1) by (auto simp: newDHTValueLookup_def emptyMessage_def)
  have s: "sendLookupKey envA nonce iv k \<lparr>ns_NodeID = i, ns_Address = addrB\<rparr> key bucket ?enc A
      = Inr (A1, g_nextChan (dn_g A), [DhtSend (dht_packet ?req) addrB])"
    using A1(1) assms(4) by (cases ?enc) (auto simp: sendLookupKey_def newDHTValueLookup_def emptyMessage_def Let_def aes_New_def)
  have "\<exists>ks. lookup_key envB now (g_dhtMyID (dn_g A)) ?vl (dn_keys B) = Inr (Some key, ks)"
  proof (cases ?enc)
    case True
    obtain K sessions where K: "k = Some (Some K)" "length K \<in> {16, 24, 32}"
      "gm_load (ks_activeIngoing (dn_keys B)) (g_dhtMyID (dn_g A)) = Some sessions" "sessions \<noteq> []" "dhs_Key (last sessions) = K"
      using assms(4) True by auto
    have "Decrypt (de_gopen envB) (dhs_Key (last sessions)) (vl_EncryptedKey ?vl) = Inr (Some key)"
      using Decrypt_Encrypt [where gopen = "de_gopen envB" and gseal = "de_gseal envA", OF assms(5,6)] K True by simp
    note d = decrypt_from_last [OF K(3,4) K(2) [folded K(5)] this]
    show ?thesis unfolding lookup_key_def d using True by (simp add: copy_id_id assms(2))
  qed (simp add: lookup_key_def)
  then obtain ks where ks: "lookup_key envB now (g_dhtMyID (dn_g A)) ?vl (dn_keys B) = Inr (Some key, ks)" by blast
  let ?B2 = "?B'\<lparr>dn_keys := ks\<rparr>"
  let ?rep = "case r of Some data \<Rightarrow> newDHTValueReplyData data nonce ?enc (dn_g ?B2)
      | None \<Rightarrow> newDHTValueReplyNodes (alphaClosest key bucketSize (g_bucketTable (dn_g ?B2))) nonce (dn_g ?B2)"
  have h: "dht_handle envB now pingB \<lparr>pap_Packet = dht_packet ?req, pap_SenderAddress = addrA\<rparr> B
      = Inr (?B2, [DhtSend (dht_packet ?rep) addrA])"
    using replyLookupKey_result [of ?req ?vl envB now ?B' key ks r addrA] assms(3) ks
    by (cases r) (simp_all add: dht_handle_packet)
  have t: "Message_GetUnderlyingType ?rep \<in> {PingReplyT, NodeReplyT, ValueReplyT}" by (simp split: option.split)
  have n: "msg_Nonce ?rep = nonce" by (simp split: option.split)
  have w: "waits A1 (msg_Nonce ?rep) = Some (g_nextChan (dn_g A))" unfolding n by (rule A1(2))
  obtain A2 where
    "exchange envA envB now pingA pingB addrA addrB (dht_packet ?req) A1 B = Inr (A2, ?B2, [DhtDeliver (g_nextChan (dn_g A)) ?rep])"
    using exchange_reply [OF h t w] by blast
  moreover obtain reply where "msg_ValueReply ?rep = Some reply" "case r of Some data \<Rightarrow> vr_Data reply = Some data
        | None \<Rightarrow> vr_Data reply = None \<and> vr_NodeStates reply = Some (alphaClosest key bucketSize (g_bucketTable (dn_g ?B2)))"
    by (cases r) simp_all
  ultimately show ?thesis using s by blast
qed


theorem value_lookup_rpc_witness:
  "\<exists>A1 A2 B' c p m reply.
      sendLookupKey example_dht_env 5 (replicate 12 0) (Some (Some (replicate 32 7))) \<lparr>ns_NodeID = replicate 64 2, ns_Address = ''b''\<rparr>
        (replicate 64 3) PageHashBucket True (example_dht 1 True) = Inr (A1, c, [DhtSend p ''b''])
    \<and> exchange example_dht_env example_dht_env 0 (\<lambda>_. True) (\<lambda>_. True) ''a'' ''b'' p A1 (example_dht 2 True)
        = Inr (A2, B', [DhtDeliver c m])
    \<and> msg_ValueReply m = Some reply \<and> vr_Data reply = Some [9]"
proof -
  have r: "Retrieve (de_bolt example_dht_env) (bc_Keywords (de_codec example_dht_env)) (dn_db (example_dht 2 True))
      (replicate 64 3) PageHashBucket = Inr (Some [9])" by (simp add: example_dht_env_def)
  have e: "\<exists>K sessions. Some (Some (replicate 32 7)) = Some (Some K) \<and> length K \<in> {16, 24, 32}
      \<and> gm_load (ks_activeIngoing (dn_keys (example_dht 2 True))) (g_dhtMyID (dn_g (example_dht 1 True))) = Some sessions
      \<and> sessions \<noteq> [] \<and> dhs_Key (last sessions) = K" by (simp add: NewDiffieHellmanSession_def)
  have g: "\<forall>k n p. de_gopen example_dht_env k n (de_gseal example_dht_env k n p) = Some p" by (simp add: example_dht_env_def)
  show ?thesis
    using value_lookup_rpc [where iv = "replicate 12 0" and nonce = 5 and i = "replicate 64 2" and addrB = "''b''"
        and addrA = "''a''" and now = 0 and pingA = "\<lambda>_. True" and pingB = "\<lambda>_. True",
        OF example_dht_simps(1) length_replicate r e g length_replicate] by simp
qed

text \<open>Encrypting a lookup hides nothing: every lookup of a value carries the key it looks for in plain,
  also when its encryption is sent beside it.\<close>

theorem encrypted_lookup_leaks_key:
  assumes "sendLookupKey env nonce iv k ns key bucket e node = Inr (node', c, acts)"
  shows "\<exists>m vl. acts = [DhtSend (dht_packet m) (ns_Address ns)] \<and> msg_ValueLookup m = Some vl \<and> vl_Key vl = key
    \<and> (dn_encryptDHTOperations node \<longrightarrow> (case k of Some (Some K) \<Rightarrow> vl_EncryptedKey vl = Encrypt (de_gseal env) iv K key
         | _ \<Rightarrow> \<not> vl_Encrypted vl))"
  using assms
  by (auto simp: sendLookupKey_def Let_def obind_Inr_iff newDHTValueLookup_def aes_New_def dest!: send_rpc_sent
      split: if_splits option.splits)

theorem encrypted_lookup_leaks_key_witness:
  "\<exists>(m :: Message) vl. msg_ValueLookup m = Some vl \<and> vl_Key vl = replicate 64 3 \<and> vl_EncryptedKey vl = replicate 12 0 @ replicate 64 3"
proof -
  have "\<exists>n c a. sendLookupKey example_dht_env 5 (replicate 12 0) (Some (Some (replicate 32 7))) \<lparr>ns_NodeID = [], ns_Address = ''b''\<rparr>
      (replicate 64 3) PageHashBucket True (example_dht 1 True) = Inr (n, c, a)"
    using send_rpc_result [where node = "example_dht 1 True"]
    by (fastforce simp: sendLookupKey_def aes_New_def Let_def newDHTValueLookup_def emptyMessage_def)
  then obtain n c a where "sendLookupKey example_dht_env 5 (replicate 12 0) (Some (Some (replicate 32 7)))
      \<lparr>ns_NodeID = [], ns_Address = ''b''\<rparr> (replicate 64 3) PageHashBucket True (example_dht 1 True) = Inr (n, c, a)" by blast
  from encrypted_lookup_leaks_key [OF this] show ?thesis by (auto simp: Encrypt_def example_dht_env_def)
qed

text \<open>C22: a value stored at a node is there: after the node has handled a store request for a page hash,
  plain or encrypted with the key of the last session, its database returns the value.\<close>

theorem remote_store_stores:
  assumes "bolt_laws (de_bolt envB)" "\<forall>k n p. de_gopen envB k n (de_gseal envA k n p) = Some p" "length iv = 12"
    and "k = Some K" "\<And>K'. K = Some K' \<Longrightarrow> length K' \<in> {16, 24, 32} \<and> (\<exists>sessions.
      gm_load (ks_activeIngoing (dn_keys B)) (g_dhtMyID (dn_g A)) = Some sessions \<and> sessions \<noteq> [] \<and> dhs_Key (last sessions) = K')"
    and "sendEncryptedStore envA nonce iv k \<lparr>ns_NodeID = i, ns_Address = addrB\<rparr> key data PageHashBucket A = Inr ([DhtSend p a], e)"
    and "dht_handle envB now ping \<lparr>pap_Packet = p, pap_SenderAddress = addrA\<rparr> B = Inr (B', acts)"
  shows "acts = [] \<and> Retrieve (de_bolt envB) kc (dn_db B') key PageHashBucket = Inr (Some data)"
proof -
  let ?st = "\<lambda>d e. \<lparr>st_Key = key, st_Type = PageHashBucket, st_Data = d, st_Encrypted = e\<rparr>"
  have fin: "ranks = [] \<and> Retrieve (de_bolt envB) kc db key PageHashBucket = Inr (Some data)"
    if "replyStore (de_bolt envB) (de_sha512 envB) (de_codec envB) (?st data e) (dn_db B) = Inr (db, ranks)" for db ranks e
  proof -
    have "ranks = []" using that by (auto simp: replyStore_def store_page_hash_def obind_Inr_iff bucket_names split: if_splits)
    then show ?thesis using page_hash_stored [OF assms(1) _ that, of kc] by simp
  qed
  show ?thesis
  proof (cases K)
    case None
    then have p: "p = dht_packet (newDHTStore nonce key data PageHashBucket False (dn_g A))"
      using assms(4,6) by (simp add: sendEncryptedStore_def sendStore_def)
    have "run_store envB (?st data False) (sees ping (g_dhtMyID (dn_g A)) addrA B) = Inr (B', acts)"
      using assms(7) by (simp add: p dht_handle_packet)
    then show ?thesis using fin by (auto simp: run_store_def obind_Inr_iff)
  next
    case (Some K')
    obtain sessions where s: "gm_load (ks_activeIngoing (dn_keys B)) (g_dhtMyID (dn_g A)) = Some sessions" "sessions \<noteq> []"
      "dhs_Key (last sessions) = K'" "length K' \<in> {16, 24, 32}" using assms(5) [OF Some] by blast
    let ?c = "Encrypt (de_gseal envA) iv K' data"
    have p: "p = dht_packet (newDHTStore nonce key ?c PageHashBucket True (dn_g A))"
      using assms(4,6) Some s(4) by (auto simp: sendEncryptedStore_def aes_New_def)
    have "Decrypt (de_gopen envB) (dhs_Key (last sessions)) ?c = Inr (Some data)"
      using Decrypt_Encrypt [where gopen = "de_gopen envB" and gseal = "de_gseal envA", OF assms(2,3)] s(3) by simp
    from decrypt_from_last [OF s(1,2) s(4) [folded s(3)] this]
    have "\<exists>ks. run_store envB (?st data True) (sees ping (g_dhtMyID (dn_g A)) addrA B\<lparr>dn_keys := ks\<rparr>) = Inr (B', acts)"
      using assms(7) by (auto simp: p dht_handle_packet Let_def)
    then show ?thesis using fin by (auto simp: run_store_def obind_Inr_iff)
  qed
qed


theorem remote_store_stores_witness:
  "\<exists>p a B'. sendEncryptedStore example_dht_env 5 (replicate 12 0) (Some (Some (replicate 32 7))) \<lparr>ns_NodeID = [], ns_Address = ''b''\<rparr>
      (replicate 64 4) [8] PageHashBucket (example_dht 1 True) = Inr ([DhtSend p a], True)
    \<and> dht_handle example_dht_env 0 (\<lambda>_. True) \<lparr>pap_Packet = p, pap_SenderAddress = ''a''\<rparr> (example_dht 2 True) = Inr (B', [])
    \<and> Retrieve mem_bolt example_codec (dn_db B') (replicate 64 4) PageHashBucket = Inr (Some [8])"
proof -
  let ?B = "example_dht 2 True"
  let ?m = "newDHTStore 5 (replicate 64 4) (replicate 12 0 @ [8]) PageHashBucket True (dn_g (example_dht 1 True))"
  have s: "sendEncryptedStore example_dht_env 5 (replicate 12 0) (Some (Some (replicate 32 7))) \<lparr>ns_NodeID = [], ns_Address = ''b''\<rparr>
      (replicate 64 4) [8] PageHashBucket (example_dht 1 True) = Inr ([DhtSend (dht_packet ?m) ''b''], True)"
    by (simp add: sendEncryptedStore_def aes_New_def Encrypt_def example_dht_env_def)
  have d: "decrypt_from example_dht_env 0 (replicate 64 1) (replicate 12 0 @ [8]) (dn_keys ?B)
      = Inr (Some (Some [8]), dn_keys ?B\<lparr>ks_activeIngoing := gm_store (replicate 64 1)
          (touch_last 0 [NewDiffieHellmanSession (replicate 32 7) 100]) (ks_activeIngoing (dn_keys ?B))\<rparr>)"
    using decrypt_from_last [where env = example_dht_env and r = "Some [8]" and cipher = "replicate 12 0 @ [8]",
        OF example_dht_simps(4) [of 2 True]]
    by (simp add: NewDiffieHellmanSession_def Decrypt_def example_dht_env_def)
  have "\<exists>db. replyStore mem_bolt id example_store_codec \<lparr>st_Key = replicate 64 4, st_Type = PageHashBucket, st_Data = [8], st_Encrypted = True\<rparr>
      (dn_db ?B) = Inr (db, [])"
    by (simp add: replyStore_def store_page_hash_def put_or_fatal_def bucket_Put_def mem_bolt_def gm_load_def bucket_names example_dht_def)
  then have "\<exists>B' acts. dht_handle example_dht_env 0 (\<lambda>_. True) \<lparr>pap_Packet = dht_packet ?m, pap_SenderAddress = ''a''\<rparr> ?B = Inr (B', acts)"
    by (auto simp: dht_handle_packet d run_store_def Let_def)
  then obtain B' acts where h: "dht_handle example_dht_env 0 (\<lambda>_. True) \<lparr>pap_Packet = dht_packet ?m, pap_SenderAddress = ''a''\<rparr> ?B
      = Inr (B', acts)" by blast
  have "acts = [] \<and> Retrieve (de_bolt example_dht_env) example_codec (dn_db B') (replicate 64 4) PageHashBucket = Inr (Some [8])"
  proof (rule remote_store_stores [OF _ _ _ refl _ s h])
    show "bolt_laws (de_bolt example_dht_env)" by (simp add: example_dht_env_def mem_bolt_laws)
    show "\<forall>k n p. de_gopen example_dht_env k n (de_gseal example_dht_env k n p) = Some p" by (simp add: example_dht_env_def)
  qed (auto simp: NewDiffieHellmanSession_def)
  then show ?thesis using s h by (auto simp: example_dht_env_def)
qed

text \<open>C23: every packet the hash table sends is a DHT packet with a message of exactly one kind and the
  sender's own identifier, whatever was received: this is the type the dispatcher of the receiver
  relies on.\<close>

theorem dht_packets_well_formed:
  "list_all (dht_wf (g_dhtMyID (dn_g node))) (sent (map_sum id snd (dht_handle env now ping pap node)))
   \<and> list_all (dht_wf (g_dhtMyID (dn_g node))) (sent (map_sum id (snd \<circ> snd) (sendPing_start nonce ns node)))
   \<and> list_all (dht_wf (g_dhtMyID (dn_g node))) (sent (map_sum id (snd \<circ> snd) (sendLookupNode nonce ns i node)))
   \<and> list_all (dht_wf (g_dhtMyID (dn_g node))) (sent (map_sum id (snd \<circ> snd) (sendLookupKey env nonce iv k ns key bucket e node)))
   \<and> list_all (dht_wf (g_dhtMyID (dn_g node))) (sent (map_sum id fst (sendEncryptedStore env nonce iv k ns key data t node)))"
proof (intro conjI)
  show "list_all (dht_wf (g_dhtMyID (dn_g node))) (sent (map_sum id snd (dht_handle env now ping pap node)))"
    by (rule dht_handle_wf)
  show "list_all (dht_wf (g_dhtMyID (dn_g node))) (sent (map_sum id (snd \<circ> snd) (sendPing_start nonce ns node)))"
    "list_all (dht_wf (g_dhtMyID (dn_g node))) (sent (map_sum id (snd \<circ> snd) (sendLookupNode nonce ns i node)))"
    by (simp_all add: sendPing_start_def sendLookupNode_def send_rpc_wf)
  show "list_all (dht_wf (g_dhtMyID (dn_g node))) (sent (map_sum id (snd \<circ> snd) (sendLookupKey env nonce iv k ns key bucket e node)))"
    unfolding sendLookupKey_def Let_def
    by (cases "\<forall>K. k = Some (Some K) \<longrightarrow> ok (aes_New K)") (auto simp: aes_New_def send_rpc_wf split: option.split)
  show "list_all (dht_wf (g_dhtMyID (dn_g node))) (sent (map_sum id fst (sendEncryptedStore env nonce iv k ns key data t node)))"
    by (auto simp: sendEncryptedStore_def sendStore_def aes_New_def dht_packet_wf split: option.split)
qed


text \<open>C30: joining refreshes the whole table: \<open>dhtJoin\<close> looks up the own identifier and, for each of the
  512 buckets, one identifier that falls into it.\<close>

theorem join_covers_buckets:
  assumes "wf_id my" "\<And>i. wf_id (rnd i)"
  shows "dhtJoin_lookups rnd my ! 0 = Inr my \<and> length (dhtJoin_lookups rnd my) = 1 + length (bt_Buckets (newBucketTable my))
    \<and> (\<forall>i < length (bt_Buckets (newBucketTable my)). \<exists>t. dhtJoin_lookups rnd my ! Suc i = Inr t \<and> CommonLeadingBits my t = i)"
proof -
  have "\<exists>t. RandNodeID (rnd i) my i = Inr t \<and> CommonLeadingBits my t = i" if "i < IDByteSize * 8" for i
    using RandNodeID_prefix [OF assms(2) [of i] assms(1) that] by blast
  then show ?thesis by (simp add: dhtJoin_lookups_def newBucketTable_def)
qed

theorem join_covers_buckets_witness:
  "\<exists>t. dhtJoin_lookups (\<lambda>_. replicate 64 0xAB) (replicate 64 1) ! Suc 300 = Inr t \<and> CommonLeadingBits (replicate 64 1) t = 300"
proof -
  have "wf_id (replicate 64 0xAB)" "wf_id (replicate 64 1)" by simp_all
  note j = join_covers_buckets [OF this(2,1), THEN conjunct2, THEN conjunct2, rule_format, of 300]
  show ?thesis by (rule j) (simp add: newBucketTable_def)
qed

text \<open>Only the newest session with a peer can decrypt: what was encrypted with an older key, which the
  newest key does not open, is taken for undecryptable, although the loop runs once per session.\<close>

theorem old_sessions_ignored:
  assumes "gm_load (ks_activeIngoing ks) sender = Some (sessions @ [s])" "length (dhs_Key s) \<in> {16, 24, 32}"
    and "Decrypt (de_gopen env) (dhs_Key s) cipher = Inr None"
  shows "decrypt_from env now sender cipher ks = Inr (Some None, ks)"
  using decrypt_from_last [OF assms(1), where env = env and cipher = cipher and r = None and now = now] assms(2,3) by simp

theorem old_sessions_ignored_witness:
  "\<exists>old new cipher gopen. Decrypt gopen (dhs_Key old) cipher = Inr (Some [5])
    \<and> decrypt_from (example_dht_env\<lparr>de_gopen := gopen\<rparr>) 0 [1] cipher (emptyKeyState\<lparr>ks_activeIngoing := [([1], [old, new])]\<rparr>)
      = Inr (Some None, emptyKeyState\<lparr>ks_activeIngoing := [([1], [old, new])]\<rparr>)"
proof (intro exI conjI)
  let ?gopen = "\<lambda>k n c. if k = replicate 32 1 then Some c else None"
  let ?old = "NewDiffieHellmanSession (replicate 32 1) 50" and ?new = "NewDiffieHellmanSession (replicate 32 2) 60"
  let ?ks = "emptyKeyState\<lparr>ks_activeIngoing := [([1], [?old, ?new])]\<rparr>"
  show "Decrypt ?gopen (dhs_Key ?old) (replicate 12 0 @ [5]) = Inr (Some [5])"
    by (simp add: Decrypt_def NewDiffieHellmanSession_def)
  have l: "gm_load (ks_activeIngoing ?ks) [1] = Some ([?old] @ [?new])" by (simp add: gm_load_def)
  show "decrypt_from (example_dht_env\<lparr>de_gopen := ?gopen\<rparr>) 0 [1] (replicate 12 0 @ [5]) ?ks = Inr (Some None, ?ks)"
    by (rule old_sessions_ignored [OF l]) (simp_all add: NewDiffieHellmanSession_def Decrypt_def)
qed

end
