(* ===== verification/DhtDispatch.thy ===== *)
theory DhtDispatch
  imports DhtHandlers
begin

text \<open>
  The goroutine \<open>dhtMessageListenRoutine\<close> of \<open>src/gossiper/dht.go\<close> with the other goroutines around
  it.  When the bucket of a sender is full, \<open>updateNode\<close> pings the oldest node and waits for the
  answer or the ticker inside the dispatcher.  The dispatcher is therefore either idle or waiting,
  and while it waits it accepts no message.  Goroutines it started earlier go on, and so do other
  goroutines that send requests.  A nonce is random; a fresh one is not the nonce of a reply that
  is being handled already.
\<close>

datatype dp_phase = Idle | AwaitPing uint64 chan PacketAddressPair

record 'db dispatcher =
  dp_node :: "'db DhtNode"
  dp_phase :: dp_phase
  dp_running :: "dht_goroutine list"
  dp_buffer :: "chan \<Rightarrow> Message list"

definition sender_state :: "PacketAddressPair \<Rightarrow> NodeState" where
  "sender_state pap = \<lparr>ns_NodeID = (case gp_DHTMessage (pap_Packet pap) of None \<Rightarrow> [] | Some m \<Rightarrow> msg_SenderID m),
     ns_Address = GetSenderAddress pap\<rparr>"

text \<open>The node \<open>updateNode\<close> pings: the last one of a full bucket that does not hold the sender.\<close>

definition node_to_ping :: "NodeState \<Rightarrow> bucketTable \<Rightarrow> NodeState option" where
  "node_to_ping ns bt =
     (let clb = CommonLeadingBits (bt_MyNodeID bt) (ns_NodeID ns); nodes = bt_Buckets bt ! clb
      in if clb < IDByteSize * 8 \<and> find_node (ns_NodeID ns) nodes = None \<and> length nodes \<ge> bucketSize
         then Some (nodes ! (bucketSize - 1)) else None)"

fun delivered :: "dht_action list \<Rightarrow> (chan \<Rightarrow> Message list) \<Rightarrow> chan \<Rightarrow> Message list" where
  "delivered [] buf = buf"
| "delivered (DhtDeliver c m # acts) buf = delivered acts (buf(c := buf c @ [m]))"
| "delivered (_ # acts) buf = delivered acts buf"

lemma delivered_ranks [simp]: "delivered (map DhtRank us) buf = buf"
  by (induction us) simp_all

inductive dp_step :: "'db dht_env \<Rightarrow> 'db dispatcher \<Rightarrow> 'db dispatcher \<Rightarrow> bool" for env where
  accept: "dp_phase s = Idle \<Longrightarrow> node_to_ping (sender_state pap) (g_bucketTable (dn_g (dp_node s))) = None \<Longrightarrow>
      dhtMessageListen (\<lambda>_. False) pap (dp_node s) = Inr (node, gos) \<Longrightarrow>
      dp_step env s (s\<lparr>dp_node := node, dp_running := dp_running s @ gos\<rparr>)"
| pings: "dp_phase s = Idle \<Longrightarrow> node_to_ping (sender_state pap) (g_bucketTable (dn_g (dp_node s))) = Some old \<Longrightarrow>
      sendPing_start nonce old (dp_node s) = Inr (node, c, acts) \<Longrightarrow>
      \<forall>m. GoInformListener m \<in> set (dp_running s) \<longrightarrow> msg_Nonce m \<noteq> nonce \<Longrightarrow>
      dp_step env s (s\<lparr>dp_node := node, dp_phase := AwaitPing nonce c pap\<rparr>)"
| answered: "dp_phase s = AwaitPing nonce c pap \<Longrightarrow> dp_buffer s c \<noteq> [] \<Longrightarrow>
      dhtMessageListen (\<lambda>_. snd (sendPing_reply (dp_node s))) pap (dp_node s) = Inr (node, gos) \<Longrightarrow>
      dp_step env s (s\<lparr>dp_node := node, dp_phase := Idle, dp_running := dp_running s @ gos\<rparr>)"
| times_out: "dp_phase s = AwaitPing nonce c pap \<Longrightarrow> sendPing_timeout nonce (dp_node s) = (node1, alive) \<Longrightarrow>
      dhtMessageListen (\<lambda>_. alive) pap node1 = Inr (node, gos) \<Longrightarrow>
      dp_step env s (s\<lparr>dp_node := node, dp_phase := Idle, dp_running := dp_running s @ gos\<rparr>)"
| runs: "go \<in> set (dp_running s) \<Longrightarrow> run_goroutine env now go (dp_node s) = Inr (node, acts) \<Longrightarrow>
      dp_step env s (s\<lparr>dp_node := node, dp_running := remove1 go (dp_running s), dp_buffer := delivered acts (dp_buffer s)\<rparr>)"
| asks: "send_rpc msg ns (dp_node s) = Inr (node, c, acts) \<Longrightarrow> dp_step env s (s\<lparr>dp_node := node\<rparr>)"

inductive dp_reachable :: "'db dht_env \<Rightarrow> 'db dispatcher \<Rightarrow> 'db dispatcher \<Rightarrow> bool" for env init where
  start: "dp_reachable env init init"
| step: "dp_reachable env init s \<Longrightarrow> dp_step env s s' \<Longrightarrow> dp_reachable env init s'"

section \<open>The invariant\<close>

abbreviation listeners :: "'db DhtNode \<Rightarrow> uint64 \<Rightarrow> chan option" where
  "listeners node \<equiv> gm_load (cm_NonceMessageMap (g_dhtChanMap (dn_g node)))"

text \<open>Channels are handed out once, and unused ones are empty.\<close>

definition chans_inv :: "'db DhtNode \<Rightarrow> (chan \<Rightarrow> Message list) \<Rightarrow> bool" where
  "chans_inv node buf \<longleftrightarrow>
     (\<forall>n c. listeners node n = Some c \<longrightarrow> c < g_nextChan (dn_g node))
     \<and> (\<forall>n n' c. listeners node n = Some c \<and> listeners node n' = Some c \<longrightarrow> n = n')
     \<and> (\<forall>c \<ge> g_nextChan (dn_g node). buf c = [])"

definition dp_inv :: "'db dispatcher \<Rightarrow> bool" where
  "dp_inv s \<longleftrightarrow> chans_inv (dp_node s) (dp_buffer s)
     \<and> (\<forall>nonce c pap. dp_phase s = AwaitPing nonce c pap \<longrightarrow> dp_buffer s c = [] \<and> listeners (dp_node s) nonce = Some c
          \<and> (\<forall>m. GoInformListener m \<in> set (dp_running s) \<longrightarrow> msg_Nonce m \<noteq> nonce))"

lemma listen_frame:
  assumes "dhtMessageListen ping pap node = Inr (node', gos)"
  shows "listeners node' = listeners node" "g_nextChan (dn_g node') = g_nextChan (dn_g node)"
    and "g_bucketTable (dn_g node') = fst (bt_updateNode ping (sender_state pap) (g_bucketTable (dn_g node)))"
  using assms by (auto simp: dhtMessageListen_def sender_state_def Let_def split: option.splits)

lemma chans_inv_cong:
  "listeners node' = listeners node \<Longrightarrow> g_nextChan (dn_g node') = g_nextChan (dn_g node) \<Longrightarrow>
   chans_inv node' buf = chans_inv node buf"
  by (simp add: chans_inv_def)

lemma send_rpc_frame:
  assumes "send_rpc msg ns node = Inr (node', c, acts)"
  shows "c = g_nextChan (dn_g node)" "g_nextChan (dn_g node') = g_nextChan (dn_g node) + 1"
    and "listeners node (msg_Nonce msg) = None"
    and "listeners node' n = (if n = msg_Nonce msg then Some c else listeners node n)"
  using assms cm.add_result [of "g_nextChan (dn_g node)" "msg_Nonce msg" "g_dhtChanMap (dn_g node)"]
    cm.add_waiting [of "g_nextChan (dn_g node)" "msg_Nonce msg" "g_dhtChanMap (dn_g node)" n]
  by (auto simp: send_rpc_def Let_def split: prod.splits if_splits option.splits)

lemma send_rpc_chans:
  assumes "send_rpc msg ns node = Inr (node', c, acts)" "chans_inv node buf"
  shows "chans_inv node' buf"
  using assms(2) send_rpc_frame [OF assms(1)] unfolding chans_inv_def
  by (auto split: if_splits intro: less_SucI)

text \<open>What a goroutine does to the listeners: only a reply changes them, and only its own entry.\<close>

lemma run_goroutine_frame:
  assumes "run_goroutine env now go node = Inr (node', acts)"
  shows "g_nextChan (dn_g node') = g_nextChan (dn_g node)
    \<and> (if \<exists>m. go = GoInformListener m
       then \<forall>m. go = GoInformListener m \<longrightarrow> (\<forall>n. listeners node' n = (if n = msg_Nonce m then None else listeners node n))
          \<and> acts = (case listeners node (msg_Nonce m) of None \<Rightarrow> [] | Some c \<Rightarrow> [DhtDeliver c m])
       else listeners node' = listeners node \<and> (\<forall>buf. delivered acts buf = buf))"
proof (cases go)
  case (GoInformListener m)
  then show ?thesis
    using assms cm.inform_result [of "msg_Nonce m" "g_dhtChanMap (dn_g node)"]
      cm.inform_waiting [of "msg_Nonce m" "g_dhtChanMap (dn_g node)"]
    by (auto simp: Let_def split: prod.splits)
next
  case (GoReplyLookupKey a m)
  then show ?thesis using assms
    by (fastforce simp: replyLookupKey_def Let_def obind_Inr_iff split: option.splits)
next
  case (GoReplyLookupNode a m)
  then show ?thesis using assms by (auto simp: replyLookupNode_def Let_def obind_Inr_iff split: option.splits)
next
  case (GoReplyStore m)
  then show ?thesis using assms by (auto simp: run_store_def obind_Inr_iff split: option.splits)
next
  case (GoDecryptStore m)
  then show ?thesis using assms
    by (fastforce simp: run_store_def Let_def obind_Inr_iff split: option.splits)
next
  case (GoReplyPing a m)
  then show ?thesis using assms by (auto simp: replyPing_def)
qed

lemma dp_inv_run:
  assumes "dp_inv s" "chans_inv node buf"
    and "\<And>nonce c pap. dp_phase s = AwaitPing nonce c pap \<Longrightarrow> buf c = [] \<and> listeners node nonce = Some c"
  shows "dp_inv (s\<lparr>dp_node := node, dp_running := remove1 go (dp_running s), dp_buffer := buf\<rparr>)"
proof -
  have "msg_Nonce m \<noteq> nonce"
    if "dp_phase s = AwaitPing nonce c pap" "GoInformListener m \<in> set (remove1 go (dp_running s))" for nonce c pap m
    using assms(1) that set_remove1_subset [of go "dp_running s"] unfolding dp_inv_def by blast
  then show ?thesis using assms(2,3) by (simp add: dp_inv_def)
qed

lemma run_step_inv:
  assumes "dp_inv s" "go \<in> set (dp_running s)" "run_goroutine env now go (dp_node s) = Inr (node, acts)"
  shows "dp_inv (s\<lparr>dp_node := node, dp_running := remove1 go (dp_running s), dp_buffer := delivered acts (dp_buffer s)\<rparr>)"
proof (rule dp_inv_run [OF assms(1)])
  have inv: "chans_inv (dp_node s) (dp_buffer s)" using assms(1) by (simp add: dp_inv_def)
  have f: "g_nextChan (dn_g node) = g_nextChan (dn_g (dp_node s))" using run_goroutine_frame [OF assms(3)] by blast
  have g: "listeners node n = (if n = msg_Nonce m then None else listeners (dp_node s) n)"
    "acts = (case listeners (dp_node s) (msg_Nonce m) of None \<Rightarrow> [] | Some c \<Rightarrow> [DhtDeliver c m])"
    if "go = GoInformListener m" for n m using run_goroutine_frame [OF assms(3)] that by auto
  have o: "listeners node = listeners (dp_node s) \<and> delivered acts (dp_buffer s) = dp_buffer s"
    if "\<nexists>m. go = GoInformListener m" using run_goroutine_frame [OF assms(3)] that by simp
  show "chans_inv node (delivered acts (dp_buffer s))"
  proof (cases "\<exists>m. go = GoInformListener m")
    case True
    then obtain m where go: "go = GoInformListener m" by blast
    have "\<not> g_nextChan (dn_g (dp_node s)) \<le> c" if "listeners (dp_node s) (msg_Nonce m) = Some c" for c
      using inv that by (auto simp: chans_inv_def not_le)
    then show ?thesis using inv by (auto simp: chans_inv_def f g [OF go] split: option.splits if_splits)
  next
    case False
    then show ?thesis using inv f o chans_inv_cong [of node "dp_node s"] by simp
  qed
  fix nonce c pap assume p: "dp_phase s = AwaitPing nonce c pap"
  then have a: "dp_buffer s c = []" "listeners (dp_node s) nonce = Some c"
    "\<And>m. GoInformListener m \<in> set (dp_running s) \<Longrightarrow> msg_Nonce m \<noteq> nonce" using assms(1) by (auto simp: dp_inv_def)
  show "delivered acts (dp_buffer s) c = [] \<and> listeners node nonce = Some c"
  proof (cases "\<exists>m. go = GoInformListener m")
    case True
    then obtain m where go: "go = GoInformListener m" by blast
    then have n: "msg_Nonce m \<noteq> nonce" using a(3) assms(2) by blast
    then have "listeners (dp_node s) (msg_Nonce m) \<noteq> Some c" using a(2) inv unfolding chans_inv_def by blast
    then show ?thesis using a(1,2) n by (auto simp: g [OF go] split: option.split)
  next
    case False
    then show ?thesis using a o by simp
  qed
qed

lemma dp_step_inv:
  assumes "dp_step env s s'" "dp_inv s"
  shows "dp_inv s'"
  using assms
proof cases
  case (accept pap node gos)
  then show ?thesis using assms(2) listen_frame [OF accept(4)] chans_inv_cong [of node "dp_node s"]
    by (auto simp: dp_inv_def)
next
  case (pings pap old nonce node c acts)
  have rpc: "send_rpc (newDHTPing nonce (dn_g (dp_node s))) old (dp_node s) = Inr (node, c, acts)"
    using pings(4) by (simp add: sendPing_start_def)
  note f = send_rpc_frame [OF rpc]
  have "chans_inv (dp_node s) (dp_buffer s)" using assms(2) by (simp add: dp_inv_def)
  then have "dp_buffer s c = []" by (simp add: chans_inv_def f(1))
  then show ?thesis using assms(2) pings(1,5) f(4) [of nonce] send_rpc_chans [OF rpc] by (auto simp: dp_inv_def)
next
  case (answered nonce c pap node gos)
  then show ?thesis using assms(2) by (auto simp: dp_inv_def)
next
  case (times_out nonce c pap node1 alive node gos)
  have "listeners node1 n = (if n = nonce then None else listeners (dp_node s) n)"
    "g_nextChan (dn_g node1) = g_nextChan (dn_g (dp_node s))" for n
    using times_out(3) by (auto simp: sendPing_timeout_def cm_RemoveListener_def)
  then have "chans_inv node1 (dp_buffer s)" using assms(2) by (auto simp: dp_inv_def chans_inv_def split: if_splits)
  then show ?thesis using times_out(1) listen_frame [OF times_out(4)] chans_inv_cong [of node node1] by (simp add: dp_inv_def)
next
  case (runs go now node acts)
  then show ?thesis using run_step_inv [OF assms(2)] by simp
next
  case (asks msg ns node c acts)
  note f = send_rpc_frame [OF asks(2)]
  show ?thesis using assms(2) asks(1) f(3,4) send_rpc_chans [OF asks(2)] by (auto simp: dp_inv_def)
qed

section \<open>Properties\<close>

text \<open>C19: a full bucket always drops its oldest node, dead or alive: the ping that should decide is waited for
  by the only goroutine that could hand over its answer, so from the moment the dispatcher waits
  the answer never comes, and the wait ends only with the ticker and the verdict that the node is
  dead.\<close>

theorem bucket_ping_never_answered:
  assumes "dp_reachable env init s" "chans_inv (dp_node init) (dp_buffer init)" "dp_phase init = Idle"
    and "dp_phase s = AwaitPing nonce c pap" "dp_step env s s'"
  shows "dp_phase s' = AwaitPing nonce c pap
    \<or> (dp_phase s' = Idle \<and> g_bucketTable (dn_g (dp_node s'))
         = fst (bt_updateNode (\<lambda>_. False) (sender_state pap) (g_bucketTable (dn_g (dp_node s)))))"
proof -
  have inv: "dp_inv s" using assms(1)
  proof induction
    case start
    then show ?case using assms(2,3) by (simp add: dp_inv_def)
  next
    case (step s s')
    then show ?case by (simp add: dp_step_inv)
  qed
  from assms(5) show ?thesis
  proof cases
    case (answered nonce' c' pap' node gos)
    then show ?thesis using inv assms(4) by (auto simp: dp_inv_def)
  next
    case (times_out nonce' c' pap' node1 alive node gos)
    then show ?thesis using assms(4) listen_frame(3) [OF times_out(4)] by (auto simp: sendPing_timeout_def)
  qed (use assms(4) in auto)
qed


definition example_full :: "mem_db DhtNode" where
  "example_full = (example_dht 0 False)\<lparr>dn_g := (example_peer 0)\<lparr>g_bucketTable :=
     \<lparr>bt_MyNodeID = replicate 64 0, bt_Buckets = (replicate 512 [])[0 := example_bucket]\<rparr>\<rparr>\<rparr>"

definition example_pap :: PacketAddressPair where
  "example_pap = \<lparr>pap_Packet = dht_packet ((emptyMessage 1 (replicate 64 255))\<lparr>msg_Ping := Some ()\<rparr>), pap_SenderAddress = ''y''\<rparr>"

theorem bucket_ping_never_answered_witness:
  "\<exists>s s'. dp_step example_dht_env s s' \<and> dp_phase s = AwaitPing 7 0 example_pap \<and> dp_phase s' = Idle
    \<and> g_bucketTable (dn_g (dp_node s'))
        = fst (bt_updateNode (\<lambda>_. False) (sender_state example_pap) (g_bucketTable (dn_g (dp_node s))))"
proof -
  let ?init = "\<lparr>dp_node = example_full, dp_phase = Idle, dp_running = [], dp_buffer = (\<lambda>_. [])\<rparr>"
  have i: "sender_state example_pap = \<lparr>ns_NodeID = replicate 64 255, ns_Address = ''y''\<rparr>"
    by (simp add: sender_state_def example_pap_def emptyMessage_def)
  have "CommonLeadingBits (replicate 64 0) (replicate 64 255) = 0" "find_node (replicate 64 255) example_bucket = None"
    "length example_bucket \<ge> bucketSize" by code_simp+
  then obtain old where old: "node_to_ping (sender_state example_pap) (g_bucketTable (dn_g example_full)) = Some old"
    by (simp add: node_to_ping_def i example_full_def Let_def)
  have e: "listeners example_full = (\<lambda>_. None)" "g_nextChan (dn_g example_full) = 0"
    by (simp_all add: example_full_def example_peer_def NewGossiper_def NewChanMap_def gm_load_def fun_eq_iff)
  then obtain node acts where p: "sendPing_start 7 old example_full = Inr (node, 0, acts)"
    using send_rpc_result [of example_full "newDHTPing 7 (dn_g example_full)" old] by (auto simp: sendPing_start_def)
  let ?s = "?init\<lparr>dp_node := node, dp_phase := AwaitPing 7 0 example_pap\<rparr>"
  have s1: "dp_step example_dht_env ?init ?s" using old p by (intro dp_step.pings) simp_all
  obtain node1 where t: "sendPing_timeout 7 node = (node1, False)" by (simp add: sendPing_timeout_def)
  obtain node2 gos where l: "dhtMessageListen (\<lambda>_. False) example_pap node1 = Inr (node2, gos)"
    by (simp add: dhtMessageListen_def example_pap_def Let_def)
  let ?s' = "?s\<lparr>dp_node := node2, dp_phase := Idle, dp_running := gos\<rparr>"
  have s2: "dp_step example_dht_env ?s ?s'" using dp_step.times_out [of ?s 7 0 example_pap node1 False node2 gos] t l by simp
  have "chans_inv (dp_node ?init) (dp_buffer ?init)" using e by (simp add: chans_inv_def)
  from bucket_ping_never_answered [OF dp_reachable.step [OF dp_reachable.start s1] this _ _ s2]
  show ?thesis using s2 by (intro exI [of _ ?s] exI [of _ ?s']) simp
qed

end
