(* ===== verification/BloomFilter.thy ===== *)
theory BloomFilter
  imports Complex_Main Prelude
begin

text \<open>
  The Bloom filter of \<open>src/bloomfilter/bloomfilter.go\<close>.  The three hash functions are an
  argument: a function from the bytes written since the last \<open>Reset\<close> to the 64-bit sum.
  \<open>math.Log\<close> is the natural logarithm; the truncated logarithm of a 64-bit number is at most 44,
  where the division of \<open>position\<close> is exact in floating point.  The size of the bit set is the
  number of 64-bit words that hold \<open>m\<close> bits.
\<close>

unbundle bit_operations_syntax

type_synonym hash64 = "bytes \<Rightarrow> uint64"

record BloomFilter =
  bf_bitset :: "uint64 list"
  bf_k :: uint64
  bf_n :: uint64
  bf_m :: uint64

text \<open>The code computes \<open>Ceil(float64(m) / 64)\<close>: the same number as long as \<open>m\<close> is at most 2 to the power 53, up to
  which a double is exact.\<close>

definition New :: "uint64 \<Rightarrow> uint64 \<Rightarrow> BloomFilter" where
  "New k m = \<lparr>bf_bitset = replicate ((unat m + 63) div 64) 0, bf_k = k, bf_n = 0, bf_m = m\<rparr>"

fun mask_loop :: "nat \<Rightarrow> uint64" where
  "mask_loop 0 = 0"
| "mask_loop (Suc i) = mask_loop i OR push_bit i 1"

definition mInBits :: "uint64 \<Rightarrow> nat" where
  "mInBits m = nat \<lfloor>ln (real (unat m))\<rfloor>"

definition position :: "uint64 \<Rightarrow> bytes \<Rightarrow> bytes \<Rightarrow> hash64 \<Rightarrow> nat \<times> nat" where
  "position m written elem hf =
     (let hashSum = hf (written @ elem);
          val = hashSum AND mask_loop (mInBits m)
      in (unat val div 64, unat val mod 64))"

fun set_loop :: "uint64 \<Rightarrow> bytes \<Rightarrow> bytes \<Rightarrow> hash64 list \<Rightarrow> uint64 list \<Rightarrow> uint64 list outcome" where
  "set_loop m written elem [] bitset = Inr bitset"
| "set_loop m written elem (hf # hfs) bitset =
     (let (bitsetIndex, bitIndex) = position m written elem hf in
      if bitsetIndex < length bitset
      then set_loop m written elem hfs (bitset[bitsetIndex := bitset ! bitsetIndex OR push_bit bitIndex 1])
      else Inl (Panic ''index out of range''))"

fun isset_loop :: "uint64 \<Rightarrow> bytes \<Rightarrow> bytes \<Rightarrow> hash64 list \<Rightarrow> uint64 list \<Rightarrow> bool outcome" where
  "isset_loop m written elem [] bitset = Inr True"
| "isset_loop m written elem (hf # hfs) bitset =
     (let (bitsetIndex, bitIndex) = position m written elem hf in
      if bitsetIndex < length bitset then
        if bitset ! bitsetIndex AND push_bit bitIndex 1 = 0 then Inr False
        else isset_loop m written elem hfs bitset
      else Inl (Panic ''index out of range''))"

definition IsSet :: "hash64 list \<Rightarrow> bytes \<Rightarrow> BloomFilter \<Rightarrow> bool outcome" where
  "IsSet hfs elem bf =
     obind (isset_loop (bf_m bf) [] elem hfs (bf_bitset bf)) (\<lambda>first.
       if first then isset_loop (bf_m bf) [1] elem hfs (bf_bitset bf) else Inr False)"

definition Set :: "hash64 list \<Rightarrow> bytes \<Rightarrow> BloomFilter \<Rightarrow> BloomFilter outcome" where
  "Set hfs elem bf =
     obind (IsSet hfs elem bf) (\<lambda>already.
       if already then Inr bf
       else obind (set_loop (bf_m bf) [] elem hfs (bf_bitset bf)) (\<lambda>bitset.
            obind (set_loop (bf_m bf) [1] elem hfs bitset) (\<lambda>bitset.
              Inr (bf\<lparr>bf_bitset := bitset, bf_n := bf_n bf + 1\<rparr>))))"

definition Size :: "BloomFilter \<Rightarrow> int" where
  "Size bf = sint (bf_n bf)"

section \<open>Positions stay inside the bit set\<close>

lemma mask_loop_eq: "mask_loop n = mask n"
  by (induction n) (auto simp: mask_Suc_exp or.commute push_bit_of_1)

lemma floor_ln_exp:
  assumes "1 \<le> k"
  shows "2 ^ nat \<lfloor>ln (real k)\<rfloor> \<le> k"
proof -
  let ?n = "nat \<lfloor>ln (real k)\<rfloor>"
  have k: "1 \<le> real k" using assms by simp
  have two: "(2::real) \<le> exp 1" using exp_ge_add_one_self [of 1] by simp
  have "real ?n \<le> ln (real k)" using k by simp
  then have "exp (real ?n) \<le> exp (ln (real k))" by (simp only: exp_le_cancel_iff)
  then have "exp (real ?n) \<le> real k" using k by (simp only: exp_ln)
  moreover have "(2::real) ^ ?n \<le> exp 1 ^ ?n" using two by (intro power_mono) simp_all
  moreover have "exp (real ?n) = exp 1 ^ ?n" by (metis exp_of_nat_mult mult.right_neutral)
  ultimately have "(2::real) ^ ?n \<le> real k" by linarith
  then have "real (2 ^ ?n) \<le> real k" by (simp only: of_nat_power of_nat_numeral)
  then show ?thesis by (simp only: of_nat_le_iff)
qed

lemma mInBits_exp: "0 < m \<Longrightarrow> 2 ^ mInBits m \<le> unat m"
  unfolding mInBits_def by (rule floor_ln_exp) (simp add: Suc_le_eq word_less_nat_alt)

lemma position_less:
  assumes "0 < m" "position m written elem hf = (i, b)"
  shows "i < (unat m + 63) div 64 \<and> b < 64"
proof -
  let ?v = "hf (written @ elem) AND mask (mInBits m)"
  have "unat ?v < 2 ^ mInBits m"
    by (simp only: take_bit_eq_mask [symmetric] unsigned_take_bit_eq take_bit_nat_less_exp)
  then have "unat ?v < unat m" using mInBits_exp [OF assms(1)] by linarith
  then have "unat ?v div 64 < (unat m + 63) div 64" by linarith
  then show ?thesis using assms(2) by (auto simp: position_def mask_loop_eq Let_def)
qed

definition bf_inv :: "BloomFilter \<Rightarrow> bool" where
  "bf_inv bf \<longleftrightarrow> 0 < bf_m bf \<and> length (bf_bitset bf) = (unat (bf_m bf) + 63) div 64"

definition in_bitset :: "nat \<times> nat \<Rightarrow> uint64 list \<Rightarrow> bool" where
  "in_bitset p bitset = bit (bitset ! fst p) (snd p)"

definition positions :: "uint64 \<Rightarrow> hash64 list \<Rightarrow> bytes \<Rightarrow> (nat \<times> nat) set" where
  "positions m hfs elem = position m [] elem ` set hfs \<union> position m [1] elem ` set hfs"

lemma test_bit: "b < 64 \<Longrightarrow> (w :: uint64) AND 2 ^ b = 0 \<longleftrightarrow> \<not> bit w b"
  by (auto simp: and_exp_eq_0_iff_not_bit [symmetric] push_bit_eq_mult and.commute)

lemma isset_loop_eq:
  assumes "0 < m" "length bitset = (unat m + 63) div 64"
  shows "isset_loop m written elem hfs bitset = Inr (\<forall>hf \<in> set hfs. in_bitset (position m written elem hf) bitset)"
proof (induction hfs)
  case (Cons hf hfs)
  obtain i b where p: "position m written elem hf = (i, b)" by fastforce
  then show ?case using Cons position_less [OF assms(1) p] assms(2) by (auto simp: test_bit in_bitset_def)
qed simp

lemma set_loop_eq:
  assumes "0 < m" "length bitset = (unat m + 63) div 64"
  shows "\<exists>bitset'. set_loop m written elem hfs bitset = Inr bitset' \<and> length bitset' = length bitset
    \<and> (\<forall>j c. j < length bitset \<longrightarrow> c < 64 \<longrightarrow>
         (in_bitset (j, c) bitset' \<longleftrightarrow> in_bitset (j, c) bitset \<or> (j, c) \<in> position m written elem ` set hfs))"
  using assms(2)
proof (induction hfs arbitrary: bitset)
  case (Cons hf hfs)
  obtain i b where p: "position m written elem hf = (i, b)" by fastforce
  let ?bs = "bitset[i := bitset ! i OR push_bit b 1]"
  have l: "i < length bitset" "b < 64" using position_less [OF assms(1) p] Cons.prems by simp_all
  obtain bs where bs: "set_loop m written elem hfs ?bs = Inr bs" "length bs = length bitset"
    "\<And>j c. j < length bitset \<Longrightarrow> c < 64 \<Longrightarrow>
       in_bitset (j, c) bs \<longleftrightarrow> in_bitset (j, c) ?bs \<or> (j, c) \<in> position m written elem ` set hfs"
    using Cons.IH [of ?bs] Cons.prems by auto
  have "in_bitset (j, c) ?bs \<longleftrightarrow> in_bitset (j, c) bitset \<or> (j, c) = (i, b)" if "j < length bitset" "c < 64" for j c
    using that l by (auto simp: in_bitset_def nth_list_update bit_or_iff bit_exp_iff)
  then show ?case using bs l p by auto
qed simp

section \<open>The filter as a set of bit positions\<close>

definition bf_bits :: "BloomFilter \<Rightarrow> (nat \<times> nat) set" where
  "bf_bits bf = {(j, c). j < length (bf_bitset bf) \<and> c < 64 \<and> in_bitset (j, c) (bf_bitset bf)}"

lemma positions_range: "0 < m \<Longrightarrow> p \<in> positions m hfs elem \<Longrightarrow> fst p < (unat m + 63) div 64 \<and> snd p < 64"
  unfolding positions_def using position_less by (metis (no_types, lifting) UnE imageE prod.collapse)

lemma IsSet_eq:
  assumes "bf_inv bf"
  shows "IsSet hfs elem bf = Inr (positions (bf_m bf) hfs elem \<subseteq> bf_bits bf)"
proof -
  have "IsSet hfs elem bf = Inr (\<forall>p \<in> positions (bf_m bf) hfs elem. in_bitset p (bf_bitset bf))"
    using assms by (auto simp: IsSet_def bf_inv_def isset_loop_eq positions_def)
  then show ?thesis using assms positions_range [of "bf_m bf"] by (fastforce simp: bf_bits_def bf_inv_def)
qed

lemma Set_eq:
  assumes "bf_inv bf"
  shows "\<exists>bf'. Set hfs elem bf = Inr bf' \<and> bf_inv bf' \<and> bf_m bf' = bf_m bf
    \<and> bf_bits bf' = bf_bits bf \<union> positions (bf_m bf) hfs elem
    \<and> bf_n bf' = (if positions (bf_m bf) hfs elem \<subseteq> bf_bits bf then bf_n bf else bf_n bf + 1)"
proof (cases "positions (bf_m bf) hfs elem \<subseteq> bf_bits bf")
  case True
  then show ?thesis using assms by (auto simp: Set_def IsSet_eq)
next
  case False
  let ?m = "bf_m bf" and ?bs = "bf_bitset bf"
  have i: "0 < ?m" "length ?bs = (unat ?m + 63) div 64" using assms by (simp_all add: bf_inv_def)
  obtain bs1 where b1: "set_loop ?m [] elem hfs ?bs = Inr bs1" "length bs1 = length ?bs"
    "\<And>j c. j < length ?bs \<Longrightarrow> c < 64 \<Longrightarrow> in_bitset (j, c) bs1 \<longleftrightarrow> in_bitset (j, c) ?bs \<or> (j, c) \<in> position ?m [] elem ` set hfs"
    using set_loop_eq [OF i] by metis
  obtain bs2 where b2: "set_loop ?m [1] elem hfs bs1 = Inr bs2" "length bs2 = length ?bs"
    "\<And>j c. j < length ?bs \<Longrightarrow> c < 64 \<Longrightarrow> in_bitset (j, c) bs2 \<longleftrightarrow> in_bitset (j, c) bs1 \<or> (j, c) \<in> position ?m [1] elem ` set hfs"
    using set_loop_eq [OF i(1), of bs1] i(2) b1(2) by metis
  have "bf_bits (bf\<lparr>bf_bitset := bs2, bf_n := bf_n bf + 1\<rparr>) = bf_bits bf \<union> positions ?m hfs elem"
  proof (rule set_eqI)
    fix p :: "nat \<times> nat"
    obtain j c where p: "p = (j, c)" by fastforce
    show "p \<in> bf_bits (bf\<lparr>bf_bitset := bs2, bf_n := bf_n bf + 1\<rparr>) \<longleftrightarrow> p \<in> bf_bits bf \<union> positions ?m hfs elem"
    proof (cases "j < length ?bs \<and> c < 64")
      case True
      then show ?thesis using b1(3) b2(2,3) p by (simp add: bf_bits_def positions_def disj_assoc)
    next
      case False
      then have "p \<notin> positions ?m hfs elem" using positions_range [OF i(1), of p hfs elem] i(2) p by auto
      then show ?thesis using False b2(2) p by (auto simp: bf_bits_def)
    qed
  qed
  then show ?thesis using False assms b1 b2 by (auto simp: Set_def IsSet_eq bf_inv_def)
qed

lemma New_inv: "0 < m \<Longrightarrow> bf_inv (New k m)" "bf_bits (New k m) = {}"
  by (auto simp: bf_inv_def New_def bf_bits_def in_bitset_def)

fun set_all :: "hash64 list \<Rightarrow> bytes list \<Rightarrow> BloomFilter \<Rightarrow> BloomFilter outcome" where
  "set_all hfs [] bf = Inr bf"
| "set_all hfs (e # es) bf = obind (Set hfs e bf) (set_all hfs es)"

lemma set_all_eq:
  assumes "bf_inv bf"
  shows "\<exists>bf'. set_all hfs es bf = Inr bf' \<and> bf_inv bf' \<and> bf_m bf' = bf_m bf
    \<and> bf_bits bf' = bf_bits bf \<union> (\<Union>e \<in> set es. positions (bf_m bf) hfs e)"
  using assms
proof (induction es arbitrary: bf)
  case (Cons e es)
  obtain bf1 where b: "Set hfs e bf = Inr bf1" "bf_inv bf1" "bf_m bf1 = bf_m bf"
    "bf_bits bf1 = bf_bits bf \<union> positions (bf_m bf) hfs e"
    using Set_eq [OF Cons.prems] by blast
  then show ?case using Cons.IH [OF b(2)] by auto
qed simp

section \<open>Properties\<close>

text \<open>C35: the filter has no false negatives: on a filter with at least one bit no operation
  panics, and after any sequence of insertions every inserted element is reported as set.\<close>

theorem no_false_negatives:
  assumes "0 < m"
  shows "\<exists>bf. set_all hfs es (New k m) = Inr bf \<and> list_all (\<lambda>e. IsSet hfs e bf = Inr True) es"
proof -
  obtain bf where "set_all hfs es (New k m) = Inr bf" "bf_inv bf"
      "bf_bits bf = (\<Union>e \<in> set es. positions (bf_m bf) hfs e)"
    using set_all_eq [OF New_inv(1) [OF assms], of hfs es k] New_inv(2) by fastforce
  then show ?thesis by (auto simp: IsSet_eq list_all_iff)
qed

theorem no_false_negatives_witness:
  "\<exists>bf. set_all [\<lambda>bs. of_nat (length bs), \<lambda>_. 7] [[1], [2, 3]] (New 3 1000) = Inr bf
     \<and> list_all (\<lambda>e. IsSet [\<lambda>bs. of_nat (length bs), \<lambda>_. 7] e bf = Inr True) [[1], [2, 3]]"
  by (rule no_false_negatives) simp

end
