(* ===== verification/NodeIdentity.thy ===== *)
theory NodeIdentity
  imports DhtHandlers
begin

text \<open>
  The identifier of a node: \<open>InitialRandNodeID\<close> of \<open>src/dht/helpers.go\<close> makes it from the public key that it
  generates, and \<open>src/gossiper/diffiehellman.go\<close> reads the key back when it checks a signature.
\<close>

text \<open>The key that is generated is an argument: the two coordinates of a point of the curve P-256.\<close>

definition InitialRandNodeID :: "int \<Rightarrow> int \<Rightarrow> TypeID" where
  "InitialRandNodeID x y = copy_id (big_Bytes x @ big_Bytes y)"

section \<open>The bytes of a number\<close>

lemma big_SetBytes_append: "big_SetBytes (as @ bs) = big_SetBytes as * 256 ^ length bs + big_SetBytes bs"
proof (induction bs rule: rev_induct)
  case (snoc b bs)
  then show ?case using big_SetBytes_snoc [of "as @ bs" b] by (simp add: big_SetBytes_snoc algebra_simps)
qed (simp add: big_SetBytes_def)

lemma big_SetBytes_zeros [simp]: "big_SetBytes (replicate n 0) = 0"
  by (induction n) (simp_all add: big_SetBytes_def)

lemma length_nat_bytes: "length (nat_bytes n) \<le> k \<longleftrightarrow> n < 256 ^ k"
proof (induction n arbitrary: k rule: nat_bytes.induct)
  case (1 n)
  show ?case
  proof (cases "n = 0")
    case False
    show ?thesis
    proof (cases k)
      case 0
      then show ?thesis using False nat_bytes.simps [of n] by simp
    next
      case (Suc j)
      have "length (nat_bytes n) = Suc (length (nat_bytes (n div 256)))" using False nat_bytes.simps [of n] by simp
      then have "length (nat_bytes n) \<le> k \<longleftrightarrow> n div 256 < 256 ^ j" using 1 [OF False] Suc by simp
      also have "\<dots> \<longleftrightarrow> n < 256 ^ k" using Suc by (simp add: div_less_iff_less_mult mult.commute)
      finally show ?thesis .
    qed
  qed (simp add: nat_bytes.simps)
qed

lemma length_big_Bytes: "0 \<le> x \<Longrightarrow> length (big_Bytes x) \<le> k \<longleftrightarrow> x < 256 ^ k"
  using length_nat_bytes [of "nat x" k] by (simp add: big_Bytes_def nat_less_iff)

text \<open>Bytes that follow a positive number make it larger.\<close>

lemma big_SetBytes_longer:
  assumes "0 < x" "bs \<noteq> []"
  shows "x < big_SetBytes (big_Bytes x @ bs)"
proof -
  have "1 < (256::int) ^ length bs" using assms(2) by simp
  then have "x * 1 < x * 256 ^ length bs" using assms(1) by (rule mult_strict_left_mono)
  then have "x < x * 256 ^ length bs + big_SetBytes bs" using big_SetBytes_nonneg [of bs] by linarith
  then show ?thesis using assms(1) by (simp add: big_SetBytes_append)
qed

section \<open>Reading the key back\<close>

lemma node_id_parts:
  assumes "length (big_Bytes x) = 32" "length (big_Bytes y) \<le> 32"
  shows "take 32 (InitialRandNodeID x y) = big_Bytes x"
    "drop 32 (InitialRandNodeID x y) = big_Bytes y @ replicate (32 - length (big_Bytes y)) 0"
  using assms by (simp_all add: InitialRandNodeID_def copy_id_def)

lemma node_id_short:
  assumes "length (big_Bytes x) < 32"
  shows "\<exists>bs. bs \<noteq> [] \<and> take 32 (InitialRandNodeID x y) = big_Bytes x @ bs"
proof (intro exI conjI)
  let ?i = "InitialRandNodeID x y" and ?n = "length (big_Bytes x)"
  have l: "length ?i = 64" by (simp add: InitialRandNodeID_def copy_id_def)
  have "take ?n ?i = big_Bytes x" using assms by (simp add: InitialRandNodeID_def copy_id_def min_def)
  then have "take ?n (take 32 ?i) = big_Bytes x" using assms by (simp add: min_def)
  then show "take 32 ?i = big_Bytes x @ drop ?n (take 32 ?i)" by (metis append_take_drop_id)
  show "drop ?n (take 32 ?i) \<noteq> []" using assms l by simp
qed

lemma node_id_full:
  assumes "2 ^ 248 \<le> x" "x < 2 ^ 256" "2 ^ 248 \<le> y" "y < 2 ^ 256"
  shows "big_SetBytes (take 32 (InitialRandNodeID x y)) = x" "big_SetBytes (drop 32 (InitialRandNodeID x y)) = y"
proof -
  have l: "length (big_Bytes z) = 32" if "2 ^ 248 \<le> z" "z < 2 ^ 256" for z
    using length_big_Bytes [of z 32] length_big_Bytes [of z 31] that by simp
  note x = l [OF assms(1,2)] and y = l [OF assms(3,4)]
  show "big_SetBytes (take 32 (InitialRandNodeID x y)) = x" "big_SetBytes (drop 32 (InitialRandNodeID x y)) = y"
    using node_id_parts [OF x, of y] x y assms by simp_all
qed

text \<open>C6: the identifier of a node gives its public key back exactly if both coordinates fill their 32 bytes.
  \<open>Bytes\<close> drops leading zeros, so a smaller coordinate moves the bytes behind it, and the node's signatures are
  checked against another key.\<close>

theorem node_id_is_public_key:
  assumes "0 < x" "x < 2 ^ 256" "0 < y" "y < 2 ^ 256" "dh_NodeID packet = InitialRandNodeID x y"
  shows "extractEcdsaPublicKeyComponents packet = (x, y) \<longleftrightarrow> 2 ^ 248 \<le> x \<and> 2 ^ 248 \<le> y"
proof -
  have l: "length (big_Bytes z) \<le> 32" "length (big_Bytes z) < 32 \<longleftrightarrow> z < 2 ^ 248" if "0 < z" "z < 2 ^ 256" for z
    using length_big_Bytes [of z 32] length_big_Bytes [of z 31] that by (simp_all flip: less_Suc_eq_le)
  consider (short) "x < 2 ^ 248" | (tail) "2 ^ 248 \<le> x" "y < 2 ^ 248" | (full) "2 ^ 248 \<le> x" "2 ^ 248 \<le> y" by linarith
  then show ?thesis
  proof cases
    case short
    then obtain bs where "bs \<noteq> []" "take 32 (InitialRandNodeID x y) = big_Bytes x @ bs" using node_id_short l(2) [OF assms(1,2)] by blast
    then have "x < big_SetBytes (take 32 (InitialRandNodeID x y))" using big_SetBytes_longer [OF assms(1)] by simp
    then show ?thesis using short assms(5) by (simp add: extractEcdsaPublicKeyComponents_def)
  next
    case tail
    then have x: "length (big_Bytes x) = 32" and y: "length (big_Bytes y) < 32" using l [OF assms(1,2)] l [OF assms(3,4)] by linarith+
    have "y < big_SetBytes (drop 32 (InitialRandNodeID x y))"
      using big_SetBytes_longer [OF assms(3), of "replicate (32 - length (big_Bytes y)) 0"] y node_id_parts(2) [OF x] by simp
    then show ?thesis using tail assms(5) by (simp add: extractEcdsaPublicKeyComponents_def)
  next
    case full
    then have x: "length (big_Bytes x) = 32" and y: "length (big_Bytes y) = 32" using l [OF assms(1,2)] l [OF assms(3,4)] by linarith+
    then show ?thesis using full node_id_parts [OF x, of y] assms by (simp add: extractEcdsaPublicKeyComponents_def)
  qed
qed

theorem node_id_is_public_key_witness:
  "extractEcdsaPublicKeyComponents (emptyDiffie\<lparr>dh_NodeID := InitialRandNodeID (2 ^ 250) (2 ^ 248 + 7)\<rparr>) = (2 ^ 250, 2 ^ 248 + 7)
    \<and> extractEcdsaPublicKeyComponents (emptyDiffie\<lparr>dh_NodeID := InitialRandNodeID 5 (2 ^ 250)\<rparr>) \<noteq> (5, 2 ^ 250)"
  using node_id_is_public_key [of "2 ^ 250" "2 ^ 248 + 7" "emptyDiffie\<lparr>dh_NodeID := InitialRandNodeID (2 ^ 250) (2 ^ 248 + 7)\<rparr>"]
    node_id_is_public_key [of 5 "2 ^ 250" "emptyDiffie\<lparr>dh_NodeID := InitialRandNodeID 5 (2 ^ 250)\<rparr>"] by simp

text \<open>A node whose key has coordinates that fill their bytes, and another node that verifies by ECDSA: what the
  first signs is valid under its key.  Both run the same program.\<close>

definition honest_signer :: "crypto \<Rightarrow> int \<times> int \<Rightarrow> Gossiper \<Rightarrow> crypto \<Rightarrow> bool" where
  "honest_signer signer key g verifier \<longleftrightarrow>
     (case key of (x, y) \<Rightarrow> x \<in> {2 ^ 248..<2 ^ 256} \<and> y \<in> {2 ^ 248..<2 ^ 256} \<and> g_dhtMyID g = InitialRandNodeID x y)
     \<and> cr_sha256 verifier = cr_sha256 signer \<and> cr_encode verifier = cr_encode signer
     \<and> (\<forall>hash r s. cr_sign signer hash = (r, s) \<longrightarrow> cr_verify verifier key hash (int r) (int s))"

lemma honest_signer_accepted: "honest_signer signer key g verifier \<Longrightarrow> accepts_signatures signer (g_dhtMyID g) verifier"
  by (auto simp: honest_signer_def accepts_signatures_def node_id_full split: prod.splits)

text \<open>C5: two nodes negotiate a key, provided that their identifiers are made from their public keys, that the
  coordinates of these keys fill their 32 bytes (see C6), and that the node lookup each of them makes for the
  identifier of the other returns that node first, at the address it is used from.  Then the negotiation
  succeeds, and both end with a session of the same key and the same expiration date: the initiator's outgoing
  session to the responder and the responder's ingoing session from the initiator.  The key handed to the
  caller is that key, and the expiration is 60 seconds after the initiator's acknowledgement.\<close>

theorem honest_nodes_agree:
  assumes "honest_signer cA keyA gA cB" "honest_signer cB keyB gB cA"
    and "finds cA (g_dhtMyID gB) addrB" "finds cB (g_dhtMyID gA) addrA"
  shows "\<exists>ksA' ksB' key. negotiate cA cB token rndA rndB nowA nowB addrA addrB gA gB ksA ksB = Some (ksA', ksB', key)
    \<and> sessions_of (ks_activeOutgoing ksA') (g_dhtMyID gB) =
        sessions_of (ks_activeOutgoing ksA) (g_dhtMyID gB) @ [NewDiffieHellmanSession key (nowA + seconds 60)]
    \<and> sessions_of (ks_activeIngoing ksB') (g_dhtMyID gA) =
        sessions_of (ks_activeIngoing ksB) (g_dhtMyID gA) @ [NewDiffieHellmanSession key (nowA + seconds 60)]"
  by (rule negotiation_agrees [OF assms(1,2) [THEN honest_signer_accepted] assms(3,4)])

text \<open>Two nodes that verify by comparing the key that is read from the identifier.\<close>

definition keyed_peer :: "int \<times> int \<Rightarrow> Gossiper" where
  "keyed_peer key = (example_peer 1)\<lparr>g_dhtMyID := InitialRandNodeID (fst key) (snd key)\<rparr>"

definition keyed_crypto :: "address \<Rightarrow> int \<times> int \<Rightarrow> crypto" where
  "keyed_crypto addr key = (example_crypto addr (g_dhtMyID (keyed_peer key)))\<lparr>cr_verify := (\<lambda>k h r s. k = key)\<rparr>"

theorem honest_nodes_agree_witness:
  "\<exists>ksA ksB key. negotiate (keyed_crypto ''b'' (2 ^ 251, 2 ^ 252)) (keyed_crypto ''a'' (2 ^ 250, 2 ^ 249 + 1))
      (replicate 64 9) [5] [6] 100 200 ''a'' ''b'' (keyed_peer (2 ^ 250, 2 ^ 249 + 1)) (keyed_peer (2 ^ 251, 2 ^ 252))
      emptyKeyState emptyKeyState = Some (ksA, ksB, key)
    \<and> sessions_of (ks_activeOutgoing ksA) (InitialRandNodeID (2 ^ 251) (2 ^ 252)) = [NewDiffieHellmanSession key (100 + seconds 60)]
    \<and> sessions_of (ks_activeIngoing ksB) (InitialRandNodeID (2 ^ 250) (2 ^ 249 + 1)) = [NewDiffieHellmanSession key (100 + seconds 60)]"
proof -
  let ?A = "(2 ^ 250, 2 ^ 249 + 1) :: int \<times> int" and ?B = "(2 ^ 251, 2 ^ 252) :: int \<times> int"
  have s: "honest_signer (keyed_crypto a ?B) ?A (keyed_peer ?A) (keyed_crypto a' ?A)"
    "honest_signer (keyed_crypto a' ?A) ?B (keyed_peer ?B) (keyed_crypto a ?B)" for a a'
    by (simp_all add: honest_signer_def keyed_crypto_def keyed_peer_def example_crypto_def)
  have f: "finds (keyed_crypto a k) (g_dhtMyID (keyed_peer k)) a" for a k
    by (simp add: finds_def keyed_crypto_def example_crypto_def)
  have e: "sessions_of (ks_activeOutgoing emptyKeyState) i = []" "sessions_of (ks_activeIngoing emptyKeyState) i = []" for i
    by (simp_all add: emptyKeyState_def sessions_of_def)
  have i: "g_dhtMyID (keyed_peer key) = InitialRandNodeID (fst key) (snd key)" for key by (simp add: keyed_peer_def)
  show ?thesis
    using honest_nodes_agree [OF s f f, of "''b''" "''a''" "replicate 64 9" "[5]" "[6]" 100 200 emptyKeyState emptyKeyState]
    unfolding e append_Nil unfolding i fst_conv snd_conv .
qed

end
