(* ===== verification/WebCrawler.thy ===== *)
theory WebCrawler
  imports DhtStore GoText
begin

text \<open>
  The crawler, \<open>src/webcrawler/webcrawler.go\<close>: how a page is turned into hyperlinks and keyword
  frequencies, and the loop that visits one page after the other and reports to the node through
  packets.  The HTTP client, the HTML parser (goquery), the list of stop words, the stemmer and the
  gob coding are third-party or standard packages that are only called: they are the record \<open>web\<close>.
  The regular expressions are written out.  Texts are byte strings, as in Go.
\<close>

section \<open>Packets and state\<close>

record CitationsPackage =
  cip_CitationsList :: "Citations list"

record IndexPackage =
  ip_KeywordFrequencies :: "(string, int) gomap"
  ip_Url :: string

record PageHashPackage =
  ph_Hash :: TypeID
  ph_Type :: string

record PastMapPackage =
  pmp_Content :: bytes

record DoneCrawl =
  dc_Delete :: bool

record CrawlerPacket =
  cp_HyperlinkPackage :: "HyperlinkPackage option"
  cp_OutBoundLinks :: "OutBoundLinksPackage option"
  cp_CitationsPackage :: "CitationsPackage option"
  cp_IndexPackage :: "IndexPackage option"
  cp_PageHash :: "PageHashPackage option"
  cp_ResChan :: "nat option"
  cp_Sender :: string
  cp_PastMapPackage :: "PastMapPackage option"
  cp_Done :: "DoneCrawl option"

definition emptyCrawlerPacket :: CrawlerPacket where
  "emptyCrawlerPacket = \<lparr>cp_HyperlinkPackage = None, cp_OutBoundLinks = None, cp_CitationsPackage = None,
     cp_IndexPackage = None, cp_PageHash = None, cp_ResChan = None, cp_Sender = '''', cp_PastMapPackage = None, cp_Done = None\<rparr>"

record PageInfo =
  pi_Hyperlinks :: "string list"
  pi_KeywordFrequencies :: "(string, int) gomap"
  pi_Hash :: TypeID

record Crawler =
  wc_crawlQueue :: "string list"
  wc_domain :: string
  wc_Leader :: bool
  wc_past :: "(string, bool) gomap"
  wc_IsCrawling :: bool

definition New_Crawler :: "bool \<Rightarrow> Crawler" where
  "New_Crawler leader = \<lparr>wc_crawlQueue = [], wc_domain = ''http://en.wikipedia.org'', wc_Leader = leader,
     wc_past = [], wc_IsCrawling = False\<rparr>"

definition Start_Crawler :: "(string, bool) gomap \<Rightarrow> Crawler \<Rightarrow> Crawler" where
  "Start_Crawler past wc = wc\<lparr>wc_past := past\<rparr>"

text \<open>
  What the crawler calls.  \<open>web_Remove\<close> removes the elements a selector finds, \<open>web_Texts\<close> and
  \<open>web_Attrs\<close> read the text or an attribute of each of them; \<open>web_CleanString\<close> removes stop words
  and \<open>web_StemString\<close> reduces a word to its stem.
\<close>

record 'doc web =
  web_Get :: "string \<Rightarrow> bytes option"
  web_NewDocument :: "bytes \<Rightarrow> 'doc option"
  web_ParseRequestURI :: "string \<Rightarrow> string option"
  web_Remove :: "string \<Rightarrow> 'doc \<Rightarrow> 'doc"
  web_RemoveClass :: "string \<Rightarrow> 'doc \<Rightarrow> 'doc"
  web_Texts :: "string \<Rightarrow> 'doc \<Rightarrow> string list"
  web_Attrs :: "string \<Rightarrow> string \<Rightarrow> 'doc \<Rightarrow> string option list"
  web_Text :: "'doc \<Rightarrow> string"
  web_CleanString :: "string \<Rightarrow> string"
  web_StemString :: "string \<Rightarrow> string"
  web_Gob :: "(string, bool) gomap \<Rightarrow> bytes option"
  web_sha512 :: "bytes \<Rightarrow> TypeID"

section \<open>Text\<close>

definition is_letter :: "char \<Rightarrow> bool" where
  "is_letter c = (let n = of_char c :: nat in (97 \<le> n \<and> n \<le> 122) \<or> (65 \<le> n \<and> n \<le> 90))"

text \<open>\<open>[^a-zA-Z]+\<close> replaced by a blank: \<open>gap\<close> says that the blank of the current gap is written.\<close>

fun replace_gaps :: "bool \<Rightarrow> string \<Rightarrow> string" where
  "replace_gaps gap [] = []"
| "replace_gaps gap (c # cs) =
     (if is_letter c then c # replace_gaps False cs
      else if gap then replace_gaps True cs
      else CHR '' '' # replace_gaps True cs)"

definition extractText :: "string \<Rightarrow> string" where
  "extractText text = replace_gaps False text"

definition validWord :: "string \<Rightarrow> bool" where
  "validWord word = (word \<noteq> [] \<and> list_all is_letter word)"

definition validURL :: "string \<Rightarrow> bool" where
  "validURL href = (href \<noteq> [] \<and> list_all (\<lambda>c. is_letter c \<or> c = CHR ''/'' \<or> c = CHR ''_'') href)"

definition MinWordLen :: nat where "MinWordLen = 3"

definition page_words :: "'doc web \<Rightarrow> string \<Rightarrow> string list" where
  "page_words w text =
     (let tokens = strings_Split (web_CleanString w (extractText text)) (CHR '' '')
      in map (web_StemString w) (filter (\<lambda>word. \<not> length word < MinWordLen \<and> validWord word) tokens))"

definition extractWords :: "'doc web \<Rightarrow> 'doc \<Rightarrow> string list" where
  "extractWords w doc = concat (map (page_words w) (web_Texts w ''p'' doc))"

text \<open>Only local links are kept.  An empty attribute is indexed at 0, which panics.\<close>

fun local_links :: "string option list \<Rightarrow> string list outcome" where
  "local_links [] = Inr []"
| "local_links (None # hrefs) = local_links hrefs"
| "local_links (Some href # hrefs) =
     (case href of
        [] \<Rightarrow> Inl (Panic ''index out of range'')
      | c # _ \<Rightarrow>
          if c \<noteq> CHR ''/'' \<or> \<not> validURL href then local_links hrefs
          else obind (local_links hrefs) (\<lambda>urls. Inr (href # urls)))"

definition extractHyperLinks :: "'doc web \<Rightarrow> 'doc \<Rightarrow> string list outcome" where
  "extractHyperLinks w doc = local_links (web_Attrs w ''a'' ''href'' doc)"

definition toRemove :: "string list" where
  "toRemove = [''script'', ''head'', ''style'', ''img'', ''span'', ''div[id=mw-navigation]'', ''div[id=toc]'',
     ''div[id=Further_reading]'', ''div[id=External_links]'', ''div[id=catlinks]'', ''div[id=footer]'', ''div[class=nowraplinks]'']"

definition cleanPage :: "'doc web \<Rightarrow> 'doc \<Rightarrow> 'doc" where
  "cleanPage w doc = web_RemoveClass w ''nowraplinks'' (web_RemoveClass w ''reflist'' (fold (web_Remove w) toRemove doc))"

definition getPage :: "'doc web \<Rightarrow> string \<Rightarrow> Crawler \<Rightarrow> 'doc option" where
  "getPage w url wc =
     (case web_Get w (wc_domain wc @ url) of None \<Rightarrow> None | Some body \<Rightarrow> web_NewDocument w body)"

definition removeDuplicates :: "string list \<Rightarrow> string list" where
  "removeDuplicates strs =
     snd (fold (\<lambda>entry (keys, list). if gm_load keys entry = None then (gm_store entry True keys, list @ [entry]) else (keys, list))
       strs ([] :: (string, bool) gomap, []))"

definition keywordFrequency :: "string list \<Rightarrow> (string, int) gomap" where
  "keywordFrequency keywords =
     fold (\<lambda>keyword frequencies. case gm_load frequencies keyword of
         None \<Rightarrow> gm_store keyword 1 frequencies
       | Some val \<Rightarrow> gm_store keyword (val + 1) frequencies) keywords []"

text \<open>
  The document is copied before it is cleaned, but the copy shares the tree: the hash is taken of
  the text of the cleaned page.  A URL that does not parse leaves a nil pointer, which is read
  after the download.
\<close>

definition crawlUrl :: "'doc web \<Rightarrow> string \<Rightarrow> Crawler \<Rightarrow> PageInfo option outcome" where
  "crawlUrl w urlString wc =
     (case getPage w urlString wc of
        None \<Rightarrow> Inr None
      | Some rawDoc \<Rightarrow>
          (let doc = cleanPage w rawDoc in
           if web_ParseRequestURI w urlString = None then Inl (Panic ''nil pointer'')
           else obind (extractHyperLinks w doc) (\<lambda>urls.
             Inr (Some \<lparr>pi_Hyperlinks = removeDuplicates urls,
               pi_KeywordFrequencies = keywordFrequency (extractWords w doc),
               pi_Hash = GenerateKeyHash (web_sha512 w) (web_Text w doc)\<rparr>))))"

section \<open>The queue in memory\<close>

definition Crawled :: "string \<Rightarrow> Crawler \<Rightarrow> bool" where
  "Crawled url wc = (gm_load (wc_past wc) url \<noteq> None)"

definition popQueue :: "Crawler \<Rightarrow> (Crawler \<times> string) outcome" where
  "popQueue wc = (case wc_crawlQueue wc of
      [] \<Rightarrow> Inl (Panic ''index out of range'')
    | x # xs \<Rightarrow> Inr (wc\<lparr>wc_crawlQueue := xs\<rparr>, x))"

definition updateQueue :: "string list \<Rightarrow> Crawler \<Rightarrow> Crawler" where
  "updateQueue hyperlinks wc =
     wc\<lparr>wc_crawlQueue := wc_crawlQueue wc @ filter (\<lambda>h. \<not> Crawled h wc) hyperlinks\<rparr>"

section \<open>The loop\<close>

definition done_packet :: "bool \<Rightarrow> CrawlerPacket" where
  "done_packet d = emptyCrawlerPacket\<lparr>cp_Done := Some \<lparr>dc_Delete = d\<rparr>\<rparr>"

definition page_hash_packet :: "TypeID \<Rightarrow> string \<Rightarrow> CrawlerPacket" where
  "page_hash_packet h t = emptyCrawlerPacket\<lparr>cp_PageHash := Some \<lparr>ph_Hash = h, ph_Type = t\<rparr>\<rparr>"

text \<open>The links that are new to this crawler; they are entered into the past.\<close>

fun filter_past :: "string list \<Rightarrow> Crawler \<Rightarrow> string list \<times> Crawler" where
  "filter_past [] wc = ([], wc)"
| "filter_past (h # hs) wc =
     (if Crawled h wc then filter_past hs wc
      else let (ls, wc') = filter_past hs (wc\<lparr>wc_past := gm_store h True (wc_past wc)\<rparr>) in (h # ls, wc'))"

definition links_packet :: "string \<Rightarrow> PageInfo \<Rightarrow> CrawlerPacket" where
  "links_packet nextPage page = emptyCrawlerPacket\<lparr>cp_OutBoundLinks :=
     Some \<lparr>obl_Url = nextPage, obl_OutBoundLinks = pi_Hyperlinks page\<rparr>\<rparr>"

definition citations_packet :: "string \<Rightarrow> PageInfo \<Rightarrow> CrawlerPacket" where
  "citations_packet nextPage page = emptyCrawlerPacket\<lparr>cp_CitationsPackage :=
     Some \<lparr>cip_CitationsList = map (\<lambda>link. \<lparr>cit_Url = link, cit_CitedBy = [nextPage]\<rparr>) (pi_Hyperlinks page)\<rparr>\<rparr>"

text \<open>The packets for a page whose hash was not found in the table.\<close>

definition index_page :: "'doc web \<Rightarrow> string \<Rightarrow> PageInfo \<Rightarrow> Crawler \<Rightarrow> Crawler \<times> CrawlerPacket list" where
  "index_page w nextPage page wc =
     (let (filteredHyperLinks, wc) = filter_past (pi_Hyperlinks page) wc in
      (wc, [links_packet nextPage page, citations_packet nextPage page] @
        (case web_Gob w (wc_past wc) of
           None \<Rightarrow> [done_packet True]
         | Some b \<Rightarrow>
             [emptyCrawlerPacket\<lparr>cp_PastMapPackage := Some \<lparr>pmp_Content = b\<rparr>\<rparr>,
              emptyCrawlerPacket\<lparr>cp_HyperlinkPackage := Some \<lparr>hl_Links = filteredHyperLinks, hl_Encrypted = False, hl_EncryptedLinks = []\<rparr>\<rparr>,
              page_hash_packet (pi_Hash page) ''store'',
              emptyCrawlerPacket\<lparr>cp_IndexPackage := Some \<lparr>ip_KeywordFrequencies = pi_KeywordFrequencies page, ip_Url = nextPage\<rparr>\<rparr>,
              done_packet True])))"

text \<open>
  One iteration.  The lookup of the page hash is answered on the channel \<open>c\<close>; \<open>found\<close> is the
  answer.
\<close>

definition crawl :: "'doc web \<Rightarrow> nat \<Rightarrow> (TypeID \<Rightarrow> bool) \<Rightarrow> string \<Rightarrow> Crawler \<Rightarrow> (Crawler \<times> CrawlerPacket list) outcome" where
  "crawl w c found nextPage wc =
     (let wc = wc\<lparr>wc_IsCrawling := True\<rparr> in
      obind (crawlUrl w nextPage wc) (\<lambda>page.
        case page of
          None \<Rightarrow> Inr (wc, [done_packet True])
        | Some page \<Rightarrow>
            (let lookup = (page_hash_packet (pi_Hash page) ''lookup'')\<lparr>cp_ResChan := Some c\<rparr> in
             if found (pi_Hash page) then Inr (wc, [lookup, done_packet True])
             else let (wc, packets) = index_page w nextPage page wc in Inr (wc, lookup # packets))))"

section \<open>A page\<close>

text \<open>A run of the crawler: the pages it is given, the channel and the answers to the lookups.\<close>

fun crawl_run :: "'doc web \<Rightarrow> (string \<times> nat \<times> (TypeID \<Rightarrow> bool)) list \<Rightarrow> Crawler \<Rightarrow> (Crawler \<times> CrawlerPacket list) outcome" where
  "crawl_run w [] wc = Inr (wc, [])"
| "crawl_run w ((p, c, found) # ps) wc =
     obind (crawl w c found p wc) (\<lambda>(wc, packets).
     obind (crawl_run w ps wc) (\<lambda>(wc, packets'). Inr (wc, packets @ packets')))"

definition handed_out :: "CrawlerPacket list \<Rightarrow> string list" where
  "handed_out packets = concat (map hl_Links (List.map_filter cp_HyperlinkPackage packets))"

definition past_urls :: "Crawler \<Rightarrow> string set" where
  "past_urls wc = {u. Crawled u wc}"

lemma handed_out_simps [simp]:
  "handed_out [] = []"
  "handed_out (p # ps) = (case cp_HyperlinkPackage p of None \<Rightarrow> [] | Some h \<Rightarrow> hl_Links h) @ handed_out ps"
  "handed_out (ps @ qs) = handed_out ps @ handed_out qs"
  by (simp_all add: handed_out_def List.map_filter_simps List.map_filter_def split: option.split)

lemma crawler_packet_simps [simp]:
  "cp_HyperlinkPackage (done_packet d) = None" "cp_HyperlinkPackage (page_hash_packet h t) = None"
  "cp_HyperlinkPackage (links_packet u page) = None" "cp_HyperlinkPackage (citations_packet u page) = None"
  "cp_HyperlinkPackage emptyCrawlerPacket = None"
  "cp_Done (page_hash_packet h t) = None" "cp_Done (links_packet u page) = None"
  "cp_Done (citations_packet u page) = None" "cp_Done emptyCrawlerPacket = None" "cp_Done (done_packet d) = Some \<lparr>dc_Delete = d\<rparr>"
  by (simp_all add: done_packet_def page_hash_packet_def links_packet_def citations_packet_def emptyCrawlerPacket_def)

lemma Crawled_past: "Crawled u wc \<longleftrightarrow> u \<in> past_urls wc"
  by (simp add: past_urls_def)

lemma past_urls_store [simp]:
  "past_urls (wc\<lparr>wc_past := gm_store h b (wc_past wc)\<rparr>) = insert h (past_urls wc)"
  by (auto simp: past_urls_def Crawled_def gm.load_store)

lemma filter_past_result:
  "filter_past hs wc = (ls, wc') \<Longrightarrow>
   distinct ls \<and> set ls = set hs - past_urls wc \<and> past_urls wc' = past_urls wc \<union> set hs"
proof (induction hs arbitrary: wc ls)
  case (Cons h hs)
  show ?case
  proof (cases "Crawled h wc")
    case True
    then show ?thesis using Cons.IH [of wc ls] Cons.prems by (auto simp: Crawled_past)
  next
    case False
    then obtain ls1 where r: "filter_past hs (wc\<lparr>wc_past := gm_store h True (wc_past wc)\<rparr>) = (ls1, wc')" "ls = h # ls1"
      using Cons.prems by (auto split: prod.splits)
    then show ?thesis using Cons.IH [OF r(1)] False by (auto simp: Crawled_past)
  qed
qed simp

text \<open>What one page hands out, and how its packets end.\<close>

lemma index_page_result:
  assumes "index_page w url page wc = (wc', packets)"
  shows "distinct (handed_out packets) \<and> set (handed_out packets) \<inter> past_urls wc = {}
      \<and> set (handed_out packets) \<subseteq> past_urls wc' \<and> past_urls wc' = past_urls wc \<union> set (pi_Hyperlinks page)"
    and "web_Gob w (wc_past wc') \<noteq> None \<Longrightarrow> past_urls wc' = past_urls wc \<union> set (handed_out packets)"
    and "filter (\<lambda>p. cp_Done p \<noteq> None) packets = [done_packet True] \<and> last packets = done_packet True"
proof -
  obtain ls where f: "filter_past (pi_Hyperlinks page) wc = (ls, wc')"
    and p: "packets = [links_packet url page, citations_packet url page] @
        (case web_Gob w (wc_past wc') of
           None \<Rightarrow> [done_packet True]
         | Some b \<Rightarrow>
             [emptyCrawlerPacket\<lparr>cp_PastMapPackage := Some \<lparr>pmp_Content = b\<rparr>\<rparr>,
              emptyCrawlerPacket\<lparr>cp_HyperlinkPackage := Some \<lparr>hl_Links = ls, hl_Encrypted = False, hl_EncryptedLinks = []\<rparr>\<rparr>,
              page_hash_packet (pi_Hash page) ''store'',
              emptyCrawlerPacket\<lparr>cp_IndexPackage := Some \<lparr>ip_KeywordFrequencies = pi_KeywordFrequencies page, ip_Url = url\<rparr>\<rparr>,
              done_packet True])"
    using assms by (auto simp: index_page_def split: prod.splits)
  note r = filter_past_result [OF f]
  have h: "handed_out packets = (if web_Gob w (wc_past wc') = None then [] else ls)"
    by (auto simp: p split: option.split)
  show "distinct (handed_out packets) \<and> set (handed_out packets) \<inter> past_urls wc = {}
      \<and> set (handed_out packets) \<subseteq> past_urls wc' \<and> past_urls wc' = past_urls wc \<union> set (pi_Hyperlinks page)"
    using r by (auto simp: h)
  show "past_urls wc' = past_urls wc \<union> set (handed_out packets)" if "web_Gob w (wc_past wc') \<noteq> None"
    using r that by (auto simp: h)
  show "filter (\<lambda>p. cp_Done p \<noteq> None) packets = [done_packet True] \<and> last packets = done_packet True"
    by (auto simp: p split: option.split)
qed

lemma crawl_cases:
  assumes "crawl w c found url wc = Inr (wc', packets)"
  obtains (none) "packets = [done_packet True]" "wc' = wc\<lparr>wc_IsCrawling := True\<rparr>"
  | page :: PageInfo where "packets = [(page_hash_packet (pi_Hash page) ''lookup'')\<lparr>cp_ResChan := Some c\<rparr>, done_packet True]"
      "wc' = wc\<lparr>wc_IsCrawling := True\<rparr>"
  | page :: PageInfo and rest where "packets = (page_hash_packet (pi_Hash page) ''lookup'')\<lparr>cp_ResChan := Some c\<rparr> # rest"
      "index_page w url page (wc\<lparr>wc_IsCrawling := True\<rparr>) = (wc', rest)"
proof -
  obtain p where p: "crawlUrl w url (wc\<lparr>wc_IsCrawling := True\<rparr>) = Inr p"
    using assms unfolding crawl_def Let_def obind_Inr_iff by blast
  show thesis
  proof (cases p)
    case None
    then show thesis using assms p that(1) by (simp add: crawl_def)
  next
    case (Some page)
    obtain wc2 rest where i: "index_page w url page (wc\<lparr>wc_IsCrawling := True\<rparr>) = (wc2, rest)" by (cases "index_page w url page (wc\<lparr>wc_IsCrawling := True\<rparr>)")
    show thesis using assms p that(2) [of page] that(3) [of page rest] i
      by (simp add: crawl_def Some Let_def split: if_splits)
  qed
qed

lemma past_urls_crawling [simp]: "past_urls (wc\<lparr>wc_IsCrawling := b\<rparr>) = past_urls wc"
  by (simp add: past_urls_def Crawled_def)

lemma hash_lookup_packet [simp]:
  "cp_HyperlinkPackage ((page_hash_packet h t)\<lparr>cp_ResChan := c\<rparr>) = None"
  "cp_Done ((page_hash_packet h t)\<lparr>cp_ResChan := c\<rparr>) = None"
  by (simp_all add: page_hash_packet_def emptyCrawlerPacket_def)

lemma crawl_result:
  assumes "crawl w c found url wc = Inr (wc', packets)"
  shows "distinct (handed_out packets) \<and> set (handed_out packets) \<inter> past_urls wc = {}
      \<and> past_urls wc \<union> set (handed_out packets) \<subseteq> past_urls wc'"
    and "\<forall>m. web_Gob w m \<noteq> None \<Longrightarrow> past_urls wc' = past_urls wc \<union> set (handed_out packets)"
    and "filter (\<lambda>p. cp_Done p \<noteq> None) packets = [done_packet True] \<and> last packets = done_packet True"
proof -
  show "distinct (handed_out packets) \<and> set (handed_out packets) \<inter> past_urls wc = {}
      \<and> past_urls wc \<union> set (handed_out packets) \<subseteq> past_urls wc'"
    using assms
  proof (cases rule: crawl_cases)
    case (3 page rest)
    then show ?thesis using index_page_result(1) [OF 3(2)] by auto
  qed simp_all
  show "past_urls wc' = past_urls wc \<union> set (handed_out packets)" if "\<forall>m. web_Gob w m \<noteq> None"
    using assms by (cases rule: crawl_cases) (use that in \<open>auto dest: index_page_result(2)\<close>)
  show "filter (\<lambda>p. cp_Done p \<noteq> None) packets = [done_packet True] \<and> last packets = done_packet True"
    using assms
  proof (cases rule: crawl_cases)
    case (3 page rest)
    then have "rest \<noteq> []" by (auto simp: index_page_def split: prod.splits)
    then show ?thesis using 3 index_page_result(3) [OF 3(2)] by simp
  qed simp_all
qed

section \<open>Runs\<close>

lemma crawl_run_Cons:
  assumes "crawl_run w (pp # ps) wc = Inr (wc', packets)"
  obtains p c found wc1 p1 p2 where "pp = (p, c, found)" "crawl w c found p wc = Inr (wc1, p1)"
    "crawl_run w ps wc1 = Inr (wc', p2)" "packets = p1 @ p2"
  using assms by (cases pp) (auto simp: obind_Inr_iff)

lemma crawl_run_once:
  assumes "crawl_run w ps wc = Inr (wc', packets)"
  shows "distinct (handed_out packets) \<and> set (handed_out packets) \<inter> past_urls wc = {}
      \<and> past_urls wc \<union> set (handed_out packets) \<subseteq> past_urls wc'"
  using assms
proof (induction ps arbitrary: wc packets)
  case (Cons pp ps)
  from Cons.prems obtain p c found wc1 p1 p2 where r: "crawl w c found p wc = Inr (wc1, p1)"
    "crawl_run w ps wc1 = Inr (wc', p2)" "packets = p1 @ p2" by (rule crawl_run_Cons)
  show ?case using Cons.IH [OF r(2)] crawl_result(1) [OF r(1)] by (auto simp: r(3))
qed simp

lemma crawl_run_all:
  assumes "crawl_run w ps wc = Inr (wc', packets)" "\<forall>m. web_Gob w m \<noteq> None"
  shows "past_urls wc' = past_urls wc \<union> set (handed_out packets)"
  using assms(1)
proof (induction ps arbitrary: wc packets)
  case (Cons pp ps)
  from Cons.prems obtain p c found wc1 p1 p2 where r: "crawl w c found p wc = Inr (wc1, p1)"
    "crawl_run w ps wc1 = Inr (wc', p2)" "packets = p1 @ p2" by (rule crawl_run_Cons)
  show ?case using Cons.IH [OF r(2)] crawl_result(2) [OF r(1) assms(2)] by (auto simp: r(3))
qed simp

lemma crawl_run_done:
  assumes "crawl_run w ps wc = Inr (wc', packets)"
  shows "filter (\<lambda>p. cp_Done p \<noteq> None) packets = replicate (length ps) (done_packet True)"
  using assms
proof (induction ps arbitrary: wc packets)
  case (Cons pp ps)
  from Cons.prems obtain p c found wc1 p1 p2 where r: "crawl w c found p wc = Inr (wc1, p1)"
    "crawl_run w ps wc1 = Inr (wc', p2)" "packets = p1 @ p2" by (rule crawl_run_Cons)
  show ?case using Cons.IH [OF r(2)] crawl_result(3) [OF r(1)] by (simp add: r(3))
qed simp

section \<open>Links and words of a page\<close>

lemma local_links_result:
  "local_links hrefs = (if Some '''' \<in> set hrefs then Inl (Panic ''index out of range'')
     else Inr (List.map_filter (\<lambda>h. case h of None \<Rightarrow> None
        | Some u \<Rightarrow> if hd u = CHR ''/'' \<and> validURL u then Some u else None) hrefs))"
proof (induction hrefs rule: local_links.induct)
  case (3 href hrefs)
  then show ?case by (cases href) (auto simp: List.map_filter_simps)
qed (simp_all add: List.map_filter_simps)

text \<open>The first occurrence of every string is kept; \<open>remdups\<close> keeps the last ones.\<close>

abbreviation first_occurrences :: "string list \<Rightarrow> string list" where
  "first_occurrences strs \<equiv> rev (remdups (rev strs))"

lemma removeDuplicates_fold:
  "case fold (\<lambda>entry (keys, list). if gm_load keys entry = None then (gm_store entry True keys, list @ [entry]) else (keys, list))
      strs ([] :: (string, bool) gomap, []) of (keys, list) \<Rightarrow> list = first_occurrences strs \<and> (\<forall>e. gm_load keys e = None \<longleftrightarrow> e \<notin> set strs)"
proof (induction strs rule: rev_induct)
  case (snoc x xs)
  let ?f = "\<lambda>entry (keys :: (string, bool) gomap, list). if gm_load keys entry = None then (gm_store entry True keys, list @ [entry]) else (keys, list)"
  obtain keys list where r: "fold ?f xs ([], []) = (keys, list)" by (cases "fold ?f xs ([], [])")
  then have "list = first_occurrences xs" "\<And>e. gm_load keys e = None \<longleftrightarrow> e \<notin> set xs" using snoc by simp_all
  then show ?case by (auto simp: r gm.load_store)
qed (simp add: gm_load_def)

lemma removeDuplicates_result: "removeDuplicates strs = first_occurrences strs"
  using removeDuplicates_fold [of strs] by (auto simp: removeDuplicates_def split: prod.splits)

lemma keywordFrequency_fold:
  "gm_load (fold (\<lambda>keyword frequencies. case gm_load frequencies keyword of
         None \<Rightarrow> gm_store keyword 1 frequencies
       | Some val \<Rightarrow> gm_store keyword (val + 1) frequencies) ks m) k
   = (if k \<in> set ks then Some (int (count_list ks k) + (case gm_load m k of None \<Rightarrow> 0 | Some v \<Rightarrow> v)) else gm_load m k)"
  by (induction ks arbitrary: m) (auto simp: gm.load_store split: option.splits)

lemma keywordFrequency_count:
  "gm_load (keywordFrequency ks) k = (if k \<in> set ks then Some (int (count_list ks k)) else None)"
  unfolding keywordFrequency_def keywordFrequency_fold by (simp add: gm_load_def)

lemma replace_gaps_letters: "filter is_letter (replace_gaps gap s) = filter is_letter s"
  by (induction gap s rule: replace_gaps.induct) (auto simp: is_letter_def)

lemma replace_gaps_blanks: "set (replace_gaps gap s) \<subseteq> {c. is_letter c} \<union> {CHR '' ''}"
  by (induction gap s rule: replace_gaps.induct) auto

section \<open>A visited page\<close>

abbreviation href_attrs :: "'doc web \<Rightarrow> 'doc \<Rightarrow> string option list" where
  "href_attrs w rawDoc \<equiv> web_Attrs w ''a'' ''href'' (cleanPage w rawDoc)"

definition local_urls :: "string option list \<Rightarrow> string list" where
  "local_urls hrefs = List.map_filter (\<lambda>h. case h of None \<Rightarrow> None
     | Some u \<Rightarrow> if hd u = CHR ''/'' \<and> validURL u then Some u else None) hrefs"

lemma set_local_urls: "set (local_urls hrefs) = {u. Some u \<in> set hrefs \<and> hd u = CHR ''/'' \<and> validURL u}"
  by (force simp: local_urls_def List.map_filter_def split: option.splits if_splits)

lemma extractHyperLinks_result:
  "extractHyperLinks w (cleanPage w rawDoc) = (if Some '''' \<in> set (href_attrs w rawDoc) then Inl (Panic ''index out of range'')
     else Inr (local_urls (href_attrs w rawDoc)))"
  by (simp add: extractHyperLinks_def local_links_result local_urls_def)

definition page_info :: "'doc web \<Rightarrow> 'doc \<Rightarrow> PageInfo" where
  "page_info w rawDoc = \<lparr>pi_Hyperlinks = removeDuplicates (local_urls (href_attrs w rawDoc)),
     pi_KeywordFrequencies = keywordFrequency (extractWords w (cleanPage w rawDoc)),
     pi_Hash = GenerateKeyHash (web_sha512 w) (web_Text w (cleanPage w rawDoc))\<rparr>"

lemma crawlUrl_result:
  assumes "getPage w url wc = Some rawDoc"
  shows "crawlUrl w url wc = (if web_ParseRequestURI w url = None then Inl (Panic ''nil pointer'')
     else if Some '''' \<in> set (href_attrs w rawDoc) then Inl (Panic ''index out of range'')
     else Inr (Some (page_info w rawDoc)))"
  unfolding crawlUrl_def assms option.case Let_def extractHyperLinks_result page_info_def by simp

lemma page_info_links: "pi_Hyperlinks (page_info w rawDoc) = first_occurrences (local_urls (href_attrs w rawDoc))"
  by (simp add: page_info_def removeDuplicates_result)

lemma page_info_keywords:
  "gm_load (pi_KeywordFrequencies (page_info w rawDoc)) k =
     (let n = count_list (extractWords w (cleanPage w rawDoc)) k in if n = 0 then None else Some (int n))"
  by (simp add: page_info_def keywordFrequency_count count_list_0_iff Let_def)

section \<open>Properties\<close>

text \<open>C16: a crawler hands a link out at most once, over all the pages it visits: the hyperlinks that
  it sends for distribution are pairwise different and were not in its past when the run began; as
  long as the past can be encoded, every link that enters the past is handed out; and each page
  ends with exactly one request for the next one.\<close>

theorem links_handed_out_once:
  assumes "crawl_run w ps wc = Inr (wc', packets)"
  shows "distinct (handed_out packets) \<and> (\<forall>u \<in> set (handed_out packets). \<not> Crawled u wc \<and> Crawled u wc')
    \<and> ((\<forall>m. web_Gob w m \<noteq> None) \<longrightarrow> (\<forall>u. Crawled u wc' \<longrightarrow> Crawled u wc \<or> u \<in> set (handed_out packets)))
    \<and> filter (\<lambda>p. cp_Done p \<noteq> None) packets = replicate (length ps) (done_packet True)"
  using crawl_run_once [OF assms] crawl_run_all [OF assms] crawl_run_done [OF assms] by (auto simp: Crawled_past)

text \<open>C27: what is extracted from a downloaded page: its links are the local ones of the cleaned
  document (those that begin with a slash and consist of letters, slashes and underscores), in the order
  of their first occurrences and each once; its keywords are the stems of its words with the number of their
  occurrences; its hash is that of the text of the cleaned document.  The process ends exactly when the
  address is not usable or, if it is, some link of the cleaned document is empty.\<close>

theorem page_is_extracted:
  assumes "getPage w url wc = Some rawDoc"
  defines "doc \<equiv> cleanPage w rawDoc"
  defines "hrefs \<equiv> web_Attrs w ''a'' ''href'' doc"
  shows "\<exists>page. crawlUrl w url wc =
      (if web_ParseRequestURI w url = None then Inl (Panic ''nil pointer'')
       else if Some '''' \<in> set hrefs then Inl (Panic ''index out of range'')
       else Inr (Some page))
    \<and> pi_Hyperlinks page = first_occurrences [u. Some u \<leftarrow> hrefs, hd u = CHR ''/'' \<and> validURL u]
    \<and> (\<forall>k. gm_load (pi_KeywordFrequencies page) k =
         (let n = count_list (extractWords w doc) k in if n = 0 then None else Some (int n)))
    \<and> pi_Hash page = GenerateKeyHash (web_sha512 w) (web_Text w doc)"
proof -
  have l: "local_urls hrefs = [u. Some u \<leftarrow> hrefs, hd u = CHR ''/'' \<and> validURL u]"
    by (induction hrefs) (auto simp: local_urls_def List.map_filter_simps split: option.splits)
  have "pi_Hyperlinks (page_info w rawDoc) = first_occurrences (local_urls hrefs)"
    by (simp only: page_info_links doc_def hrefs_def)
  then have "pi_Hyperlinks (page_info w rawDoc) = first_occurrences [u. Some u \<leftarrow> hrefs, hd u = CHR ''/'' \<and> validURL u]"
    unfolding l .
  then show ?thesis unfolding doc_def hrefs_def
    by (intro exI [of _ "page_info w rawDoc"] conjI allI crawlUrl_result [OF assms(1)] page_info_keywords) (simp_all add: page_info_def)
qed

text \<open>A web for the examples: a document is its list of links.\<close>

definition example_web :: "string option list web" where
  "example_web = \<lparr>web_Get = (\<lambda>u. Some (string_bytes u)), web_NewDocument = (\<lambda>b. Some [Some ''/b'', None, Some ''/b'', Some ''/c#d'']),
     web_ParseRequestURI = Some, web_Remove = (\<lambda>s d. d), web_RemoveClass = (\<lambda>s d. d), web_Texts = (\<lambda>s d. [''tree and tree'']),
     web_Attrs = (\<lambda>e a d. d), web_Text = (\<lambda>d. ''tree and tree''), web_CleanString = id, web_StemString = id,
     web_Gob = (\<lambda>m. Some []), web_sha512 = id\<rparr>"

lemma map_sum_InrE: "map_sum id f r = Inr y \<Longrightarrow> \<exists>x. r = Inr x \<and> f x = y"
  by (cases r) auto

lemma example_url: "validURL ''/b''" "\<not> validURL ''/c#d''"
  by code_simp+

lemma example_local_urls: "local_urls [Some ''/b'', None, Some ''/b'', Some ''/c#d''] = [''/b'', ''/b'']"
  using example_url by (simp add: local_urls_def List.map_filter_simps)

abbreviation example_doc :: "string option list" where
  "example_doc \<equiv> [Some ''/b'', None, Some ''/b'', Some ''/c#d'']"

lemma example_web_simps:
  "cleanPage example_web d = d" "web_Attrs example_web e a d = d" "web_ParseRequestURI example_web u = Some u"
  "getPage example_web u wc = Some example_doc" "web_Gob example_web m = Some []"
  by (simp_all add: cleanPage_def toRemove_def getPage_def example_web_def)

lemma example_page: "crawlUrl example_web u wc = Inr (Some (page_info example_web example_doc))"
proof -
  have "Some '''' \<notin> set example_doc" by simp
  then show ?thesis unfolding crawlUrl_result [OF example_web_simps(4)] example_web_simps by (simp only: if_False option.distinct)
qed

lemma example_page_links: "pi_Hyperlinks (page_info example_web example_doc) = [''/b'']"
  unfolding page_info_links example_web_simps example_local_urls by simp

theorem links_handed_out_once_witness:
  "\<exists>wc' packets. crawl_run example_web [(''/a'', 0, \<lambda>_. False), (''/b'', 1, \<lambda>_. False)] (New_Crawler True) = Inr (wc', packets)
    \<and> handed_out packets = [''/b''] \<and> Crawled ''/b'' wc'"
proof -
  let ?r = "crawl_run example_web [(''/a'', 0, \<lambda>_. False), (''/b'', 1, \<lambda>_. False)] (New_Crawler True)"
  have m: "map_sum id (handed_out \<circ> snd) ?r = Inr [''/b'']"
    by (simp add: crawl_def example_page index_page_def example_page_links example_web_simps New_Crawler_def Crawled_def
        gm_load_def gm_store_def Let_def ex_bool_eq)
  obtain x where x: "?r = Inr x" "handed_out (snd x) = [''/b'']" using map_sum_InrE [OF m] unfolding comp_apply by blast
  obtain wc' packets where x2: "x = (wc', packets)" by (cases x)
  have r: "?r = Inr (wc', packets)" and h: "handed_out packets = [''/b'']" using x unfolding x2 by simp_all
  have "\<forall>u \<in> set (handed_out packets). \<not> Crawled u (New_Crawler True) \<and> Crawled u wc'"
    using links_handed_out_once [OF r] by blast
  then show ?thesis using r h by (intro exI [of _ wc'] exI [of _ packets]) simp
qed

theorem page_is_extracted_witness:
  "\<exists>p :: PageInfo. crawlUrl example_web ''/a'' (New_Crawler True) = Inr (Some p) \<and> pi_Hyperlinks p = [''/b'']"
proof -
  have u: "[u. Some u \<leftarrow> example_doc, hd u = CHR ''/'' \<and> validURL u] = [''/b'', ''/b'']" using example_url by simp
  show ?thesis
    using page_is_extracted [OF example_web_simps(4) [of "''/a''" "New_Crawler True"], unfolded example_web_simps u]
    by (auto simp: example_page)
qed


end
