(* ===== verification/Crawler.thy ===== *)
theory Crawler
  imports DhtHandlers WebCrawler
begin

text \<open>
  The node's side of the crawler, \<open>src/gossiper/webcrawler.go\<close>: what the crawler reports is spread
  over the hash table, links go to the crawler whose identifier is closest to them, and the queue
  in the database feeds the crawler.  The results of \<open>LookupNodes\<close>, nonces, keys and the order in
  which a map of destinations is visited are the arguments \<open>crawl_inputs\<close>.  A pause is left out, and
  a goroutine that the listener starts is run at once; what is to be done again later is an action.
\<close>

section \<open>Inputs and actions\<close>

text \<open>The coding of packages and the length of an encoded item are protobuf's.\<close>

record 'db crawl_env =
  ce_dht :: "'db dht_env"
  ce_EncodeHyperlinks :: "HyperlinkPackage \<Rightarrow> bytes option"
  ce_DecodeHyperlinks :: "bytes \<Rightarrow> HyperlinkPackage option"
  ce_KeywordLength :: "KeywordToURLMap \<Rightarrow> nat"
  ce_LinksLength :: "OutBoundLinksPackage \<Rightarrow> nat"
  ce_CitationsLength :: "Citations \<Rightarrow> nat"
  ce_DecodePast :: "bytes \<Rightarrow> (string, bool) gomap option"

text \<open>For each destination and batch: the nonce, the initialisation vector and the key \<open>getKey\<close> hands over.\<close>

record crawl_inputs =
  ci_LookupNodes :: "TypeID \<Rightarrow> NodeState list"
  ci_LookupFound :: "TypeID \<Rightarrow> bool"
  ci_Order :: "NodeState list \<Rightarrow> NodeState list"
  ci_Nonce :: "NodeState \<Rightarrow> nat \<Rightarrow> uint64"
  ci_IV :: "NodeState \<Rightarrow> nat \<Rightarrow> bytes"
  ci_Key :: "NodeState \<Rightarrow> nat \<Rightarrow> bytes option option"

record 'db CrawlNode =
  cn_node :: "'db DhtNode"
  cn_crawler :: Crawler

datatype crawl_action =
    CrDht dht_action
  | CrRetry HyperlinkPackage
  | CrOut CrawlerPacket
  | CrNext string
  | CrAnswer nat bool

section \<open>Batches\<close>

definition udpMaxSize :: nat where "udpMaxSize = 7500"

text \<open>The item that does not fit any more ends the batch; it is not put into the next one.\<close>

definition batch_step :: "('a \<Rightarrow> nat) \<Rightarrow> 'a \<Rightarrow> 'a list \<times> nat \<times> 'a list list \<Rightarrow> 'a list \<times> nat \<times> 'a list list" where
  "batch_step len item = (\<lambda>(packet, packetSize, batches).
     if packetSize + len item < udpMaxSize then (packet @ [item], packetSize + len item, batches)
     else ([], 0, batches @ [packet]))"

definition createUDPBatches :: "('a \<Rightarrow> nat) \<Rightarrow> 'a list \<Rightarrow> 'a list list" where
  "createUDPBatches len items =
     (let (packet, packetSize, batches) = fold (batch_step len) items ([], 0, [])
      in if length packet > 0 then batches @ [packet] else batches)"

section \<open>Sending\<close>

definition hyperlinks :: "string list \<Rightarrow> HyperlinkPackage" where
  "hyperlinks links = \<lparr>hl_Links = links, hl_Encrypted = False, hl_EncryptedLinks = []\<rparr>"

definition hyperlink_packet :: "string list \<Rightarrow> GossipPacket" where
  "hyperlink_packet links = emptyPacket\<lparr>gp_HyperlinkMessage := Some (hyperlinks links)\<rparr>"

definition encrypted_packet :: "bytes \<Rightarrow> TypeID \<Rightarrow> GossipPacket" where
  "encrypted_packet cipherText origin =
     emptyPacket\<lparr>gp_EncryptedWebCrawlerPacket := Some \<lparr>ecp_Packet = cipherText, ecp_Origin = origin\<rparr>\<rparr>"

text \<open>Without a key the remaining batches are given up.\<close>

fun send_url_batches :: "'db crawl_env \<Rightarrow> crawl_inputs \<Rightarrow> 'db DhtNode \<Rightarrow> NodeState \<Rightarrow> nat \<Rightarrow> string list list
    \<Rightarrow> dht_action list outcome" where
  "send_url_batches env inp node owner i [] = Inr []"
| "send_url_batches env inp node owner i (tmp # batches) =
     (if dn_encryptDHTOperations node then
        (case ci_Key inp owner i of
           Some (Some key) \<Rightarrow>
             if length key = 0 then Inl (Fatal ''Fetching of key failed.'')
             else (case ce_EncodeHyperlinks env (hyperlinks tmp) of
                None \<Rightarrow> Inl (Panic ''protobuf'')
              | Some packetBytes \<Rightarrow>
                  obind (aes_New key) (\<lambda>aes.
                  obind (send_url_batches env inp node owner (Suc i) batches) (\<lambda>acts.
                    Inr (DhtSend (encrypted_packet (Encrypt (de_gseal (ce_dht env)) (ci_IV inp owner i) aes packetBytes)
                           (g_dhtMyID (dn_g node))) (ns_Address owner) # acts))))
         | _ \<Rightarrow> Inr [])
      else
        obind (send_url_batches env inp node owner (Suc i) batches) (\<lambda>acts.
          Inr (DhtSend (hyperlink_packet tmp) (ns_Address owner) # acts)))"

definition batchSendURLS :: "'db crawl_env \<Rightarrow> crawl_inputs \<Rightarrow> 'db DhtNode \<Rightarrow> NodeState \<Rightarrow> string list \<Rightarrow> dht_action list outcome" where
  "batchSendURLS env inp node owner links = send_url_batches env inp node owner 0 (createUDPBatches length links)"

definition zero_id :: TypeID where "zero_id = replicate 64 0"

text \<open>A store request, encrypted if the node does so; an error is only printed.\<close>

definition send_store_batch :: "'db crawl_env \<Rightarrow> crawl_inputs \<Rightarrow> 'db DhtNode \<Rightarrow> NodeState \<Rightarrow> nat \<Rightarrow> TypeID \<Rightarrow> bytes \<Rightarrow> string
    \<Rightarrow> dht_action list outcome" where
  "send_store_batch env inp node owner i key packetBytes bucket =
     (if dn_encryptDHTOperations node then
        obind (sendEncryptedStore (ce_dht env) (ci_Nonce inp owner i) (ci_IV inp owner i) (ci_Key inp owner i) owner key packetBytes bucket node)
          (\<lambda>(acts, _). Inr acts)
      else Inr (sendStore (ci_Nonce inp owner i) owner key packetBytes bucket node))"

definition keyword_batch :: "KeywordToURLMap list \<Rightarrow> BatchMessage" where
  "keyword_batch ms = \<lparr>bm_UrlMapList = ms, bm_OutBoundLinksPackages = [], bm_Citations = [], bm_PageRankUpdates = []\<rparr>"

definition links_batch :: "OutBoundLinksPackage list \<Rightarrow> BatchMessage" where
  "links_batch ms = \<lparr>bm_UrlMapList = [], bm_OutBoundLinksPackages = ms, bm_Citations = [], bm_PageRankUpdates = []\<rparr>"

definition citations_batch :: "Citations list \<Rightarrow> BatchMessage" where
  "citations_batch ms = \<lparr>bm_UrlMapList = [], bm_OutBoundLinksPackages = [], bm_Citations = ms, bm_PageRankUpdates = []\<rparr>"

abbreviation EncodeBatch :: "'db crawl_env \<Rightarrow> BatchMessage \<Rightarrow> bytes option" where
  "EncodeBatch env \<equiv> bc_EncodeBatch (de_codec (ce_dht env))"

text \<open>A batch of keywords that cannot be encoded ends the loop, one of citations the process.\<close>

fun send_keyword_batches :: "'db crawl_env \<Rightarrow> crawl_inputs \<Rightarrow> 'db DhtNode \<Rightarrow> NodeState \<Rightarrow> nat \<Rightarrow> KeywordToURLMap list list
    \<Rightarrow> dht_action list outcome" where
  "send_keyword_batches env inp node owner i [] = Inr []"
| "send_keyword_batches env inp node owner i (tmp # batches) =
     (case EncodeBatch env (keyword_batch tmp) of
        None \<Rightarrow> Inr []
      | Some packetBytes \<Rightarrow>
          obind (send_store_batch env inp node owner i zero_id packetBytes KeywordsBucket) (\<lambda>acts.
          obind (send_keyword_batches env inp node owner (Suc i) batches) (\<lambda>acts'. Inr (acts @ acts'))))"

definition batchSendKeywords :: "'db crawl_env \<Rightarrow> crawl_inputs \<Rightarrow> 'db DhtNode \<Rightarrow> NodeState \<Rightarrow> KeywordToURLMap list \<Rightarrow> dht_action list outcome" where
  "batchSendKeywords env inp node owner items =
     send_keyword_batches env inp node owner 0 (createUDPBatches (ce_KeywordLength env) items)"

fun send_citation_batches :: "'db crawl_env \<Rightarrow> crawl_inputs \<Rightarrow> 'db DhtNode \<Rightarrow> NodeState \<Rightarrow> nat \<Rightarrow> Citations list list
    \<Rightarrow> dht_action list outcome" where
  "send_citation_batches env inp node owner i [] = Inr []"
| "send_citation_batches env inp node owner i (tmp # batches) =
     (case EncodeBatch env (citations_batch tmp) of
        None \<Rightarrow> Inl (Panic ''protobuf'')
      | Some packetBytes \<Rightarrow>
          obind (send_store_batch env inp node owner i zero_id packetBytes CitationsBucket) (\<lambda>acts.
          obind (send_citation_batches env inp node owner (Suc i) batches) (\<lambda>acts'. Inr (acts @ acts'))))"

definition batchSendCitations :: "'db crawl_env \<Rightarrow> crawl_inputs \<Rightarrow> 'db DhtNode \<Rightarrow> NodeState \<Rightarrow> Citations list \<Rightarrow> dht_action list outcome" where
  "batchSendCitations env inp node owner items =
     send_citation_batches env inp node owner 0 (createUDPBatches (ce_CitationsLength env) items)"

section \<open>Destinations\<close>

text \<open>
  Items are grouped by the first node \<open>LookupNodes\<close> returns for their key.  When it returns none the
  loop ends; the result says whether it ran to its end.
\<close>

fun group_items :: "('a \<Rightarrow> NodeState list) \<Rightarrow> 'a list \<Rightarrow> (NodeState, 'a list) gomap \<Rightarrow> (NodeState, 'a list) gomap \<times> bool" where
  "group_items lookup [] domains = (domains, True)"
| "group_items lookup (item # items) domains =
     (case lookup item of
        [] \<Rightarrow> (domains, False)
      | owner # _ \<Rightarrow>
          (case gm_load domains owner of
             None \<Rightarrow> group_items lookup items (gm_store owner [item] domains)
           | Some xs \<Rightarrow> group_items lookup items (gm_store owner (xs @ [item]) domains)))"

text \<open>The groups, in the order in which the map is visited.\<close>

definition visit :: "crawl_inputs \<Rightarrow> (NodeState, 'a list) gomap \<Rightarrow> (NodeState \<times> 'a list) list" where
  "visit inp domains = map (\<lambda>owner. (owner, case gm_load domains owner of None \<Rightarrow> [] | Some xs \<Rightarrow> xs)) (ci_Order inp (gm_keys domains))"

abbreviation key_of :: "'db crawl_env \<Rightarrow> string \<Rightarrow> TypeID" where
  "key_of env \<equiv> GenerateKeyHash (de_sha512 (ce_dht env))"

fun queue_links :: "'db crawl_env \<Rightarrow> string list \<Rightarrow> 'db DhtNode \<Rightarrow> 'db DhtNode outcome" where
  "queue_links env [] node = Inr node"
| "queue_links env (link # links) node =
     obind (UpdateCrawlQueue (de_bolt (ce_dht env)) (de_sha512 (ce_dht env)) (string_bytes link) (dn_db node)) (\<lambda>(db, added).
       if added then queue_links env links (node\<lparr>dn_db := db\<rparr>) else Inl (Fatal ''Error saving link''))"

fun distribute_domains :: "'db crawl_env \<Rightarrow> crawl_inputs \<Rightarrow> (NodeState \<times> string list) list \<Rightarrow> 'db DhtNode
    \<Rightarrow> ('db DhtNode \<times> dht_action list) outcome" where
  "distribute_domains env inp [] node = Inr (node, [])"
| "distribute_domains env inp ((owner, links) # domains) node =
     (if ns_Address owner = g_address (dn_g node) then
        obind (queue_links env links node) (\<lambda>node. distribute_domains env inp domains node)
      else
        obind (batchSendURLS env inp node owner links) (\<lambda>acts.
        obind (distribute_domains env inp domains node) (\<lambda>(node, acts'). Inr (node, acts @ acts'))))"

text \<open>When no owner is found the whole package is distributed again later, besides what is sent now.\<close>

definition distributeHyperlinks :: "'db crawl_env \<Rightarrow> crawl_inputs \<Rightarrow> HyperlinkPackage \<Rightarrow> 'db DhtNode
    \<Rightarrow> ('db DhtNode \<times> crawl_action list) outcome" where
  "distributeHyperlinks env inp packet node =
     (let (domains, all) = group_items (\<lambda>link. ci_LookupNodes inp (key_of env link)) (hl_Links packet) []
      in obind (distribute_domains env inp (visit inp domains) node) (\<lambda>(node, acts).
           Inr (node, (if all then [] else [CrRetry packet]) @ map CrDht acts)))"

section \<open>Storing what was found\<close>

text \<open>A batch for this node is handed to \<open>replyStore\<close> directly.\<close>

definition store_here :: "'db crawl_env \<Rightarrow> crawl_inputs \<Rightarrow> NodeState \<Rightarrow> nat \<Rightarrow> TypeID \<Rightarrow> bytes \<Rightarrow> string \<Rightarrow> 'db DhtNode
    \<Rightarrow> ('db DhtNode \<times> dht_action list) outcome" where
  "store_here env inp owner i key packetBytes bucket node =
     (case msg_Store (newDHTStore (ci_Nonce inp owner i) key packetBytes bucket False (dn_g node)) of
        None \<Rightarrow> Inl (Panic ''nil pointer'')
      | Some st \<Rightarrow> run_store (ce_dht env) st node)"

fun save_link_batches :: "'db crawl_env \<Rightarrow> crawl_inputs \<Rightarrow> NodeState \<Rightarrow> TypeID \<Rightarrow> nat \<Rightarrow> OutBoundLinksPackage list list \<Rightarrow> 'db DhtNode
    \<Rightarrow> ('db DhtNode \<times> dht_action list) outcome" where
  "save_link_batches env inp closest key i [] node = Inr (node, [])"
| "save_link_batches env inp closest key i (tmp # batches) node =
     (case EncodeBatch env (links_batch tmp) of
        None \<Rightarrow> Inl (Panic ''protobuf'')
      | Some packetBytes \<Rightarrow>
          obind (if ns_NodeID closest = g_dhtMyID (dn_g node)
                 then store_here env inp closest i (g_dhtMyID (dn_g node)) packetBytes LinksBucket node
                 else obind (send_store_batch env inp node closest i key packetBytes LinksBucket) (\<lambda>acts. Inr (node, acts)))
            (\<lambda>(node, acts).
          obind (save_link_batches env inp closest key (Suc i) batches node) (\<lambda>(node, acts'). Inr (node, acts @ acts'))))"

definition saveOutboundLinksInDHT :: "'db crawl_env \<Rightarrow> crawl_inputs \<Rightarrow> OutBoundLinksPackage \<Rightarrow> 'db DhtNode
    \<Rightarrow> ('db DhtNode \<times> dht_action list) outcome" where
  "saveOutboundLinksInDHT env inp outboundLinks node =
     (let key = key_of env (obl_Url outboundLinks) in
      case ci_LookupNodes inp key of
        [] \<Rightarrow> Inr (node, [])
      | closest # _ \<Rightarrow>
          save_link_batches env inp closest key 0
            (createUDPBatches (ce_LinksLength env)
              (map (\<lambda>v. \<lparr>obl_Url = obl_Url outboundLinks, obl_OutBoundLinks = [v]\<rparr>) (obl_OutBoundLinks outboundLinks))) node)"

fun save_citations :: "'db crawl_env \<Rightarrow> crawl_inputs \<Rightarrow> (NodeState \<times> Citations list) list \<Rightarrow> 'db DhtNode
    \<Rightarrow> ('db DhtNode \<times> dht_action list) outcome" where
  "save_citations env inp [] node = Inr (node, [])"
| "save_citations env inp ((dest, batch) # destinations) node =
     (if ns_Address dest = g_address (dn_g node) then
        (case EncodeBatch env (citations_batch batch) of
           None \<Rightarrow> Inr (node, [])
         | Some packetBytes \<Rightarrow>
             obind (store_here env inp dest 0 (ns_NodeID dest) packetBytes CitationsBucket node) (\<lambda>(node, acts).
             obind (save_citations env inp destinations node) (\<lambda>(node, acts'). Inr (node, acts @ acts'))))
      else
        obind (batchSendCitations env inp node dest batch) (\<lambda>acts.
        obind (save_citations env inp destinations node) (\<lambda>(node, acts'). Inr (node, acts @ acts'))))"

definition saveCitationsInDHT :: "'db crawl_env \<Rightarrow> crawl_inputs \<Rightarrow> CitationsPackage \<Rightarrow> 'db DhtNode
    \<Rightarrow> ('db DhtNode \<times> dht_action list) outcome" where
  "saveCitationsInDHT env inp citationsPackage node =
     (let (destinations, _) = group_items (\<lambda>c. ci_LookupNodes inp (key_of env (cit_Url c))) (cip_CitationsList citationsPackage) []
      in save_citations env inp (visit inp destinations) node)"

fun save_keywords :: "'db crawl_env \<Rightarrow> crawl_inputs \<Rightarrow> (NodeState \<times> KeywordToURLMap list) list \<Rightarrow> 'db DhtNode
    \<Rightarrow> ('db DhtNode \<times> dht_action list) outcome" where
  "save_keywords env inp [] node = Inr (node, [])"
| "save_keywords env inp ((dest, batch) # destinations) node =
     (if ns_Address dest = g_address (dn_g node) then
        (case EncodeBatch env (keyword_batch batch) of
           None \<Rightarrow> Inr (node, [])
         | Some packetBytes \<Rightarrow>
             obind (store_here env inp dest 0 (ns_NodeID dest) packetBytes KeywordsBucket node) (\<lambda>(node, acts).
             obind (save_keywords env inp destinations node) (\<lambda>(node, acts'). Inr (node, acts @ acts'))))
      else
        obind (batchSendKeywords env inp node dest batch) (\<lambda>acts.
        obind (save_keywords env inp destinations node) (\<lambda>(node, acts'). Inr (node, acts @ acts'))))"

definition saveKeywordsInDHT :: "'db crawl_env \<Rightarrow> crawl_inputs \<Rightarrow> IndexPackage \<Rightarrow> 'db DhtNode
    \<Rightarrow> ('db DhtNode \<times> dht_action list) outcome" where
  "saveKeywordsInDHT env inp indexPackage node =
     (let items = map (\<lambda>(k, v). \<lparr>kum_Keyword = k, kum_LinkData = Some [(ip_Url indexPackage, v)]\<rparr>) (ip_KeywordFrequencies indexPackage);
          (destinations, _) = group_items (\<lambda>m. ci_LookupNodes inp (key_of env (kum_Keyword m))) items []
      in save_keywords env inp (visit inp destinations) node)"

text \<open>The page hash is sent even when this node is the closest.\<close>

definition savePageHashInDHT :: "crawl_inputs \<Rightarrow> PageHashPackage \<Rightarrow> 'db DhtNode \<Rightarrow> dht_action list" where
  "savePageHashInDHT inp pageHash node =
     (case ci_LookupNodes inp (ph_Hash pageHash) of
        [] \<Rightarrow> []
      | closest # _ \<Rightarrow> sendStore (ci_Nonce inp closest 0) closest (ph_Hash pageHash) [] PageHashBucket node)"

section \<open>Starting, and the listener\<close>

definition bytes_string :: "bytes \<Rightarrow> string" where
  "bytes_string b = map (\<lambda>x. char_of (unat x)) b"

definition root_url :: string where "root_url = ''/wiki/Outline_of_academic_disciplines''"

definition initiateFreshCrawl :: "'db crawl_env \<Rightarrow> 'db CrawlNode \<Rightarrow> ('db CrawlNode \<times> crawl_action list) outcome" where
  "initiateFreshCrawl env cn =
     (let cn = cn\<lparr>cn_crawler := Start_Crawler [] (cn_crawler cn)\<rparr> in
      if wc_Leader (cn_crawler cn) then
        obind (UpdateCrawlQueue (de_bolt (ce_dht env)) (de_sha512 (ce_dht env)) (string_bytes root_url) (dn_db (cn_node cn)))
          (\<lambda>(db, added).
            if added then Inr (cn\<lparr>cn_node := (cn_node cn)\<lparr>dn_db := db\<rparr>\<rparr>, [CrOut (done_packet False)])
            else Inl (Fatal ''Error saving root url.''))
      else Inr (cn, []))"

definition initiateAndRestoreCrawl :: "'db crawl_env \<Rightarrow> 'db CrawlNode \<Rightarrow> ('db CrawlNode \<times> crawl_action list) outcome" where
  "initiateAndRestoreCrawl env cn =
     obind (GetPast (de_bolt (ce_dht env)) (de_sha512 (ce_dht env)) (bc_Keywords (de_codec (ce_dht env))) (ce_DecodePast env)
         (dn_db (cn_node cn)))
       (\<lambda>past. Inr (cn\<lparr>cn_crawler := Start_Crawler past (cn_crawler cn)\<rparr>, [CrOut (done_packet False)]))"

definition startCrawler :: "'db crawl_env \<Rightarrow> 'db CrawlNode \<Rightarrow> ('db CrawlNode \<times> crawl_action list) outcome" where
  "startCrawler env cn =
     obind (CrawlQueueHeadPointer (de_bolt (ce_dht env)) (de_sha512 (ce_dht env)) (bc_Keywords (de_codec (ce_dht env)))
         (dn_db (cn_node cn)))
       (\<lambda>queue. if queue = 0 then initiateFreshCrawl env cn else initiateAndRestoreCrawl env cn)"

text \<open>The next page; with an empty queue the packet is sent again two seconds later.\<close>

definition crawl_done :: "'db crawl_env \<Rightarrow> DoneCrawl \<Rightarrow> 'db DhtNode \<Rightarrow> ('db DhtNode \<times> crawl_action list) outcome" where
  "crawl_done env d node =
     (let B = de_bolt (ce_dht env); sha512 = de_sha512 (ce_dht env); kc = bc_Keywords (de_codec (ce_dht env)) in
      obind (if dc_Delete d then obind (DeleteCrawlQueueHead B sha512 kc (dn_db node)) (\<lambda>(db, _). Inr (node\<lparr>dn_db := db\<rparr>))
             else Inr node) (\<lambda>node.
      obind (CrawlQueueHead B sha512 kc (dn_db node)) (\<lambda>(db, head).
        Inr (node\<lparr>dn_db := db\<rparr>,
          case head of
            None \<Rightarrow> [CrOut (emptyCrawlerPacket\<lparr>cp_Done := Some d\<rparr>)]
          | Some head \<Rightarrow> [CrNext (bytes_string head)]))))"

definition crawl_page_hash :: "crawl_inputs \<Rightarrow> CrawlerPacket \<Rightarrow> PageHashPackage \<Rightarrow> 'db DhtNode \<Rightarrow> crawl_action list" where
  "crawl_page_hash inp packet pageHash node =
     (if ph_Type pageHash = ''store'' then map CrDht (savePageHashInDHT inp pageHash node)
      else case cp_ResChan packet of
        None \<Rightarrow> []
      | Some c \<Rightarrow> [CrAnswer c (ci_LookupFound inp (ph_Hash pageHash))])"

definition webCrawlerListen :: "'db crawl_env \<Rightarrow> crawl_inputs \<Rightarrow> CrawlerPacket \<Rightarrow> 'db DhtNode
    \<Rightarrow> ('db DhtNode \<times> crawl_action list) outcome" where
  "webCrawlerListen env inp packet node =
     (case cp_OutBoundLinks packet of
        Some l \<Rightarrow> obind (saveOutboundLinksInDHT env inp l node) (\<lambda>(node, acts). Inr (node, map CrDht acts))
      | None \<Rightarrow>
     (case cp_CitationsPackage packet of
        Some c \<Rightarrow> obind (saveCitationsInDHT env inp c node) (\<lambda>(node, acts). Inr (node, map CrDht acts))
      | None \<Rightarrow>
     (case cp_HyperlinkPackage packet of
        Some h \<Rightarrow> distributeHyperlinks env inp h node
      | None \<Rightarrow>
     (case cp_IndexPackage packet of
        Some i \<Rightarrow> obind (saveKeywordsInDHT env inp i node) (\<lambda>(node, acts). Inr (node, map CrDht acts))
      | None \<Rightarrow>
      if \<exists>h. cp_PageHash packet = Some h \<and> ph_Type h \<in> {''store'', ''lookup''} then
        Inr (node, crawl_page_hash inp packet (the (cp_PageHash packet)) node)
      else
     (case cp_PastMapPackage packet of
        Some p \<Rightarrow>
          obind (SavePast (de_bolt (ce_dht env)) (de_sha512 (ce_dht env)) (pmp_Content p) (dn_db node)) (\<lambda>db.
            Inr (node\<lparr>dn_db := db\<rparr>, []))
      | None \<Rightarrow>
     (case cp_Done packet of
        Some d \<Rightarrow> crawl_done env d node
      | None \<Rightarrow> Inr (node, [])))))))"

section \<open>Links from other crawlers\<close>

text \<open>An error is only printed.\<close>

fun save_received_links :: "'db crawl_env \<Rightarrow> string list \<Rightarrow> 'db DhtNode \<Rightarrow> 'db DhtNode outcome" where
  "save_received_links env [] node = Inr node"
| "save_received_links env (link # links) node =
     obind (UpdateCrawlQueue (de_bolt (ce_dht env)) (de_sha512 (ce_dht env)) (string_bytes link) (dn_db node)) (\<lambda>(db, _).
       save_received_links env links (node\<lparr>dn_db := db\<rparr>))"

definition receive_hyperlinks :: "'db crawl_env \<Rightarrow> HyperlinkPackage \<Rightarrow> 'db CrawlNode \<Rightarrow> ('db CrawlNode \<times> crawl_action list) outcome" where
  "receive_hyperlinks env p cn =
     obind (save_received_links env (hl_Links p) (cn_node cn)) (\<lambda>node.
       Inr (cn\<lparr>cn_node := node\<rparr>, if wc_IsCrawling (cn_crawler cn) then [] else [CrOut (done_packet False)]))"

text \<open>\<open>None\<close>: nothing is ever sent on the channel, so the goroutine that waits for it stays.\<close>

definition decryptHyperlinkPackage :: "'db crawl_env \<Rightarrow> time \<Rightarrow> EncryptedCrawlerPacket \<Rightarrow> KeyState
    \<Rightarrow> (HyperlinkPackage option \<times> KeyState) outcome" where
  "decryptHyperlinkPackage env now encryptedPacket ks =
     obind (decrypt_from (ce_dht env) now (ecp_Origin encryptedPacket) (ecp_Packet encryptedPacket) ks) (\<lambda>(r, ks).
       case r of
         Some (Some data) \<Rightarrow>
           (case ce_DecodeHyperlinks env data of
              None \<Rightarrow> Inl (Fatal ''error decrypting crawler packet'')
            | Some p \<Rightarrow> Inr (Some p, ks))
       | _ \<Rightarrow> Inr (None, ks))"

definition receive_encrypted_hyperlinks :: "'db crawl_env \<Rightarrow> time \<Rightarrow> EncryptedCrawlerPacket \<Rightarrow> 'db CrawlNode
    \<Rightarrow> ('db CrawlNode \<times> crawl_action list) outcome" where
  "receive_encrypted_hyperlinks env now e cn =
     obind (decryptHyperlinkPackage env now e (dn_keys (cn_node cn))) (\<lambda>(p, ks).
       let cn = cn\<lparr>cn_node := (cn_node cn)\<lparr>dn_keys := ks\<rparr>\<rparr> in
       case p of None \<Rightarrow> Inr (cn, []) | Some p \<Rightarrow> receive_hyperlinks env p cn)"

text \<open>The two cases of \<open>receiveExternalUDP\<close> for crawler packets.\<close>

definition crawler_receive :: "'db crawl_env \<Rightarrow> time \<Rightarrow> GossipPacket \<Rightarrow> 'db CrawlNode \<Rightarrow> ('db CrawlNode \<times> crawl_action list) outcome" where
  "crawler_receive env now packet cn =
     (case subtype_of packet of
        HyperlinkS p \<Rightarrow> receive_hyperlinks env p cn
      | EncryptedS e \<Rightarrow> receive_encrypted_hyperlinks env now e cn
      | _ \<Rightarrow> Inr (cn, []))"

section \<open>What batches hold\<close>

abbreviation size_of :: "('a \<Rightarrow> nat) \<Rightarrow> 'a list \<Rightarrow> nat" where
  "size_of len items \<equiv> sum_list (map len items)"

lemma batch_step_eq:
  "batch_step len item (packet, n, batches) =
     (if n + len item < udpMaxSize then (packet @ [item], n + len item, batches) else ([], 0, batches @ [packet]))"
  by (simp add: batch_step_def)

lemma batch_fold:
  assumes "fold (batch_step len) items (packet, size_of len packet, batches) = (packet', n, batches')"
    and "size_of len packet < udpMaxSize"
  shows "n = size_of len packet' \<and> n < udpMaxSize
    \<and> (\<exists>new. batches' = batches @ new \<and> (\<forall>b \<in> set new. size_of len b < udpMaxSize)
        \<and> subseq (concat new @ packet') (packet @ items)
        \<and> length (concat new @ packet') + length new = length (packet @ items)
        \<and> (new = [] \<longleftrightarrow> size_of len (packet @ items) < udpMaxSize))"
  using assms
proof (induction items arbitrary: packet batches)
  case (Cons item items)
  show ?case
  proof (cases "size_of len packet + len item < udpMaxSize")
    case True
    then have "fold (batch_step len) items (packet @ [item], size_of len (packet @ [item]), batches) = (packet', n, batches')"
      using Cons.prems(1) by (simp add: batch_step_eq)
    from Cons.IH [OF this] True show ?thesis by simp
  next
    case False
    then have f: "fold (batch_step len) items ([], size_of len [], batches @ [packet]) = (packet', n, batches')"
      using Cons.prems(1) by (simp add: batch_step_eq)
    have "size_of len [] < udpMaxSize" by (simp add: udpMaxSize_def)
    from Cons.IH [OF f this] obtain new where n: "n = size_of len packet'" "n < udpMaxSize"
      "batches' = batches @ packet # new" "\<forall>b \<in> set new. size_of len b < udpMaxSize"
      "subseq (concat new @ packet') items" "length (concat new @ packet') + length new = length items" by auto
    have "subseq (packet @ concat new @ packet') (packet @ item # items)"
      using n(5) by (intro list_emb_append_mono subseq_order.refl) auto
    then show ?thesis using n Cons.prems(2) False by (intro conjI exI [of _ "packet # new"]) auto
  qed
qed simp

text \<open>The number of full packets that were put away: each costs one item.\<close>

definition overflows :: "('a \<Rightarrow> nat) \<Rightarrow> 'a list \<Rightarrow> nat" where
  "overflows len items = length (snd (snd (fold (batch_step len) items ([], 0, []))))"

lemma createUDPBatches_result:
  "(\<forall>b \<in> set (createUDPBatches len items). size_of len b < udpMaxSize)
   \<and> subseq (concat (createUDPBatches len items)) items
   \<and> length (concat (createUDPBatches len items)) + overflows len items = length items
   \<and> (overflows len items = 0 \<longleftrightarrow> size_of len items < udpMaxSize)
   \<and> length (createUDPBatches len items) \<le> overflows len items + 1
   \<and> (size_of len items < udpMaxSize \<longrightarrow> createUDPBatches len items = (if items = [] then [] else [items]))"
proof -
  obtain packet n batches where f: "fold (batch_step len) items ([], 0, []) = (packet, n, batches)" by (cases "fold (batch_step len) items ([], 0, [])") auto
  have "fold (batch_step len) items ([], size_of len [], []) = (packet, n, batches)" "size_of len [] < udpMaxSize"
    using f by (simp_all add: udpMaxSize_def)
  from batch_fold [OF this] have r: "n = size_of len packet" "n < udpMaxSize" "\<forall>b \<in> set batches. size_of len b < udpMaxSize"
    "subseq (concat batches @ packet) items" "length (concat batches @ packet) + length batches = length items"
    "batches = [] \<longleftrightarrow> size_of len items < udpMaxSize" by auto
  have e: "createUDPBatches len items = (if packet = [] then batches else batches @ [packet])" "overflows len items = length batches"
    by (simp_all add: createUDPBatches_def overflows_def f)
  have all: "packet = items" if "batches = []"
    using r(4,5) that subseq_same_length [of packet items] by simp
  show ?thesis using r all by (auto simp: e)
qed

section \<open>Groups\<close>

abbreviation owned :: "('a \<Rightarrow> NodeState list) \<Rightarrow> NodeState \<Rightarrow> 'a list \<Rightarrow> 'a list" where
  "owned lookup owner items \<equiv> filter (\<lambda>item. hd (lookup item) = owner) items"

definition group_of :: "(NodeState, 'a list) gomap \<Rightarrow> NodeState \<Rightarrow> 'a list" where
  "group_of domains owner = (case gm_load domains owner of None \<Rightarrow> [] | Some xs \<Rightarrow> xs)"

lemma group_items_step:
  assumes "lookup item = owner # rest"
  shows "group_items lookup (item # items) domains = group_items lookup items (gm_store owner (group_of domains owner @ [item]) domains)"
  using assms by (simp add: group_of_def split: option.split)

lemma gm_wf_store: "gm_wf m \<Longrightarrow> gm_wf (gm_store k v m)"
  by (rule gm.wf_store)

lemma group_items_result:
  assumes "\<forall>item \<in> set items. lookup item \<noteq> []" "gm_wf domains"
  shows "\<exists>domains'. group_items lookup items domains = (domains', True) \<and> gm_wf domains'
    \<and> (\<forall>owner. group_of domains' owner = group_of domains owner @ owned lookup owner items)
    \<and> set (gm_keys domains') = set (gm_keys domains) \<union> (hd \<circ> lookup) ` set items"
  using assms
proof (induction items arbitrary: domains)
  case (Cons item items)
  then obtain owner rest where l: "lookup item = owner # rest" by (cases "lookup item") auto
  let ?d = "gm_store owner (group_of domains owner @ [item]) domains"
  have g: "group_of ?d o' = (if o' = owner then group_of domains owner @ [item] else group_of domains o')" for o'
    by (simp add: group_of_def gm.load_store)
  have k: "set (gm_keys ?d) = insert owner (set (gm_keys domains))"
    by (auto simp: set_gm_keys gm.load_store split: if_splits)
  have "\<forall>item \<in> set items. lookup item \<noteq> []" "gm_wf ?d" using Cons.prems by (simp_all add: gm_wf_store)
  from Cons.IH [OF this] show ?case unfolding group_items_step [of lookup, OF l] by (auto simp: g k l)
qed simp

lemma visit_eq: "visit inp domains = map (\<lambda>owner. (owner, group_of domains owner)) (ci_Order inp (gm_keys domains))"
  by (simp add: visit_def group_of_def)

lemma group_items_stops:
  assumes "\<forall>item \<in> set items. lookup item \<noteq> []" "lookup item = []"
  shows "group_items lookup (items @ item # rest) domains = (fst (group_items lookup items domains), False)"
  using assms
proof (induction items arbitrary: domains)
  case (Cons i items)
  then obtain owner os where l: "lookup i = owner # os" by (cases "lookup i") auto
  show ?case using Cons unfolding append_Cons group_items_step [of lookup, OF l] by simp
qed simp

section \<open>Links on their way\<close>

text \<open>Storing succeeds: the database accepts every write to an existing bucket.\<close>

definition puts_succeed :: "'db bolt \<Rightarrow> bool" where
  "puts_succeed B \<longleftrightarrow> (\<forall>b k v d. bolt_Bucket B d b \<longrightarrow> bolt_Put B b k v d \<noteq> None)"

definition crawl_laws :: "'db crawl_env \<Rightarrow> bool" where
  "crawl_laws env \<longleftrightarrow> bolt_laws (de_bolt (ce_dht env)) \<and> inj (\<lambda>v. de_sha512 (ce_dht env) (Itob v))
     \<and> puts_succeed (de_bolt (ce_dht env))"

abbreviation q_inv :: "'db crawl_env \<Rightarrow> 'db DhtNode \<Rightarrow> nat \<Rightarrow> bool" where
  "q_inv env node \<equiv> queue_inv (de_bolt (ce_dht env)) (de_sha512 (ce_dht env)) (dn_db node)"

abbreviation q_pending :: "'db crawl_env \<Rightarrow> 'db DhtNode \<Rightarrow> nat \<Rightarrow> bytes list" where
  "q_pending env node \<equiv> pending (de_bolt (ce_dht env)) (de_sha512 (ce_dht env)) (dn_db node)"

abbreviation q_end :: "'db crawl_env \<Rightarrow> 'db DhtNode \<Rightarrow> nat" where
  "q_end env node \<equiv> queue_end (de_bolt (ce_dht env)) (dn_db node)"

lemma UpdateCrawlQueue_adds:
  assumes "crawl_laws env" "q_inv env node h" "q_end env node + 1 < 2 ^ 64"
  shows "\<exists>db. UpdateCrawlQueue (de_bolt (ce_dht env)) (de_sha512 (ce_dht env)) data (dn_db node) = Inr (db, True)
    \<and> q_inv env (node\<lparr>dn_db := db\<rparr>) h \<and> q_pending env (node\<lparr>dn_db := db\<rparr>) h = q_pending env node h @ [data]
    \<and> q_end env (node\<lparr>dn_db := db\<rparr>) = q_end env node + 1"
proof -
  let ?B = "de_bolt (ce_dht env)"
  have l: "bolt_laws ?B" "inj (\<lambda>v. de_sha512 (ce_dht env) (Itob v))" "puts_succeed ?B" using assms(1) by (simp_all add: crawl_laws_def)
  obtain db1 n where n: "bolt_NextSequence ?B CrawlQueueBucket (dn_db node) = (db1, n)" by fastforce
  have b: "bolt_Bucket ?B (dn_db node) CrawlQueueBucket" using queue_inv_buckets [OF assms(2)] by blast
  then have "bolt_Bucket ?B db1 CrawlQueueBucket" using bolt_NextSequence_laws(4) [OF l(1) n b] by simp
  then obtain db where "bolt_Put ?B CrawlQueueBucket (de_sha512 (ce_dht env) (Itob (n - 1))) data db1 = Some db"
    using l(3) unfolding puts_succeed_def by blast
  then have u: "UpdateCrawlQueue ?B (de_sha512 (ce_dht env)) data (dn_db node) = Inr (db, True)"
    using b by (simp add: UpdateCrawlQueue_def n)
  show ?thesis using u UpdateCrawlQueue_refines [OF l(1,2) assms(2) u assms(3)] by simp
qed

lemma queue_links_result:
  assumes "crawl_laws env" "q_inv env node h" "q_end env node + length links < 2 ^ 64"
  shows "\<exists>db. queue_links env links node = Inr (node\<lparr>dn_db := db\<rparr>) \<and> save_received_links env links node = Inr (node\<lparr>dn_db := db\<rparr>)
    \<and> q_inv env (node\<lparr>dn_db := db\<rparr>) h \<and> q_end env (node\<lparr>dn_db := db\<rparr>) = q_end env node + length links
    \<and> q_pending env (node\<lparr>dn_db := db\<rparr>) h = q_pending env node h @ map string_bytes links"
  using assms(2,3)
proof (induction links arbitrary: node)
  case Nil
  then show ?case by (intro exI [of _ "dn_db node"]) simp
next
  case (Cons link links)
  have "q_end env node + 1 < 2 ^ 64" using Cons.prems(2) by simp
  then obtain db where u: "UpdateCrawlQueue (de_bolt (ce_dht env)) (de_sha512 (ce_dht env)) (string_bytes link) (dn_db node) = Inr (db, True)"
    and s: "q_inv env (node\<lparr>dn_db := db\<rparr>) h" "q_pending env (node\<lparr>dn_db := db\<rparr>) h = q_pending env node h @ [string_bytes link]"
      "q_end env (node\<lparr>dn_db := db\<rparr>) = q_end env node + 1"
    using UpdateCrawlQueue_adds [OF assms(1) Cons.prems(1)] by blast
  have "q_end env (node\<lparr>dn_db := db\<rparr>) + length links < 2 ^ 64" using Cons.prems(2) s(3) by simp
  from Cons.IH [OF s(1) this] u s show ?case by auto
qed

lemma batchSendURLS_plain:
  assumes "\<not> dn_encryptDHTOperations node"
  shows "batchSendURLS env inp node owner links =
    Inr (map (\<lambda>b. DhtSend (hyperlink_packet b) (ns_Address owner)) (createUDPBatches length links))"
proof -
  have "send_url_batches env inp node owner i bs = Inr (map (\<lambda>b. DhtSend (hyperlink_packet b) (ns_Address owner)) bs)" for i bs
    using assms by (induction bs arbitrary: i) simp_all
  then show ?thesis by (simp add: batchSendURLS_def)
qed

abbreviation own_owner :: "'db DhtNode \<Rightarrow> NodeState \<Rightarrow> bool" where
  "own_owner node owner \<equiv> ns_Address owner = g_address (dn_g node)"

lemma distribute_domains_result:
  assumes "crawl_laws env" "q_inv env node h" "\<not> dn_encryptDHTOperations node"
    and "q_end env node + length (concat (map snd ds)) < 2 ^ 64"
  shows "\<exists>db. distribute_domains env inp ds node = Inr (node\<lparr>dn_db := db\<rparr>,
      concat (map (\<lambda>(owner, links). if own_owner node owner then []
        else map (\<lambda>b. DhtSend (hyperlink_packet b) (ns_Address owner)) (createUDPBatches length links)) ds))
    \<and> q_inv env (node\<lparr>dn_db := db\<rparr>) h
    \<and> q_pending env (node\<lparr>dn_db := db\<rparr>) h
        = q_pending env node h @ map string_bytes (concat (map snd (filter (own_owner node \<circ> fst) ds)))"
  using assms(2-4)
proof (induction ds arbitrary: node)
  case Nil
  then show ?case by (intro exI [of _ "dn_db node"]) simp
next
  case (Cons d ds)
  obtain owner links where d: "d = (owner, links)" by (cases d)
  show ?case
  proof (cases "own_owner node owner")
    case True
    have "q_end env node + length links < 2 ^ 64" using Cons.prems(3) by (simp add: d)
    then obtain db where u: "queue_links env links node = Inr (node\<lparr>dn_db := db\<rparr>)"
      and s: "q_inv env (node\<lparr>dn_db := db\<rparr>) h" "q_end env (node\<lparr>dn_db := db\<rparr>) = q_end env node + length links"
        "q_pending env (node\<lparr>dn_db := db\<rparr>) h = q_pending env node h @ map string_bytes links"
      using queue_links_result [OF assms(1) Cons.prems(1)] by blast
    have "q_end env (node\<lparr>dn_db := db\<rparr>) + length (concat (map snd ds)) < 2 ^ 64" using Cons.prems(3) s(2) by (simp add: d)
    from Cons.IH [OF s(1) _ this] Cons.prems(2) u s True show ?thesis by (auto simp: d)
  next
    case False
    have "q_end env node + length (concat (map snd ds)) < 2 ^ 64" using Cons.prems(3) by (simp add: d)
    from Cons.IH [OF Cons.prems(1,2) this] show ?thesis
      using False by (auto simp: d batchSendURLS_plain [OF Cons.prems(2)])
  qed
qed

section \<open>Distribution of the links of a page\<close>

abbreviation closest :: "'db crawl_env \<Rightarrow> crawl_inputs \<Rightarrow> string \<Rightarrow> NodeState list" where
  "closest env inp link \<equiv> ci_LookupNodes inp (key_of env link)"

lemma mset_filter_disj:
  "(\<And>x. x \<in> set xs \<Longrightarrow> \<not> (f x \<and> g x)) \<Longrightarrow> mset (filter (\<lambda>x. f x \<or> g x) xs) = mset (filter f xs) + mset (filter g xs)"
  by (induction xs) auto

lemma mset_owned:
  assumes "distinct os" "(\<lambda>item. hd (lookup item)) ` set items \<subseteq> set os"
  shows "mset (concat (map (\<lambda>owner. owned lookup owner items) (filter Q os)))
    = mset (filter (\<lambda>item. Q (hd (lookup item))) items)"
proof -
  have "mset (concat (map (\<lambda>owner. owned lookup owner items) ws)) = mset (filter (\<lambda>item. hd (lookup item) \<in> set ws) items)"
    if "distinct ws" for ws
    using that
  proof (induction ws)
    case (Cons o' ws)
    have "mset (filter (\<lambda>item. hd (lookup item) = o' \<or> hd (lookup item) \<in> set ws) items)
        = mset (owned lookup o' items) + mset (filter (\<lambda>item. hd (lookup item) \<in> set ws) items)"
      using Cons.prems by (intro mset_filter_disj) auto
    then show ?case using Cons by simp
  qed simp
  moreover have "filter (\<lambda>item. hd (lookup item) \<in> set (filter Q os)) items = filter (\<lambda>item. Q (hd (lookup item))) items"
    using assms(2) by (intro filter_cong) auto
  ultimately show ?thesis using assms(1) by (metis distinct_filter)
qed

lemma distributeHyperlinks_result:
  assumes "crawl_laws env" "q_inv env node h" "\<not> dn_encryptDHTOperations node"
    and "\<forall>link \<in> set (hl_Links p). closest env inp link \<noteq> []"
    and "\<And>ks. mset (ci_Order inp ks) = mset ks" "q_end env node + length (hl_Links p) < 2 ^ 64"
  shows "\<exists>db own. distributeHyperlinks env inp p node = Inr (node\<lparr>dn_db := db\<rparr>,
      map CrDht (concat (map (\<lambda>owner. if own_owner node owner then []
        else map (\<lambda>b. DhtSend (hyperlink_packet b) (ns_Address owner))
          (createUDPBatches length (owned (closest env inp) owner (hl_Links p))))
        own)))
    \<and> set own = (\<lambda>link. hd (closest env inp link)) ` set (hl_Links p) \<and> distinct own
    \<and> q_inv env (node\<lparr>dn_db := db\<rparr>) h
    \<and> (\<exists>xs. q_pending env (node\<lparr>dn_db := db\<rparr>) h = q_pending env node h @ map string_bytes xs
        \<and> mset xs = mset (filter (\<lambda>link. own_owner node (hd (closest env inp link))) (hl_Links p)))"
proof -
  let ?cl = "closest env inp" and ?links = "hl_Links p"
  have wf: "gm_wf ([] :: (NodeState, string list) gomap)" by (rule gm.wf_empty)
  obtain dom where g: "group_items ?cl ?links [] = (dom, True)" "gm_wf dom"
    "\<forall>owner. group_of dom owner = owned ?cl owner ?links" "set (gm_keys dom) = (hd \<circ> ?cl) ` set ?links"
    using group_items_result [OF assms(4) wf] by (auto simp: group_of_def gm.load_empty gm_keys_def)
  define own where "own = ci_Order inp (gm_keys dom)"
  have m: "mset own = mset (gm_keys dom)" by (simp add: own_def assms(5))
  have own: "set own = (\<lambda>link. hd (?cl link)) ` set ?links" "distinct own"
    using m g(2,4) mset_eq_setD [OF m] mset_eq_imp_distinct_iff [OF m] by (simp_all add: gm_wf_def gm_keys_def)
  have v: "visit inp dom = map (\<lambda>owner. (owner, owned ?cl owner ?links)) own"
    by (simp add: visit_eq own_def g(3))
  have perm: "mset (concat (map (\<lambda>owner. owned ?cl owner ?links) (filter Q own))) = mset (filter (\<lambda>link. Q (hd (?cl link))) ?links)" for Q
    using mset_owned [OF own(2), of ?cl ?links Q] own(1) by simp
  from perm [of "\<lambda>_. True"] have "length (concat (map snd (visit inp dom))) = length ?links"
    using mset_eq_length by (fastforce simp: v comp_def)
  then have "q_end env node + length (concat (map snd (visit inp dom))) < 2 ^ 64" using assms(6) by simp
  from distribute_domains_result [OF assms(1-3) this, where inp = inp] obtain db where
    d: "distribute_domains env inp (visit inp dom) node = Inr (node\<lparr>dn_db := db\<rparr>,
      concat (map (\<lambda>(owner, links). if own_owner node owner then []
        else map (\<lambda>b. DhtSend (hyperlink_packet b) (ns_Address owner)) (createUDPBatches length links)) (visit inp dom)))"
      "q_inv env (node\<lparr>dn_db := db\<rparr>) h"
      "q_pending env (node\<lparr>dn_db := db\<rparr>) h
        = q_pending env node h @ map string_bytes (concat (map snd (filter (own_owner node \<circ> fst) (visit inp dom))))" by blast
  have "map snd (filter (own_owner node \<circ> fst) (visit inp dom)) = map (\<lambda>owner. owned ?cl owner ?links) (filter (own_owner node) own)"
    by (simp add: v filter_map comp_def)
  then have "\<exists>xs. q_pending env (node\<lparr>dn_db := db\<rparr>) h = q_pending env node h @ map string_bytes xs
      \<and> mset xs = mset (filter (\<lambda>link. own_owner node (hd (?cl link))) ?links)"
    using d(3) perm [of "own_owner node"] by (intro exI conjI) (assumption, simp)
  moreover have "distributeHyperlinks env inp p node = Inr (node\<lparr>dn_db := db\<rparr>,
      map CrDht (concat (map (\<lambda>owner. if own_owner node owner then []
        else map (\<lambda>b. DhtSend (hyperlink_packet b) (ns_Address owner)) (createUDPBatches length (owned ?cl owner ?links))) own)))"
    using d(1) by (simp add: distributeHyperlinks_def g(1) v comp_def)
  ultimately show ?thesis using d(2) own by blast
qed

section \<open>Properties\<close>

text \<open>C28: what becomes of the items of a batch run: every batch stays below the size limit, the order
  is kept, and each time a batch is full the item that does not fit is lost, so that all items arrive
  exactly when they fit into one batch.\<close>

theorem full_batch_loses_item:
  "(\<forall>b \<in> set (createUDPBatches len items). size_of len b < udpMaxSize)
   \<and> subseq (concat (createUDPBatches len items)) items
   \<and> length (concat (createUDPBatches len items)) + overflows len items = length items
   \<and> length (createUDPBatches len items) \<le> overflows len items + 1
   \<and> (concat (createUDPBatches len items) = items \<longleftrightarrow> size_of len items < udpMaxSize)"
proof -
  note r = createUDPBatches_result [of len items]
  have "overflows len items = 0" if "concat (createUDPBatches len items) = items" using r that by (metis add_cancel_left_right)
  moreover have "concat (createUDPBatches len items) = items" if "size_of len items < udpMaxSize" using r that by (auto split: if_splits)
  ultimately show ?thesis using r by blast
qed

theorem full_batch_loses_item_witness:
  "createUDPBatches id [7000, 600, 300 :: nat] = [[7000], [300]] \<and> concat (createUDPBatches id [7000, 600, 300 :: nat]) \<noteq> [7000, 600, 300]"
  using full_batch_loses_item [of id "[7000, 600, 300 :: nat]"]
  by (simp add: createUDPBatches_def batch_step_def udpMaxSize_def)

text \<open>A received packet of links; the crawler is woken up if it has not started.\<close>

lemma receive_links_result:
  assumes "crawl_laws env" "q_inv env (cn_node cn) h" "q_end env (cn_node cn) + length links < 2 ^ 64"
  shows "\<exists>cn'. crawler_receive env now (hyperlink_packet links) cn
      = Inr (cn', if wc_IsCrawling (cn_crawler cn) then [] else [CrOut (done_packet False)])
    \<and> q_inv env (cn_node cn') h \<and> q_pending env (cn_node cn') h = q_pending env (cn_node cn) h @ map string_bytes links"
proof -
  have "subtype_of (hyperlink_packet links) = HyperlinkS (hyperlinks links)"
    by (simp add: subtype_of_def hyperlink_packet_def emptyPacket_def)
  then show ?thesis using queue_links_result [OF assms] by (auto simp: crawler_receive_def receive_hyperlinks_def hyperlinks_def)
qed

lemma owned_size: "size_of length (owned f x links) \<le> size_of length links"
  by (induction links) auto

lemma one_batch:
  "size_of length links < udpMaxSize \<Longrightarrow> x \<in> (\<lambda>l. hd (f l)) ` set links \<Longrightarrow>
   createUDPBatches length (owned f x links) = [owned f x links]"
  using createUDPBatches_result [of length "owned f x links"] owned_size [of f x links] by (auto simp: filter_empty_conv)

lemma distinct_singleton_list: "distinct xs \<Longrightarrow> set xs = {x} \<Longrightarrow> xs = [x]"
  by (metis distinct.simps(2) empty_iff insert_not_empty list.set(1) list.simps(15) neq_Nil_conv singletonD
      insert_iff list.set_intros(1) set_ConsD subset_singletonD)

text \<open>C13: the links of a page reach the crawlers responsible for them, when DHT operations are not
  encrypted, the lookup of every link returns a node and all links together stay below the packet
  limit of 7500 bytes: those closest to this node are appended to its own queue; the packets sent
  are exactly one for every other owner, each owner once, with the links closest to it in their
  order; and when an owner handles its packet, these links are appended to its queue.\<close>

theorem hyperlinks_reach_owner:
  assumes "crawl_laws env" "\<not> dn_encryptDHTOperations A" "q_inv env A h" "q_end env A + length links < 2 ^ 64"
    and "\<forall>link \<in> set links. closest env inp link \<noteq> []" "\<And>ks. mset (ci_Order inp ks) = mset ks"
    and "size_of length links < udpMaxSize"
    and "q_inv env (cn_node owner) h'" "q_end env (cn_node owner) + length links < 2 ^ 64"
  shows "\<exists>A' acts own. distributeHyperlinks env inp (hyperlinks links) A = Inr (A', acts)
    \<and> q_pending env A' h = q_pending env A h @ map string_bytes own
    \<and> mset own = mset (filter (\<lambda>link. own_owner A (hd (closest env inp link))) links)
    \<and> (\<exists>os. distinct os \<and> set os = {hd (closest env inp link) | link. link \<in> set links \<and> \<not> own_owner A (hd (closest env inp link))}
        \<and> acts = map (\<lambda>o'. CrDht (DhtSend (hyperlink_packet (owned (closest env inp) o' links)) (ns_Address o'))) os)
    \<and> (\<forall>o'. \<exists>owner' woken. crawler_receive env now (hyperlink_packet (owned (closest env inp) o' links)) owner = Inr (owner', woken)
        \<and> q_pending env (cn_node owner') h' = q_pending env (cn_node owner) h' @ map string_bytes (owned (closest env inp) o' links))"
proof -
  have l: "hl_Links (hyperlinks links) = links" by (simp add: hyperlinks_def)
  define sends where "sends os = map CrDht (concat (map (\<lambda>o'. if own_owner A o' then []
        else map (\<lambda>b. DhtSend (hyperlink_packet b) (ns_Address o'))
          (createUDPBatches length (owned (closest env inp) o' links))) os))" for os
  note r = distributeHyperlinks_result [OF assms(1,3,2) _ assms(6), of "hyperlinks links", unfolded l, OF assms(5,4), folded sends_def]
  obtain db os xs where d: "distributeHyperlinks env inp (hyperlinks links) A = Inr (A\<lparr>dn_db := db\<rparr>, sends os)"
    and os: "set os = (\<lambda>link. hd (closest env inp link)) ` set links" "distinct os"
    and q: "q_pending env (A\<lparr>dn_db := db\<rparr>) h = q_pending env A h @ map string_bytes xs"
      "mset xs = mset (filter (\<lambda>link. own_owner A (hd (closest env inp link))) links)"
    using r by (elim exE conjE) (rule that)
  have b: "createUDPBatches length (owned (closest env inp) o' links) = [owned (closest env inp) o' links]" if "o' \<in> set os" for o'
    using one_batch [where f = "closest env inp", OF assms(7), of o'] that os by simp
  have "sends ws = map (\<lambda>o'. CrDht (DhtSend (hyperlink_packet (owned (closest env inp) o' links)) (ns_Address o')))
      (filter (\<lambda>o'. \<not> own_owner A o') ws)" if "set ws \<subseteq> set os" for ws
    using that b by (induction ws) (simp_all add: sends_def)
  then have a: "\<exists>os. distinct os \<and> set os = {hd (closest env inp link) | link. link \<in> set links \<and> \<not> own_owner A (hd (closest env inp link))}
      \<and> sends os0 = map (\<lambda>o'. CrDht (DhtSend (hyperlink_packet (owned (closest env inp) o' links)) (ns_Address o'))) os"
    if "os0 = os" for os0
    using os that by (intro exI [of _ "filter (\<lambda>o'. \<not> own_owner A o') os"]) auto
  have w: "\<exists>owner' woken. crawler_receive env now (hyperlink_packet (owned (closest env inp) o' links)) owner = Inr (owner', woken)
      \<and> q_pending env (cn_node owner') h' = q_pending env (cn_node owner) h' @ map string_bytes (owned (closest env inp) o' links)" for o'
  proof -
    have "q_end env (cn_node owner) + length (owned (closest env inp) o' links) < 2 ^ 64"
      by (rule le_less_trans [OF _ assms(9)]) (simp add: length_filter_le)
    from receive_links_result [OF assms(1,8) this] show ?thesis by blast
  qed
  show ?thesis
    by (rule exI [of _ "A\<lparr>dn_db := db\<rparr>"], rule exI [of _ "sends os"], rule exI [of _ xs], intro conjI allI) (fact d q a [OF refl] w)+
qed

text \<open>A link without an owner is tried again together with the whole package, although the links
  before it are distributed at once: they are distributed twice.\<close>

theorem failed_lookup_repeats_links:
  assumes "\<forall>link \<in> set ls. closest env inp link \<noteq> []" "closest env inp link = []"
  shows "distributeHyperlinks env inp (hyperlinks (ls @ link # rest)) node
    = map_sum id (map_prod id (\<lambda>acts. CrRetry (hyperlinks (ls @ link # rest)) # acts)) (distributeHyperlinks env inp (hyperlinks ls) node)"
proof -
  have wf: "gm_wf ([] :: (NodeState, string list) gomap)" by (rule gm.wf_empty)
  obtain dom where g: "group_items (closest env inp) ls [] = (dom, True)"
    using group_items_result [OF assms(1) wf] by blast
  show ?thesis using group_items_stops [of ls "closest env inp" link rest "[]", OF assms]
    by (cases "distribute_domains env inp (visit inp dom) node")
      (auto simp: distributeHyperlinks_def hyperlinks_def g)
qed

lemma bytes_string_bytes [simp]: "bytes_string (string_bytes s) = s"
proof -
  have "unat (of_char c :: byte) = (of_char c :: nat)" for c
  proof -
    have "(of_char c :: byte) = of_nat (of_char c)" by (simp only: of_nat_of_char)
    moreover have "of_char c < (256 :: nat)" by simp
    ultimately show ?thesis by (simp only: unat_of_nat) simp
  qed
  then show ?thesis by (simp add: bytes_string_def string_bytes_def comp_def)
qed

text \<open>C26: the crawler visits the queued pages in their order: when a page is done the next one is the
  head of the queue, which it leaves; with an empty queue the same request is made again.\<close>

theorem next_page_in_order:
  assumes "crawl_laws env" "q_inv env node h" "q_end env node + 1 < 2 ^ 64" "crawl_done env d node = Inr (node', acts)"
  shows "case map bytes_string (q_pending env node h) of
      [] \<Rightarrow> acts = [CrOut (emptyCrawlerPacket\<lparr>cp_Done := Some d\<rparr>)] \<and> q_inv env node' h \<and> q_pending env node' h = []
    | url # urls \<Rightarrow> acts = [CrNext url] \<and> q_inv env node' (h + 1) \<and> map bytes_string (q_pending env node' (h + 1)) = urls"
proof -
  let ?B = "de_bolt (ce_dht env)" and ?sha = "de_sha512 (ce_dht env)" and ?kc = "bc_Keywords (de_codec (ce_dht env))"
  have l: "bolt_laws ?B" "inj (\<lambda>v. ?sha (Itob v))" using assms(1) by (simp_all add: crawl_laws_def)
  obtain node1 db head where n: "(if dc_Delete d then obind (DeleteCrawlQueueHead ?B ?sha ?kc (dn_db node)) (\<lambda>(db, _). Inr (node\<lparr>dn_db := db\<rparr>))
             else Inr node) = Inr node1"
    and c: "CrawlQueueHead ?B ?sha ?kc (dn_db node1) = Inr (db, head)" and r: "node' = node1\<lparr>dn_db := db\<rparr>"
    "acts = (case head of None \<Rightarrow> [CrOut (emptyCrawlerPacket\<lparr>cp_Done := Some d\<rparr>)] | Some head \<Rightarrow> [CrNext (bytes_string head)])"
    using assms(4) unfolding crawl_done_def Let_def obind_Inr_iff by auto
  have i: "q_inv env node1 h \<and> q_pending env node1 h = q_pending env node h"
  proof (cases "dc_Delete d")
    case True
    then obtain db1 b where "DeleteCrawlQueueHead ?B ?sha ?kc (dn_db node) = Inr (db1, b)" "node1 = node\<lparr>dn_db := db1\<rparr>"
      using n by (auto simp: obind_Inr_iff)
    then show ?thesis using DeleteCrawlQueueHead_refines [OF l assms(2,3)] by simp
  next
    case False
    then show ?thesis using n assms(2) by simp
  qed
  show ?thesis using CrawlQueueHead_refines [OF l(1) i [THEN conjunct1] c] i by (cases head) (auto simp: r)
qed

text \<open>C14: links sent under encryption arrive as well: a batch encrypted with the key both nodes agreed on
  is decrypted, and its links are appended to the queue of the receiver.\<close>

theorem encrypted_links_arrive:
  assumes "crawl_laws envB" "\<forall>k n p. de_gopen (ce_dht envB) k n (de_gseal (ce_dht envA) k n p) = Some p"
    and "\<forall>p b. ce_EncodeHyperlinks envA p = Some b \<longrightarrow> ce_DecodeHyperlinks envB b = Some p"
    and "dn_encryptDHTOperations A" "ci_Key inp owner i = Some (Some key)" "length (ci_IV inp owner i) = 12"
    and "send_url_batches envA inp A owner i [links] = Inr [DhtSend p a]"
    and "gm_load (ks_activeIngoing (dn_keys (cn_node B))) (g_dhtMyID (dn_g A)) = Some sessions" "sessions \<noteq> []" "dhs_Key (last sessions) = key"
    and "q_inv envB (cn_node B) h" "q_end envB (cn_node B) + length links < 2 ^ 64"
  shows "\<exists>B' woken. crawler_receive envB now p B = Inr (B', woken)
    \<and> q_pending envB (cn_node B') h = q_pending envB (cn_node B) h @ map string_bytes links"
proof -
  obtain b where b: "ce_EncodeHyperlinks envA (hyperlinks links) = Some b"
    and p: "p = encrypted_packet (Encrypt (de_gseal (ce_dht envA)) (ci_IV inp owner i) key b) (g_dhtMyID (dn_g A))"
    and k: "length key \<in> {16, 24, 32}"
    using assms(4,5,7) by (auto simp: aes_New_def split: if_splits option.splits)
  let ?c = "Encrypt (de_gseal (ce_dht envA)) (ci_IV inp owner i) key b"
  have dec: "Decrypt (de_gopen (ce_dht envB)) (dhs_Key (last sessions)) ?c = Inr (Some b)"
    using Decrypt_Encrypt [where gopen = "de_gopen (ce_dht envB)" and gseal = "de_gseal (ce_dht envA)", OF assms(2,6)] assms(10) by simp
  have k': "length (dhs_Key (last sessions)) \<in> {16, 24, 32}" using k assms(10) by simp
  obtain ks where d: "decryptHyperlinkPackage envB now \<lparr>ecp_Packet = ?c, ecp_Origin = g_dhtMyID (dn_g A)\<rparr> (dn_keys (cn_node B))
      = Inr (Some (hyperlinks links), ks)"
    using decrypt_from_last [where env = "ce_dht envB", OF assms(8,9) k' dec] assms(3) b by (auto simp: decryptHyperlinkPackage_def)
  have s: "subtype_of p = EncryptedS \<lparr>ecp_Packet = ?c, ecp_Origin = g_dhtMyID (dn_g A)\<rparr>"
    by (simp add: p subtype_of_def encrypted_packet_def emptyPacket_def)
  let ?B = "B\<lparr>cn_node := (cn_node B)\<lparr>dn_keys := ks\<rparr>\<rparr>"
  have "q_inv envB (cn_node ?B) h" "q_end envB (cn_node ?B) + length links < 2 ^ 64" using assms(11,12) by simp_all
  from queue_links_result [OF assms(1) this] show ?thesis
    by (auto simp: crawler_receive_def s receive_encrypted_hyperlinks_def d receive_hyperlinks_def hyperlinks_def Let_def)
qed

section \<open>Examples\<close>

text \<open>A fresh database, and a node with the address \<open>x\<close> and identifier \<open>b\<close>.\<close>

definition example_crawl_env :: "mem_db crawl_env" where
  "example_crawl_env = \<lparr>ce_dht = example_dht_env, ce_EncodeHyperlinks = (\<lambda>p. Some (string_bytes (strings_Join (hl_Links p) '',''))),
     ce_DecodeHyperlinks = (\<lambda>b. Some (hyperlinks (strings_Split (bytes_string b) CHR '','') )),
     ce_KeywordLength = (\<lambda>_. 10), ce_LinksLength = (\<lambda>_. 10), ce_CitationsLength = (\<lambda>_. 10), ce_DecodePast = (\<lambda>_. Some [])\<rparr>"

text \<open>Links that begin with a letter below \<open>m\<close> belong to the node with address \<open>x\<close>, the others to \<open>y\<close>.\<close>

definition example_inputs :: "bool \<Rightarrow> crawl_inputs" where
  "example_inputs own = \<lparr>ci_LookupNodes = (\<lambda>i. [\<lparr>ns_NodeID = [], ns_Address = if own then ''x'' else ''y''\<rparr>]), ci_LookupFound = (\<lambda>_. False),
     ci_Order = rev, ci_Nonce = (\<lambda>_ _. 0), ci_IV = (\<lambda>_ _. replicate 12 0), ci_Key = (\<lambda>_ _. Some (Some (replicate 32 7)))\<rparr>"

lemma mem_puts_succeed: "puts_succeed mem_bolt"
  by (auto simp: puts_succeed_def mem_bolt_def Option.is_none_def split: option.splits)

lemma example_crawl_laws: "crawl_laws example_crawl_env"
  by (simp add: crawl_laws_def example_crawl_env_def mem_bolt_laws mem_puts_succeed inj_def Itob_inj)

lemma example_database: "\<exists>db. queue_inv mem_bolt id db 0 \<and> pending mem_bolt id db 0 = [] \<and> queue_end mem_bolt db = 0"
proof -
  have "ok (NewStorage mem_bolt id example_codec [])"
    by (simp add: queue_defs mem_bolt_def gm_load_def gm_store_def)
  then obtain db where "NewStorage mem_bolt id example_codec [] = Inr db" by (cases "NewStorage mem_bolt id example_codec []") auto
  from NewStorage_refines(1) [OF mem_bolt_laws this] show ?thesis by (auto simp: mem_bolt_def gm_load_def)
qed

lemma example_node: "\<exists>db. q_inv example_crawl_env ((example_dht 1 e)\<lparr>dn_db := db\<rparr>) 0
    \<and> q_pending example_crawl_env ((example_dht 1 e)\<lparr>dn_db := db\<rparr>) 0 = [] \<and> q_end example_crawl_env ((example_dht 1 e)\<lparr>dn_db := db\<rparr>) = 0"
  using example_database by (simp add: example_crawl_env_def)

theorem hyperlinks_reach_owner_witness:
  "\<exists>A A' acts. q_pending example_crawl_env A 0 = [] \<and> distributeHyperlinks example_crawl_env (example_inputs False) (hyperlinks [''/a'', ''/b'']) A = Inr (A', acts)
    \<and> acts = [CrDht (DhtSend (hyperlink_packet [''/a'', ''/b'']) ''y'')]"
proof -
  obtain db where i: "q_inv example_crawl_env ((example_dht 1 False)\<lparr>dn_db := db\<rparr>) 0"
    "q_pending example_crawl_env ((example_dht 1 False)\<lparr>dn_db := db\<rparr>) 0 = []"
    "q_end example_crawl_env ((example_dht 1 False)\<lparr>dn_db := db\<rparr>) = 0" using example_node by blast
  let ?A = "(example_dht 1 False)\<lparr>dn_db := db\<rparr>"
  let ?cn = "\<lparr>cn_node = ?A, cn_crawler = New_Crawler False\<rparr>"
  have e: "\<not> dn_encryptDHTOperations ?A" "g_address (dn_g ?A) = ''x''"
    by (simp_all add: example_dht_def example_peer_def NewGossiper_def)
  have c: "ci_LookupNodes (example_inputs False) i = [\<lparr>ns_NodeID = [], ns_Address = ''y''\<rparr>]" for i
    by (simp add: example_inputs_def)
  have "\<exists>A' acts own. distributeHyperlinks example_crawl_env (example_inputs False) (hyperlinks [''/a'', ''/b'']) ?A = Inr (A', acts)
    \<and> q_pending example_crawl_env A' 0 = q_pending example_crawl_env ?A 0 @ map string_bytes own
    \<and> mset own = mset (filter (\<lambda>link. own_owner ?A (hd (closest example_crawl_env (example_inputs False) link))) [''/a'', ''/b''])
    \<and> (\<exists>os. distinct os \<and> set os = {hd (closest example_crawl_env (example_inputs False) link) | link. link \<in> set [''/a'', ''/b''] \<and> \<not> own_owner ?A (hd (closest example_crawl_env (example_inputs False) link))}
        \<and> acts = map (\<lambda>o'. CrDht (DhtSend (hyperlink_packet (owned (closest example_crawl_env (example_inputs False)) o' [''/a'', ''/b''])) (ns_Address o'))) os)
    \<and> (\<forall>o'. \<exists>owner' woken. crawler_receive example_crawl_env 0 (hyperlink_packet (owned (closest example_crawl_env (example_inputs False)) o' [''/a'', ''/b''])) ?cn = Inr (owner', woken)
        \<and> q_pending example_crawl_env (cn_node owner') 0 = q_pending example_crawl_env (cn_node ?cn) 0 @ map string_bytes (owned (closest example_crawl_env (example_inputs False)) o' [''/a'', ''/b'']))"
  proof (rule hyperlinks_reach_owner [OF example_crawl_laws e(1) i(1)])
    show "q_end example_crawl_env ?A + length [''/a'', ''/b''] < 2 ^ 64" using i(3) by simp
    show "\<forall>link \<in> set [''/a'', ''/b'']. closest example_crawl_env (example_inputs False) link \<noteq> []" by (simp add: example_inputs_def)
    show "mset (ci_Order (example_inputs False) ks) = mset ks" for ks by (simp add: example_inputs_def)
    show "size_of length [''/a'', ''/b''] < udpMaxSize" by (simp add: udpMaxSize_def)
    show "q_inv example_crawl_env (cn_node ?cn) 0" using i(1) by simp
    show "q_end example_crawl_env (cn_node ?cn) + length [''/a'', ''/b''] < 2 ^ 64" using i(3) by simp
  qed
  then obtain A' acts where d: "distributeHyperlinks example_crawl_env (example_inputs False) (hyperlinks [''/a'', ''/b'']) ?A = Inr (A', acts)"
    and s: "(\<exists>os. distinct os \<and> set os = {hd (closest example_crawl_env (example_inputs False) link) | link. link \<in> set [''/a'', ''/b''] \<and> \<not> own_owner ?A (hd (closest example_crawl_env (example_inputs False) link))}
        \<and> acts = map (\<lambda>o'. CrDht (DhtSend (hyperlink_packet (owned (closest example_crawl_env (example_inputs False)) o' [''/a'', ''/b''])) (ns_Address o'))) os)"
    by (elim exE conjE) (rule that, assumption, intro exI conjI; assumption)
  from s obtain os where os: "distinct os" "set os = {hd (closest example_crawl_env (example_inputs False) link) | link. link \<in> set [''/a'', ''/b'']
      \<and> \<not> own_owner ?A (hd (closest example_crawl_env (example_inputs False) link))}"
    and a: "acts = map (\<lambda>o'. CrDht (DhtSend (hyperlink_packet (owned (closest example_crawl_env (example_inputs False)) o' [''/a'', ''/b''])) (ns_Address o'))) os"
    by (elim exE conjE) (rule that)
  have "set os = {\<lparr>ns_NodeID = [], ns_Address = ''y''\<rparr>}" unfolding os(2) using e(2) by (auto simp: c)
  then have "os = [\<lparr>ns_NodeID = [], ns_Address = ''y''\<rparr>]" using os(1) by (simp add: distinct_singleton_list)
  then have "acts = [CrDht (DhtSend (hyperlink_packet [''/a'', ''/b'']) ''y'')]" unfolding a by (simp add: c)
  then show ?thesis using i(2) d by blast
qed

theorem failed_lookup_repeats_links_witness:
  "distributeHyperlinks example_crawl_env ((example_inputs False)\<lparr>ci_LookupNodes := (\<lambda>i. if i = key_of example_crawl_env ''/b'' then [] else [\<lparr>ns_NodeID = [], ns_Address = ''y''\<rparr>])\<rparr>)
     (hyperlinks [''/a'', ''/b'', ''/c'']) (example_dht 1 False)
   = Inr (example_dht 1 False, [CrRetry (hyperlinks [''/a'', ''/b'', ''/c'']), CrDht (DhtSend (hyperlink_packet [''/a'']) ''y'')])"
proof -
  let ?inp = "(example_inputs False)\<lparr>ci_LookupNodes := (\<lambda>i. if i = key_of example_crawl_env ''/b'' then [] else [\<lparr>ns_NodeID = [], ns_Address = ''y''\<rparr>])\<rparr>"
  have k: "key_of example_crawl_env u = string_bytes u" for u
    by (simp add: GenerateKeyHash_def example_crawl_env_def)
  have "\<forall>link \<in> set [''/a'']. closest example_crawl_env ?inp link \<noteq> []" "closest example_crawl_env ?inp ''/b'' = []" by (simp_all add: k)
  from failed_lookup_repeats_links [where node = "example_dht 1 False" and rest = "[''/c'']", OF this]
  have r: "distributeHyperlinks example_crawl_env ?inp (hyperlinks [''/a'', ''/b'', ''/c'']) (example_dht 1 False)
    = map_sum id (map_prod id (\<lambda>acts. CrRetry (hyperlinks [''/a'', ''/b'', ''/c'']) # acts)) (distributeHyperlinks example_crawl_env ?inp (hyperlinks [''/a'']) (example_dht 1 False))"
    by simp
  have c: "closest example_crawl_env ?inp ''/a'' = [\<lparr>ns_NodeID = [], ns_Address = ''y''\<rparr>]" by (simp add: k)
  have "\<not> dn_encryptDHTOperations (example_dht 1 False)" "\<not> own_owner (example_dht 1 False) \<lparr>ns_NodeID = [], ns_Address = ''y''\<rparr>"
    by (simp_all add: example_dht_def example_peer_def NewGossiper_def)
  then have "distributeHyperlinks example_crawl_env ?inp (hyperlinks [''/a'']) (example_dht 1 False)
      = Inr (example_dht 1 False, [CrDht (DhtSend (hyperlink_packet [''/a'']) ''y'')])"
    by (simp add: distributeHyperlinks_def hyperlinks_def c k gm_load_def visit_def gm_keys_def example_inputs_def gm_store_def
        batchSendURLS_plain createUDPBatches_def batch_step_def udpMaxSize_def)
  then show ?thesis unfolding r by simp
qed

theorem next_page_in_order_witness:
  "\<exists>node node' :: mem_db DhtNode. q_pending example_crawl_env node 0 = [string_bytes ''/a'']
    \<and> crawl_done example_crawl_env \<lparr>dc_Delete = False\<rparr> node = Inr (node', [CrNext ''/a''])"
proof -
  obtain db where i: "q_inv example_crawl_env ((example_dht 1 False)\<lparr>dn_db := db\<rparr>) 0"
    "q_pending example_crawl_env ((example_dht 1 False)\<lparr>dn_db := db\<rparr>) 0 = []"
    "q_end example_crawl_env ((example_dht 1 False)\<lparr>dn_db := db\<rparr>) = 0" using example_node by blast
  let ?A = "(example_dht 1 False)\<lparr>dn_db := db\<rparr>"
  have "q_end example_crawl_env ?A + 1 < 2 ^ 64" using i(3) by simp
  from UpdateCrawlQueue_adds [OF example_crawl_laws i(1) this, of "string_bytes ''/a''"] obtain db1
    where j: "q_inv example_crawl_env (?A\<lparr>dn_db := db1\<rparr>) 0" "q_pending example_crawl_env (?A\<lparr>dn_db := db1\<rparr>) 0 = [string_bytes ''/a'']"
      "q_end example_crawl_env (?A\<lparr>dn_db := db1\<rparr>) = 1" using i(2,3) by auto
  let ?B = "?A\<lparr>dn_db := db1\<rparr>"
  have b: "list_all (bolt_Bucket mem_bolt db1) buckets" "queue_index mem_bolt id db1 0"
    using j(1) by (simp_all add: queue_inv_def example_crawl_env_def)
  have p: "bolt_Put mem_bolt QueueIndexBucket k v db1 \<noteq> None" for k v
    using mem_puts_succeed b(1) by (simp add: puts_succeed_def buckets_def)
  obtain d where "bolt_Put mem_bolt QueueIndexBucket (GenerateKeyHash id queueCountID) (Itob 1) db1 = Some d" using p by blast
  then have "ok (CrawlQueueHead mem_bolt id example_codec db1)"
    using b by (auto simp: CrawlQueueHead_def Let_def Retrieve_plain bucket_neq queue_index_def buckets_def Put_def bucket_Put_def
        split: option.splits)
  then have "ok (crawl_done example_crawl_env \<lparr>dc_Delete = False\<rparr> ?B)"
    by (cases "CrawlQueueHead mem_bolt id example_codec db1")
      (auto simp: crawl_done_def example_crawl_env_def example_store_codec_def Let_def)
  then obtain node' acts where r: "crawl_done example_crawl_env \<lparr>dc_Delete = False\<rparr> ?B = Inr (node', acts)"
    by (cases "crawl_done example_crawl_env \<lparr>dc_Delete = False\<rparr> ?B") auto
  have "q_end example_crawl_env ?B + 1 < 2 ^ 64" using j(3) by simp
  from next_page_in_order [OF example_crawl_laws j(1) this r] have "acts = [CrNext ''/a'']" unfolding j(2) by simp
  then show ?thesis using j(2) r by blast
qed

definition one_link_env :: "mem_db crawl_env" where
  "one_link_env = example_crawl_env\<lparr>ce_EncodeHyperlinks := (\<lambda>p. if p = hyperlinks [''/a''] then Some [1] else None),
     ce_DecodeHyperlinks := (\<lambda>b. Some (hyperlinks [''/a'']))\<rparr>"

theorem encrypted_links_arrive_witness:
  "\<exists>A B B' p woken. send_url_batches one_link_env (example_inputs False) A \<lparr>ns_NodeID = [], ns_Address = ''y''\<rparr> 0 [[''/a'']]
      = Inr [DhtSend p ''y''] \<and> crawler_receive one_link_env 0 p B = Inr (B', woken)
    \<and> q_pending one_link_env (cn_node B') 0 = [string_bytes ''/a'']"
proof -
  let ?A = "example_dht 1 True" and ?o = "\<lparr>ns_NodeID = [], ns_Address = ''y''\<rparr>"
  have dht: "ce_dht one_link_env = example_dht_env" "ce_dht example_crawl_env = example_dht_env"
    by (simp_all add: one_link_env_def example_crawl_env_def)
  obtain db where i: "q_inv one_link_env ((example_dht 1 True)\<lparr>dn_db := db\<rparr>) 0"
    "q_pending one_link_env ((example_dht 1 True)\<lparr>dn_db := db\<rparr>) 0 = []"
    "q_end one_link_env ((example_dht 1 True)\<lparr>dn_db := db\<rparr>) = 0" using example_node [of True] unfolding dht by blast
  let ?B = "\<lparr>cn_node = (example_dht 1 True)\<lparr>dn_db := db\<rparr>, cn_crawler = New_Crawler False\<rparr>"
  have inp: "ci_Key (example_inputs False) ?o 0 = Some (Some (replicate 32 7))" "length (ci_IV (example_inputs False) ?o 0) = 12"
    by (simp_all add: example_inputs_def)
  have enc: "dn_encryptDHTOperations ?A" by (simp add: example_dht_def)
  obtain p where p: "send_url_batches one_link_env (example_inputs False) ?A ?o 0 [[''/a'']] = Inr [DhtSend p ''y'']"
    using enc inp by (simp add: one_link_env_def aes_New_def)
  have laws: "crawl_laws one_link_env" using example_crawl_laws by (simp add: crawl_laws_def dht)
  have "\<exists>B' woken. crawler_receive one_link_env 0 p ?B = Inr (B', woken)
    \<and> q_pending one_link_env (cn_node B') 0 = q_pending one_link_env (cn_node ?B) 0 @ map string_bytes [''/a'']"
  proof (rule encrypted_links_arrive [OF laws _ _ enc inp p])
    show "\<forall>k n p. de_gopen (ce_dht one_link_env) k n (de_gseal (ce_dht one_link_env) k n p) = Some p"
      by (simp add: dht example_dht_env_def)
    show "\<forall>p b. ce_EncodeHyperlinks one_link_env p = Some b \<longrightarrow> ce_DecodeHyperlinks one_link_env b = Some p"
      by (simp add: one_link_env_def)
    show "gm_load (ks_activeIngoing (dn_keys (cn_node ?B))) (g_dhtMyID (dn_g ?A)) = Some [NewDiffieHellmanSession (replicate 32 7) 100]" by simp
    show "q_inv one_link_env (cn_node ?B) 0" using i(1) by simp
    show "q_end one_link_env (cn_node ?B) + length [''/a''] < 2 ^ 64" using i(3) by simp
  qed (simp_all add: NewDiffieHellmanSession_def)
  then obtain B' woken where r: "crawler_receive one_link_env 0 p ?B = Inr (B', woken)"
    "q_pending one_link_env (cn_node B') 0 = q_pending one_link_env (cn_node ?B) 0 @ map string_bytes [''/a'']" by blast
  have "q_pending one_link_env (cn_node B') 0 = [string_bytes ''/a'']" using r(2) i(2) by simp
  then show ?thesis using p r(1) by blast
qed

end
