(* ===== verification/Doubles.thy ===== *)
theory Doubles
  imports DhtStore
begin

text \<open>
  Go's \<open>float64\<close> on values that are not negative: the doubles of IEEE 754 from +0 to +infinity as their
  bit patterns (\<open>float64\<close> is a 64-bit word), and NaN.  The value of a finite double is a multiple of
  2^-1074, and an operation rounds the exact result to the nearest double, ties to even.  The page rank
  takes its arithmetic as a parameter; this theory is the arithmetic its laws are checked on.
\<close>

section \<open>Values and rounding\<close>

definition dbl_inf :: float64 where "dbl_inf = 0x7FF0000000000000"
definition dbl_nan :: float64 where "dbl_nan = 0x7FF8000000000001"

text \<open>The value in units of 2^-1074.\<close>

definition dbl_value :: "float64 \<Rightarrow> nat" where
  "dbl_value x = (let e = unat x div 2 ^ 52; m = unat x mod 2 ^ 52 in if e = 0 then m else (2 ^ 52 + m) * 2 ^ (e - 1))"

fun bit_count :: "nat \<Rightarrow> nat" where
  "bit_count n = (if n = 0 then 0 else Suc (bit_count (n div 2)))"

declare bit_count.simps [simp del]

text \<open>The bits beyond the 53rd, which rounding drops; the bit pattern below a value.\<close>

definition dropped :: "nat \<Rightarrow> nat" where "dropped n = bit_count n - 53"

definition below :: "nat \<Rightarrow> nat" where
  "below n = dropped n * 2 ^ 52 + n div 2 ^ dropped n"

text \<open>The double nearest to the quotient \<open>p / q\<close>, which is in units of 2^-1074.\<close>

definition dbl_round :: "nat \<Rightarrow> nat \<Rightarrow> float64" where
  "dbl_round p q =
     (let s = dropped (p div q); d = q * 2 ^ s; m = p div d; r = p mod d;
          up = (if 2 * r > d \<or> 2 * r = d \<and> odd m then 1 else 0)
      in of_nat (min (s * 2 ^ 52 + m + up) (unat dbl_inf)))"

section \<open>Operations\<close>

text \<open>Whether both are numbers from +0 on.\<close>

definition dbl_numbers :: "float64 \<Rightarrow> float64 \<Rightarrow> bool" where
  "dbl_numbers x y \<longleftrightarrow> x \<le> dbl_inf \<and> y \<le> dbl_inf"

definition dbl_le :: "float64 \<Rightarrow> float64 \<Rightarrow> bool" where
  "dbl_le x y \<longleftrightarrow> dbl_numbers x y \<and> x \<le> y"

definition dbl_less :: "float64 \<Rightarrow> float64 \<Rightarrow> bool" where
  "dbl_less x y \<longleftrightarrow> dbl_numbers x y \<and> x < y"

definition dbl_add :: "float64 \<Rightarrow> float64 \<Rightarrow> float64" where
  "dbl_add x y =
     (if \<not> dbl_numbers x y then dbl_nan
      else if x = dbl_inf \<or> y = dbl_inf then dbl_inf
      else dbl_round (dbl_value x + dbl_value y) 1)"

definition dbl_mul :: "float64 \<Rightarrow> float64 \<Rightarrow> float64" where
  "dbl_mul x y =
     (if \<not> dbl_numbers x y then dbl_nan
      else if x = dbl_inf \<or> y = dbl_inf then (if x = 0 \<or> y = 0 then dbl_nan else dbl_inf)
      else dbl_round (dbl_value x * dbl_value y) (2 ^ 1074))"

definition dbl_div :: "float64 \<Rightarrow> float64 \<Rightarrow> float64" where
  "dbl_div x y =
     (if \<not> dbl_numbers x y then dbl_nan
      else if x = dbl_inf then (if y = dbl_inf then dbl_nan else dbl_inf)
      else if y = dbl_inf then 0
      else if y = 0 then (if x = 0 then dbl_nan else dbl_inf)
      else dbl_round (dbl_value x * 2 ^ 1074) (dbl_value y))"

text \<open>The distance of two numbers, which is the absolute value of their difference.\<close>

definition dbl_dist :: "float64 \<Rightarrow> float64 \<Rightarrow> float64" where
  "dbl_dist x y =
     (if \<not> dbl_numbers x y \<or> x = dbl_inf \<and> y = dbl_inf then dbl_nan
      else if x = dbl_inf \<or> y = dbl_inf then dbl_inf
      else dbl_round (max (dbl_value x) (dbl_value y) - min (dbl_value x) (dbl_value y)) 1)"

definition dbl_of_int :: "int \<Rightarrow> float64" where
  "dbl_of_int n = (if n < 0 then dbl_nan else dbl_round (nat n * 2 ^ 1074) 1)"

section \<open>The laws\<close>

lemma bit_count_bounds: "n < 2 ^ bit_count n" "0 < n \<Longrightarrow> 2 ^ (bit_count n - 1) \<le> n"
proof (induction n rule: bit_count.induct)
  case (1 n)
  {
    case 1
    show ?case
    proof (cases "n = 0")
      case False
      then have "n div 2 < 2 ^ bit_count (n div 2)" using "1.IH" by blast
      then show ?thesis using False by (simp add: bit_count.simps [of n])
    qed simp
  next
    case 2
    show ?case
    proof (cases "n div 2 = 0")
      case True
      then have "bit_count n = 1" using 2 by (simp add: bit_count.simps [of n] bit_count.simps [of 0])
      then show ?thesis using 2 by simp
    next
      case False
      then have h: "2 ^ (bit_count (n div 2) - 1) \<le> n div 2" using "1.IH" 2 by simp
      have b: "bit_count n = Suc (bit_count (n div 2))" "0 < bit_count (n div 2)"
        using 2 False by (simp_all add: bit_count.simps [of n] bit_count.simps [of "n div 2"])
      then obtain k where k: "bit_count (n div 2) = Suc k" using gr0_implies_Suc by blast
      have "2 * 2 ^ k \<le> 2 * (n div 2)" using h unfolding k by simp
      also have "\<dots> \<le> n" by simp
      finally show ?thesis by (simp add: b(1) k)
    qed
  }
qed

lemma bit_count_mono: "m \<le> n \<Longrightarrow> bit_count m \<le> bit_count n"
proof (cases "m = 0")
  case False
  assume "m \<le> n"
  have "2 ^ (bit_count m - 1) < (2 :: nat) ^ bit_count n"
    by (rule le_less_trans [OF bit_count_bounds(2) le_less_trans [OF \<open>m \<le> n\<close> bit_count_bounds(1)]]) (use False in simp)
  then have "bit_count m - 1 < bit_count n" by (simp only: power_strict_increasing_iff)
  then show ?thesis by simp
qed (simp add: bit_count.simps)

lemma bit_count_eq: "2 ^ k \<le> n \<Longrightarrow> n < 2 ^ Suc k \<Longrightarrow> bit_count n = Suc k"
proof (rule antisym)
  assume n: "2 ^ k \<le> n" "n < 2 ^ Suc k"
  have "0 < n" by (rule less_le_trans [OF _ n(1)]) simp
  have "(2 :: nat) ^ k < 2 ^ bit_count n" using n(1) bit_count_bounds(1) by (rule le_less_trans)
  then have "k < bit_count n" by simp
  then show "Suc k \<le> bit_count n" by simp
  have "(2 :: nat) ^ (bit_count n - 1) < 2 ^ Suc k" using bit_count_bounds(2) [OF \<open>0 < n\<close>] n(2) by (rule le_less_trans)
  then have "bit_count n - 1 < Suc k" by (simp only: power_strict_increasing_iff)
  then show "bit_count n \<le> Suc k" by simp
qed

lemma kept_bits: "n div 2 ^ dropped n < 2 ^ 53"
proof -
  have "n < 2 ^ bit_count n" by (rule bit_count_bounds)
  also have "\<dots> \<le> 2 ^ (53 + dropped n)" by (rule power_increasing) (simp_all add: dropped_def)
  finally have "n < 2 ^ 53 * 2 ^ dropped n" by (simp only: power_add)
  then show ?thesis by (simp only: less_mult_imp_div_less)
qed

lemma leading_bit: "0 < dropped n \<Longrightarrow> 2 ^ 52 \<le> n div 2 ^ dropped n"
proof -
  assume d: "0 < dropped n"
  then have b: "bit_count n = 53 + dropped n" by (simp add: dropped_def)
  have "0 < n" by (rule ccontr) (use b in \<open>simp add: bit_count.simps\<close>)
  have "(2 :: nat) ^ (52 + dropped n) \<le> n" using bit_count_bounds(2) [OF \<open>0 < n\<close>] b by simp
  then have "2 ^ 52 * 2 ^ dropped n \<le> n" by (simp only: power_add)
  then show "2 ^ 52 \<le> n div 2 ^ dropped n" by (simp add: less_eq_div_iff_mult_less_eq)
qed

lemma below_mono:
  assumes "m \<le> n"
  shows "below m \<le> below n"
proof (cases "dropped m = dropped n")
  case True
  then show ?thesis using assms by (simp add: below_def div_le_mono)
next
  case False
  have "dropped m \<le> dropped n" using bit_count_mono [OF assms] by (simp add: dropped_def)
  then have s: "dropped m + 1 \<le> dropped n" using False by simp
  have "below m < dropped m * 2 ^ 52 + 2 ^ 53" using kept_bits [of m] by (simp add: below_def)
  also have "\<dots> = (dropped m + 1) * 2 ^ 52 + 2 ^ 52" by simp
  also have "\<dots> \<le> dropped n * 2 ^ 52 + n div 2 ^ dropped n"
    using s leading_bit [of n] by (intro add_mono mult_right_mono) simp_all
  finally show ?thesis by (simp add: below_def)
qed

lemma below_value: "below (dbl_value x) = unat x"
proof -
  let ?e = "unat x div 2 ^ 52" and ?m = "unat x mod 2 ^ 52"
  have x: "unat x = ?e * 2 ^ 52 + ?m" by simp
  have m: "?m < 2 ^ 52" by simp
  show ?thesis
  proof (cases "?e = 0")
    case True
    have v: "dbl_value x = ?m" unfolding dbl_value_def Let_def by (rule if_P [OF True])
    have "bit_count ?m \<le> bit_count (2 ^ 52)" using m by (intro bit_count_mono) simp
    also have "\<dots> = 53" using bit_count_eq [of 52 "2 ^ 52"] by simp
    finally have "dropped ?m = 0" by (simp add: dropped_def)
    then show ?thesis using True x by (simp add: v below_def)
  next
    case False
    then obtain k where k: "?e = Suc k" using not0_implies_Suc by blast
    have v: "dbl_value x = (2 ^ 52 + ?m) * 2 ^ k" using False by (simp only: dbl_value_def Let_def if_False k diff_Suc_1)
    have "bit_count (dbl_value x) = Suc (52 + k)"
    proof (rule bit_count_eq)
      show "2 ^ (52 + k) \<le> dbl_value x" unfolding v power_add by (rule mult_right_mono) simp_all
      have "2 ^ 52 + ?m < 2 ^ 53" using m by simp
      then have "dbl_value x < 2 ^ 53 * 2 ^ k" unfolding v by (intro mult_strict_right_mono) simp_all
      then show "dbl_value x < 2 ^ Suc (52 + k)" by (simp add: power_add)
    qed
    then have d: "dropped (dbl_value x) = k" by (simp add: dropped_def)
    have "below (dbl_value x) = k * 2 ^ 52 + (2 ^ 52 + ?m)" unfolding below_def d by (simp add: v)
    also have "\<dots> = Suc k * 2 ^ 52 + ?m" by simp
    also have "\<dots> = ?e * 2 ^ 52 + ?m" by (simp only: k)
    also have "\<dots> = unat x" by (rule x [symmetric])
    finally show ?thesis .
  qed
qed

lemma dbl_round_bits:
  "unat (dbl_round p q) \<le> unat dbl_inf" "min (below n) (unat dbl_inf) \<le> unat (dbl_round n 1)"
  "unat (dbl_round n 1) \<le> below n + 1"
proof -
  have u: "unat (of_nat (min k (unat dbl_inf)) :: float64) = min k (unat dbl_inf)" for k
    by (simp add: unat_of_nat dbl_inf_def)
  show "unat (dbl_round p q) \<le> unat dbl_inf" unfolding dbl_round_def Let_def u by simp
  show "min (below n) (unat dbl_inf) \<le> unat (dbl_round n 1)"
    unfolding dbl_round_def Let_def u div_by_1 mult_1 below_def by simp
  show "unat (dbl_round n 1) \<le> below n + 1"
    unfolding dbl_round_def Let_def u div_by_1 mult_1 below_def by (rule order.trans [OF min.cobounded1]) simp
qed

lemma dbl_round_number: "dbl_round p q \<le> dbl_inf"
  using dbl_round_bits(1) by (simp only: word_le_nat_alt)

lemma dbl_add_ge:
  assumes "x \<le> dbl_inf" "y \<le> dbl_inf"
  shows "dbl_le x (dbl_add x y)"
proof -
  have "x \<le> dbl_round (dbl_value x + dbl_value y) 1"
  proof -
    have "unat x \<le> below (dbl_value x + dbl_value y)"
      using below_mono [of "dbl_value x" "dbl_value x + dbl_value y"] by (simp add: below_value)
    then have "unat x \<le> min (below (dbl_value x + dbl_value y)) (unat dbl_inf)" using assms(1) by (simp add: word_le_nat_alt)
    also have "\<dots> \<le> unat (dbl_round (dbl_value x + dbl_value y) 1)" by (rule dbl_round_bits)
    finally show ?thesis by (simp only: word_le_nat_alt)
  qed
  then show ?thesis using assms dbl_round_number by (auto simp: dbl_le_def dbl_add_def dbl_numbers_def)
qed

lemma dbl_mul_number: "x \<le> dbl_inf \<Longrightarrow> x \<noteq> 0 \<Longrightarrow> x \<noteq> dbl_inf \<Longrightarrow> y \<le> dbl_inf \<Longrightarrow> dbl_mul x y \<le> dbl_inf"
  using dbl_round_number by (auto simp: dbl_mul_def dbl_numbers_def dbl_inf_def)

lemma dbl_div_number: "x \<le> dbl_inf \<Longrightarrow> y < dbl_inf \<Longrightarrow> y \<noteq> 0 \<Longrightarrow> dbl_div x y \<le> dbl_inf"
  using dbl_round_number by (auto simp: dbl_div_def dbl_numbers_def)

text \<open>A positive number of machine size is a finite double that is not 0.\<close>

lemma dbl_of_int_number:
  assumes "0 < n" "n < 2 ^ 63"
  shows "0 < dbl_of_int n" "dbl_of_int n < dbl_inf"
proof -
  let ?v = "nat n * 2 ^ 1074"
  have "1 * 1 \<le> ?v" using assms(1) by (intro mult_le_mono) simp_all
  then have "below 1 \<le> below ?v" by (intro below_mono) simp
  moreover have "below 1 = 1" by (simp add: below_def dropped_def bit_count.simps)
  ultimately have "1 \<le> min (below ?v) (unat dbl_inf)" by (simp add: dbl_inf_def)
  also have "\<dots> \<le> unat (dbl_of_int n)" using assms(1) dbl_round_bits(2) by (simp add: dbl_of_int_def)
  finally show "0 < dbl_of_int n" by (simp add: word_less_nat_alt)
  have b: "bit_count (2 ^ (63 + 1074)) = Suc (63 + 1074)" by (rule bit_count_eq [OF order.refl power_strict_increasing]) simp_all
  have "nat n \<le> 2 ^ 63" using assms(2) by simp
  then have "?v \<le> 2 ^ (63 + 1074)" unfolding power_add by (rule mult_right_mono) simp
  then have "below ?v \<le> below (2 ^ (63 + 1074))" by (rule below_mono)
  also have "\<dots> = 1085 * 2 ^ 52 + 2 ^ (63 + 1074) div 2 ^ 1085" by (simp only: below_def dropped_def b) simp
  also have "(2 :: nat) ^ (63 + 1074) div 2 ^ 1085 = 2 ^ 52" by simp
  finally have "below ?v + 1 < unat dbl_inf" by (simp add: dbl_inf_def)
  moreover have "unat (dbl_of_int n) \<le> below ?v + 1"
    using assms(1) dbl_round_bits(3) by (simp add: dbl_of_int_def)
  ultimately have "unat (dbl_of_int n) < unat dbl_inf" by (rule le_less_trans [rotated])
  then show "dbl_of_int n < dbl_inf" by (simp only: word_less_nat_alt)
qed

end
