(* ===== verification/PageRank.thy ===== *)
theory PageRank
  imports Crawler Doubles
begin

text \<open>
  The distributed page rank, \<open>src/gossiper/pageRank.go\<close>: a node keeps the ranks of the pages it is
  responsible for in its database and others in a cache, recomputes a rank when it hears of a new rank
  of a citing page, and passes changes on.  A rank is a 64-bit floating-point number; the operations of
  IEEE 754 are the record \<open>float_ops\<close>, with the laws a theorem needs as a hypothesis.  The cache (gcache)
  and the sketch that estimates the number of documents (hyperloglog) are one third-party state.
\<close>

section \<open>Arithmetic, cache and coding\<close>

record float_ops =
  fl_of_int :: "int \<Rightarrow> float64"
  fl_add :: "float64 \<Rightarrow> float64 \<Rightarrow> float64"
  fl_sub :: "float64 \<Rightarrow> float64 \<Rightarrow> float64"
  fl_mul :: "float64 \<Rightarrow> float64 \<Rightarrow> float64"
  fl_div :: "float64 \<Rightarrow> float64 \<Rightarrow> float64"
  fl_abs :: "float64 \<Rightarrow> float64"
  fl_less :: "float64 \<Rightarrow> float64 \<Rightarrow> bool"
  fl_log :: "float64 \<Rightarrow> float64"
  fl_sqrt :: "float64 \<Rightarrow> float64"

text \<open>0.85, 0.03 and 0 as doubles; \<open>1 - dampingFactor\<close> is \<open>InitialRank\<close>.\<close>

definition dampingFactor :: float64 where "dampingFactor = 0x3FEB333333333333"
definition prEpsilon :: float64 where "prEpsilon = 0x3F9EB851EB851EB8"
definition fl_zero :: float64 where "fl_zero = 0"

text \<open>What an entry of the cache holds: nil, a pointer to a rank, or bytes.\<close>

datatype cache_entry = CacheNil | CacheRank RankInfo | CacheBytes bytes

record 'c rank_ops =
  ro_Set :: "TypeID \<Rightarrow> cache_entry \<Rightarrow> 'c \<Rightarrow> 'c option"
  ro_Get :: "TypeID \<Rightarrow> 'c \<Rightarrow> 'c \<times> cache_entry option"
  ro_Insert :: "bytes \<Rightarrow> 'c \<Rightarrow> 'c"
  ro_Estimate :: "'c \<Rightarrow> int"

record ('db, 'c) rank_env =
  re_crawl :: "'db crawl_env"
  re_ops :: "'c rank_ops"
  re_float :: float_ops
  re_EncodeRank :: "RankInfo \<Rightarrow> bytes option"
  re_DecodeRank :: "bytes \<Rightarrow> RankInfo \<times> bool"
  re_DecodeLinks :: "bytes \<Rightarrow> OutBoundLinksPackage option"
  re_UpdateLength :: "RankUpdate \<Rightarrow> nat"
  re_KeyN :: "'db \<Rightarrow> string \<Rightarrow> int"
  re_LookupValue :: "TypeID \<Rightarrow> bytes option"

record ('db, 'c) RankNode =
  rn_node :: "'db DhtNode"
  rn_third :: 'c
  rn_hits :: int
  rn_totalAccesses :: int

abbreviation re_bolt :: "('db, 'c) rank_env \<Rightarrow> 'db bolt" where
  "re_bolt env \<equiv> de_bolt (ce_dht (re_crawl env))"

abbreviation page_key :: "('db, 'c) rank_env \<Rightarrow> string \<Rightarrow> TypeID" where
  "page_key env \<equiv> GenerateKeyHash (de_sha512 (ce_dht (re_crawl env)))"

abbreviation rn_db :: "('db, 'c) RankNode \<Rightarrow> 'db" where
  "rn_db st \<equiv> dn_db (rn_node st)"

definition newRanker :: "'db DhtNode \<Rightarrow> 'c \<Rightarrow> ('db, 'c) RankNode" where
  "newRanker node c = \<lparr>rn_node = node, rn_third = c, rn_hits = 0, rn_totalAccesses = 0\<rparr>"

definition cacheSet :: "('db, 'c) rank_env \<Rightarrow> TypeID \<Rightarrow> cache_entry \<Rightarrow> ('db, 'c) RankNode \<Rightarrow> ('db, 'c) RankNode outcome" where
  "cacheSet env key value st =
     (case ro_Set (re_ops env) key value (rn_third st) of
        None \<Rightarrow> Inl (Panic ''gcache'')
      | Some c \<Rightarrow> Inr (st\<lparr>rn_third := c\<rparr>))"

definition PageRankCacheHitRate :: "float_ops \<Rightarrow> ('db, 'c) RankNode \<Rightarrow> float64" where
  "PageRankCacheHitRate f st = fl_div f (fl_of_int f (rn_hits st)) (fl_of_int f (rn_totalAccesses st))"

definition GetDocumentEstimate :: "('db, 'c) rank_env \<Rightarrow> ('db, 'c) RankNode \<Rightarrow> int outcome" where
  "GetDocumentEstimate env st =
     (if bolt_Bucket (re_bolt env) (rn_db st) PageHashBucket \<and> bolt_Bucket (re_bolt env) (rn_db st) PageRankBucket then
        let numberOfDocuments = re_KeyN env (rn_db st) PageHashBucket;
            ranks = re_KeyN env (rn_db st) PageRankBucket;
            numberOfDocuments = (if ranks > numberOfDocuments then ranks else numberOfDocuments);
            hllEstimate = ro_Estimate (re_ops env) (rn_third st)
        in Inr (if hllEstimate > numberOfDocuments then hllEstimate else numberOfDocuments)
      else Inl (Panic ''nil bucket''))"

section \<open>Reading and writing\<close>

definition getOutboundLinksFromDb :: "('db, 'c) rank_env \<Rightarrow> TypeID \<Rightarrow> ('db, 'c) RankNode \<Rightarrow> OutBoundLinksPackage outcome" where
  "getOutboundLinksFromDb env i st =
     obind (bucket_Get (re_bolt env) (rn_db st) LinksBucket i) (\<lambda>data.
       case data of
         None \<Rightarrow> Inr \<lparr>obl_Url = '''', obl_OutBoundLinks = []\<rparr>
       | Some data \<Rightarrow> (case re_DecodeLinks env data of None \<Rightarrow> Inl (Panic ''protobuf'') | Some p \<Rightarrow> Inr p))"

text \<open>A rank that cannot be decoded is returned as far as it was decoded.\<close>

definition getRankFromDatabase :: "('db, 'c) rank_env \<Rightarrow> TypeID \<Rightarrow> ('db, 'c) RankNode \<Rightarrow> RankInfo option outcome" where
  "getRankFromDatabase env i st =
     obind (bucket_Get (re_bolt env) (rn_db st) PageRankBucket i) (\<lambda>rankData.
       Inr (case rankData of None \<Rightarrow> None | Some d \<Rightarrow> Some (fst (re_DecodeRank env d))))"

definition put_rank :: "('db, 'c) rank_env \<Rightarrow> TypeID \<Rightarrow> bytes \<Rightarrow> ('db, 'c) RankNode \<Rightarrow> ('db, 'c) RankNode outcome" where
  "put_rank env i data st =
     obind (bucket_Put (re_bolt env) PageRankBucket i data (rn_db st)) (\<lambda>r.
       case r of
         None \<Rightarrow> Inl (Panic ''bolt'')
       | Some db \<Rightarrow> Inr (st\<lparr>rn_node := (rn_node st)\<lparr>dn_db := db\<rparr>\<rparr>))"

text \<open>The cache is given the encoded rank here, and a pointer everywhere else.\<close>

definition storeRankLocally :: "('db, 'c) rank_env \<Rightarrow> RankInfo \<Rightarrow> ('db, 'c) RankNode \<Rightarrow> ('db, 'c) RankNode outcome" where
  "storeRankLocally env pageInfo st =
     (let i = page_key env (ri_Url pageInfo) in
      case re_EncodeRank env pageInfo of
        None \<Rightarrow> Inl (Panic ''protobuf'')
      | Some data \<Rightarrow> obind (cacheSet env i (CacheBytes data) st) (put_rank env i data))"

text \<open>The rank, if any, and whether it is known here.  An entry of another type is a failed type assertion.\<close>

definition getRankLocally :: "('db, 'c) rank_env \<Rightarrow> TypeID \<Rightarrow> ('db, 'c) RankNode
    \<Rightarrow> ((RankInfo option \<times> bool) \<times> ('db, 'c) RankNode) outcome" where
  "getRankLocally env i st =
     (let (c, entry) = ro_Get (re_ops env) i (rn_third st);
          st = st\<lparr>rn_totalAccesses := rn_totalAccesses st + 1, rn_third := c\<rparr>
      in case entry of
           Some CacheNil \<Rightarrow> Inr ((None, True), st)
         | Some (CacheRank rank) \<Rightarrow> Inr ((Some rank, True), st\<lparr>rn_hits := rn_hits st + 1\<rparr>)
         | Some (CacheBytes _) \<Rightarrow> Inl (Panic ''interface conversion'')
         | None \<Rightarrow> obind (getRankFromDatabase env i st) (\<lambda>rank. Inr ((rank, rank \<noteq> None), st)))"

definition getRank :: "('db, 'c) rank_env \<Rightarrow> TypeID \<Rightarrow> ('db, 'c) RankNode \<Rightarrow> (RankInfo option \<times> ('db, 'c) RankNode) outcome" where
  "getRank env i st =
     obind (getRankLocally env i st) (\<lambda>((rank, exists), st).
       if exists then Inr (rank, st)
       else (case re_LookupValue env i of
           Some data \<Rightarrow>
             (let (rank, decoded) = re_DecodeRank env data in
              if decoded then obind (cacheSet env i (CacheRank rank) st) (\<lambda>st. Inr (Some rank, st))
              else Inl (Panic ''protobuf''))
         | None \<Rightarrow> obind (cacheSet env i CacheNil st) (\<lambda>st. Inr (None, st))))"

section \<open>The rank of a page\<close>

definition getCitations :: "('db, 'c) rank_env \<Rightarrow> TypeID \<Rightarrow> ('db, 'c) RankNode \<Rightarrow> string list outcome" where
  "getCitations env i st =
     obind (bucket_Get (re_bolt env) (rn_db st) CitationsBucket i) (\<lambda>data.
       case data of
         None \<Rightarrow> Inr []
       | Some data \<Rightarrow> (case bc_DecodeCitations (de_codec (ce_dht (re_crawl env))) data of
             None \<Rightarrow> Inl (Panic ''protobuf'') | Some c \<Rightarrow> Inr (cit_CitedBy c)))"

definition citing_rank :: "('db, 'c) rank_env \<Rightarrow> RankInfo option \<Rightarrow> string \<Rightarrow> ('db, 'c) RankNode
    \<Rightarrow> (RankInfo option \<times> ('db, 'c) RankNode) outcome" where
  "citing_rank env newInfo citation st =
     (if newInfo = None \<or> map_option ri_Url newInfo \<noteq> Some citation then getRank env (page_key env citation) st
      else Inr (newInfo, st))"

definition add_inlink :: "float_ops \<Rightarrow> RankInfo option \<Rightarrow> float64 \<Rightarrow> float64" where
  "add_inlink f info inlinkSum =
     (case info of
        None \<Rightarrow> inlinkSum
      | Some i \<Rightarrow> fl_add f inlinkSum (fl_div f (ri_Rank i) (fl_of_int f (ri_NumberOfOutboundLinks i + 1))))"

fun inlink_loop :: "('db, 'c) rank_env \<Rightarrow> RankInfo option \<Rightarrow> string list \<Rightarrow> float64 \<Rightarrow> ('db, 'c) RankNode
    \<Rightarrow> (float64 \<times> ('db, 'c) RankNode) outcome" where
  "inlink_loop env newInfo [] inlinkSum st = Inr (inlinkSum, st)"
| "inlink_loop env newInfo (citation # citations) inlinkSum st =
     obind (citing_rank env newInfo citation st) (\<lambda>(info, st).
       inlink_loop env newInfo citations (add_inlink (re_float env) info inlinkSum) st)"

definition new_rank :: "float_ops \<Rightarrow> float64 \<Rightarrow> float64" where
  "new_rank f inlinkSum = fl_add f InitialRank (fl_mul f dampingFactor inlinkSum)"

text \<open>The page with its new rank, the relative change, and the node.\<close>

definition updatePageRankWithInfo :: "('db, 'c) rank_env \<Rightarrow> RankInfo option \<Rightarrow> RankInfo \<Rightarrow> ('db, 'c) RankNode
    \<Rightarrow> (RankInfo \<times> float64 \<times> ('db, 'c) RankNode) outcome" where
  "updatePageRankWithInfo env newInfo page st =
     obind (getCitations env (page_key env (ri_Url page)) st) (\<lambda>citedBy.
       if citedBy = [] then Inr (page, fl_zero, st)
       else obind (inlink_loop env newInfo citedBy fl_zero st) (\<lambda>(inlinkSum, st).
         let f = re_float env; oldRank = ri_Rank page; newRank = new_rank f inlinkSum
         in Inr (page\<lparr>ri_Rank := newRank\<rparr>, fl_div f (fl_abs f (fl_sub f oldRank newRank)) oldRank, st)))"

definition updatePageRank :: "('db, 'c) rank_env \<Rightarrow> RankInfo \<Rightarrow> ('db, 'c) RankNode
    \<Rightarrow> (RankInfo \<times> float64 \<times> ('db, 'c) RankNode) outcome" where
  "updatePageRank env page st = updatePageRankWithInfo env None page st"

section \<open>Passing changes on\<close>

type_synonym ('db, 'c) receive = "RankUpdate \<Rightarrow> bool \<Rightarrow> bool \<Rightarrow> ('db, 'c) RankNode \<Rightarrow> (('db, 'c) RankNode \<times> dht_action list) outcome"

definition rank_batch :: "RankUpdate list \<Rightarrow> BatchMessage" where
  "rank_batch us = \<lparr>bm_UrlMapList = [], bm_OutBoundLinksPackages = [], bm_Citations = [], bm_PageRankUpdates = us\<rparr>"

fun send_rank_batches :: "('db, 'c) rank_env \<Rightarrow> crawl_inputs \<Rightarrow> NodeState \<Rightarrow> nat \<Rightarrow> RankUpdate list list \<Rightarrow> ('db, 'c) RankNode
    \<Rightarrow> dht_action list outcome" where
  "send_rank_batches env inp dest i [] st = Inr []"
| "send_rank_batches env inp dest i (tmp # batches) st =
     (case EncodeBatch (re_crawl env) (rank_batch tmp) of
        None \<Rightarrow> Inl (Panic ''protobuf'')
      | Some packetBytes \<Rightarrow>
          obind (send_rank_batches env inp dest (Suc i) batches st) (\<lambda>acts.
            Inr (sendStore (ci_Nonce inp dest i) dest zero_id packetBytes PageRankBucket (rn_node st) @ acts)))"

fun receive_all :: "('db, 'c) receive \<Rightarrow> RankUpdate list \<Rightarrow> ('db, 'c) RankNode \<Rightarrow> (('db, 'c) RankNode \<times> dht_action list) outcome" where
  "receive_all recv [] st = Inr (st, [])"
| "receive_all recv (u # us) st =
     obind (recv u True False st) (\<lambda>(st, acts).
     obind (receive_all recv us st) (\<lambda>(st, acts'). Inr (st, acts @ acts')))"

text \<open>A batch for this node is processed, and then sent over the network all the same.\<close>

fun rank_destinations :: "('db, 'c) rank_env \<Rightarrow> crawl_inputs \<Rightarrow> ('db, 'c) receive \<Rightarrow> (NodeState \<times> RankUpdate list) list
    \<Rightarrow> ('db, 'c) RankNode \<Rightarrow> (('db, 'c) RankNode \<times> dht_action list) outcome" where
  "rank_destinations env inp recv [] st = Inr (st, [])"
| "rank_destinations env inp recv ((dest, batch) # destinations) st =
     obind (if ns_Address dest = g_address (dn_g (rn_node st)) then receive_all recv batch st else Inr (st, [])) (\<lambda>(st, acts).
     obind (send_rank_batches env inp dest 0 (createUDPBatches (re_UpdateLength env) batch) st) (\<lambda>sends.
     obind (rank_destinations env inp recv destinations st) (\<lambda>(st, acts'). Inr (st, acts @ sends @ acts'))))"

text \<open>
  The loop assigns every link to the same update and puts the same pointer into every group: when the
  groups are sent, all their entries name the link that was assigned last.
\<close>

definition shared_update :: "RankUpdate \<Rightarrow> string list \<Rightarrow> RankUpdate" where
  "shared_update pageUpdate assigned =
     (if assigned = [] then pageUpdate else pageUpdate\<lparr>ru_OutboundLink := last assigned\<rparr>)"

definition batchRankUpdates :: "('db, 'c) rank_env \<Rightarrow> crawl_inputs \<Rightarrow> ('db, 'c) receive \<Rightarrow> string list \<Rightarrow> RankUpdate
    \<Rightarrow> ('db, 'c) RankNode \<Rightarrow> (('db, 'c) RankNode \<times> dht_action list) outcome" where
  "batchRankUpdates env inp recv links pageUpdate st =
     (let lookup = (\<lambda>link. ci_LookupNodes inp (page_key env link));
          (destinations, _) = group_items lookup links [];
          update = shared_update pageUpdate (takeWhile (\<lambda>link. lookup link \<noteq> []) links)
      in rank_destinations env inp recv
           (map (\<lambda>(dest, group). (dest, map (\<lambda>_. update) group)) (visit inp destinations)) st)"

text \<open>
  The links of the page the update names, \<open>i\<close> is the key of that page: a rank that has changed enough is
  stored, and sent to the owners of the links of the page with key \<open>i\<close>.
\<close>

fun update_links :: "('db, 'c) rank_env \<Rightarrow> crawl_inputs \<Rightarrow> ('db, 'c) receive \<Rightarrow> RankInfo option \<Rightarrow> TypeID \<Rightarrow> string list
    \<Rightarrow> ('db, 'c) RankNode \<Rightarrow> (('db, 'c) RankNode \<times> dht_action list) outcome" where
  "update_links env inp recv newInfo i [] st = Inr (st, [])"
| "update_links env inp recv newInfo i (link # links) st =
     obind (getRankFromDatabase env (page_key env link) st) (\<lambda>r.
       case r of
         None \<Rightarrow> update_links env inp recv newInfo i links st
       | Some linkInfo \<Rightarrow>
           obind (updatePageRankWithInfo env newInfo linkInfo st) (\<lambda>(linkInfo, relerr, st).
             if fl_less (re_float env) prEpsilon relerr then
               obind (getOutboundLinksFromDb env i st) (\<lambda>linkOutbounds.
               obind (storeRankLocally env linkInfo st) (\<lambda>st.
               obind (batchRankUpdates env inp recv (obl_OutBoundLinks linkOutbounds)
                        \<lparr>ru_OutboundLink = '''', ru_RankInfo = Some linkInfo\<rparr> st) (\<lambda>(st, acts).
               obind (update_links env inp recv newInfo i links st) (\<lambda>(st, acts'). Inr (st, acts @ acts')))))
             else update_links env inp recv newInfo i links st))"

definition processRankUpdates :: "('db, 'c) rank_env \<Rightarrow> crawl_inputs \<Rightarrow> ('db, 'c) receive \<Rightarrow> RankInfo \<Rightarrow> string \<Rightarrow> bool \<Rightarrow> bool
    \<Rightarrow> ('db, 'c) RankNode \<Rightarrow> (('db, 'c) RankNode \<times> dht_action list) outcome" where
  "processRankUpdates env inp recv info outboundLink isLocal isNew st =
     (let urlId = page_key env (ri_Url info) in
      obind (if isNew then obind (updatePageRank env info st) (\<lambda>(info, _, st). Inr (info, st)) else Inr (info, st)) (\<lambda>(info, st).
      obind (if isLocal then
               (case re_EncodeRank env info of None \<Rightarrow> Inl (Panic ''protobuf'') | Some data \<Rightarrow> put_rank env urlId data st)
             else Inr st) (\<lambda>st.
      obind (cacheSet env urlId (CacheRank info) st) (\<lambda>st.
      (let i = page_key env outboundLink in
       obind (getOutboundLinksFromDb env i st) (\<lambda>package.
         update_links env inp recv (Some info) i (obl_OutBoundLinks package) st))))))"

text \<open>
  Updates for pages of this node are processed recursively; the depth of the recursion is bounded by
  the number of its first argument, and running out of it stands for a stack overflow.
\<close>

fun receiveRankUpdate :: "('db, 'c) rank_env \<Rightarrow> crawl_inputs \<Rightarrow> nat \<Rightarrow> ('db, 'c) receive" where
  "receiveRankUpdate env inp 0 update isLocal isNew st = Inl (Panic ''stack overflow'')"
| "receiveRankUpdate env inp (Suc n) update isLocal isNew st =
     (case ru_RankInfo update of
        None \<Rightarrow> Inl (Panic ''nil pointer'')
      | Some info \<Rightarrow>
          processRankUpdates env inp (receiveRankUpdate env inp n) info (ru_OutboundLink update) isLocal isNew
            (st\<lparr>rn_third := ro_Insert (re_ops env) (string_bytes (ri_Url info)) (rn_third st)\<rparr>))"

section \<open>Arithmetic laws\<close>

text \<open>
  What is used of IEEE 754, with \<open>le\<close> the order of numbers (false on NaN): a sum of numbers from 0 on is
  not smaller than its first summand, and 0.85 times such a number, and such a number divided by a
  positive number of machine size, are at least 0.  Infinity is allowed.
\<close>

definition float_laws :: "float_ops \<Rightarrow> (float64 \<Rightarrow> float64 \<Rightarrow> bool) \<Rightarrow> bool" where
  "float_laws f le \<longleftrightarrow> le fl_zero fl_zero \<and> le fl_zero InitialRank \<and> le InitialRank InitialRank
     \<and> (\<forall>x y z. le x y \<and> le y z \<longrightarrow> le x z)
     \<and> (\<forall>x y. le fl_zero x \<and> le fl_zero y \<longrightarrow> le x (fl_add f x y))
     \<and> (\<forall>x. le fl_zero x \<longrightarrow> le fl_zero (fl_mul f dampingFactor x))
     \<and> (\<forall>x n. le fl_zero x \<and> 0 < n \<and> n < 2 ^ 63 \<longrightarrow> le fl_zero (fl_div f x (fl_of_int f n)))"

text \<open>A rank that makes sense: not negative, of a page whose number of links, and one more, is a Go \<open>int\<close>.\<close>

definition sound_rank :: "(float64 \<Rightarrow> float64 \<Rightarrow> bool) \<Rightarrow> RankInfo \<Rightarrow> bool" where
  "sound_rank le i \<longleftrightarrow> le fl_zero (ri_Rank i) \<and> 0 \<le> ri_NumberOfOutboundLinks i \<and> ri_NumberOfOutboundLinks i + 1 < 2 ^ 63"

lemma float_rules:
  assumes "float_laws f le"
  shows "le fl_zero fl_zero" "le fl_zero InitialRank"
    and "le x y \<Longrightarrow> le y z \<Longrightarrow> le x z" "le fl_zero x \<Longrightarrow> le fl_zero y \<Longrightarrow> le x (fl_add f x y)"
    and "le fl_zero x \<Longrightarrow> le fl_zero (fl_mul f dampingFactor x)"
    and "le fl_zero x \<Longrightarrow> 0 < n \<Longrightarrow> n < 2 ^ 63 \<Longrightarrow> le fl_zero (fl_div f x (fl_of_int f n))"
  using assms unfolding float_laws_def by iprover+

lemma add_inlink_nonneg:
  assumes "float_laws f le" "le fl_zero s" "\<And>i. info = Some i \<Longrightarrow> sound_rank le i"
  shows "le fl_zero (add_inlink f info s)"
proof (cases info)
  case (Some i)
  note r = float_rules [OF assms(1)]
  have i: "le fl_zero (ri_Rank i)" "0 < ri_NumberOfOutboundLinks i + 1" "ri_NumberOfOutboundLinks i + 1 < 2 ^ 63" using assms(3) [OF Some] by (simp_all add: sound_rank_def)
  show ?thesis unfolding add_inlink_def Some option.case by (rule r(3) [OF assms(2) r(4) [OF assms(2) r(6) [OF i]]])
qed (simp add: add_inlink_def assms(2))

lemma new_rank_bound:
  assumes "float_laws f le" "le fl_zero s"
  shows "le InitialRank (new_rank f s)"
proof -
  note r = float_rules [OF assms(1)]
  show ?thesis unfolding new_rank_def by (rule r(4) [OF r(2) r(5) [OF assms(2)]])
qed

section \<open>Known ranks stay sound\<close>

text \<open>Everything a rank may be read from holds sound ranks: the cache, the database and the answers of others.\<close>

definition ranks_sound :: "('db, 'c) rank_env \<Rightarrow> (float64 \<Rightarrow> float64 \<Rightarrow> bool) \<Rightarrow> ('db, 'c) RankNode \<Rightarrow> bool" where
  "ranks_sound env le st \<longleftrightarrow>
     (\<forall>i r. snd (ro_Get (re_ops env) i (rn_third st)) = Some (CacheRank r) \<longrightarrow> sound_rank le r)
     \<and> (\<forall>i d. bolt_Get (re_bolt env) (rn_db st) PageRankBucket i = Some d \<longrightarrow> sound_rank le (fst (re_DecodeRank env d)))"

text \<open>The cache returns what was stored last, or nothing.\<close>

definition cache_laws :: "'c rank_ops \<Rightarrow> bool" where
  "cache_laws ops \<longleftrightarrow>
     (\<forall>k v c c'. ro_Set ops k v c = Some c' \<longrightarrow> (\<forall>k' e. snd (ro_Get ops k' c') = Some e \<longrightarrow>
        (if k' = k then e = v else snd (ro_Get ops k' c) = Some e)))
     \<and> (\<forall>k c k' e. snd (ro_Get ops k' (fst (ro_Get ops k c))) = Some e \<longrightarrow> snd (ro_Get ops k' c) = Some e)
     \<and> (\<forall>b c k. snd (ro_Get ops k (ro_Insert ops b c)) = snd (ro_Get ops k c))"

definition rank_env_ok :: "('db, 'c) rank_env \<Rightarrow> (float64 \<Rightarrow> float64 \<Rightarrow> bool) \<Rightarrow> bool" where
  "rank_env_ok env le \<longleftrightarrow> bolt_laws (re_bolt env) \<and> cache_laws (re_ops env) \<and> float_laws (re_float env) le
     \<and> (\<forall>r b. re_EncodeRank env r = Some b \<longrightarrow> re_DecodeRank env b = (r, True))
     \<and> (\<forall>i d. re_LookupValue env i = Some d \<longrightarrow> sound_rank le (fst (re_DecodeRank env d)))"

lemma cacheSet_sound:
  assumes "rank_env_ok env le" "ranks_sound env le st" "cacheSet env k v st = Inr st'"
    and "\<And>r. v = CacheRank r \<Longrightarrow> sound_rank le r"
  shows "ranks_sound env le st'" "rn_db st' = rn_db st"
proof -
  obtain c where c: "ro_Set (re_ops env) k v (rn_third st) = Some c" "st' = st\<lparr>rn_third := c\<rparr>"
    using assms(3) by (auto simp: cacheSet_def split: option.splits)
  have "\<forall>k' e. snd (ro_Get (re_ops env) k' c) = Some e \<longrightarrow> (if k' = k then e = v else snd (ro_Get (re_ops env) k' (rn_third st)) = Some e)"
    using assms(1) c(1) unfolding rank_env_ok_def cache_laws_def by blast
  then have "sound_rank le r" if "snd (ro_Get (re_ops env) i c) = Some (CacheRank r)" for i r
    using that assms(2,4) unfolding ranks_sound_def by (metis (full_types))
  then show "ranks_sound env le st'" "rn_db st' = rn_db st" using assms(2) by (auto simp: ranks_sound_def c(2))
qed

lemma getRankLocally_sound:
  assumes "rank_env_ok env le" "ranks_sound env le st" "getRankLocally env i st = Inr ((r, known), st')"
  shows "ranks_sound env le st'" "rn_db st' = rn_db st" "\<And>x. r = Some x \<Longrightarrow> sound_rank le x"
proof -
  obtain c entry where g: "ro_Get (re_ops env) i (rn_third st) = (c, entry)" by fastforce
  have c: "snd (ro_Get (re_ops env) k c) = Some e \<Longrightarrow> snd (ro_Get (re_ops env) k (rn_third st)) = Some e" for k e
    using assms(1) g unfolding rank_env_ok_def cache_laws_def by (metis fst_conv)
  have st': "rn_third st' = c" "rn_db st' = rn_db st"
    using assms(3) by (auto simp: getRankLocally_def Let_def g obind_Inr_iff split: option.splits cache_entry.splits)
  show "ranks_sound env le st'" using assms(2) c unfolding ranks_sound_def st' by blast
  show "rn_db st' = rn_db st" by (rule st'(2))
  have cached: "sound_rank le x" if "entry = Some (CacheRank x)" for x
    using assms(2) that unfolding ranks_sound_def by (metis g snd_conv)
  have stored: "sound_rank le (fst (re_DecodeRank env d))" if "bolt_Get (re_bolt env) (rn_db st) PageRankBucket i = Some d" for d
    using assms(2) that unfolding ranks_sound_def by blast
  show "sound_rank le x" if "r = Some x" for x
  proof (cases entry)
    case None
    then show ?thesis using assms(3) that stored
      by (auto simp: getRankLocally_def Let_def g getRankFromDatabase_def bucket_Get_def obind_Inr_iff split: option.splits if_splits)
  next
    case (Some e)
    then show ?thesis using assms(3) that cached by (cases e) (auto simp: getRankLocally_def Let_def g)
  qed
qed

lemma getRank_sound:
  assumes "rank_env_ok env le" "ranks_sound env le st" "getRank env i st = Inr (r, st')"
  shows "ranks_sound env le st' \<and> rn_db st' = rn_db st \<and> (\<forall>x. r = Some x \<longrightarrow> sound_rank le x)"
proof -
  obtain rank known st1 where l: "getRankLocally env i st = Inr ((rank, known), st1)"
    using assms(3) by (auto simp: getRank_def obind_Inr_iff)
  note s = getRankLocally_sound [OF assms(1,2) l]
  show ?thesis
  proof (cases known)
    case True
    then show ?thesis using assms(3) s by (simp add: getRank_def l)
  next
    case False
    show ?thesis
    proof (cases "re_LookupValue env i")
      case None
      then have "cacheSet env i CacheNil st1 = Inr st'" "r = None" using assms(3) False by (auto simp: getRank_def l obind_Inr_iff)
      then show ?thesis using cacheSet_sound [OF assms(1) s(1), of i CacheNil st'] s(2) by simp
    next
      case (Some d)
      obtain x b where d: "re_DecodeRank env d = (x, b)" by fastforce
      have x: "sound_rank le x" using assms(1) Some d unfolding rank_env_ok_def by fastforce
      have "cacheSet env i (CacheRank x) st1 = Inr st'" "r = Some x"
        using assms(3) False Some d by (auto simp: getRank_def l obind_Inr_iff split: if_splits)
      then show ?thesis using cacheSet_sound [OF assms(1) s(1), of i "CacheRank x" st'] s(2) x by simp
    qed
  qed
qed

lemma inlink_loop_sound:
  assumes "rank_env_ok env le" "\<And>x. newInfo = Some x \<Longrightarrow> sound_rank le x"
    and "ranks_sound env le st" "le fl_zero s" "inlink_loop env newInfo cs s st = Inr (s', st')"
  shows "ranks_sound env le st' \<and> rn_db st' = rn_db st \<and> le fl_zero s'"
  using assms(3-5)
proof (induction cs arbitrary: s st)
  case (Cons c cs)
  obtain info st1 where c: "citing_rank env newInfo c st = Inr (info, st1)"
    and r: "inlink_loop env newInfo cs (add_inlink (re_float env) info s) st1 = Inr (s', st')"
    using Cons.prems(3) by (auto simp: obind_Inr_iff)
  have g: "ranks_sound env le st1 \<and> rn_db st1 = rn_db st \<and> (\<forall>x. info = Some x \<longrightarrow> sound_rank le x)"
    using c getRank_sound [OF assms(1) Cons.prems(1)] assms(2) Cons.prems(1) by (auto simp: citing_rank_def split: if_splits)
  have "float_laws (re_float env) le" using assms(1) by (simp add: rank_env_ok_def)
  then have "le fl_zero (add_inlink (re_float env) info s)" using add_inlink_nonneg Cons.prems(2) g by blast
  then show ?case using Cons.IH [OF _ _ r] g by simp
qed simp

lemma updatePageRankWithInfo_sound:
  assumes "rank_env_ok env le" "\<And>x. newInfo = Some x \<Longrightarrow> sound_rank le x" "ranks_sound env le st"
    and "updatePageRankWithInfo env newInfo page st = Inr (page', relerr, st')"
  shows "ranks_sound env le st' \<and> rn_db st' = rn_db st \<and> (page' = page \<or> le InitialRank (ri_Rank page'))
    \<and> ri_Url page' = ri_Url page \<and> ri_NumberOfOutboundLinks page' = ri_NumberOfOutboundLinks page"
proof -
  have fl: "float_laws (re_float env) le" using assms(1) by (simp add: rank_env_ok_def)
  obtain cs where c: "getCitations env (page_key env (ri_Url page)) st = Inr cs"
    using assms(4) by (auto simp: updatePageRankWithInfo_def obind_Inr_iff)
  show ?thesis
  proof (cases "cs = []")
    case True
    then show ?thesis using assms(3,4) by (simp add: updatePageRankWithInfo_def c)
  next
    case False
    then obtain s st1 where l: "inlink_loop env newInfo cs fl_zero st = Inr (s, st1)"
      and r: "page' = page\<lparr>ri_Rank := new_rank (re_float env) s\<rparr>" "st' = st1"
      using assms(4) by (auto simp: updatePageRankWithInfo_def c obind_Inr_iff Let_def)
    have "le fl_zero fl_zero" by (rule float_rules(1) [OF fl])
    then show ?thesis using inlink_loop_sound [OF assms(1,2,3) _ l] new_rank_bound [OF fl] by (auto simp: r)
  qed
qed

lemma obind2_iff: "obind m (\<lambda>(x, y). f x y) = Inr z \<longleftrightarrow> (\<exists>x y. m = Inr (x, y) \<and> f x y = Inr z)"
  by (cases m) auto

lemma obind3_iff: "obind m (\<lambda>(x, y, z). f x y z) = Inr r \<longleftrightarrow> (\<exists>x y z. m = Inr (x, y, z) \<and> f x y z = Inr r)"
  by (cases m) auto

lemma put_rank_sound:
  assumes "rank_env_ok env le" "ranks_sound env le st" "put_rank env i data st = Inr st'"
    and "sound_rank le (fst (re_DecodeRank env data))"
  shows "ranks_sound env le st'"
proof -
  obtain db where p: "bolt_Put (re_bolt env) PageRankBucket i data (rn_db st) = Some db"
    and st': "st' = st\<lparr>rn_node := (rn_node st)\<lparr>dn_db := db\<rparr>\<rparr>"
    using assms(3) by (auto simp: put_rank_def bucket_Put_def obind_Inr_iff split: if_splits option.splits)
  have "bolt_laws (re_bolt env)" using assms(1) by (simp add: rank_env_ok_def)
  note g = bolt_Put_laws(1) [OF this p]
  show ?thesis using assms(2,4) by (auto simp: ranks_sound_def st' g)
qed

lemma encoded_rank: "rank_env_ok env le \<Longrightarrow> re_EncodeRank env r = Some b \<Longrightarrow> fst (re_DecodeRank env b) = r"
  by (simp add: rank_env_ok_def)

lemma storeRankLocally_sound:
  assumes "rank_env_ok env le" "ranks_sound env le st" "storeRankLocally env info st = Inr st'" "sound_rank le info"
  shows "ranks_sound env le st'"
proof -
  obtain data st1 where d: "re_EncodeRank env info = Some data"
    and c: "cacheSet env (page_key env (ri_Url info)) (CacheBytes data) st = Inr st1"
    and p: "put_rank env (page_key env (ri_Url info)) data st1 = Inr st'"
    using assms(3) by (auto simp: storeRankLocally_def Let_def obind_Inr_iff split: option.splits)
  have "ranks_sound env le st1" using cacheSet_sound(1) [OF assms(1,2) c] by simp
  from put_rank_sound [OF assms(1) this p] show ?thesis using assms(4) by (simp add: encoded_rank [OF assms(1) d])
qed

section \<open>The invariant through the propagation\<close>

text \<open>A receiver of updates that keeps known ranks sound.\<close>

definition keeps_ranks :: "('db, 'c) rank_env \<Rightarrow> (float64 \<Rightarrow> float64 \<Rightarrow> bool) \<Rightarrow> ('db, 'c) receive \<Rightarrow> bool" where
  "keeps_ranks env le recv \<longleftrightarrow> (\<forall>u l n st st' acts. (\<forall>i. ru_RankInfo u = Some i \<longrightarrow> sound_rank le i) \<longrightarrow>
     ranks_sound env le st \<longrightarrow> recv u l n st = Inr (st', acts) \<longrightarrow> ranks_sound env le st')"

definition sound_update :: "(float64 \<Rightarrow> float64 \<Rightarrow> bool) \<Rightarrow> RankUpdate \<Rightarrow> bool" where
  "sound_update le u \<longleftrightarrow> (\<forall>i. ru_RankInfo u = Some i \<longrightarrow> sound_rank le i)"

lemma receive_all_sound:
  assumes "keeps_ranks env le recv" "list_all (sound_update le) us" "ranks_sound env le st" "receive_all recv us st = Inr (st', acts)"
  shows "ranks_sound env le st'"
  using assms(2-4)
proof (induction us arbitrary: st acts)
  case (Cons u us)
  obtain st1 a1 a2 where u: "recv u True False st = Inr (st1, a1)" and r: "receive_all recv us st1 = Inr (st', a2)"
    using Cons.prems(3) by (auto simp: obind_Inr_iff)
  have "\<forall>i. ru_RankInfo u = Some i \<longrightarrow> sound_rank le i" using Cons.prems(1) by (simp add: sound_update_def)
  then have "ranks_sound env le st1" using assms(1) [unfolded keeps_ranks_def, rule_format, OF _ Cons.prems(2) u] by blast
  then show ?case using Cons.IH [OF _ _ r] Cons.prems(1) by simp
qed simp

lemma rank_destinations_sound:
  assumes "keeps_ranks env le recv" "\<forall>(d, us) \<in> set ds. list_all (sound_update le) us" "ranks_sound env le st"
    and "rank_destinations env inp recv ds st = Inr (st', acts)"
  shows "ranks_sound env le st'"
  using assms(2-4)
proof (induction ds arbitrary: st acts)
  case (Cons x ds)
  obtain d us where x: "x = (d, us)" by (cases x)
  obtain st1 a1 a2 where u: "(if ns_Address d = g_address (dn_g (rn_node st)) then receive_all recv us st else Inr (st, [])) = Inr (st1, a1)"
    and r: "rank_destinations env inp recv ds st1 = Inr (st', a2)"
    using Cons.prems(3) unfolding x rank_destinations.simps unfolding obind2_iff unfolding obind_Inr_iff split_paired_Ex prod.case by blast
  have "ranks_sound env le st1"
    using u receive_all_sound [OF assms(1) _ Cons.prems(2)] Cons.prems(1,2) by (auto simp: x split: if_splits)
  then show ?case using Cons.IH [OF _ _ r] Cons.prems(1) by simp
qed simp

lemma batchRankUpdates_sound:
  assumes "keeps_ranks env le recv" "sound_update le u" "ranks_sound env le st"
    and "batchRankUpdates env inp recv links u st = Inr (st', acts)"
  shows "ranks_sound env le st'"
proof -
  have "sound_update le (shared_update u ls)" for ls using assms(2) by (simp add: shared_update_def sound_update_def)
  then show ?thesis
    using assms(4) unfolding batchRankUpdates_def Let_def
    by (auto simp: list_all_iff split: prod.splits intro!: rank_destinations_sound [OF assms(1) _ assms(3)])
qed

lemma sound_rank_updated:
  assumes "rank_env_ok env le" "sound_rank le page" "page' = page \<or> le InitialRank (ri_Rank page')"
    and "ri_NumberOfOutboundLinks page' = ri_NumberOfOutboundLinks page"
  shows "sound_rank le page'"
proof -
  have f: "float_laws (re_float env) le" using assms(1) by (simp add: rank_env_ok_def)
  show ?thesis using assms(2-4) float_rules(3) [OF f float_rules(2) [OF f]] by (auto simp: sound_rank_def)
qed

lemma getRankFromDatabase_sound:
  "ranks_sound env le st \<Longrightarrow> getRankFromDatabase env i st = Inr (Some r) \<Longrightarrow> sound_rank le r"
  by (auto simp: getRankFromDatabase_def bucket_Get_def ranks_sound_def obind_Inr_iff split: option.splits if_splits)

lemma update_links_sound:
  assumes "rank_env_ok env le" "keeps_ranks env le recv" "\<And>x. newInfo = Some x \<Longrightarrow> sound_rank le x"
    and "ranks_sound env le st" "update_links env inp recv newInfo i links st = Inr (st', acts)"
  shows "ranks_sound env le st'"
  using assms(4,5)
proof (induction links arbitrary: st acts)
  case (Cons link links)
  obtain r where r: "getRankFromDatabase env (page_key env link) st = Inr r"
    using Cons.prems(2) by (auto simp: obind_Inr_iff)
  show ?case
  proof (cases r)
    case None
    then show ?thesis using Cons r by simp
  next
    case (Some page)
    then obtain page' relerr st1 where u: "updatePageRankWithInfo env newInfo page st = Inr (page', relerr, st1)"
      using Cons.prems(2) r by (auto simp: obind_Inr_iff)
    note s = updatePageRankWithInfo_sound [OF assms(1,3) Cons.prems(1) u]
    have p: "sound_rank le page" using getRankFromDatabase_sound [OF Cons.prems(1)] r Some by simp
    have p': "sound_rank le page'" using sound_rank_updated [OF assms(1) p] s by blast
    show ?thesis
    proof (cases "fl_less (re_float env) prEpsilon relerr")
      case False
      then show ?thesis using Cons.IH [of st1] Cons.prems(2) s by (simp add: r Some u)
    next
      case True
      then obtain lo st2 st3 a3 a4 where st2: "storeRankLocally env page' st1 = Inr st2"
        and b: "batchRankUpdates env inp recv lo \<lparr>ru_OutboundLink = '''', ru_RankInfo = Some page'\<rparr> st2 = Inr (st3, a3)"
        and rest: "update_links env inp recv newInfo i links st3 = Inr (st', a4)"
        using Cons.prems(2) unfolding update_links.simps r Some u option.case obind_simps prod.case if_P [OF True]
        unfolding obind_Inr_iff unfolding split_paired_Ex prod.case unfolding obind_Inr_iff split_paired_Ex prod.case sum.inject prod.inject by blast
      have "ranks_sound env le st2" using storeRankLocally_sound [OF assms(1) _ st2 p'] s by blast
      then have "ranks_sound env le st3" using batchRankUpdates_sound [OF assms(2) _ _ b] p' by (simp add: sound_update_def)
      then show ?thesis using Cons.IH [OF _ rest] by simp
    qed
  qed
qed simp

lemma processRankUpdates_sound:
  assumes "rank_env_ok env le" "keeps_ranks env le recv" "sound_rank le info" "ranks_sound env le st"
    and "processRankUpdates env inp recv info link isLocal isNew st = Inr (st', acts)"
  shows "ranks_sound env le st'"
proof -
  obtain info1 st1 st2 st3 package where n: "(if isNew then obind (updatePageRank env info st) (\<lambda>(info, _, st). Inr (info, st)) else Inr (info, st)) = Inr (info1, st1)"
    and l: "(if isLocal then
               (case re_EncodeRank env info1 of None \<Rightarrow> Inl (Panic ''protobuf'') | Some data \<Rightarrow> put_rank env (page_key env (ri_Url info)) data st1)
             else Inr st1) = Inr st2"
    and c: "cacheSet env (page_key env (ri_Url info)) (CacheRank info1) st2 = Inr st3"
    and u: "update_links env inp recv (Some info1) (page_key env link) package st3 = Inr (st', acts)"
    using assms(5) unfolding processRankUpdates_def Let_def unfolding obind2_iff unfolding obind_Inr_iff by blast
  have 1: "ranks_sound env le st1 \<and> sound_rank le info1"
  proof (cases isNew)
    case True
    then obtain e where "updatePageRankWithInfo env None info st = Inr (info1, e, st1)"
      using n by (auto simp: updatePageRank_def obind_Inr_iff)
    from updatePageRankWithInfo_sound [OF assms(1) _ assms(4) this] show ?thesis
      using sound_rank_updated [OF assms(1,3)] by simp
  qed (use n assms(3,4) in simp)
  have "ranks_sound env le st2"
  proof (cases isLocal)
    case True
    then obtain data where "re_EncodeRank env info1 = Some data" "put_rank env (page_key env (ri_Url info)) data st1 = Inr st2"
      using l by (auto split: option.splits)
    then show ?thesis using put_rank_sound [OF assms(1), of st1] 1 encoded_rank [OF assms(1)] by metis
  qed (use l 1 in simp)
  then have "ranks_sound env le st3" using cacheSet_sound(1) [OF assms(1) _ c] 1 by simp
  then show ?thesis using update_links_sound [OF assms(1,2) _ _ u] 1 by simp
qed

lemma receiveRankUpdate_keeps:
  assumes "rank_env_ok env le"
  shows "keeps_ranks env le (receiveRankUpdate env inp n)"
proof (induction n)
  case (Suc n)
  have c: "cache_laws (re_ops env)" using assms by (simp add: rank_env_ok_def)
  have "snd (ro_Get (re_ops env) k (ro_Insert (re_ops env) b c)) = snd (ro_Get (re_ops env) k c)" for k b c
    using c unfolding cache_laws_def by blast
  then have ins: "ranks_sound env le (st\<lparr>rn_third := ro_Insert (re_ops env) b (rn_third st)\<rparr>) = ranks_sound env le st" for st b
    by (simp add: ranks_sound_def)
  show ?case unfolding keeps_ranks_def
  proof (intro allI impI)
    fix u l nw and st st' :: "('a, 'b) RankNode" and acts
    assume a: "\<forall>i. ru_RankInfo u = Some i \<longrightarrow> sound_rank le i" "ranks_sound env le st"
      "receiveRankUpdate env inp (Suc n) u l nw st = Inr (st', acts)"
    then obtain info where i: "ru_RankInfo u = Some info" by (cases "ru_RankInfo u") auto
    then have "sound_rank le info" using a(1) by blast
    moreover have "ranks_sound env le (st\<lparr>rn_third := ro_Insert (re_ops env) (string_bytes (ri_Url info)) (rn_third st)\<rparr>)"
      using ins a(2) by blast
    moreover have "processRankUpdates env inp (receiveRankUpdate env inp n) info (ru_OutboundLink u) l nw
        (st\<lparr>rn_third := ro_Insert (re_ops env) (string_bytes (ri_Url info)) (rn_third st)\<rparr>) = Inr (st', acts)"
      using a(3) i by simp
    ultimately show "ranks_sound env le st'" by (rule processRankUpdates_sound [OF assms Suc])
  qed
qed (simp add: keeps_ranks_def)

section \<open>Updates for one destination\<close>

lemma shared_update_all:
  assumes "links \<noteq> []" "\<forall>link \<in> set links. f link \<noteq> []"
  shows "shared_update u (takeWhile (\<lambda>link. f link \<noteq> []) links) = u\<lparr>ru_OutboundLink := last links\<rparr>"
proof -
  have "takeWhile (\<lambda>link. f link \<noteq> []) links = links" using assms(2) by (simp only: takeWhile_eq_all_conv)
  then show ?thesis using assms(1) by (simp only: shared_update_def if_False)
qed

lemma cache_Set:
  assumes "cache_laws ops" "ro_Set ops k v c = Some c'" "snd (ro_Get ops k c') = Some e"
  shows "e = v"
  using assms(1) [unfolded cache_laws_def, THEN conjunct1, rule_format, OF assms(2,3)] by simp

section \<open>Properties\<close>


text \<open>The updates of a changed rank lose their targets: when the links of a page belong to one other
  node, it is sent one update per link, but all of them name the last link.\<close>

theorem rank_updates_name_last_link:
  assumes "links \<noteq> []" "\<forall>link \<in> set links. \<exists>rest. ci_LookupNodes inp (page_key env link) = dest # rest"
    and "\<And>ks. mset (ci_Order inp ks) = mset ks" "ns_Address dest \<noteq> g_address (dn_g (rn_node st))"
    and "re_UpdateLength env (u\<lparr>ru_OutboundLink := last links\<rparr>) * length links < udpMaxSize"
    and "EncodeBatch (re_crawl env) (rank_batch (replicate (length links) (u\<lparr>ru_OutboundLink := last links\<rparr>))) = Some data"
  shows "batchRankUpdates env inp recv links u st
    = Inr (st, sendStore (ci_Nonce inp dest 0) dest zero_id data PageRankBucket (rn_node st))"
proof -
  let ?f = "\<lambda>link. ci_LookupNodes inp (page_key env link)" and ?u = "u\<lparr>ru_OutboundLink := last links\<rparr>"
  have f: "\<forall>link \<in> set links. ?f link \<noteq> []" "\<And>link. link \<in> set links \<Longrightarrow> hd (?f link) = dest" using assms(2) by fastforce+
  have wf: "gm_wf ([] :: (NodeState, string list) gomap)" by (rule gm.wf_empty)
  obtain dom where g: "group_items ?f links [] = (dom, True)" "gm_wf dom"
    "\<forall>owner. group_of dom owner = owned ?f owner links" "set (gm_keys dom) = (hd \<circ> ?f) ` set links"
    using group_items_result [OF f(1) wf] by (auto simp: group_of_def gm.load_empty gm_keys_def)
  have "set (gm_keys dom) = {dest}" using g(4) f(2) assms(1) by (auto simp: image_iff)
  then have "gm_keys dom = [dest]" using g(2) by (intro distinct_set_single) (simp_all add: gm_wf_def gm_keys_def)
  then have "mset (ci_Order inp (gm_keys dom)) = {#dest#}" using assms(3) [of "gm_keys dom"] by simp
  then have o: "ci_Order inp (gm_keys dom) = [dest]" by simp
  have "owned ?f dest links = links" using f(2) by simp
  then have v: "visit inp dom = [(dest, links)]" by (simp add: visit_eq o g(3))
  have us: "map (\<lambda>_. ?u) links = replicate (length links) ?u" by (simp add: map_replicate_const)
  have "size_of (re_UpdateLength env) (replicate (length links) ?u) < udpMaxSize"
    using assms(5) by (simp add: sum_list_replicate mult.commute)
  then have b: "createUDPBatches (re_UpdateLength env) (replicate (length links) ?u) = [replicate (length links) ?u]"
    using createUDPBatches_result [of "re_UpdateLength env" "replicate (length links) ?u"] assms(1) by simp
  have s: "shared_update u (takeWhile (\<lambda>link. ?f link \<noteq> []) links) = ?u"
    by (rule shared_update_all [where f = ?f, OF assms(1) f(1)])
  show ?thesis unfolding batchRankUpdates_def Let_def g(1) prod.case s v list.map us
    using assms(4) by (simp add: b assms(6))
qed

text \<open>A node that has stored a changed rank crashes when it needs that rank again: the cache holds
  bytes where a pointer is expected.\<close>

theorem stored_rank_crashes_reader:
  assumes "cache_laws (re_ops env)" "storeRankLocally env info st = Inr st'"
    and "snd (ro_Get (re_ops env) (page_key env (ri_Url info)) (rn_third st')) \<noteq> None"
  shows "getRank env (page_key env (ri_Url info)) st' = Inl (Panic ''interface conversion'')"
proof -
  let ?k = "page_key env (ri_Url info)"
  obtain data st1 where c: "cacheSet env ?k (CacheBytes data) st = Inr st1" and p: "put_rank env ?k data st1 = Inr st'"
    using assms(2) by (auto simp: storeRankLocally_def Let_def obind_Inr_iff split: option.splits)
  have "ro_Set (re_ops env) ?k (CacheBytes data) (rn_third st) = Some (rn_third st')"
    using c p by (auto simp: cacheSet_def put_rank_def obind_Inr_iff split: option.splits)
  then have "snd (ro_Get (re_ops env) ?k (rn_third st')) = Some (CacheBytes data)"
    using assms(3) cache_Set [OF assms(1)] by blast
  then show ?thesis by (auto simp: getRank_def getRankLocally_def split: prod.split)
qed

section \<open>Examples\<close>

definition example_info :: RankInfo where
  "example_info = \<lparr>ri_Url = ''/a'', ri_Rank = InitialRank, ri_NumberOfOutboundLinks = 2\<rparr>"

text \<open>The arithmetic of Doubles; no rank uses the logarithm and the square root.\<close>

definition example_float :: float_ops where
  "example_float = \<lparr>fl_of_int = dbl_of_int, fl_add = dbl_add, fl_sub = dbl_dist, fl_mul = dbl_mul, fl_div = dbl_div, fl_abs = id,
     fl_less = dbl_less, fl_log = (\<lambda>_. dbl_nan), fl_sqrt = (\<lambda>_. dbl_nan)\<rparr>"

definition example_rank_ops :: "(TypeID, cache_entry) gomap rank_ops" where
  "example_rank_ops = \<lparr>ro_Set = (\<lambda>k v c. Some (gm_store k v c)), ro_Get = (\<lambda>k c. (c, gm_load c k)), ro_Insert = (\<lambda>_ c. c), ro_Estimate = (\<lambda>_. 0)\<rparr>"

definition example_rank_env :: "(mem_db, (TypeID, cache_entry) gomap) rank_env" where
  "example_rank_env = \<lparr>re_crawl = example_crawl_env\<lparr>ce_dht := example_dht_env\<lparr>de_codec := example_store_codec\<lparr>bc_EncodeBatch := (\<lambda>m. Some [of_nat (length (bm_PageRankUpdates m))])\<rparr>\<rparr>\<rparr>,
     re_ops = example_rank_ops, re_float = example_float,
     re_EncodeRank = (\<lambda>r. if r = example_info then Some [1] else None), re_DecodeRank = (\<lambda>_. (example_info, True)),
     re_DecodeLinks = (\<lambda>_. None), re_UpdateLength = (\<lambda>_. 20), re_KeyN = (\<lambda>_ _. 0), re_LookupValue = (\<lambda>_. None)\<rparr>"

definition example_rank_node :: "(mem_db, (TypeID, cache_entry) gomap) RankNode" where
  "example_rank_node = newRanker ((example_dht 1 False)\<lparr>dn_db := [(LinksBucket, 0, []), (CitationsBucket, 0, []), (PageRankBucket, 0, [])]\<rparr>) []"

lemma example_float_laws: "float_laws example_float dbl_le"
proof -
  have n: "dbl_le fl_zero x \<longleftrightarrow> x \<le> dbl_inf" for x by (simp add: dbl_le_def dbl_numbers_def fl_zero_def dbl_inf_def)
  have e: "fl_add example_float = dbl_add" "fl_mul example_float = dbl_mul" "fl_div example_float = dbl_div"
    "fl_of_int example_float = dbl_of_int" by (simp_all add: example_float_def)
  show ?thesis unfolding float_laws_def e
  proof (intro conjI allI impI)
    show "dbl_le fl_zero fl_zero" "dbl_le fl_zero InitialRank" "dbl_le InitialRank InitialRank"
      by (simp_all add: dbl_le_def dbl_numbers_def fl_zero_def InitialRank_def dbl_inf_def)
    show "dbl_le x z" if "dbl_le x y \<and> dbl_le y z" for x y z using that by (auto simp: dbl_le_def dbl_numbers_def)
    show "dbl_le x (dbl_add x y)" if "dbl_le fl_zero x \<and> dbl_le fl_zero y" for x y
      by (rule dbl_add_ge) (use that in \<open>simp_all add: n\<close>)
    show "dbl_le fl_zero (dbl_mul dampingFactor x)" if "dbl_le fl_zero x" for x
      unfolding n by (rule dbl_mul_number) (use that in \<open>simp_all add: n dampingFactor_def dbl_inf_def\<close>)
    show "dbl_le fl_zero (dbl_div x (dbl_of_int k))" if "dbl_le fl_zero x \<and> 0 < k \<and> k < 2 ^ 63" for x k
    proof -
      have k: "0 < k" "k < 2 ^ 63" "x \<le> dbl_inf" using that by (simp_all add: n)
      note d = dbl_of_int_number [OF k(1,2)]
      show ?thesis unfolding n by (rule dbl_div_number [OF k(3) d(2)]) (use d(1) in auto)
    qed
  qed
qed

lemma example_cache_laws: "cache_laws example_rank_ops"
  by (auto simp: cache_laws_def example_rank_ops_def gm.load_store split: if_splits)

lemma example_rank_env_simps [simp]:
  "re_bolt example_rank_env = mem_bolt" "re_ops example_rank_env = example_rank_ops" "re_float example_rank_env = example_float"
  "page_key example_rank_env u = string_bytes u"
  "re_EncodeRank example_rank_env r = (if r = example_info then Some [1] else None)" "re_DecodeRank example_rank_env b = (example_info, True)"
  "re_LookupValue example_rank_env i = None" "re_UpdateLength example_rank_env u' = 20"
  "EncodeBatch (re_crawl example_rank_env) m = Some [of_nat (length (bm_PageRankUpdates m))]"
  by (simp_all add: example_rank_env_def GenerateKeyHash_def example_dht_env_def)

lemma example_rank_ok: "rank_env_ok example_rank_env dbl_le"
  by (simp add: rank_env_ok_def mem_bolt_laws example_cache_laws example_float_laws)

lemma example_rank_start: "ranks_sound example_rank_env dbl_le example_rank_node"
  by (auto simp: ranks_sound_def example_rank_node_def newRanker_def example_rank_ops_def gm_load_def mem_bolt_def bucket_names
      split: option.splits if_splits)


theorem rank_updates_name_last_link_witness:
  "batchRankUpdates example_rank_env (example_inputs False) (\<lambda>_ _ _ _. Inl (Panic ''unused'')) [''/b'', ''/c''] \<lparr>ru_OutboundLink = '''', ru_RankInfo = Some example_info\<rparr> example_rank_node
   = Inr (example_rank_node, sendStore 0 \<lparr>ns_NodeID = [], ns_Address = ''y''\<rparr> zero_id [2] PageRankBucket (rn_node example_rank_node))"
proof -
  let ?dest = "\<lparr>ns_NodeID = [], ns_Address = ''y''\<rparr>"
  have "batchRankUpdates example_rank_env (example_inputs False) (\<lambda>_ _ _ _. Inl (Panic ''unused'')) [''/b'', ''/c''] \<lparr>ru_OutboundLink = '''', ru_RankInfo = Some example_info\<rparr> example_rank_node
   = Inr (example_rank_node, sendStore (ci_Nonce (example_inputs False) ?dest 0) ?dest zero_id [2] PageRankBucket (rn_node example_rank_node))"
  proof (rule rank_updates_name_last_link)
    show "\<forall>link \<in> set [''/b'', ''/c'']. \<exists>rest. ci_LookupNodes (example_inputs False) (page_key example_rank_env link) = ?dest # rest"
      by (simp add: example_inputs_def)
    show "mset (ci_Order (example_inputs False) ks) = mset ks" for ks by (simp add: example_inputs_def)
    show "ns_Address ?dest \<noteq> g_address (dn_g (rn_node example_rank_node))"
      by (simp add: example_rank_node_def newRanker_def example_dht_def example_peer_def NewGossiper_def)
  qed (simp_all add: udpMaxSize_def rank_batch_def)
  then show ?thesis by (simp add: example_inputs_def)
qed

theorem stored_rank_crashes_reader_witness:
  "\<exists>st'. storeRankLocally example_rank_env example_info example_rank_node = Inr st'
    \<and> getRank example_rank_env (string_bytes ''/a'') st' = Inl (Panic ''interface conversion'')"
proof -
  have "\<exists>st'. storeRankLocally example_rank_env example_info example_rank_node = Inr st'
      \<and> snd (ro_Get example_rank_ops (string_bytes ''/a'') (rn_third st')) \<noteq> None"
    by (simp add: storeRankLocally_def put_rank_def bucket_Put_def cacheSet_def Let_def)
      (simp add: example_rank_node_def newRanker_def example_rank_ops_def mem_bolt_def gm_load_def gm_store_def bucket_names example_info_def
        put_rank_def bucket_Put_def)
  then obtain st' where s: "storeRankLocally example_rank_env example_info example_rank_node = Inr st'"
    "snd (ro_Get example_rank_ops (string_bytes ''/a'') (rn_third st')) \<noteq> None" by blast
  have u: "page_key example_rank_env (ri_Url example_info) = string_bytes ''/a''" by (simp add: example_info_def)
  have c: "cache_laws (re_ops example_rank_env)" using example_cache_laws by simp
  have "snd (ro_Get (re_ops example_rank_env) (page_key example_rank_env (ri_Url example_info)) (rn_third st')) \<noteq> None"
    unfolding u using s(2) by simp
  from stored_rank_crashes_reader [OF c s(1) this] show ?thesis unfolding u using s(1) by blast
qed

end
