(* ===== verification/RankStore.thy ===== *)
theory RankStore
  imports PageRank
begin

text \<open>
  A store received from another node, to its end: the goroutine that \<open>replyStore\<close> of
  \<open>src/gossiper/dht.go\<close> starts writes the value and then, for links and for ranks, calls
  \<open>receiveRankUpdate\<close> of \<open>src/gossiper/pageRank.go\<close> for one update after the other.  DhtStore has the
  first part; here it is followed by the updates, and what both may write is bounded.
\<close>

section \<open>The goroutine of a store\<close>

text \<open>
  The updates of a store are received in order; other actions are passed on.  The updates of one store of
  links share one rank in the program; each of them computes it anew before it is used, so that a copy
  for every update is the same.
\<close>

fun run_ranks :: "('db, 'c) rank_env \<Rightarrow> crawl_inputs \<Rightarrow> nat \<Rightarrow> dht_action list \<Rightarrow> ('db, 'c) RankNode
    \<Rightarrow> (('db, 'c) RankNode \<times> dht_action list) outcome" where
  "run_ranks env inp n [] rn = Inr (rn, [])"
| "run_ranks env inp n (act # acts) rn =
     obind (case act of
         DhtRank (RankUpdated update isLocal isNew) \<Rightarrow> receiveRankUpdate env inp n update isLocal isNew rn
       | _ \<Rightarrow> Inr (rn, [act])) (\<lambda>(rn, out).
     obind (run_ranks env inp n acts rn) (\<lambda>(rn, out'). Inr (rn, out @ out')))"

definition store_goroutine :: "('db, 'c) rank_env \<Rightarrow> crawl_inputs \<Rightarrow> nat \<Rightarrow> Store \<Rightarrow> ('db, 'c) RankNode
    \<Rightarrow> (('db, 'c) RankNode \<times> dht_action list) outcome" where
  "store_goroutine env inp n st rn =
     obind (run_store (ce_dht (re_crawl env)) st (rn_node rn)) (\<lambda>(node, acts).
       run_ranks env inp n acts (rn\<lparr>rn_node := node\<rparr>))"

section \<open>What a rank update writes\<close>

abbreviation only_ranks :: "('db, 'c) rank_env \<Rightarrow> ('db, 'c) RankNode \<Rightarrow> ('db, 'c) RankNode \<Rightarrow> bool" where
  "only_ranks env st st' \<equiv> same_but (re_bolt env) PageRankBucket (rn_db st) (rn_db st')"

lemma cacheSet_db: "cacheSet env k v st = Inr st' \<Longrightarrow> rn_db st' = rn_db st"
  by (auto simp: cacheSet_def split: option.splits)

lemma getRankLocally_db: "getRankLocally env i st = Inr (r, st') \<Longrightarrow> rn_db st' = rn_db st"
  by (auto simp: getRankLocally_def Let_def obind_Inr_iff split: prod.splits option.splits cache_entry.splits)

lemma getRank_db:
  assumes "getRank env i st = Inr (r, st')"
  shows "rn_db st' = rn_db st"
proof -
  obtain rank known st1 where l: "getRankLocally env i st = Inr ((rank, known), st1)"
    using assms by (auto simp: getRank_def obind_Inr_iff)
  obtain x ok where d: "re_DecodeRank env (the (re_LookupValue env i)) = (x, ok)" by fastforce
  have "st' = st1 \<or> (\<exists>v. cacheSet env i v st1 = Inr st')"
    using assms d by (auto simp: getRank_def l obind_Inr_iff split: option.splits if_splits)
  then show ?thesis using getRankLocally_db [OF l] cacheSet_db by metis
qed

lemma inlink_loop_db: "inlink_loop env newInfo cs s st = Inr (s', st') \<Longrightarrow> rn_db st' = rn_db st"
proof (induction cs arbitrary: s st)
  case (Cons c cs)
  then obtain info st1 where "citing_rank env newInfo c st = Inr (info, st1)"
    and r: "inlink_loop env newInfo cs (add_inlink (re_float env) info s) st1 = Inr (s', st')" by (auto simp: obind_Inr_iff)
  then have "rn_db st1 = rn_db st" by (auto simp: citing_rank_def dest: getRank_db split: if_splits)
  then show ?case using Cons.IH [OF r] by simp
qed simp

lemma updatePageRankWithInfo_db:
  "updatePageRankWithInfo env newInfo page st = Inr (page', relerr, st') \<Longrightarrow> rn_db st' = rn_db st"
  by (auto simp: updatePageRankWithInfo_def Let_def obind_Inr_iff dest: inlink_loop_db split: if_splits)

lemma put_rank_only: "bolt_laws (re_bolt env) \<Longrightarrow> put_rank env i data st = Inr st' \<Longrightarrow> only_ranks env st st'"
  by (auto simp: put_rank_def bucket_Put_def obind_Inr_iff dest: same_but_Put split: if_splits option.splits)

lemma storeRankLocally_only: "bolt_laws (re_bolt env) \<Longrightarrow> storeRankLocally env info st = Inr st' \<Longrightarrow> only_ranks env st st'"
  by (auto simp: storeRankLocally_def Let_def obind_Inr_iff dest!: cacheSet_db put_rank_only split: option.splits)

text \<open>A receiver of updates that writes at most into the bucket of the ranks.\<close>

definition writes_ranks :: "('db, 'c) rank_env \<Rightarrow> ('db, 'c) receive \<Rightarrow> bool" where
  "writes_ranks env recv \<longleftrightarrow> (\<forall>u l n st st' acts. recv u l n st = Inr (st', acts) \<longrightarrow> only_ranks env st st')"

lemma receive_all_only:
  assumes "writes_ranks env recv"
  shows "receive_all recv us st = Inr (st', acts) \<Longrightarrow> only_ranks env st st'"
proof (induction us arbitrary: st acts)
  case (Cons u us)
  obtain st1 a1 a2 where u: "recv u True False st = Inr (st1, a1)" and r: "receive_all recv us st1 = Inr (st', a2)"
    using Cons.prems by (auto simp: obind_Inr_iff)
  have "only_ranks env st st1" using assms u unfolding writes_ranks_def by blast
  then show ?case using Cons.IH [OF r] by (rule same_but_trans)
qed simp

lemma rank_destinations_only:
  assumes "writes_ranks env recv"
  shows "rank_destinations env inp recv ds st = Inr (st', acts) \<Longrightarrow> only_ranks env st st'"
proof (induction ds arbitrary: st acts)
  case (Cons x ds)
  obtain d us where x: "x = (d, us)" by (cases x)
  obtain st1 a1 a2 where u: "(if ns_Address d = g_address (dn_g (rn_node st)) then receive_all recv us st else Inr (st, [])) = Inr (st1, a1)"
    and r: "rank_destinations env inp recv ds st1 = Inr (st', a2)"
    using Cons.prems unfolding x rank_destinations.simps unfolding obind2_iff unfolding obind_Inr_iff split_paired_Ex prod.case by blast
  have "only_ranks env st st1" using u receive_all_only [OF assms] by (auto split: if_splits)
  then show ?case using Cons.IH [OF r] by (rule same_but_trans)
qed simp

lemma batchRankUpdates_only:
  "writes_ranks env recv \<Longrightarrow> batchRankUpdates env inp recv links u st = Inr (st', acts) \<Longrightarrow> only_ranks env st st'"
  unfolding batchRankUpdates_def Let_def by (auto dest: rank_destinations_only split: prod.splits)

lemma update_links_only:
  assumes "bolt_laws (re_bolt env)" "writes_ranks env recv"
  shows "update_links env inp recv newInfo i links st = Inr (st', acts) \<Longrightarrow> only_ranks env st st'"
proof (induction links arbitrary: st acts)
  case (Cons link links)
  obtain r where r: "getRankFromDatabase env (page_key env link) st = Inr r"
    using Cons.prems by (auto simp: obind_Inr_iff)
  show ?case
  proof (cases r)
    case None
    then show ?thesis using Cons r by simp
  next
    case (Some page)
    then obtain page' relerr st1 where u: "updatePageRankWithInfo env newInfo page st = Inr (page', relerr, st1)"
      using Cons.prems r by (auto simp: obind_Inr_iff)
    note db = updatePageRankWithInfo_db [OF u]
    show ?thesis
    proof (cases "fl_less (re_float env) prEpsilon relerr")
      case False
      then show ?thesis using Cons.IH [of st1] Cons.prems db by (simp add: r Some u)
    next
      case True
      then obtain lo st2 st3 a3 a4 where st2: "storeRankLocally env page' st1 = Inr st2"
        and b: "batchRankUpdates env inp recv lo \<lparr>ru_OutboundLink = '''', ru_RankInfo = Some page'\<rparr> st2 = Inr (st3, a3)"
        and rest: "update_links env inp recv newInfo i links st3 = Inr (st', a4)"
        using Cons.prems unfolding update_links.simps r Some u option.case obind_simps prod.case if_P [OF True]
        unfolding obind_Inr_iff unfolding split_paired_Ex prod.case unfolding obind_Inr_iff split_paired_Ex prod.case sum.inject prod.inject by blast
      have "only_ranks env st st2" using storeRankLocally_only [OF assms(1) st2] db by simp
      then show ?thesis using batchRankUpdates_only [OF assms(2) b] Cons.IH [OF rest] by (blast intro: same_but_trans)
    qed
  qed
qed simp

lemma processRankUpdates_only:
  assumes "bolt_laws (re_bolt env)" "writes_ranks env recv"
    and "processRankUpdates env inp recv info link isLocal isNew st = Inr (st', acts)"
  shows "only_ranks env st st'"
proof -
  obtain info1 st1 st2 st3 package where n: "(if isNew then obind (updatePageRank env info st) (\<lambda>(info, _, st). Inr (info, st)) else Inr (info, st)) = Inr (info1, st1)"
    and l: "(if isLocal then
               (case re_EncodeRank env info1 of None \<Rightarrow> Inl (Panic ''protobuf'') | Some data \<Rightarrow> put_rank env (page_key env (ri_Url info)) data st1)
             else Inr st1) = Inr st2"
    and c: "cacheSet env (page_key env (ri_Url info)) (CacheRank info1) st2 = Inr st3"
    and u: "update_links env inp recv (Some info1) (page_key env link) package st3 = Inr (st', acts)"
    using assms(3) unfolding processRankUpdates_def Let_def unfolding obind2_iff unfolding obind_Inr_iff by blast
  have "rn_db st1 = rn_db st"
    using n by (auto simp: updatePageRank_def obind_Inr_iff dest: updatePageRankWithInfo_db split: if_splits)
  moreover have "only_ranks env st1 st2" using l put_rank_only [OF assms(1)] by (auto split: if_splits option.splits)
  ultimately have "only_ranks env st st3" using cacheSet_db [OF c] by simp
  then show ?thesis using update_links_only [OF assms(1,2) u] by (rule same_but_trans)
qed

lemma receiveRankUpdate_only: "bolt_laws (re_bolt env) \<Longrightarrow> writes_ranks env (receiveRankUpdate env inp n)"
proof (induction n)
  case (Suc n)
  then show ?case using processRankUpdates_only [OF Suc.prems Suc.IH [OF Suc.prems]]
    by (fastforce simp: writes_ranks_def split: option.splits)
qed (simp add: writes_ranks_def)

lemma run_ranks_only:
  assumes "bolt_laws (re_bolt env)"
  shows "run_ranks env inp n acts rn = Inr (rn', out) \<Longrightarrow> only_ranks env rn rn'"
proof (induction acts arbitrary: rn out)
  case (Cons act acts)
  obtain rn1 o1 o2 where a: "(case act of
         DhtRank (RankUpdated update isLocal isNew) \<Rightarrow> receiveRankUpdate env inp n update isLocal isNew rn
       | _ \<Rightarrow> Inr (rn, [act])) = Inr (rn1, o1)"
    and r: "run_ranks env inp n acts rn1 = Inr (rn', o2)"
    using Cons.prems unfolding run_ranks.simps unfolding obind2_iff by blast
  have "only_ranks env rn rn1" using a receiveRankUpdate_only [OF assms, unfolded writes_ranks_def]
    by (fastforce split: dht_action.splits rank_action.splits)
  then show ?case using Cons.IH [OF r] by (rule same_but_trans)
qed simp

text \<open>Only links and ranks come with updates.\<close>

lemma replyStore_acts:
  assumes "replyStore B sha512 sc st db = Inr (db', acts)" "st_Type st \<notin> {LinksBucket, PageRankBucket}"
  shows "acts = []"
  using assms by (auto simp: replyStore_def store_keywords_def store_page_hash_def store_citations_def Let_def obind_Inr_iff
      split: if_splits prod.splits)

section \<open>Properties\<close>


section \<open>Examples\<close>

text \<open>A store of ranks, with one update.\<close>

definition example_update :: RankUpdate where
  "example_update = \<lparr>ru_OutboundLink = ''/b'', ru_RankInfo = Some example_info\<rparr>"

definition example_update_env :: "(mem_db, (TypeID, cache_entry) gomap) rank_env" where
  "example_update_env = example_rank_env\<lparr>re_crawl := example_crawl_env\<lparr>ce_dht := example_dht_env\<lparr>de_codec := example_store_codec
     \<lparr>bc_DecodeBatch := (\<lambda>_. (rank_batch [example_update], True))\<rparr>\<rparr>\<rparr>\<rparr>"

lemma example_update_simps [simp]:
  "re_bolt example_update_env = mem_bolt" "re_ops example_update_env = example_rank_ops"
  "page_key example_update_env u = string_bytes u"
  "de_bolt (ce_dht (re_crawl example_update_env)) = mem_bolt"
  "de_codec (ce_dht (re_crawl example_update_env)) = example_store_codec\<lparr>bc_DecodeBatch := (\<lambda>_. (rank_batch [example_update], True))\<rparr>"
  by (simp_all add: example_update_env_def GenerateKeyHash_def example_dht_env_def)


end
