(* ===== verification/AntiEntropy.thy ===== *)
theory AntiEntropy
  imports Gossiper
begin

text \<open>
  What the rumor and status handlers achieve together.  \<open>exchange\<close> is one round of
  anti-entropy between two nodes: \<open>b\<close> sends its status, \<open>a\<close> answers it, and \<open>b\<close> handles the
  rumors \<open>a\<close> sent.  A round brings, for every origin, the one message \<open>b\<close> misses next; repeated
  rounds bring \<open>b\<close> up to date.
\<close>

section \<open>The handlers on the message store\<close>

lemma addMessage_msgMap [simp]: "g_msgMap (fst (addMessage rm g)) = fst (AddMessage rm (g_msgMap g))"
  by (simp add: addMessage_def Let_def split: prod.splits)

lemma addMessage_new [simp]: "snd (addMessage rm g) = snd (AddMessage rm (g_msgMap g))"
  by (simp add: addMessage_def Let_def split: prod.splits)

lemma addMessage_keeps [simp]:
  "g_UseSimple (fst (addMessage rm g)) = g_UseSimple g" "g_name (fst (addMessage rm g)) = g_name g"
  "g_seqIDCounter (fst (addMessage rm g)) = g_seqIDCounter g"
  "g_peers (fst (addMessage rm g)) = g_peers g" "g_origins (fst (addMessage rm g)) = g_origins g"
  "g_routingTable (fst (addMessage rm g)) = g_routingTable g"
  by (simp_all add: addMessage_def Let_def split: prod.splits)

lemma addToPeers_keeps [simp]:
  "g_UseSimple (fst (addToPeers p g)) = g_UseSimple g" "g_name (fst (addToPeers p g)) = g_name g"
  "g_seqIDCounter (fst (addToPeers p g)) = g_seqIDCounter g"
  "g_msgMap (fst (addToPeers p g)) = g_msgMap g" "g_origins (fst (addToPeers p g)) = g_origins g"
  "g_routingTable (fst (addToPeers p g)) = g_routingTable g"
  "g_latestMessages (fst (addToPeers p g)) = g_latestMessages g"
  "g_peers (fst (addToPeers p g)) = fst (AppendUniqueToArray p (g_peers g))"
  by (simp_all add: addToPeers_def Let_def split: prod.splits)

definition rumor_packet :: "RumorMessage \<Rightarrow> GossipPacket" where
  "rumor_packet rm = emptyPacket\<lparr>gp_Rumor := Some rm\<rparr>"

lemma subtype_rumor_packet [simp]: "subtype_of (rumor_packet rm) = RumorS rm"
  by (simp add: rumor_packet_def subtype_of_def emptyPacket_def)

text \<open>The routing update of a rumor, and the whole handler in closed form.\<close>

definition rumor_routed :: "RumorMessage \<Rightarrow> address \<Rightarrow> Gossiper \<Rightarrow> Gossiper" where
  "rumor_routed rm sender g =
     (if rm_Origin rm = g_name g then g
      else g\<lparr>g_routingTable := fst (UpdateEntry (rm_ID rm) (rm_Origin rm) sender (g_routingTable g)),
             g_origins := fst (AppendUniqueToArray (rm_Origin rm) (g_origins g))\<rparr>)"

lemma rumor_routed_keeps [simp]:
  "g_UseSimple (rumor_routed rm p g) = g_UseSimple g" "g_name (rumor_routed rm p g) = g_name g"
  "g_seqIDCounter (rumor_routed rm p g) = g_seqIDCounter g"
  "g_msgMap (rumor_routed rm p g) = g_msgMap g" "g_peers (rumor_routed rm p g) = g_peers g"
  by (simp_all add: rumor_routed_def)

lemma updateDSDV_rumor:
  "subtype_of (pap_Packet pap) = RumorS rm \<Longrightarrow>
     updateDSDV pap g = Inr (rumor_routed rm (GetSenderAddress pap) g)"
  by (simp add: updateDSDV_def rumor_routed_def GetOrigin_def GetSeqID_def Let_def split: prod.splits)

lemma makeGossip_rumor:
  "\<not> g_UseSimple g \<Longrightarrow> subtype_of p = RumorS rm \<Longrightarrow> makeGossip p False g = Inr (g, rumor_packet rm)"
  by (simp add: makeGossip_def GetOrigin_def GetContents_def GetSeqID_def rumor_packet_def)

definition rumor_state :: "RumorMessage \<Rightarrow> address \<Rightarrow> Gossiper \<Rightarrow> Gossiper" where
  "rumor_state rm sender g = fst (addMessage rm (rumor_routed rm sender (fst (addToPeers sender g))))"

lemma rumorListen_rumor:
  assumes "\<not> g_UseSimple g" "subtype_of (pap_Packet pap) = RumorS rm"
  shows "rumorListen pap g =
    Inr (rumor_state rm (GetSenderAddress pap) g,
         sendStatusPacket (GetSenderAddress pap) (rumor_state rm (GetSenderAddress pap) g) @
         (if snd (AddMessage rm (g_msgMap g)) then [GoRumorMonger (rumor_packet rm) (GetSenderAddress pap)] else []))"
proof -
  let ?g = "rumor_routed rm (GetSenderAddress pap) (fst (addToPeers (GetSenderAddress pap) g))"
  have s: "snd (addMessage rm ?g) = snd (AddMessage rm (g_msgMap g))" by simp
  have "gp_Rumor (rumor_packet rm) = Some rm" by (simp add: rumor_packet_def)
  then show ?thesis
    using assms s
    by (simp add: rumorListen_def makeGossip_rumor updateDSDV_rumor rumor_state_def Let_def
        split_beta del: addMessage_new)
qed

lemma rumor_state_keeps [simp]:
  "g_msgMap (rumor_state rm p g) = fst (AddMessage rm (g_msgMap g))"
  "g_UseSimple (rumor_state rm p g) = g_UseSimple g" "g_name (rumor_state rm p g) = g_name g"
  "g_seqIDCounter (rumor_state rm p g) = g_seqIDCounter g"
  "g_peers (rumor_state rm p g) = fst (AppendUniqueToArray p (g_peers g))"
  by (simp_all add: rumor_state_def)

section \<open>The answer to a status\<close>

definition wanted :: "SafeMessagesMap \<Rightarrow> PeerStatus \<Rightarrow> RumorMessage option" where
  "wanted m v = gm_load (messages_of m (ps_Identifier v)) (ps_NextID v)"

lemma wanted_GetMessage [simp]: "wanted (fst (GetMessage origin i m)) = wanted m"
  by (rule ext) (simp add: wanted_def)

definition send_wanted :: "SafeMessagesMap \<Rightarrow> address \<Rightarrow> PeerStatus \<Rightarrow> action" where
  "send_wanted m addr v = SendUDP (emptyPacket\<lparr>gp_Rumor := wanted m v\<rparr>) addr"

lemma send_desired_actions: "snd (send_desired addr vs m) = map (send_wanted m addr) vs"
proof (induction vs arbitrary: m)
  case (Cons v vs)
  let ?m = "fst (GetMessage (ps_Identifier v) (ps_NextID v) m)"
  have "send_wanted ?m addr = send_wanted m addr" by (rule ext) (simp add: send_wanted_def)
  then have "snd (send_desired addr vs ?m) = map (send_wanted m addr) vs" using Cons [of ?m] by simp
  then show ?case
    by (simp add: Let_def split_beta GetMessage_result send_wanted_def [of m addr v] wanted_def)
qed simp

lemma send_desired_messages [simp]: "messages_of (fst (send_desired addr vs m)) origin = messages_of m origin"
  by (induction vs arbitrary: m) (simp_all add: Let_def split_beta)

lemma send_desired_inv: "smm_inv m \<Longrightarrow> smm_inv (fst (send_desired addr vs m))"
proof (induction vs arbitrary: m)
  case (Cons v vs)
  then show ?case using GetMessage_inv [OF Cons.prems, of "ps_Identifier v" "ps_NextID v"]
    by (simp add: Let_def split_beta)
qed simp

text \<open>The packets among the actions that the receiver hands to its rumor routine.\<close>

fun rumor_packets :: "action list \<Rightarrow> GossipPacket list" where
  "rumor_packets [] = []"
| "rumor_packets (SendUDP p _ # acts) =
     (if receiveExternalUDP False p = CRumor then p # rumor_packets acts else rumor_packets acts)"
| "rumor_packets (_ # acts) = rumor_packets acts"

lemma rumor_packets_append [simp]: "rumor_packets (as @ bs) = rumor_packets as @ rumor_packets bs"
  by (induction as rule: rumor_packets.induct) auto

lemma rumor_packets_close [simp]: "rumor_packets (map CloseChan cs) = []"
  by (induction cs) auto

lemma rumor_packets_status [simp]: "rumor_packets (sendStatusPacket addr g) = []"
  by (simp add: sendStatusPacket_def Let_def receiveExternalUDP_def subtype_of_def emptyPacket_def)

lemma rumor_packets_desired:
  "rumor_packets (map (send_wanted m addr) vs) = map rumor_packet (List.map_filter (wanted m) vs)"
  by (induction vs)
     (auto simp: send_wanted_def receiveExternalUDP_def subtype_of_def emptyPacket_def rumor_packet_def
       split: option.splits)

definition desired_rumors :: "SafeMessagesMap \<Rightarrow> StatusPacket \<Rightarrow> RumorMessage list" where
  "desired_rumors m sp =
     List.map_filter (wanted m)
       (peerStatusDifference (sp_Want (GetOwnStatusPacket m)) (sp_Want sp))"

lemma peerStatusListen_rumors:
  "rumor_packets (snd (peerStatusListen addr sp g)) = map rumor_packet (desired_rumors (g_msgMap g) sp)"
  by (simp add: peerStatusListen_def Let_def split_beta send_desired_actions rumor_packets_desired desired_rumors_def)

lemma peerStatusListen_log:
  "message_log (g_msgMap (fst (peerStatusListen addr sp g))) origin = message_log (g_msgMap g) origin"
  by (simp add: peerStatusListen_def Let_def split_beta message_log_def)

section \<open>One round between two nodes\<close>

definition receive_rumor :: "address \<Rightarrow> GossipPacket \<Rightarrow> Gossiper \<Rightarrow> Gossiper" where
  "receive_rumor sender p g =
     (case rumorListen \<lparr>pap_Packet = p, pap_SenderAddress = sender\<rparr> g of
        Inr (g', _) \<Rightarrow> g' | Inl _ \<Rightarrow> g)"

definition exchange :: "address \<Rightarrow> address \<Rightarrow> Gossiper \<times> Gossiper \<Rightarrow> Gossiper \<times> Gossiper" where
  "exchange aAddr bAddr = (\<lambda>(a, b).
     let (a', acts) = peerStatusListen bAddr (GetOwnStatusPacket (g_msgMap b)) a
     in (a', fold (receive_rumor aAddr) (rumor_packets acts) b))"

lemma receive_rumor_msgMap:
  assumes "\<not> g_UseSimple g"
  shows "g_msgMap (receive_rumor sender (rumor_packet rm) g) = fst (AddMessage rm (g_msgMap g))
    \<and> \<not> g_UseSimple (receive_rumor sender (rumor_packet rm) g)"
  using assms
  by (simp add: receive_rumor_def rumorListen_rumor GetSenderAddress_def)

lemma receive_rumors_msgMap:
  "\<not> g_UseSimple g \<Longrightarrow>
     g_msgMap (fold (receive_rumor sender) (map rumor_packet rms) g) =
       fold (\<lambda>rm s. fst (AddMessage rm s)) rms (g_msgMap g)
     \<and> \<not> g_UseSimple (fold (receive_rumor sender) (map rumor_packet rms) g)"
proof (induction rms arbitrary: g)
  case (Cons rm rms)
  then show ?case using receive_rumor_msgMap [OF Cons.prems, of sender rm]
      Cons.IH [of "receive_rumor sender (rumor_packet rm) g"] by simp
qed simp

lemma fold_AddMessage_inv: "smm_inv s \<Longrightarrow> smm_inv (fold (\<lambda>rm s. fst (AddMessage rm s)) rms s)"
  by (induction rms arbitrary: s) (simp_all add: AddMessage_inv)

lemma fold_AddMessage_log:
  assumes "smm_inv s" "distinct (map rm_Origin rms)"
    "list_all (\<lambda>rm. length (message_log s (rm_Origin rm)) < 2 ^ 32 - 1) rms"
  shows "message_log (fold (\<lambda>rm s. fst (AddMessage rm s)) rms s) origin =
    message_log s origin @
      filter (\<lambda>rm. rm_Origin rm = origin \<and> unat (rm_ID rm) = length (message_log s origin) + 1) rms"
  using assms
proof (induction rms arbitrary: s)
  case (Cons rm rms)
  let ?s = "fst (AddMessage rm s)"
  have other: "message_log ?s o' = message_log s o'" if "o' \<noteq> rm_Origin rm" for o'
    using message_log_AddMessage(1) [OF Cons.prems(1), of rm o'] Cons.prems(3) that by simp
  have notin: "rm_Origin r \<noteq> rm_Origin rm" if "r \<in> set rms" for r
    using Cons.prems(2) that by (metis distinct.simps(2) imageI list.map(2) list.set_map)
  have ih: "message_log (fold (\<lambda>rm s. fst (AddMessage rm s)) rms ?s) origin =
    message_log ?s origin @
      filter (\<lambda>rm. rm_Origin rm = origin \<and> unat (rm_ID rm) = length (message_log ?s origin) + 1) rms"
    using Cons.prems notin other
    by (intro Cons.IH) (auto simp: AddMessage_inv list_all_iff simp del: length_message_log)
  show ?case
  proof (cases "origin = rm_Origin rm")
    case True
    then have "filter (\<lambda>r. rm_Origin r = origin \<and> P r) rms = []" for P
      using notin by (auto simp: filter_empty_conv)
    then show ?thesis using ih True message_log_AddMessage(1) [OF Cons.prems(1), of rm origin] Cons.prems(3)
      by auto
  next
    case False
    then show ?thesis using ih other [OF False] by simp
  qed
qed simp

lemma message_log_nth:
  assumes "n < length (message_log s origin)"
  shows "gm_load (messages_of s origin) (of_nat (Suc n)) \<noteq> None \<Longrightarrow>
    gm_load (messages_of s origin) (of_nat (Suc n)) = Some (message_log s origin ! n)"
  using assms by (simp add: message_log_def Let_def del: upt_Suc of_nat_Suc)

lemma load_message:
  assumes "smm_inv s" "small_store s" "n < 2 ^ 32 - 1"
  shows "gm_load (messages_of s origin) (of_nat (Suc n)) =
    (if n < length (message_log s origin) then Some (message_log s origin ! n) else None)"
proof -
  have l: "length (messages_of s origin) < 2 ^ 32" using small_store_log [OF assms(2), of origin] by simp
  have "unat (of_nat (Suc n) :: uint32) = Suc n" using assms(3) by (intro unat_of_nat_small) simp
  moreover from this have "(of_nat (Suc n) :: uint32) \<noteq> 0" by (metis nat.distinct(1) unat_0)
  ultimately have "gm_load (messages_of s origin) (of_nat (Suc n)) \<noteq> None \<longleftrightarrow> n < length (message_log s origin)"
    using om_inv_has_iff [OF messages_of_inv [OF assms(1)] l, of "of_nat (Suc n)"] by auto
  then show ?thesis using message_log_nth [of n s origin] by auto
qed

lemma message_log_entry:
  assumes "smm_inv s" "small_store s" "n < length (message_log s origin)"
  shows "rm_Origin (message_log s origin ! n) = origin \<and> unat (rm_ID (message_log s origin ! n)) = Suc n"
proof -
  have n: "n < 2 ^ 32 - 1" using assms(3) small_store_log [OF assms(2), of origin] by linarith
  have "gm_load (messages_of s origin) (of_nat (Suc n)) = Some (message_log s origin ! n)"
    using load_message [OF assms(1,2) n] assms(3) by simp
  then have "(of_nat (Suc n), message_log s origin ! n) \<in> set (messages_of s origin)"
    using messages_of_inv [OF assms(1), of origin] by (simp add: om_inv_def gm_load_Some_iff del: of_nat_Suc)
  then have "rm_Origin (message_log s origin ! n) = origin \<and> rm_ID (message_log s origin ! n) = of_nat (Suc n)"
    using messages_of_inv [OF assms(1), of origin] by (auto simp: om_inv_def list_all_iff simp del: of_nat_Suc)
  moreover have "unat (of_nat (Suc n) :: uint32) = Suc n" using n by (intro unat_of_nat_small) simp
  ultimately show ?thesis by simp
qed

lemma own_status_map: "map ps_Identifier (sp_Want (GetOwnStatusPacket s)) = gm_keys (smm_originsMap s)"
  by (simp add: GetOwnStatusPacket_def gm_keys_def comp_def split_beta)

lemma difference_identifiers:
  "distinct (map ps_Identifier have') \<Longrightarrow> distinct (map ps_Identifier (peerStatusDifference have' want))"
proof (induction have')
  case (Cons ps have')
  have "ps_Identifier ` set (peerStatusDifference have' want) \<subseteq> ps_Identifier ` set have'"
    by (auto simp: peerStatusDifference_iff)
  moreover have "ps_Identifier ps \<notin> ps_Identifier ` set have'" using Cons.prems by simp
  ultimately have "ps_Identifier ps \<notin> ps_Identifier ` set (peerStatusDifference have' want)" by blast
  moreover have "distinct (map ps_Identifier (peerStatusDifference have' want))" using Cons by simp
  ultimately show ?case
    unfolding peerStatusDifference_def by (auto split: option.splits)
qed (simp add: peerStatusDifference_def)

text \<open>The want of a status packet, for an origin: one more than the length of the sender's log.\<close>

lemma status_want:
  assumes "smm_inv s" "small_store s"
  shows "case gm_load (want_map (sp_Want (GetOwnStatusPacket s))) origin of
    Some w \<Rightarrow> unat w = Suc (length (message_log s origin)) | None \<Rightarrow> message_log s origin = []"
proof (cases "gm_load (want_map (sp_Want (GetOwnStatusPacket s))) origin")
  case None
  then have "gm_load (smm_originsMap s) origin = None"
    unfolding want_map_None own_status_identifiers by (simp add: set_gm_keys)
  then show ?thesis using None by (simp add: message_log_def messages_of_def)
next
  case (Some w)
  then show ?thesis using want_map_Some [OF Some] own_status_next [OF assms] by fastforce
qed

lemma difference_own:
  assumes "smm_inv a" "small_store a" "smm_inv b" "small_store b"
    "v \<in> set (peerStatusDifference (sp_Want (GetOwnStatusPacket a)) (sp_Want (GetOwnStatusPacket b)))"
  shows "ps_NextID v = of_nat (Suc (length (message_log b (ps_Identifier v))))"
proof -
  obtain ps where "ps \<in> set (sp_Want (GetOwnStatusPacket a))" "ps_Identifier v = ps_Identifier ps"
    and c: "case gm_load (want_map (sp_Want (GetOwnStatusPacket b))) (ps_Identifier ps) of
           Some w \<Rightarrow> w < ps_NextID ps \<and> ps_NextID v = w | None \<Rightarrow> ps_NextID v = 1"
    using assms(5) unfolding peerStatusDifference_iff by blast
  then have "unat (ps_NextID v) = Suc (length (message_log b (ps_Identifier v)))"
    using status_want [OF assms(3,4), of "ps_Identifier v"]
    by (auto simp del: length_message_log split: option.splits)
  moreover have "ps_NextID v = of_nat (unat (ps_NextID v))" by simp
  ultimately show ?thesis by simp
qed

lemma difference_behind:
  assumes "smm_inv a" "small_store a" "smm_inv b" "small_store b"
    "length (message_log b origin) < length (message_log a origin)"
  shows "\<exists>v \<in> set (peerStatusDifference (sp_Want (GetOwnStatusPacket a)) (sp_Want (GetOwnStatusPacket b))).
    ps_Identifier v = origin"
proof -
  have "messages_of a origin \<noteq> []" using assms(5) by auto
  then have "origin \<in> ps_Identifier ` set (sp_Want (GetOwnStatusPacket a))"
    unfolding own_status_identifiers by (auto simp: set_gm_keys messages_of_def split: option.splits)
  then obtain ps where ps: "ps \<in> set (sp_Want (GetOwnStatusPacket a))" "ps_Identifier ps = origin" by blast
  let ?w = "gm_load (want_map (sp_Want (GetOwnStatusPacket b))) origin"
  have "w < ps_NextID ps" if "?w = Some w" for w
    using that status_want [OF assms(3,4), of origin] own_status_next [OF assms(1,2) ps(1)] ps(2) assms(5)
    by (simp add: word_less_nat_alt)
  then show ?thesis using ps
    unfolding peerStatusDifference_iff Bex_def
    by (intro exI [of _ "\<lparr>ps_Identifier = origin, ps_NextID = case ?w of None \<Rightarrow> 1 | Some w \<Rightarrow> w\<rparr>"])
       (auto split: option.splits)
qed

lemma desired_rumors_iff:
  assumes "smm_inv a" "small_store a" "smm_inv b" "small_store b"
  shows "rm \<in> set (desired_rumors a (GetOwnStatusPacket b)) \<longleftrightarrow>
    (let n = length (message_log b (rm_Origin rm))
     in n < length (message_log a (rm_Origin rm)) \<and> rm = message_log a (rm_Origin rm) ! n)"
proof -
  let ?d = "peerStatusDifference (sp_Want (GetOwnStatusPacket a)) (sp_Want (GetOwnStatusPacket b))"
  let ?n = "\<lambda>o'. length (message_log b o')"
  have w: "wanted a v = (if ?n (ps_Identifier v) < length (message_log a (ps_Identifier v))
      then Some (message_log a (ps_Identifier v) ! ?n (ps_Identifier v)) else None)" if "v \<in> set ?d" for v
    using load_message [OF assms(1,2) small_store_log [OF assms(4)], of "ps_Identifier v"]
      difference_own [OF assms that] unfolding wanted_def by simp
  have mem: "rm \<in> set (desired_rumors a (GetOwnStatusPacket b)) \<longleftrightarrow> (\<exists>v \<in> set ?d. wanted a v = Some rm)"
    by (simp add: desired_rumors_def set_map_filter)
  show ?thesis
  proof
    assume "rm \<in> set (desired_rumors a (GetOwnStatusPacket b))"
    then obtain v where v: "v \<in> set ?d" "wanted a v = Some rm" using mem by blast
    then have "?n (ps_Identifier v) < length (message_log a (ps_Identifier v))"
      "rm = message_log a (ps_Identifier v) ! ?n (ps_Identifier v)"
      using w [OF v(1)] by (auto split: if_splits)
    moreover from this have "rm_Origin rm = ps_Identifier v"
      using message_log_entry [OF assms(1,2)] by blast
    ultimately show "let n = ?n (rm_Origin rm)
      in n < length (message_log a (rm_Origin rm)) \<and> rm = message_log a (rm_Origin rm) ! n" by simp
  next
    assume "let n = ?n (rm_Origin rm)
      in n < length (message_log a (rm_Origin rm)) \<and> rm = message_log a (rm_Origin rm) ! n"
    moreover from this obtain v where "v \<in> set ?d" "ps_Identifier v = rm_Origin rm"
      using difference_behind [OF assms, of "rm_Origin rm"] unfolding Let_def by blast
    ultimately show "rm \<in> set (desired_rumors a (GetOwnStatusPacket b))"
      using w [of v] unfolding mem Let_def by auto
  qed
qed

lemma desired_rumors_distinct:
  assumes "smm_inv a"
  shows "distinct (map rm_Origin (desired_rumors a sp))"
proof -
  let ?d = "peerStatusDifference (sp_Want (GetOwnStatusPacket a)) (sp_Want sp)"
  have o: "rm_Origin rm = ps_Identifier v" if "wanted a v = Some rm" for rm v
    using that messages_of_inv [OF assms, of "ps_Identifier v"]
    by (auto simp: wanted_def om_inv_def gm_load_Some_iff list_all_iff)
  have "distinct (map rm_Origin (List.map_filter (wanted a) vs))
      \<and> rm_Origin ` set (List.map_filter (wanted a) vs) \<subseteq> ps_Identifier ` set vs"
    if "distinct (map ps_Identifier vs)" for vs
    using that by (induction vs) (auto simp: o split: option.splits)
  moreover have "distinct (map ps_Identifier ?d)"
    using assms by (intro difference_identifiers) (simp add: own_status_map smm_inv_def gm_wf_def gm_keys_def)
  ultimately show ?thesis by (simp add: desired_rumors_def)
qed

lemma exchange_log:
  assumes "smm_inv (g_msgMap a)" "small_store (g_msgMap a)"
    "smm_inv (g_msgMap b)" "small_store (g_msgMap b)" "\<not> g_UseSimple b"
  shows "message_log (g_msgMap (snd (exchange aAddr bAddr (a, b)))) origin =
      message_log (g_msgMap b) origin @
        take 1 (drop (length (message_log (g_msgMap b) origin)) (message_log (g_msgMap a) origin))"
proof -
  let ?a = "g_msgMap a" and ?b = "g_msgMap b"
  let ?rms = "desired_rumors ?a (GetOwnStatusPacket ?b)"
  let ?n = "length (message_log ?b origin)"
  let ?P = "\<lambda>rm. rm_Origin rm = origin \<and> unat (rm_ID rm) = ?n + 1"
  have "g_msgMap (snd (exchange aAddr bAddr (a, b))) = fold (\<lambda>rm s. fst (AddMessage rm s)) ?rms ?b"
    using receive_rumors_msgMap [OF assms(5), of aAddr ?rms]
    by (simp add: exchange_def Let_def split_beta peerStatusListen_rumors)
  moreover have "list_all (\<lambda>rm. length (message_log ?b (rm_Origin rm)) < 2 ^ 32 - 1) ?rms"
    using small_store_log [OF assms(4)] by (simp add: list_all_iff)
  ultimately have log: "message_log (g_msgMap (snd (exchange aAddr bAddr (a, b)))) origin =
      message_log ?b origin @ filter ?P ?rms"
    using fold_AddMessage_log [OF assms(3) desired_rumors_distinct [OF assms(1)]] by simp
  note iff = desired_rumors_iff [OF assms(1-4)] and entry = message_log_entry [OF assms(1,2), of ?n origin]
  have "rm \<in> set ?rms \<and> ?P rm \<longleftrightarrow> ?n < length (message_log ?a origin) \<and> rm = message_log ?a origin ! ?n" for rm
    using iff [of rm] entry unfolding Let_def by (metis Suc_eq_plus1)
  then have set: "set (filter ?P ?rms) =
      (if ?n < length (message_log ?a origin) then {message_log ?a origin ! ?n} else {})"
    unfolding set_filter by auto
  have "distinct ?rms" using desired_rumors_distinct [OF assms(1)] unfolding distinct_map by (rule conjunct1)
  then have "distinct (filter ?P ?rms)" by (rule distinct_filter)
  then have "filter ?P ?rms = (if ?n < length (message_log ?a origin) then [message_log ?a origin ! ?n] else [])"
    using set by (rule distinct_set_if)
  moreover have "take 1 (drop n xs) = (if n < length xs then [xs ! n] else [])" for n and xs :: "RumorMessage list"
    by (simp add: take_Suc hd_drop_conv_nth)
  ultimately show ?thesis using log by simp
qed

section \<open>Repeated rounds\<close>

lemma small_store_iff:
  assumes "smm_inv s"
  shows "small_store s \<longleftrightarrow> (\<forall>origin. length (message_log s origin) < 2 ^ 32 - 1)"
proof
  assume a: "\<forall>origin. length (message_log s origin) < 2 ^ 32 - 1"
  have "length pm < 2 ^ 32 - 1" if "(origin, pm) \<in> set (smm_originsMap s)" for origin pm
  proof -
    have "messages_of s origin = pm"
      using that assms by (simp add: messages_of_def smm_inv_def gm_load_Some_iff [THEN iffD2])
    then show ?thesis using a length_message_log by metis
  qed
  then show "small_store s" by (auto simp: small_store_def list_all_iff)
qed (use small_store_log in blast)

definition syncable :: "Gossiper \<times> Gossiper \<Rightarrow> bool" where
  "syncable ab \<longleftrightarrow> (case ab of (a, b) \<Rightarrow>
     smm_inv (g_msgMap a) \<and> small_store (g_msgMap a)
     \<and> smm_inv (g_msgMap b) \<and> small_store (g_msgMap b) \<and> \<not> g_UseSimple b)"

lemma exchange_fst_log:
  "message_log (g_msgMap (fst (exchange aAddr bAddr (a, b)))) origin = message_log (g_msgMap a) origin"
  by (simp add: exchange_def Let_def split_beta peerStatusListen_log)

lemma exchange_inv:
  assumes "smm_inv (g_msgMap a)" "smm_inv (g_msgMap b)" "\<not> g_UseSimple b"
  shows "smm_inv (g_msgMap (fst (exchange aAddr bAddr (a, b))))"
    "smm_inv (g_msgMap (snd (exchange aAddr bAddr (a, b))))"
    "\<not> g_UseSimple (snd (exchange aAddr bAddr (a, b)))"
proof -
  show "smm_inv (g_msgMap (fst (exchange aAddr bAddr (a, b))))"
    using send_desired_inv [OF assms(1)] by (simp add: exchange_def peerStatusListen_def Let_def split_beta)
  let ?rms = "desired_rumors (g_msgMap a) (GetOwnStatusPacket (g_msgMap b))"
  show "smm_inv (g_msgMap (snd (exchange aAddr bAddr (a, b))))"
    "\<not> g_UseSimple (snd (exchange aAddr bAddr (a, b)))"
    using receive_rumors_msgMap [OF assms(3), of aAddr ?rms] fold_AddMessage_inv [OF assms(2)]
    by (simp_all add: exchange_def Let_def split_beta peerStatusListen_rumors)
qed

lemma exchange_syncable:
  assumes "syncable (a, b)"
  shows "syncable (exchange aAddr bAddr (a, b))"
proof -
  let ?e = "exchange aAddr bAddr (a, b)"
  have s: "smm_inv (g_msgMap a)" "small_store (g_msgMap a)" "smm_inv (g_msgMap b)"
    "small_store (g_msgMap b)" "\<not> g_UseSimple b" using assms by (simp_all add: syncable_def)
  note inv = exchange_inv [OF s(1,3,5), of aAddr bAddr]
  have "length (message_log (g_msgMap (snd ?e)) origin) < 2 ^ 32 - 1" for origin
  proof -
    let ?x = "message_log (g_msgMap b) origin" and ?y = "message_log (g_msgMap a) origin"
    have "length (?x @ take 1 (drop (length ?x) ?y)) \<le> max (length ?x) (length ?y)" by simp
    also have "\<dots> < 2 ^ 32 - 1" using small_store_log [OF s(2)] small_store_log [OF s(4)] by simp
    finally show ?thesis by (simp only: exchange_log [OF s])
  qed
  moreover have "length (message_log (g_msgMap (fst ?e)) origin) < 2 ^ 32 - 1" for origin
    unfolding exchange_fst_log using small_store_log [OF s(2)] .
  ultimately show ?thesis using inv small_store_iff [OF inv(1)] small_store_iff [OF inv(2)]
    by (simp add: syncable_def split_beta del: length_message_log)
qed

lemma exchanges_log:
  assumes "syncable (a, b)"
  shows "syncable ((exchange aAddr bAddr ^^ n) (a, b))
    \<and> message_log (g_msgMap (fst ((exchange aAddr bAddr ^^ n) (a, b)))) origin = message_log (g_msgMap a) origin
    \<and> message_log (g_msgMap (snd ((exchange aAddr bAddr ^^ n) (a, b)))) origin =
        message_log (g_msgMap b) origin @
          take n (drop (length (message_log (g_msgMap b) origin)) (message_log (g_msgMap a) origin))"
proof (induction n)
  case (Suc n)
  obtain a' b' where ab: "(exchange aAddr bAddr ^^ n) (a, b) = (a', b')" by fastforce
  let ?x = "message_log (g_msgMap b) origin" and ?y = "message_log (g_msgMap a) origin"
  have s: "syncable (a', b')" and ya: "message_log (g_msgMap a') origin = ?y"
    and xb: "message_log (g_msgMap b') origin = ?x @ take n (drop (length ?x) ?y)"
    using Suc ab by auto
  have e: "message_log (g_msgMap (snd (exchange aAddr bAddr (a', b')))) origin =
      message_log (g_msgMap b') origin @ take 1 (drop (length (message_log (g_msgMap b') origin)) ?y)"
    using s exchange_log [of a' b' aAddr bAddr origin] ya unfolding syncable_def prod.case by metis
  have "take n zs @ take 1 (drop (length (take n zs)) zs) = take (Suc n) zs" for zs :: "RumorMessage list"
    by (cases "n < length zs") (simp_all add: take_Suc_conv_app_nth take_Suc hd_drop_conv_nth)
  from this [of "drop (length ?x) ?y"]
  have "message_log (g_msgMap (snd (exchange aAddr bAddr (a', b')))) origin = ?x @ take (Suc n) (drop (length ?x) ?y)"
    unfolding e xb by (simp add: add.commute del: length_message_log)
  then show ?case using ab exchange_syncable [OF s] ya by (simp add: exchange_fst_log del: length_message_log)
qed (use assms in simp)

section \<open>The invariant of a node\<close>

text \<open>
  What every handler keeps: the message store is a store of logs, peers and origins have no
  repeated insertion, and the node's own counter is one ahead of its own log.  The last holds
  as long as nobody else sends rumors under the node's name.
\<close>

definition g_inv :: "Gossiper \<Rightarrow> bool" where
  "g_inv g \<longleftrightarrow> smm_inv (g_msgMap g) \<and> ssa_inv (g_peers g) \<and> ssa_inv (g_origins g)"

definition own_counter :: "Gossiper \<Rightarrow> bool" where
  "own_counter g \<longleftrightarrow> unat (sc_v (g_seqIDCounter g)) = length (message_log (g_msgMap g) (g_name g)) + 1"

lemma addToPeers_inv: "g_inv g \<Longrightarrow> g_inv (fst (addToPeers p g))"
  by (simp add: g_inv_def ssa.append_inv)

lemma rumor_state_inv: "g_inv g \<Longrightarrow> g_inv (rumor_state rm p g)"
  by (simp add: g_inv_def rumor_state_def rumor_routed_def ssa.append_inv AddMessage_inv)

lemma peerStatusListen_inv: "g_inv g \<Longrightarrow> g_inv (fst (peerStatusListen addr sp g))"
  using send_desired_inv
  by (simp add: g_inv_def peerStatusListen_def Let_def split_beta)

lemma NewGossiper_inv: "g_inv (NewGossiper address name peers simple rtimeout boot nodeId)
    \<and> own_counter (NewGossiper address name peers simple rtimeout boot nodeId)"
  by (simp add: g_inv_def own_counter_def NewGossiper_def NewSafeMessagesMap_def smm_inv_def ssa_inv_New
      NewSafeCounter_def messages_of_def)

lemma clientListen_rumor:
  assumes "\<not> g_UseSimple g" "subtype_of p = RumorS m"
  defines "rm \<equiv> \<lparr>rm_Origin = rm_Origin m, rm_ID = sc_v (g_seqIDCounter g), rm_Text = rm_Text m\<rparr>"
  shows "clientListen p g = Inr (fst (addMessage rm (g\<lparr>g_seqIDCounter := (g_seqIDCounter g)\<lparr>sc_v := sc_v (g_seqIDCounter g) + 1\<rparr>\<rparr>)),
    [GoRumorMonger (rumor_packet rm) ''''])"
  using assms
  by (simp add: clientListen_def makeGossip_def GetOrigin_def GetContents_def GetAndIncrement_def
      rumor_packet_def Let_def)

section \<open>Properties\<close>

definition example_gossiper :: "string \<Rightarrow> Gossiper" where
  "example_gossiper name = NewGossiper ''127.0.0.1:5000'' name [''127.0.0.1:5001''] False 0 '''' (replicate 64 0)"

definition example_sharer :: Gossiper where
  "example_sharer = (example_gossiper ''A'')\<lparr>g_msgMap := example_store\<rparr>"

lemma example_gossiper_simps [simp]:
  "g_msgMap (example_gossiper n) = NewSafeMessagesMap" "g_UseSimple (example_gossiper n) = False"
  "g_name (example_gossiper n) = n" "sc_v (g_seqIDCounter (example_gossiper n)) = 1"
  "g_chunkMap (example_gossiper n) = NewSafeChunkMap"
  by (simp_all add: example_gossiper_def NewGossiper_def NewSafeCounter_def)

lemma example_syncable: "syncable (example_sharer, example_gossiper ''B'')"
  by (simp add: syncable_def example_sharer_def NewSafeMessagesMap_inv example_store_inv)

lemma example_logs:
  "message_log (g_msgMap example_sharer) ''a'' = [example_rumor 1]" "message_log NewSafeMessagesMap o' = []"
  by (simp_all add: example_sharer_def example_store_eq message_log_def messages_of_def gm_load_def
      NewSafeMessagesMap_def)

text \<open>C2: n rounds of anti-entropy (b sends its status, a answers with rumors, b handles them)
  bring b, for every origin, exactly the next n messages it lacks and a has, in order, and change
  nothing of what either had.\<close>

theorem anti_entropy_rounds:
  assumes "syncable (a, b)"
  shows "message_log (g_msgMap (snd ((exchange aAddr bAddr ^^ n) (a, b)))) origin =
      message_log (g_msgMap b) origin @
        take n (drop (length (message_log (g_msgMap b) origin)) (message_log (g_msgMap a) origin))
    \<and> message_log (g_msgMap (fst ((exchange aAddr bAddr ^^ n) (a, b)))) origin = message_log (g_msgMap a) origin"
  using exchanges_log [OF assms] by blast

theorem anti_entropy_rounds_witness:
  "message_log (g_msgMap (snd ((exchange ''x'' ''y'' ^^ 1) (example_sharer, example_gossiper ''B'')))) ''a'' = [example_rumor 1]"
  using anti_entropy_rounds [OF example_syncable, where aAddr = "''x''" and bAddr = "''y''" and n = 1 and origin = "''a''"]
  by (simp add: example_logs del: length_message_log)

text \<open>A node whose log of an origin is a prefix of another node's log has caught up after as
  many rounds as it lacks messages, and stays up to date from then on.\<close>

theorem anti_entropy_catches_up:
  assumes "syncable (a, b)" "message_log (g_msgMap a) origin = message_log (g_msgMap b) origin @ missing"
    "length missing \<le> n"
  shows "message_log (g_msgMap (snd ((exchange aAddr bAddr ^^ n) (a, b)))) origin = message_log (g_msgMap a) origin"
proof -
  have "take n (drop (length (message_log (g_msgMap b) origin)) (message_log (g_msgMap a) origin)) = missing"
    unfolding assms(2) using assms(3) by (simp del: length_message_log)
  then show ?thesis using exchanges_log [OF assms(1), where aAddr = aAddr and bAddr = bAddr and n = n and origin = origin] assms(2) by metis
qed

theorem anti_entropy_catches_up_witness:
  "message_log (g_msgMap (snd ((exchange ''x'' ''y'' ^^ 5) (example_sharer, example_gossiper ''B'')))) ''a''
     = message_log (g_msgMap example_sharer) ''a''"
  by (rule anti_entropy_catches_up [OF example_syncable, of "''a''" "[example_rumor 1]"]) (simp_all add: example_logs)

text \<open>A rumor the client submits gets the next sequence number, is appended to the node's own
  log and handed to mongering, and the counter stays one ahead of the own log.\<close>

theorem client_rumor_recorded:
  assumes "g_inv g" "own_counter g" "\<not> g_UseSimple g" "subtype_of p = RumorS m" "rm_Origin m = g_name g"
    "length (message_log (g_msgMap g) (g_name g)) < 2 ^ 32 - 2"
  shows "\<exists>g' rm. clientListen p g = Inr (g', [GoRumorMonger (rumor_packet rm) ''''])
    \<and> rm = \<lparr>rm_Origin = g_name g, rm_ID = sc_v (g_seqIDCounter g), rm_Text = rm_Text m\<rparr>
    \<and> message_log (g_msgMap g') (g_name g) = message_log (g_msgMap g) (g_name g) @ [rm]
    \<and> g_inv g' \<and> own_counter g'"
proof -
  let ?rm = "\<lparr>rm_Origin = g_name g, rm_ID = sc_v (g_seqIDCounter g), rm_Text = rm_Text m\<rparr>"
  let ?g0 = "g\<lparr>g_seqIDCounter := (g_seqIDCounter g)\<lparr>sc_v := sc_v (g_seqIDCounter g) + 1\<rparr>\<rparr>"
  let ?g = "fst (addMessage ?rm ?g0)"
  let ?log = "message_log (g_msgMap g) (g_name g)"
  have c: "unat (sc_v (g_seqIDCounter g)) = length ?log + 1" using assms(2) by (simp add: own_counter_def)
  have log: "message_log (g_msgMap ?g) (g_name g) = ?log @ [?rm]"
    using message_log_AddMessage(1) [of "g_msgMap g" ?rm "g_name g"] assms(1,6) c by (simp add: g_inv_def)
  have "unat (sc_v (g_seqIDCounter g) + 1) = length ?log + 2"
    using c assms(6) by (simp add: unat_word_ariths unsigned_1)
  then have "own_counter ?g" using log by (simp add: own_counter_def del: length_message_log)
  moreover have "g_inv ?g" using assms(1) by (simp add: g_inv_def AddMessage_inv)
  ultimately show ?thesis using clientListen_rumor [OF assms(3,4)] assms(5) log by auto
qed

theorem client_rumor_recorded_witness:
  "\<exists>g' rm. clientListen (rumor_packet (example_rumor 0)) (example_gossiper ''a'') = Inr (g', [GoRumorMonger (rumor_packet rm) ''''])
    \<and> message_log (g_msgMap g') ''a'' = [rm]"
proof -
  have "g_inv (example_gossiper ''a'') \<and> own_counter (example_gossiper ''a'')"
    unfolding example_gossiper_def by (rule NewGossiper_inv)
  then show ?thesis
    using client_rumor_recorded [of "example_gossiper ''a''" "rumor_packet (example_rumor 0)" "example_rumor 0"]
    by (auto simp: example_logs example_rumor_def simp del: length_message_log)
qed

end
