(* ===== verification/FileTransfer.thy ===== *)
theory FileTransfer
  imports AntiEntropy
begin

text \<open>
  Sharing and downloading files: \<open>src/gossiper/fileSharing.go\<close>.  A download is a sequential
  goroutine that blocks in \<open>downloadChunk\<close> until the data arrives on its channel, so it is a
  state machine: \<open>downloadFile_start\<close> runs to the first wait, \<open>downloadFile_data\<close> from one wait to
  the next, \<open>downloadChunk_tick\<close> is the ticker's branch, which sends the same packet again.
\<close>

section \<open>Serving chunks\<close>

definition makeDataReply :: "string \<Rightarrow> bytes \<Rightarrow> hash32 \<Rightarrow> Gossiper \<Rightarrow> DataReply" where
  "makeDataReply destination data checksum g =
     \<lparr>drep_Origin = g_name g, drep_Destination = destination, drep_HopLimit = defaultHopLimit,
      drep_HashValue = checksum, drep_Data = data\<rparr>"

definition makeDataRequest :: "string \<Rightarrow> hash32 \<Rightarrow> Gossiper \<Rightarrow> DataRequest" where
  "makeDataRequest destination checksum g =
     \<lparr>dreq_Origin = g_name g, dreq_Destination = destination, dreq_HopLimit = defaultHopLimit,
      dreq_HashValue = checksum\<rparr>"

definition answerDataRequest :: "string \<Rightarrow> bytes \<Rightarrow> Gossiper \<Rightarrow> DataReply option" where
  "answerDataRequest origin hash g =
     (let (hash32, isHash) = ConvertToHash32 hash in
      if \<not> isHash then None
      else case GetChunk hash32 (g_chunkMap g) of
             None \<Rightarrow> None
           | Some chunk \<Rightarrow> Some (makeDataReply origin chunk hash32 g))"

definition dataRequestListen :: "PacketAddressPair \<Rightarrow> Gossiper \<Rightarrow> handled" where
  "dataRequestListen pap g =
     (let g = fst (addToPeers (GetSenderAddress pap) g) in
      obind (GetOrigin (pap_Packet pap)) (\<lambda>origin.
      obind (GetHashValue (pap_Packet pap)) (\<lambda>hash.
      obind (GetDestination (pap_Packet pap)) (\<lambda>dest.
        if dest = g_name g then
          (case answerDataRequest origin hash g of
             Some drep \<Rightarrow> obind (forward (emptyPacket\<lparr>gp_DataReply := Some drep\<rparr>) g) (\<lambda>(_, acts). Inr (g, acts))
           | None \<Rightarrow> Inr (g, []))
        else obind (forward (pap_Packet pap) g) (\<lambda>(_, acts). Inr (g, acts))))))"

definition dataReplyListen :: "(bytes \<Rightarrow> hash32) \<Rightarrow> PacketAddressPair \<Rightarrow> Gossiper \<Rightarrow> handled" where
  "dataReplyListen sha256 pap g =
     (let g = fst (addToPeers (GetSenderAddress pap) g) in
      case gp_DataReply (pap_Packet pap) of
        None \<Rightarrow> Inl (Panic ''nil data reply'')
      | Some drep \<Rightarrow>
          if \<not> VerifyDataHash sha256 (drep_HashValue drep) (drep_Data drep) then Inr (g, [])
          else obind (GetDestination (pap_Packet pap)) (\<lambda>dest.
            if dest = g_name g then
              obind (GetHashValue (pap_Packet pap)) (\<lambda>hash.
              obind (GetData (pap_Packet pap)) (\<lambda>data.
                let (hash32, isHash) = ConvertToHash32 hash in
                if isHash then
                  (let (m, c) = dlcm_InformListener hash32 (g_dlChunkListeners g)
                   in Inr (g\<lparr>g_dlChunkListeners := m\<rparr>,
                           case c of Some ch \<Rightarrow> [PutData ch data] | None \<Rightarrow> []))
                else Inr (g, [])))
            else obind (forward (pap_Packet pap) g) (\<lambda>(_, acts). Inr (g, acts))))"

section \<open>Sharing a file\<close>

definition add_chunks :: "(hash32, bytes) gomap \<Rightarrow> SafeChunkMap \<Rightarrow> SafeChunkMap" where
  "add_chunks chunksMap m = fold (\<lambda>(checksum, chunk) m. fst (AddChunk checksum chunk m)) chunksMap m"

definition clientFileShareListen ::
    "(bytes \<Rightarrow> hash32) \<Rightarrow> (string \<Rightarrow> go_file) \<Rightarrow> string \<Rightarrow> Gossiper \<Rightarrow> Gossiper \<times> action list" where
  "clientFileShareListen sha256 disk fileName g =
     (case ReadChunks disk fileName of
        None \<Rightarrow> (g, [])
      | Some (chunks, fsize) \<Rightarrow>
          (let (chunksMap, metafile, metahash) = CreateChunksMap sha256 chunks;
               fm = fst (AddEntry fileName (int fsize) metafile metahash (g_fileMap g));
               cm = fst (AddChunk metahash metafile (g_chunkMap g));
               cm = add_chunks chunksMap cm;
               file = \<lparr>f_Name = fileName, f_Size = int fsize, f_MetafileHash = metahash\<rparr>;
               txPub = \<lparr>tx_File = file, tx_HopLimit = defaultHopLimit\<rparr>;
               pap = \<lparr>pap_Packet = emptyPacket\<lparr>gp_TxPublish := Some txPub\<rparr>, pap_SenderAddress = ''''\<rparr>
           in (g\<lparr>g_fileMap := fm, g_chunkMap := cm\<rparr>, [PutFileNaming pap])))"

definition clientFileDownloadListen :: "FileToDownload \<Rightarrow> action list" where
  "clientFileDownloadListen f = [GoDownloadFile (ftd_FileName f) (ftd_Metahash f) (ftd_Origin f)]"

section \<open>Downloading a file\<close>

datatype download_phase = DLMetafile | DLChunk nat | DLDone bool

record download =
  dl_nameToSave :: string
  dl_metahash :: hash32
  dl_origin :: string
  dl_randomOrigins :: bool
  dl_chunkOwners :: "(uint64, SafeStringArray) gomap"
  dl_metafile :: bytes
  dl_chunkHashes :: "hash32 list"
  dl_chunks :: "bytes list"
  dl_phase :: download_phase
  dl_packet :: GossipPacket
  dl_chan :: chan

text \<open>\<open>dl_chan\<close> is the channel on which the download waits.\<close>

definition downloadChunk_start :: "hash32 \<Rightarrow> string \<Rightarrow> Gossiper \<Rightarrow> (Gossiper \<times> chan \<times> GossipPacket \<times> action list) outcome" where
  "downloadChunk_start hash origin g =
     (let (m, c, isNew) = dlcm_AddListener (g_nextChan g) hash (g_dlChunkListeners g);
          g = g\<lparr>g_dlChunkListeners := m, g_nextChan := g_nextChan g + 1\<rparr>;
          packet = emptyPacket\<lparr>gp_DataRequest := Some (makeDataRequest origin hash g)\<rparr>
      in obind (forward packet g) (\<lambda>(packet, acts). Inr (g, c, packet, acts)))"

definition downloadChunk_tick :: "GossipPacket \<Rightarrow> Gossiper \<Rightarrow> (GossipPacket \<times> action list) outcome" where
  "downloadChunk_tick packet g = forward packet g"

definition owner_of :: "nat \<Rightarrow> (uint64, SafeStringArray) gomap \<Rightarrow> uint64 \<Rightarrow> string outcome" where
  "owner_of r chunkOwners v =
     (case gm_load chunkOwners v of
        None \<Rightarrow> Inl (Panic ''nil chunk owners'')
      | Some a \<Rightarrow> if GetArrayCopy a = [] then Inl (Panic ''no chunk owners'')
                  else Inr (pickRandom r (GetArrayCopy a)))"

definition downloadFile_start ::
    "nat \<Rightarrow> string \<Rightarrow> hash32 \<Rightarrow> string \<Rightarrow> Gossiper \<Rightarrow> (download \<times> Gossiper \<times> action list) outcome" where
  "downloadFile_start r nameToSave metahash origin g =
     (let (fs, isNew) = AddUnique metahash (g_dlFilesSet g);
          g = g\<lparr>g_dlFilesSet := fs\<rparr>;
          randomOrigins = (origin = '''');
          (cm, hasTotalMatch, _) = GetMapCopy metahash (g_metahashToChunkOwnersMap g);
          d = \<lparr>dl_nameToSave = nameToSave, dl_metahash = metahash, dl_origin = origin,
               dl_randomOrigins = randomOrigins, dl_chunkOwners = cm, dl_metafile = [],
               dl_chunkHashes = [], dl_chunks = [], dl_phase = DLDone False, dl_packet = emptyPacket, dl_chan = 0\<rparr>
      in if \<not> isNew then Inr (d, g, [])
         else if randomOrigins \<and> \<not> hasTotalMatch then Inr (d, g, [])
         else obind (if randomOrigins then owner_of r cm 1 else Inr origin) (\<lambda>origin.
              obind (downloadChunk_start metahash origin g) (\<lambda>(g, c, packet, acts).
                Inr (d\<lparr>dl_origin := origin, dl_phase := DLMetafile, dl_packet := packet, dl_chan := c\<rparr>, g, acts))))"

text \<open>The head of the loop over the chunk hashes, and what follows the loop.\<close>

definition download_next :: "nat \<Rightarrow> nat \<Rightarrow> download \<Rightarrow> Gossiper \<Rightarrow> (download \<times> Gossiper \<times> action list) outcome" where
  "download_next r i d g =
     (if i < length (dl_chunkHashes d) then
        obind (if dl_randomOrigins d then owner_of r (dl_chunkOwners d) (of_nat (i + 1)) else Inr (dl_origin d)) (\<lambda>origin.
        obind (downloadChunk_start (dl_chunkHashes d ! i) origin g) (\<lambda>(g, c, packet, acts).
          Inr (d\<lparr>dl_origin := origin, dl_phase := DLChunk i, dl_packet := packet, dl_chan := c\<rparr>, g, acts)))
      else
        (let actualSize = int (sum_list (map length (dl_chunks d)));
             fm = (case GetEntry (dl_metahash d) (g_fileMap g) of
                     Some sfe \<Rightarrow> (g_fileMap g)\<lparr>sfm_filesMap :=
                       gm_store (dl_metahash d) (SafeSetSize actualSize sfe) (sfm_filesMap (g_fileMap g))\<rparr>
                   | None \<Rightarrow> g_fileMap g)
         in Inr (d\<lparr>dl_phase := DLDone True\<rparr>,
                 g\<lparr>g_fileMap := fm, g_dlFilesSet := sfs_Delete (dl_metahash d) (g_dlFilesSet g)\<rparr>,
                 [WriteFile (dl_nameToSave d) (dl_chunks d) (dl_randomOrigins d)])))"

definition downloadFile_data :: "nat \<Rightarrow> bytes \<Rightarrow> download \<Rightarrow> Gossiper \<Rightarrow> (download \<times> Gossiper \<times> action list) outcome" where
  "downloadFile_data r data d g =
     (case dl_phase d of
        DLMetafile \<Rightarrow>
          (case ParseMetafile data of
             None \<Rightarrow> Inr (d\<lparr>dl_phase := DLDone False\<rparr>,
                          g\<lparr>g_dlFilesSet := sfs_Delete (dl_metahash d) (g_dlFilesSet g)\<rparr>, [])
           | Some chunkHashes \<Rightarrow>
               (let cm = fst (AddChunk (dl_metahash d) data (g_chunkMap g));
                    estimatedSize = EstimateFileSize data;
                    fm = fst (AddEntry (dl_nameToSave d) estimatedSize data (dl_metahash d) (g_fileMap g));
                    g = g\<lparr>g_chunkMap := cm, g_fileMap := fm\<rparr>;
                    d = d\<lparr>dl_metafile := data, dl_chunkHashes := chunkHashes, dl_chunks := []\<rparr>
                in download_next r 0 d g))
      | DLChunk i \<Rightarrow>
          (let cm = fst (AddChunk (dl_chunkHashes d ! i) data (g_chunkMap g));
               fm = (case GetEntry (dl_metahash d) (g_fileMap g) of
                       Some sfe \<Rightarrow> (g_fileMap g)\<lparr>sfm_filesMap :=
                         gm_store (dl_metahash d) (SafeAddChunkIndex (of_nat (i + 1)) sfe) (sfm_filesMap (g_fileMap g))\<rparr>
                     | None \<Rightarrow> g_fileMap g);
               g = g\<lparr>g_chunkMap := cm, g_fileMap := fm\<rparr>;
               d = d\<lparr>dl_chunks := dl_chunks d @ [data]\<rparr>
           in download_next r (i + 1) d g)
      | DLDone ok' \<Rightarrow> Inr (d, g, []))"

text \<open>The checksum whose data the download waits for.\<close>

definition expected :: "download \<Rightarrow> hash32 option" where
  "expected d = (case dl_phase d of DLMetafile \<Rightarrow> Some (dl_metahash d)
     | DLChunk i \<Rightarrow> Some (dl_chunkHashes d ! i) | DLDone _ \<Rightarrow> None)"

text \<open>
  What the other goroutines of the node do meanwhile: other downloads ask for chunks, replies are
  handled, and everything else leaves the listeners alone; a channel that is made is a new one.
\<close>

inductive other_step :: "(bytes \<Rightarrow> hash32) \<Rightarrow> Gossiper \<Rightarrow> Gossiper \<Rightarrow> bool" for sha256 where
  chunk: "downloadChunk_start hash origin g = Inr (g', c, packet, acts) \<Longrightarrow> other_step sha256 g g'"
| reply: "receiveExternalUDP useSimple (pap_Packet pap) = CDataReply \<Longrightarrow> dataReplyListen sha256 pap g = Inr (g', acts) \<Longrightarrow>
      other_step sha256 g g'"
| elsewhere: "g_dlChunkListeners g' = g_dlChunkListeners g \<Longrightarrow> g_nextChan g \<le> g_nextChan g' \<Longrightarrow> other_step sha256 g g'"

text \<open>A packet that is dispatched as a data reply is handled, and the handler puts data on the channel of the download.\<close>

inductive download_step :: "(bytes \<Rightarrow> hash32) \<Rightarrow> download \<times> Gossiper \<Rightarrow> download \<times> Gossiper \<Rightarrow> bool"
  for sha256 where
  data: "expected d = Some h \<Longrightarrow> receiveExternalUDP useSimple (pap_Packet pap) = CDataReply \<Longrightarrow>
      dataReplyListen sha256 pap g = Inr (g1, acts1) \<Longrightarrow> PutData (dl_chan d) bs \<in> set acts1 \<Longrightarrow>
      downloadFile_data r bs d g1 = Inr (d', g', acts) \<Longrightarrow> download_step sha256 (d, g) (d', g')"
| tick: "expected d = Some h \<Longrightarrow> downloadChunk_tick (dl_packet d) g = Inr (p, acts) \<Longrightarrow>
      download_step sha256 (d, g) (d\<lparr>dl_packet := p\<rparr>, g)"
| other: "other_step sha256 g g' \<Longrightarrow> download_step sha256 (d, g) (d, g')"

inductive_cases download_stepE: "download_step sha256 s s'"

section \<open>Which data a download receives\<close>

abbreviation listener :: "Gossiper \<Rightarrow> hash32 \<Rightarrow> chan option" where
  "listener g h \<equiv> gm_load (dlcm_checksumMap (g_dlChunkListeners g)) h"

text \<open>Channels are new when they are made, and no channel is used for two checksums.\<close>

definition listeners_ok :: "Gossiper \<Rightarrow> bool" where
  "listeners_ok g \<longleftrightarrow> (\<forall>h c. listener g h = Some c \<longrightarrow> c < g_nextChan g)
     \<and> (\<forall>h h' c. listener g h = Some c \<longrightarrow> listener g h' = Some c \<longrightarrow> h = h')"

definition listeners_step :: "Gossiper \<Rightarrow> Gossiper \<Rightarrow> bool" where
  "listeners_step g g' \<longleftrightarrow> g_nextChan g \<le> g_nextChan g' \<and> (\<exists>k. \<forall>h c. listener g' h = Some c \<longrightarrow>
     listener g h = Some c \<or> (h = k \<and> c = g_nextChan g \<and> g_nextChan g < g_nextChan g'))"

definition waits_for :: "Gossiper \<Rightarrow> chan \<Rightarrow> hash32 \<Rightarrow> bool" where
  "waits_for g c h \<longleftrightarrow> c < g_nextChan g \<and> (\<forall>h'. listener g h' = Some c \<longrightarrow> h' = h)"

lemma listeners_step_keeps:
  assumes "listeners_step g g'" "listeners_ok g"
  shows "listeners_ok g'" "waits_for g c h \<Longrightarrow> waits_for g' c h"
proof -
  obtain k where n: "g_nextChan g \<le> g_nextChan g'" and k: "\<And>h c. listener g' h = Some c \<Longrightarrow>
      listener g h = Some c \<or> (h = k \<and> c = g_nextChan g \<and> g_nextChan g < g_nextChan g')"
    using assms(1) unfolding listeners_step_def by blast
  have lt: "c < g_nextChan g" if "listener g h = Some c" for h c using that assms(2) unfolding listeners_ok_def by blast
  have inj: "h = h'" if "listener g h = Some c" "listener g h' = Some c" for h h' c using that assms(2) unfolding listeners_ok_def by blast
  have lt': "c < g_nextChan g'" if "listener g' h = Some c" for h c
    using k [OF that]
  proof
    assume "listener g h = Some c"
    from lt [OF this] n show ?thesis by linarith
  qed simp
  have inj': "h = h'" if "listener g' h = Some c" "listener g' h' = Some c" for h h' c
    using k [OF that(1)] k [OF that(2)] inj [of h c h'] lt [of h c] lt [of h' c] by (elim disjE conjE) simp_all
  show "listeners_ok g'" using lt' inj' unfolding listeners_ok_def by blast
  assume w: "waits_for g c h"
  then have c: "c < g_nextChan g" and u: "\<And>h'. listener g h' = Some c \<Longrightarrow> h' = h" unfolding waits_for_def by blast+
  have "h' = h" if "listener g' h' = Some c" for h' using k [OF that] u [of h'] c by (elim disjE conjE) simp_all
  moreover have "c < g_nextChan g'" using c n by linarith
  ultimately show "waits_for g' c h" unfolding waits_for_def by blast
qed

lemma registered_waits: "listeners_ok g \<Longrightarrow> listener g h = Some c \<Longrightarrow> waits_for g c h"
  unfolding listeners_ok_def waits_for_def by blast

lemma downloadChunk_start_listener:
  assumes "downloadChunk_start hash origin g = Inr (g', c, packet, acts)"
  shows "listeners_step g g' \<and> listener g' hash = Some c"
proof -
  obtain m where "g' = g\<lparr>g_dlChunkListeners := fst (dlcm_AddListener (g_nextChan g) hash (g_dlChunkListeners g)), g_nextChan := g_nextChan g + 1\<rparr>"
    "c = fst (snd (dlcm_AddListener (g_nextChan g) hash (g_dlChunkListeners g)))"
    using assms by (auto simp: downloadChunk_start_def Let_def obind_Inr_iff split: prod.splits)
  then show ?thesis unfolding listeners_step_def
    by (auto simp: dlcm.add_waiting dlcm.add_result intro!: exI [of _ hash] split: option.splits if_splits)
qed

lemma VerifyDataHash_iff: "VerifyDataHash sha256 h bs \<longleftrightarrow> length h = 32 \<and> h = sha256 bs"
  by (auto simp: VerifyDataHash_def)

lemma dispatched_reply:
  assumes "receiveExternalUDP useSimple p = CDataReply"
  obtains drep where "gp_DataReply p = Some drep" "GetHashValue p = Inr (drep_HashValue drep)" "GetData p = Inr (drep_Data drep)"
proof -
  obtain drep where d: "subtype_of p = DataReplyS drep" using assms by (auto simp: receiveExternalUDP_def split: subtype.splits if_splits)
  then have "gp_DataReply p = Some drep" by (auto simp: subtype_of_def split: option.splits)
  then show ?thesis using that d by (simp add: GetHashValue_def GetData_def)
qed

lemma forward_no_data: "forward p g = Inr (p', acts) \<Longrightarrow> PutData c bs \<notin> set acts"
  by (auto simp: forward_def obind_Inr_iff split: option.splits if_splits)

lemma dataReplyListen_unfold:
  assumes "gp_DataReply (pap_Packet pap) = Some drep" "GetHashValue (pap_Packet pap) = Inr (drep_HashValue drep)"
    "GetData (pap_Packet pap) = Inr (drep_Data drep)" "g0 = fst (addToPeers (GetSenderAddress pap) g)"
  shows "dataReplyListen sha256 pap g =
    (if \<not> VerifyDataHash sha256 (drep_HashValue drep) (drep_Data drep) then Inr (g0, [])
     else obind (GetDestination (pap_Packet pap)) (\<lambda>dest.
       if dest = g_name g0 then
         let (m, c) = dlcm_InformListener (drep_HashValue drep) (g_dlChunkListeners g0)
         in Inr (g0\<lparr>g_dlChunkListeners := m\<rparr>, case c of Some ch \<Rightarrow> [PutData ch (drep_Data drep)] | None \<Rightarrow> [])
       else obind (forward (pap_Packet pap) g0) (\<lambda>(_, acts). Inr (g0, acts))))"
proof (cases "VerifyDataHash sha256 (drep_HashValue drep) (drep_Data drep)")
  case True
  then have "length (drep_HashValue drep) = 32" unfolding VerifyDataHash_iff by (rule conjunct1)
  then have "ConvertToHash32 (drep_HashValue drep) = (drep_HashValue drep, True)" by (simp add: ConvertToHash32_def)
  then show ?thesis using assms(1-3) True by (simp add: dataReplyListen_def assms(4) Let_def cong: if_cong)
qed (simp add: dataReplyListen_def assms)

lemma InformListener_listener:
  assumes "dlcm_InformListener h (g_dlChunkListeners g) = (m, c)"
  shows "c = listener g h" "gm_load (dlcm_checksumMap m) = (listener g)(h := None)"
proof -
  show "c = listener g h" using dlcm.inform_result [of h "g_dlChunkListeners g"] by (simp add: assms)
  show "gm_load (dlcm_checksumMap m) = (listener g)(h := None)"
  proof
    fix k show "gm_load (dlcm_checksumMap m) k = ((listener g)(h := None)) k"
      using dlcm.inform_waiting [of h "g_dlChunkListeners g" k] by (simp add: assms)
  qed
qed

lemma dataReplyListen_cases:
  assumes "dataReplyListen sha256 pap g = Inr (g', acts)" "receiveExternalUDP useSimple (pap_Packet pap) = CDataReply"
  shows "g_nextChan g' = g_nextChan g \<and> (\<forall>k c. listener g' k = Some c \<longrightarrow> listener g k = Some c)
    \<and> (\<forall>c bs. PutData c bs \<in> set acts \<longrightarrow> (\<exists>h. listener g h = Some c \<and> VerifyDataHash sha256 h bs))"
proof -
  obtain drep where d: "gp_DataReply (pap_Packet pap) = Some drep" "GetHashValue (pap_Packet pap) = Inr (drep_HashValue drep)"
    "GetData (pap_Packet pap) = Inr (drep_Data drep)" by (rule dispatched_reply [OF assms(2)])
  define g0 where "g0 = fst (addToPeers (GetSenderAddress pap) g)"
  let ?h = "drep_HashValue drep"
  have g: "g_dlChunkListeners g0 = g_dlChunkListeners g" "g_nextChan g0 = g_nextChan g"
    by (simp_all add: g0_def addToPeers_def split: prod.split)
  note u = assms(1) [unfolded dataReplyListen_unfold [OF d g0_def]]
  have same: ?thesis if "g' = g0" "\<And>c bs. PutData c bs \<notin> set acts" using that g by simp
  show ?thesis
  proof (cases "VerifyDataHash sha256 ?h (drep_Data drep)")
    case True
    note v = True
    obtain dest where dest: "GetDestination (pap_Packet pap) = Inr dest" using u True by (cases "GetDestination (pap_Packet pap)") auto
    show ?thesis
    proof (cases "dest = g_name g0")
      case True
      obtain m waiting where i: "dlcm_InformListener ?h (g_dlChunkListeners g) = (m, waiting)" by fastforce
      note l = InformListener_listener [OF i]
      have g': "g' = g0\<lparr>g_dlChunkListeners := m\<rparr>" and a: "acts = (case waiting of Some ch \<Rightarrow> [PutData ch (drep_Data drep)] | None \<Rightarrow> [])"
        using u v dest True i g by simp_all
      have n: "g_nextChan g' = g_nextChan g" unfolding g' using g(2) by simp
      have "listener g' k = ((listener g)(?h := None)) k" for k unfolding l(2) [symmetric] g' by simp
      then have "listener g k = Some c" if "listener g' k = Some c" for k c using that by (simp split: if_splits)
      moreover have "listener g ?h = Some ch \<and> VerifyDataHash sha256 ?h bs" if "PutData ch bs \<in> set acts" for ch bs
        using that v unfolding a l(1) by (simp split: option.splits)
      ultimately show ?thesis using n by (intro conjI allI impI) blast+
    next
      case False
      then have "obind (forward (pap_Packet pap) g0) (\<lambda>(_, acts). Inr (g0, acts)) = Inr (g', acts)" using u v dest by simp
      then obtain p2 where f: "forward (pap_Packet pap) g0 = Inr (p2, acts)" "g' = g0" by (cases "forward (pap_Packet pap) g0") auto
      show ?thesis by (rule same [OF f(2) forward_no_data [OF f(1)]])
    qed
  next
    case False
    show ?thesis by (rule same) (use u False in simp_all)
  qed
qed

lemma dataReplyListen_listener:
  "dataReplyListen sha256 pap g = Inr (g', acts) \<Longrightarrow> receiveExternalUDP useSimple (pap_Packet pap) = CDataReply \<Longrightarrow> listeners_step g g'"
  using dataReplyListen_cases unfolding listeners_step_def by (metis order_refl)

lemma dataReplyListen_delivers:
  assumes "dataReplyListen sha256 pap g = Inr (g', acts)" "receiveExternalUDP useSimple (pap_Packet pap) = CDataReply"
    and "PutData c bs \<in> set acts"
  shows "\<exists>h. listener g h = Some c \<and> VerifyDataHash sha256 h bs"
  using dataReplyListen_cases [OF assms(1,2)] assms(3) by blast

lemma other_step_listeners: "other_step sha256 g g' \<Longrightarrow> listeners_step g g'"
proof (induction rule: other_step.induct)
  case (elsewhere g' g)
  then show ?case by (auto simp: listeners_step_def)
qed (use downloadChunk_start_listener dataReplyListen_listener in blast)+

section \<open>What a finished download holds\<close>

definition dl_ok :: "(bytes \<Rightarrow> hash32) \<Rightarrow> download \<Rightarrow> bool" where
  "dl_ok sha256 d \<longleftrightarrow> (case dl_phase d of
       DLMetafile \<Rightarrow> True
     | DLChunk i \<Rightarrow> ParseMetafile (dl_metafile d) = Some (dl_chunkHashes d)
         \<and> sha256 (dl_metafile d) = dl_metahash d \<and> i < length (dl_chunkHashes d)
         \<and> map sha256 (dl_chunks d) = take i (dl_chunkHashes d)
     | DLDone success \<Rightarrow> success \<longrightarrow> ParseMetafile (dl_metafile d) = Some (dl_chunkHashes d)
         \<and> sha256 (dl_metafile d) = dl_metahash d \<and> map sha256 (dl_chunks d) = dl_chunkHashes d)"

lemma download_next_ok:
  assumes "download_next r i d g = Inr (d', g', acts)"
    and "ParseMetafile (dl_metafile d) = Some (dl_chunkHashes d)" "sha256 (dl_metafile d) = dl_metahash d"
    and "i \<le> length (dl_chunkHashes d)" "map sha256 (dl_chunks d) = take i (dl_chunkHashes d)"
  shows "dl_ok sha256 d' \<and> dl_metahash d' = dl_metahash d \<and> dl_nameToSave d' = dl_nameToSave d
    \<and> (dl_phase d' = DLDone True \<longrightarrow> acts = [WriteFile (dl_nameToSave d') (dl_chunks d') (dl_randomOrigins d')])"
proof (cases "i < length (dl_chunkHashes d)")
  case True
  then show ?thesis using assms by (auto simp: download_next_def dl_ok_def obind_Inr_iff)
next
  case False
  then have "i = length (dl_chunkHashes d)" using assms(4) by simp
  then show ?thesis using assms by (auto simp: download_next_def dl_ok_def Let_def)
qed

lemma downloadFile_data_ok:
  assumes "downloadFile_data r bs d g = Inr (d', g', acts)" "dl_ok sha256 d"
    "expected d = Some h" "VerifyDataHash sha256 h bs"
  shows "dl_ok sha256 d' \<and> dl_metahash d' = dl_metahash d \<and> dl_nameToSave d' = dl_nameToSave d
    \<and> (dl_phase d' = DLDone True \<longrightarrow> acts = [WriteFile (dl_nameToSave d') (dl_chunks d') (dl_randomOrigins d')])"
proof (cases "dl_phase d")
  case DLMetafile
  show ?thesis
  proof (cases "ParseMetafile bs")
    case None
    then show ?thesis using assms DLMetafile by (auto simp: downloadFile_data_def dl_ok_def)
  next
    case (Some hs)
    let ?d = "d\<lparr>dl_metafile := bs, dl_chunkHashes := hs, dl_chunks := []\<rparr>"
    obtain g1 where "download_next r 0 ?d g1 = Inr (d', g', acts)"
      using assms(1) DLMetafile Some by (auto simp: downloadFile_data_def Let_def)
    from download_next_ok [OF this, of sha256] show ?thesis
      using Some assms(3,4) DLMetafile by (auto simp: expected_def VerifyDataHash_iff)
  qed
next
  case (DLChunk i)
  let ?d = "d\<lparr>dl_chunks := dl_chunks d @ [bs]\<rparr>"
  obtain g1 where "download_next r (i + 1) ?d g1 = Inr (d', g', acts)"
    using assms(1) DLChunk by (auto simp: downloadFile_data_def Let_def)
  from download_next_ok [OF this, of sha256] show ?thesis
    using assms(2-4) DLChunk
    by (auto simp: expected_def VerifyDataHash_iff dl_ok_def take_Suc_conv_app_nth)
qed (use assms in \<open>simp add: expected_def\<close>)

inductive download_reachable :: "(bytes \<Rightarrow> hash32) \<Rightarrow> download \<times> Gossiper \<Rightarrow> download \<times> Gossiper \<Rightarrow> bool"
  for sha256 init where
  start: "download_reachable sha256 init init"
| step: "download_reachable sha256 init s \<Longrightarrow> download_step sha256 s s' \<Longrightarrow> download_reachable sha256 init s'"

text \<open>A download waits on the channel that is registered for the checksum it wants.\<close>

definition dl_waits :: "download \<Rightarrow> Gossiper \<Rightarrow> bool" where
  "dl_waits d g \<longleftrightarrow> listeners_ok g \<and> (\<forall>h. expected d = Some h \<longrightarrow> waits_for g (dl_chan d) h)"

lemma download_next_waits:
  assumes "download_next r i d g = Inr (d', g', acts)" "listeners_ok g"
  shows "dl_waits d' g'"
proof (cases "i < length (dl_chunkHashes d)")
  case True
  then obtain origin packet acts' c where n: "downloadChunk_start (dl_chunkHashes d ! i) origin g = Inr (g', c, packet, acts')"
    "dl_chan d' = c" "expected d' = Some (dl_chunkHashes d ! i)"
    using assms(1) by (auto simp: download_next_def obind_Inr_iff expected_def)
  note l = downloadChunk_start_listener [OF n(1)]
  have "listeners_ok g'" using l listeners_step_keeps(1) assms(2) by blast
  then show ?thesis using l n(2,3) registered_waits by (simp add: dl_waits_def)
next
  case False
  then have "g_dlChunkListeners g' = g_dlChunkListeners g" "g_nextChan g' = g_nextChan g" "expected d' = None"
    using assms(1) by (auto simp: download_next_def Let_def expected_def)
  then show ?thesis using assms(2) by (simp add: dl_waits_def listeners_ok_def)
qed

lemma downloadFile_data_next:
  assumes "downloadFile_data r bs d g = Inr (d', g', acts)"
  shows "(\<exists>d2 g2 i. download_next r i d2 g2 = Inr (d', g', acts) \<and> g_dlChunkListeners g2 = g_dlChunkListeners g \<and> g_nextChan g2 = g_nextChan g)
    \<or> (expected d' = None \<and> g_dlChunkListeners g' = g_dlChunkListeners g \<and> g_nextChan g' = g_nextChan g)"
proof (cases "dl_phase d")
  case DLMetafile
  show ?thesis
  proof (cases "ParseMetafile bs")
    case (Some hs)
    then show ?thesis using assms DLMetafile
      by (intro disjI1) (simp add: downloadFile_data_def Let_def; fastforce)
  qed (use assms DLMetafile in \<open>auto simp: downloadFile_data_def expected_def\<close>)
next
  case (DLChunk i)
  then show ?thesis using assms
    by (intro disjI1) (simp add: downloadFile_data_def Let_def; fastforce)
qed (use assms in \<open>auto simp: downloadFile_data_def expected_def\<close>)

lemma downloadFile_data_waits:
  assumes "downloadFile_data r bs d g = Inr (d', g', acts)" "listeners_ok g"
  shows "dl_waits d' g'"
proof -
  have same: "listeners_ok g2" if "g_dlChunkListeners g2 = g_dlChunkListeners g" "g_nextChan g2 = g_nextChan g" for g2
    using assms(2) that by (simp add: listeners_ok_def)
  show ?thesis using downloadFile_data_next [OF assms(1)]
  proof (elim disjE exE conjE)
    fix d2 g2 i assume "download_next r i d2 g2 = Inr (d', g', acts)" "g_dlChunkListeners g2 = g_dlChunkListeners g" "g_nextChan g2 = g_nextChan g"
    then show ?thesis using download_next_waits same by blast
  qed (simp add: dl_waits_def same)
qed

lemma downloadFile_start_waits:
  assumes "downloadFile_start r name metahash origin g = Inr (d, g', acts)" "listeners_ok g"
  shows "dl_waits d g'"
proof -
  let ?g = "g\<lparr>g_dlFilesSet := fst (AddUnique metahash (g_dlFilesSet g))\<rparr>"
  have same: "listeners_ok ?g" using assms(2) by (simp add: listeners_ok_def)
  consider (stop) "expected d = None" "g' = ?g"
    | (go) origin' c packet acts' where "downloadChunk_start metahash origin' ?g = Inr (g', c, packet, acts')" "dl_chan d = c" "expected d = Some metahash"
    using assms(1) by (auto simp: downloadFile_start_def Let_def obind_Inr_iff expected_def split: if_splits prod.splits)
  then show ?thesis
  proof cases
    case go
    note l = downloadChunk_start_listener [OF go(1)]
    have "listeners_ok g'" using l listeners_step_keeps(1) same by blast
    then show ?thesis using l go(2,3) registered_waits by (simp add: dl_waits_def)
  qed (simp add: dl_waits_def same)
qed

lemma download_step_ok:
  assumes "download_step sha256 (d, g) (d', g')" "dl_ok sha256 d" "dl_waits d g"
  shows "dl_ok sha256 d' \<and> dl_metahash d' = dl_metahash d \<and> dl_waits d' g'"
  using assms(1)
proof cases
  case (data h useSimple pap g1 acts1 bs r acts)
  have l: "listeners_ok g1" using listeners_step_keeps(1) dataReplyListen_listener [OF data(3,2)] assms(3) by (auto simp: dl_waits_def)
  obtain h' where h': "listener g h' = Some (dl_chan d)" "VerifyDataHash sha256 h' bs"
    using dataReplyListen_delivers [OF data(3,2,4)] by blast
  then have "h' = h" using assms(3) data(1) by (simp add: dl_waits_def waits_for_def)
  then show ?thesis using downloadFile_data_ok [OF data(5) assms(2) data(1)] downloadFile_data_waits [OF data(5) l] h'(2) by simp
next
  case (tick h p acts)
  then show ?thesis using assms(2,3) by (cases "dl_phase d") (simp_all add: dl_ok_def dl_waits_def expected_def)
next
  case other
  note o = other_step_listeners [OF other(2)]
  show ?thesis using assms(2,3) other(1) listeners_step_keeps [OF o] by (simp add: dl_waits_def)
qed

lemma download_reachable_ok:
  assumes "download_reachable sha256 init s" "dl_ok sha256 (fst init)" "dl_waits (fst init) (snd init)"
  shows "dl_ok sha256 (fst s) \<and> dl_metahash (fst s) = dl_metahash (fst init) \<and> dl_waits (fst s) (snd s)"
  using assms
proof (induction rule: download_reachable.induct)
  case (step s s')
  then show ?case using download_step_ok [of sha256 "fst s" "snd s" "fst s'" "snd s'"] by simp
qed simp

lemma downloadFile_start_ok:
  "downloadFile_start r name metahash origin g = Inr (d, g', acts) \<Longrightarrow>
     dl_ok sha256 d \<and> dl_metahash d = metahash \<and> dl_phase d \<noteq> DLDone True"
  by (auto simp: downloadFile_start_def dl_ok_def Let_def obind_Inr_iff split: if_splits prod.splits)

lemma same_chunks:
  assumes "sum32 sha256"
    and "inj_on sha256 (set chunks \<union> set chunks' \<union> {concat (map sha256 chunks), concat (map sha256 chunks')})"
    and "sha256 (concat (map sha256 chunks)) = sha256 (concat (map sha256 chunks'))"
  shows "chunks = chunks'"
proof -
  have "concat (map sha256 chunks) = concat (map sha256 chunks')" using assms(2,3) by (auto dest: inj_onD)
  then have m: "map sha256 chunks = map sha256 chunks'" by (rule concat_32_inj) (rule sums_32 [OF assms(1)])+
  have "inj_on sha256 (set chunks \<union> set chunks')" using assms(2) by (rule inj_on_subset) auto
  then show ?thesis using m by (metis inj_on_map_eq_map)
qed

section \<open>What a node serves\<close>

lemma add_chunks_inv:
  "list_all (\<lambda>(h, c). sha256 c = h) cm \<Longrightarrow> scm_inv sha256 m \<Longrightarrow> scm_inv sha256 (add_chunks cm m)"
  unfolding add_chunks_def
  by (induction cm arbitrary: m) (auto simp: scm_inv_AddChunk)

lemma GetChunk_add_chunks:
  "GetChunk h m \<noteq> None \<or> h \<in> fst ` set cm \<Longrightarrow> GetChunk h (add_chunks cm m) \<noteq> None"
  unfolding add_chunks_def
  by (induction cm arbitrary: m) (auto simp: GetChunk_AddChunk)

lemma CreateChunksMap_wf: "gm_wf (fst (CreateChunksMap sha256 chunks))"
proof -
  have "gm_wf m \<Longrightarrow> gm_wf (fold (\<lambda>c m. gm_store (sha256 c) c m) chunks m)" for m
    by (induction chunks arbitrary: m) simp_all
  then show ?thesis by (simp add: CreateChunksMap_def Let_def)
qed

lemma CreateChunksMap_all: "list_all (\<lambda>(h, c). sha256 c = h) (fst (CreateChunksMap sha256 chunks))"
  using CreateChunksMap_sums [of sha256 chunks] gm_load_Some_iff [OF CreateChunksMap_wf [of sha256 chunks]]
  by (auto simp: list_all_iff)

lemma CreateChunksMap_keys: "c \<in> set chunks \<Longrightarrow> sha256 c \<in> fst ` set (fst (CreateChunksMap sha256 chunks))"
proof -
  assume "c \<in> set chunks"
  then have "gm_load (fst (CreateChunksMap sha256 chunks)) (sha256 c) \<noteq> None"
    by (auto simp: CreateChunksMap_def Let_def fold_store_load filter_empty_conv)
  then show ?thesis by (simp add: gm_load_None_iff)
qed

lemma share_chunkMap:
  assumes "disk (shareBaseDir @ name) = GoodFile content"
  shows "g_chunkMap (fst (clientFileShareListen sha256 disk name g)) =
    add_chunks (fst (CreateChunksMap sha256 (read_chunks content)))
      (fst (AddChunk (sha256 (concat (map sha256 (read_chunks content))))
              (concat (map sha256 (read_chunks content))) (g_chunkMap g)))"
  using assms by (simp add: clientFileShareListen_def ReadChunks_def Let_def CreateChunksMap_def)

lemma share_inv:
  assumes "scm_inv sha256 (g_chunkMap g)"
  shows "scm_inv sha256 (g_chunkMap (fst (clientFileShareListen sha256 disk name g)))"
proof (cases "disk (shareBaseDir @ name)")
  case (GoodFile content)
  then show ?thesis unfolding share_chunkMap [of disk name content, OF GoodFile]
    using assms by (intro add_chunks_inv CreateChunksMap_all scm_inv_AddChunk) simp_all
qed (use assms in \<open>simp_all add: clientFileShareListen_def ReadChunks_def\<close>)

lemma answer_verifies:
  assumes "scm_inv sha256 (g_chunkMap g)" "answerDataRequest origin hash g = Some drep"
  shows "VerifyDataHash sha256 (drep_HashValue drep) (drep_Data drep) \<and> drep_HashValue drep = hash
    \<and> drep_Destination drep = origin"
  using assms scm_inv_Get [OF assms(1)]
  by (auto simp: answerDataRequest_def ConvertToHash32_def makeDataReply_def VerifyDataHash_iff
      split: if_splits option.splits)

lemma answer_some:
  "length h = 32 \<Longrightarrow> GetChunk h (g_chunkMap g) \<noteq> None \<Longrightarrow> answerDataRequest origin h g \<noteq> None"
  by (auto simp: answerDataRequest_def ConvertToHash32_def)

section \<open>Point-to-point delivery and retransmission\<close>

lemma forward_routable:
  assumes "routable p"
  shows "\<exists>p'. routable p' \<and> hop_of p' = hop_of p - 1 \<and> GetDestination p' = GetDestination p
    \<and> GetOrigin p' = GetOrigin p \<and> DecrementHopCount p = Inr (p', 0 < hop_of p')
    \<and> forward p g = Inr (p', if 0 < hop_of p' then
          (case getNextHop (projr (GetDestination p)) g of None \<Rightarrow> [] | Some hop \<Rightarrow> [SendUDP p' hop])
        else [])"
proof -
  obtain p' where p': "DecrementHopCount p = Inr (p', 0 < hop_of p')" "hop_of p' = hop_of p - 1"
    using DecrementHopCount_hop_counted [OF routable_hop_counted [OF assms]] by blast
  note r = DecrementHopCount_routable [OF assms p'(1)]
  obtain dest where d: "GetDestination p = Inr dest"
    using routable_destination [OF assms] by (cases "GetDestination p") auto
  have "forward p g = Inr (p', if 0 < hop_of p' then
      (case getNextHop dest g of None \<Rightarrow> [] | Some hop \<Rightarrow> [SendUDP p' hop]) else [])"
    using p'(1) r d by (auto simp: forward_def split: option.splits)
  then show ?thesis using p' r d by auto
qed

fun retransmit :: "nat \<Rightarrow> GossipPacket \<Rightarrow> Gossiper \<Rightarrow> (GossipPacket \<times> action list) outcome" where
  "retransmit 0 p g = Inr (p, [])"
| "retransmit (Suc n) p g =
     obind (retransmit n p g) (\<lambda>(p, _). downloadChunk_tick p g)"

lemma retransmit_hop:
  assumes "routable p"
  shows "\<exists>p' acts. retransmit n p g = Inr (p', acts) \<and> routable p' \<and> hop_of p' = hop_of p - of_nat n
    \<and> GetDestination p' = GetDestination p
    \<and> (n > 0 \<longrightarrow> acts = (if 0 < hop_of p' then
          (case getNextHop (projr (GetDestination p)) g of None \<Rightarrow> [] | Some hop \<Rightarrow> [SendUDP p' hop]) else []))"
proof (induction n)
  case (Suc n)
  then obtain q acts where q: "retransmit n p g = Inr (q, acts)" "routable q"
      "hop_of q = hop_of p - of_nat n" "GetDestination q = GetDestination p" by blast
  obtain p' where "routable p'" "hop_of p' = hop_of q - 1" "GetDestination p' = GetDestination q"
      "forward q g = Inr (p', if 0 < hop_of p' then
          (case getNextHop (projr (GetDestination q)) g of None \<Rightarrow> [] | Some hop \<Rightarrow> [SendUDP p' hop]) else [])"
    using forward_routable [OF q(2)] by blast
  then show ?case using q by (simp add: downloadChunk_tick_def diff_diff_eq add.commute)
qed (use assms in simp)

section \<open>Properties\<close>

text \<open>A one-byte file, downloaded under a checksum that is the length padded to 32 bytes.\<close>

definition example_metahash :: hash32 where
  "example_metahash = example_sum (example_sum [7])"

definition example_start :: "(download \<times> Gossiper \<times> action list) outcome" where
  "example_start = downloadFile_start 0 ''f'' example_metahash ''B'' (example_gossiper ''A'')"

definition example_reply :: "bytes \<Rightarrow> PacketAddressPair" where
  "example_reply bs = \<lparr>pap_Packet = emptyPacket\<lparr>gp_DataReply := Some \<lparr>drep_Origin = ''B'', drep_Destination = ''A'', drep_HopLimit = 9,
     drep_HashValue = example_sum bs, drep_Data = bs\<rparr>\<rparr>, pap_SenderAddress = ''b''\<rparr>"

definition example_feed :: "bytes \<Rightarrow> (download \<times> Gossiper \<times> action list) outcome \<Rightarrow> (download \<times> Gossiper \<times> action list) outcome" where
  "example_feed bs r = obind r (\<lambda>(d, g, _). obind (dataReplyListen example_sum (example_reply bs) g) (\<lambda>(g, acts).
     if acts = [PutData (dl_chan d) bs] then downloadFile_data 0 bs d g else Inl (Panic ''no data'')))"

definition download_view :: "(download \<times> Gossiper \<times> action list) outcome \<Rightarrow> (hash32 option \<times> download_phase \<times> bytes list) outcome" where
  "download_view = map_sum id (\<lambda>(d, _, _). (expected d, dl_phase d, dl_chunks d))"

lemma example_download:
  "download_view example_start = Inr (Some example_metahash, DLMetafile, [])"
  "download_view (example_feed (example_sum [7]) example_start) = Inr (Some (example_sum [7]), DLChunk 0, [])"
  "download_view (example_feed [7] (example_feed (example_sum [7]) example_start)) = Inr (None, DLDone True, [[7]])"
  by code_simp+

lemma download_view_Inr: "download_view r = Inr v \<Longrightarrow> \<exists>d g acts. r = Inr (d, g, acts)"
  by (cases r) (auto simp: download_view_def)

lemma example_feed_step:
  assumes "r = Inr (d, g, acts)" "download_view r = Inr (Some h, ph, cs)" "download_view (example_feed bs r) = Inr v"
  shows "\<exists>d' g' acts'. example_feed bs r = Inr (d', g', acts') \<and> download_step example_sum (d, g) (d', g')"
proof -
  obtain d' g' acts' where f: "example_feed bs r = Inr (d', g', acts')" using download_view_Inr [OF assms(3)] by blast
  then obtain g1 where "dataReplyListen example_sum (example_reply bs) g = Inr (g1, [PutData (dl_chan d) bs])"
    "downloadFile_data 0 bs d g1 = Inr (d', g', acts')"
    by (auto simp: example_feed_def assms(1) obind_Inr_iff split: if_splits)
  moreover have "expected d = Some h" using assms(1,2) by (simp add: download_view_def)
  moreover have "receiveExternalUDP False (pap_Packet (example_reply bs)) = CDataReply"
    by (simp add: receiveExternalUDP_def example_reply_def subtype_of_def emptyPacket_def)
  ultimately have "download_step example_sum (d, g) (d', g')" by (intro download_step.data) auto
  then show ?thesis using f by blast
qed

lemma example_checks:
  "read_chunks [7] = [[7]]" "snd (snd (CreateChunksMap example_sum (read_chunks [7]))) = example_metahash"
  by code_simp+

lemma example_completes:
  "\<exists>d0 g0 acts d g. downloadFile_start 0 ''f'' example_metahash ''B'' (example_gossiper ''A'') = Inr (d0, g0, acts)
    \<and> download_reachable example_sum (d0, g0) (d, g) \<and> dl_phase d = DLDone True \<and> dl_chunks d = [[7]]"
proof -
  obtain d0 g0 acts where 0: "example_start = Inr (d0, g0, acts)"
    using download_view_Inr [OF example_download(1)] by blast
  obtain d1 g1 acts1 where 1: "example_feed (example_sum [7]) example_start = Inr (d1, g1, acts1)"
    "download_step example_sum (d0, g0) (d1, g1)"
    using example_feed_step [OF 0 example_download(1,2)] by blast
  obtain d2 g2 acts2 where 2: "example_feed [7] (example_feed (example_sum [7]) example_start) = Inr (d2, g2, acts2)"
    "download_step example_sum (d1, g1) (d2, g2)"
    using example_feed_step [OF 1(1) example_download(2,3)] by blast
  have "download_reachable example_sum (d0, g0) (d2, g2)"
    using 1(2) 2(2) by (blast intro: download_reachable.intros)
  moreover have "dl_phase d2 = DLDone True" "dl_chunks d2 = [[7]]"
    using example_download(3) 2(1) by (simp_all add: download_view_def)
  ultimately show ?thesis using 0 unfolding example_start_def by blast
qed

text \<open>C3: what a download gets is what it asked for.  On a node whose waiting chunks have channels of their own
  (\<open>listeners_ok\<close>, which holds of a new node and is kept), whatever packets arrive and however the other
  goroutines of the node run, the chunks of a download that finishes successfully have checksums which, concatenated,
  have the requested metahash: the check of \<open>dataReplyListenRoutine\<close> and the channels see to it.  So if a file was
  shared with that metahash and SHA-256 does not collide on the two files' chunks and metafiles, the
  downloaded file is the shared one.\<close>

theorem download_integrity:
  assumes "listeners_ok g" "downloadFile_start r name metahash origin g = Inr (d0, g0, acts)"
    and "download_reachable sha256 (d0, g0) (d, g')" "dl_phase d = DLDone True" "sum32 sha256"
  shows "sha256 (concat (map sha256 (dl_chunks d))) = metahash
    \<and> (\<forall>content. metahash = snd (snd (CreateChunksMap sha256 (read_chunks content)))
        \<and> inj_on sha256 (set (dl_chunks d) \<union> set (read_chunks content) \<union>
            {concat (map sha256 (dl_chunks d)), concat (map sha256 (read_chunks content))})
        \<longrightarrow> concat (dl_chunks d) = content)"
proof -
  have "dl_ok sha256 d \<and> dl_metahash d = metahash"
    using download_reachable_ok [OF assms(3)] downloadFile_start_ok [OF assms(2), of sha256] downloadFile_start_waits [OF assms(2,1)] by simp
  then have "ParseMetafile (dl_metafile d) = Some (map sha256 (dl_chunks d))" "sha256 (dl_metafile d) = metahash"
    using assms(4) by (simp_all add: dl_ok_def)
  then have m: "sha256 (concat (map sha256 (dl_chunks d))) = metahash" using ParseMetafile_Some(1) by metis
  have "concat (dl_chunks d) = content" if "metahash = snd (snd (CreateChunksMap sha256 (read_chunks content)))"
    "inj_on sha256 (set (dl_chunks d) \<union> set (read_chunks content) \<union>
       {concat (map sha256 (dl_chunks d)), concat (map sha256 (read_chunks content))})" for content
  proof -
    have "sha256 (concat (map sha256 (dl_chunks d))) = sha256 (concat (map sha256 (read_chunks content)))"
      using m that(1) by (simp add: CreateChunksMap_def Let_def)
    then have "dl_chunks d = read_chunks content" by (rule same_chunks [OF assms(5) that(2)])
    then show ?thesis by (simp add: concat_read_chunks)
  qed
  then show ?thesis using m by blast
qed

lemma listeners_ok_new: "g_dlChunkListeners g = NewDLChanMap \<Longrightarrow> listeners_ok g"
  by (simp add: listeners_ok_def NewDLChanMap_def gm_load_def)

theorem download_integrity_witness:
  "\<exists>d0 g0 acts d g. downloadFile_start 0 ''f'' example_metahash ''B'' (example_gossiper ''A'') = Inr (d0, g0, acts)
    \<and> download_reachable example_sum (d0, g0) (d, g) \<and> dl_phase d = DLDone True \<and> concat (dl_chunks d) = [7]"
proof -
  have inj: "inj_on example_sum (set [[7]] \<union> set (read_chunks [7]) \<union>
      {concat (map example_sum [[7]]), concat (map example_sum (read_chunks [7]))})"
    unfolding example_checks(1) by (simp add: example_sum_def)
  have l: "listeners_ok (example_gossiper ''A'')"
    by (rule listeners_ok_new) (simp add: example_gossiper_def NewGossiper_def)
  obtain d0 g0 acts d g where e: "downloadFile_start 0 ''f'' example_metahash ''B'' (example_gossiper ''A'') = Inr (d0, g0, acts)"
    "download_reachable example_sum (d0, g0) (d, g)" "dl_phase d = DLDone True" "dl_chunks d = [[7]]" using example_completes by blast
  have "concat (dl_chunks d) = [7]"
    using download_integrity [OF l e(1-3) example_sum32] inj example_checks(2) e(4) by metis
  then show ?thesis using e by blast
qed

text \<open>Every chunk a node serves matches the checksum it was asked for, so the requester's
  check succeeds; and sharing files keeps this so.\<close>

theorem served_chunks_verify:
  assumes "scm_inv sha256 (g_chunkMap g)"
    and "answerDataRequest origin hash (fst (clientFileShareListen sha256 disk name g)) = Some drep"
  shows "VerifyDataHash sha256 (drep_HashValue drep) (drep_Data drep) \<and> drep_HashValue drep = hash
    \<and> drep_Destination drep = origin"
  using answer_verifies [OF share_inv [OF assms(1)] assms(2)] .

theorem served_chunks_verify_witness:
  "\<exists>drep. answerDataRequest ''B'' (example_sum [7])
      (fst (clientFileShareListen example_sum (\<lambda>_. GoodFile [7]) ''f'' (example_gossiper ''A''))) = Some drep
    \<and> VerifyDataHash example_sum (drep_HashValue drep) (drep_Data drep)"
proof -
  have "answerDataRequest ''B'' (example_sum [7])
      (fst (clientFileShareListen example_sum (\<lambda>_. GoodFile [7]) ''f'' (example_gossiper ''A''))) =
      Some (makeDataReply ''B'' [7] (example_sum [7]) (example_gossiper ''A''))"
    by code_simp
  moreover have "scm_inv example_sum (g_chunkMap (example_gossiper ''A''))"
    by (simp add: scm_inv_def NewSafeChunkMap_def)
  ultimately show ?thesis using served_chunks_verify by blast
qed

text \<open>C37: after a file was shared, the node answers a request for its metahash and for the
  checksum of each of its chunks.\<close>

theorem shared_file_is_served:
  assumes "disk (shareBaseDir @ name) = GoodFile content" "sum32 sha256"
    "h = snd (snd (CreateChunksMap sha256 (read_chunks content))) \<or> h \<in> sha256 ` set (read_chunks content)"
  shows "answerDataRequest origin h (fst (clientFileShareListen sha256 disk name g)) \<noteq> None"
proof (rule answer_some)
  show "length h = 32" using assms(2,3) by (auto simp: sum32_def CreateChunksMap_def Let_def)
  show "GetChunk h (g_chunkMap (fst (clientFileShareListen sha256 disk name g))) \<noteq> None"
    unfolding share_chunkMap [of disk name content, OF assms(1)]
    using assms(3) CreateChunksMap_keys [of _ "read_chunks content" sha256]
    by (intro GetChunk_add_chunks) (auto simp: GetChunk_AddChunk CreateChunksMap_def Let_def)
qed

theorem shared_file_is_served_witness:
  "answerDataRequest ''B'' example_metahash
     (fst (clientFileShareListen example_sum (\<lambda>_. GoodFile [7]) ''f'' (example_gossiper ''A''))) \<noteq> None"
  using example_checks(2) by (intro shared_file_is_served [of _ _ "[7]"]) (simp_all add: example_sum32)

text \<open>A data request that is sent again on every tick is the same packet, whose hop limit the
  first sending and every retransmission decrement: the k-th retransmission carries a hop limit
  of 9 - k, modulo 2 to the 32.  The ninth is dropped and the tenth wraps around.\<close>

theorem retransmission_hop_limit:
  assumes "routable p" "getNextHop (projr (GetDestination p)) g = Some hop" "n > 0"
  shows "\<exists>p' acts. retransmit n p g = Inr (p', acts) \<and> hop_of p' = hop_of p - of_nat n
    \<and> acts = (if hop_of p = of_nat n then [] else [SendUDP p' hop])"
proof -
  obtain p' acts where r: "retransmit n p g = Inr (p', acts)" "hop_of p' = hop_of p - of_nat n"
    "acts = (if 0 < hop_of p' then
          (case getNextHop (projr (GetDestination p)) g of None \<Rightarrow> [] | Some hop \<Rightarrow> [SendUDP p' hop]) else [])"
    using retransmit_hop [OF assms(1), of n g] assms(3) by blast
  have "0 < hop_of p' \<longleftrightarrow> hop_of p \<noteq> of_nat n" using r(2) by (simp add: word_neq_0_conv [symmetric])
  then show ?thesis using r assms(2) by auto
qed

definition example_routed :: Gossiper where
  "example_routed = (example_gossiper ''A'')\<lparr>g_routingTable := fst (UpdateEntry 1 ''b'' ''127.0.0.1:5001'' NewSafeRoutingTable)\<rparr>"

theorem retransmission_hop_limit_witness:
  "\<exists>p'. retransmit 10 (example_private 9) example_routed = Inr (p', [SendUDP p' ''127.0.0.1:5001'']) \<and> hop_of p' = - 1"
proof -
  have "routable (example_private 9)" by code_simp
  moreover have "getNextHop (projr (GetDestination (example_private 9))) example_routed = Some ''127.0.0.1:5001''" by code_simp
  ultimately show ?thesis using retransmission_hop_limit [of "example_private 9" example_routed _ 10] by auto
qed

end
