(* ===== verification/SearchProtocol.thy ===== *)
theory SearchProtocol
  imports AntiEntropy "HOL-Library.Signed_Division"
begin

text \<open>
  Keyword search: \<open>src/gossiper/fileSearching.go\<close>.  A request carries a budget that every
  node lowers by one and splits among its neighbours; requests seen in the last half second are
  dropped; replies update who owns which chunk and inform the searches that wait.
  \<open>searchFilesMatching\<close> blocks in a \<open>select\<close>, so it is a state machine like a download: the code
  up to the \<open>select\<close> and one function per branch.  Times are nanoseconds.
\<close>

section \<open>Requests\<close>

definition makeSearchRequest :: "uint64 \<Rightarrow> string list \<Rightarrow> Gossiper \<Rightarrow> SearchRequest" where
  "makeSearchRequest budget keywords g =
     \<lparr>sreq_Origin = g_name g, sreq_Budget = budget, sreq_Keywords = keywords\<rparr>"

definition makeSearchReply :: "string \<Rightarrow> SearchResult list \<Rightarrow> Gossiper \<Rightarrow> SearchReply" where
  "makeSearchReply destination sress g =
     \<lparr>srep_Origin = g_name g, srep_Destination = destination, srep_HopLimit = defaultHopLimit,
      srep_Results = sress\<rparr>"

definition answerSearchRequest :: "string \<Rightarrow> string list \<Rightarrow> Gossiper \<Rightarrow> Gossiper \<times> SearchReply option" where
  "answerSearchRequest origin keywords g =
     (let (fm, sress) = GetMatches keywords (g_fileMap g);
          g = g\<lparr>g_fileMap := fm\<rparr>
      in if length sress > 0 then (g, Some (makeSearchReply origin sress g)) else (g, None))"

text \<open>
  The conversion \<open>int(sreq.Budget)\<close> reads the 64 bits as a signed number, and Go's division
  rounds towards zero.
\<close>

fun forward_loop :: "SearchRequest \<Rightarrow> int \<Rightarrow> int \<Rightarrow> address list \<Rightarrow> action list" where
  "forward_loop sreq eqSplit remainder [] = []"
| "forward_loop sreq eqSplit remainder (peer # peers) =
     (let (budget, remainder) = (if remainder > 0 then (eqSplit + 1, remainder - 1) else (eqSplit, remainder));
          packet = emptyPacket\<lparr>gp_SearchRequest := Some (sreq\<lparr>sreq_Budget := of_int budget\<rparr>)\<rparr>
      in (if budget > 0 then [SendUDP packet peer] else []) @ forward_loop sreq eqSplit remainder peers)"

definition forwardSearchRequest :: "SearchRequest \<Rightarrow> address \<Rightarrow> Gossiper \<Rightarrow> action list" where
  "forwardSearchRequest sreq recentSender g =
     (let peers = stringArrayDifference (GetArrayCopy (g_peers g)) [sreq_Origin sreq, recentSender] in
      if length peers = 0 then []
      else let eqSplit = sint (sreq_Budget sreq) sdiv int (length peers);
               remainder = sint (sreq_Budget sreq) smod int (length peers)
           in forward_loop sreq eqSplit remainder peers)"

record SearchRequestTimedID =
  srt_Time :: time
  srt_Origin :: string
  srt_Keywords :: "string list"

definition expired_id :: "time \<Rightarrow> SearchRequestTimedID \<Rightarrow> bool" where
  "expired_id current srtID = (current - srt_Time srtID > 500000000)"

definition repeats :: "string \<Rightarrow> string list \<Rightarrow> SearchRequestTimedID \<Rightarrow> bool" where
  "repeats origin keywords srtID =
     (srt_Origin srtID = origin \<and> length (stringArrayDifference (srt_Keywords srtID) keywords) = 0
      \<and> length (stringArrayDifference keywords (srt_Keywords srtID)) = 0)"

definition searchRequestListen :: "time \<Rightarrow> SearchRequestTimedID list \<Rightarrow> PacketAddressPair \<Rightarrow> Gossiper
    \<Rightarrow> (SearchRequestTimedID list \<times> Gossiper \<times> action list) outcome" where
  "searchRequestListen current timedIDs pap g =
     (let g = fst (addToPeers (GetSenderAddress pap) g) in
      obind (GetOrigin (pap_Packet pap)) (\<lambda>origin.
      obind (GetKeywords (pap_Packet pap)) (\<lambda>keywords.
        let fresh = filter (\<lambda>srtID. \<not> expired_id current srtID) timedIDs;
            ignore = list_ex (repeats origin keywords) fresh
        in if ignore then Inr (fresh, g, [])
           else
             let timedIDs = \<lparr>srt_Time = current, srt_Origin = origin, srt_Keywords = keywords\<rparr> # fresh;
                 (g, answer) = answerSearchRequest origin keywords g in
             obind (case answer of
                      Some srep \<Rightarrow> obind (forward (emptyPacket\<lparr>gp_SearchReply := Some srep\<rparr>) g) (\<lambda>(_, acts). Inr acts)
                    | None \<Rightarrow> Inr []) (\<lambda>replies.
             case gp_SearchRequest (pap_Packet pap) of
               None \<Rightarrow> Inl (Panic ''nil search request'')
             | Some sreq \<Rightarrow>
                 Inr (timedIDs, g, replies @
                   forwardSearchRequest (sreq\<lparr>sreq_Budget := sreq_Budget sreq - 1\<rparr>) (GetSenderAddress pap) g)))))"

section \<open>Replies\<close>

definition search_result :: "string \<Rightarrow> SearchResult \<Rightarrow> Gossiper \<Rightarrow> handled" where
  "search_result origin sres g =
     (let (hash32, isHash) = ConvertToHash32 (sres_MetafileHash sres);
          g = (if isHash then g\<lparr>g_filenamesMap := fst (AddMapping hash32 (sres_FileName sres) (g_filenamesMap g))\<rparr> else g);
          (m, madeTotalMatch, hasTotalMatch) = UpdateWithSearchResult origin sres (g_metahashToChunkOwnersMap g);
          g = g\<lparr>g_metahashToChunkOwnersMap := m\<rparr>;
          g = (if hasTotalMatch
               then g\<lparr>g_matchesGUImap := fst (pair_AppendUniqueToArray hash32 (sres_FileName sres) (g_matchesGUImap g))\<rparr>
               else g)
      in case GetMapping hash32 (g_filenamesMap g) of
           None \<Rightarrow> Inl (Panic ''nil filenames'')
         | Some arr \<Rightarrow>
             if madeTotalMatch then
               (let (sm, sent) = ssm_InformListeners (GetArrayCopy arr) hash32 (g_searchMap g)
                in Inr (g\<lparr>g_searchMap := sm\<rparr>, map (\<lambda>(c, files). PutFiles c files) sent))
             else Inr (g, []))"

fun search_results :: "string \<Rightarrow> SearchResult list \<Rightarrow> Gossiper \<Rightarrow> handled" where
  "search_results origin [] g = Inr (g, [])"
| "search_results origin (sres # sress) g =
     obind (search_result origin sres g) (\<lambda>(g, acts).
     obind (search_results origin sress g) (\<lambda>(g, acts'). Inr (g, acts @ acts')))"

definition searchReplyListen :: "PacketAddressPair \<Rightarrow> Gossiper \<Rightarrow> handled" where
  "searchReplyListen pap g =
     (let g = fst (addToPeers (GetSenderAddress pap) g) in
      obind (GetDestination (pap_Packet pap)) (\<lambda>dest.
      obind (GetHopLimit (pap_Packet pap)) (\<lambda>_.
        if dest = g_name g then
          obind (GetSearchResults (pap_Packet pap)) (\<lambda>sress.
          obind (GetOrigin (pap_Packet pap)) (\<lambda>origin. search_results origin sress g))
        else obind (forward (pap_Packet pap) g) (\<lambda>(_, acts). Inr (g, acts)))))"

section \<open>A client's search\<close>

record search_run =
  sr_keywords :: "string list"
  sr_initialBudget :: uint64
  sr_budget :: uint64
  sr_cFiles :: chan
  sr_t1 :: bool
  sr_result :: "(files_map option \<times> bool) option"

definition local_matches :: "string list \<Rightarrow> Gossiper \<Rightarrow> files_map" where
  "local_matches keywords g =
     filter (\<lambda>(metahash, _). let (_, hasTotalMatch, _) = GetMapCopy metahash (g_metahashToChunkOwnersMap g) in hasTotalMatch)
       (names_GetMatches keywords (g_filenamesMap g))"

definition searchFilesMatching_start :: "string list \<Rightarrow> uint64 \<Rightarrow> Gossiper \<Rightarrow> search_run \<times> Gossiper \<times> action list" where
  "searchFilesMatching_start keywords initialBudget g =
     (let files = local_matches keywords g;
          budget = (if initialBudget = 0 then 2 else initialBudget);
          run = \<lparr>sr_keywords = keywords, sr_initialBudget = initialBudget, sr_budget = budget,
                 sr_cFiles = g_nextChan g, sr_t1 = True, sr_result = None\<rparr>
      in if length files < ThresholdTotalMatches then
           (let (m, cFiles, isNew) = AddListenerWithFiles (g_nextChan g) keywords files (g_searchMap g);
                g = g\<lparr>g_searchMap := m, g_nextChan := g_nextChan g + 1\<rparr>
            in if \<not> isNew then (run\<lparr>sr_result := Some (None, False)\<rparr>, g, [])
               else (run, g, forwardSearchRequest (makeSearchRequest budget keywords g) '''' g))
         else (run\<lparr>sr_result := Some (Some files, False)\<rparr>, g, []))"

definition searchFilesMatching_files :: "files_map \<Rightarrow> search_run \<Rightarrow> search_run" where
  "searchFilesMatching_files files run = run\<lparr>sr_result := Some (Some files, True)\<rparr>"

definition searchFilesMatching_t1 :: "search_run \<Rightarrow> Gossiper \<Rightarrow> search_run \<times> action list" where
  "searchFilesMatching_t1 run g =
     (if sr_initialBudget run = 0 \<and> sr_budget run \<ge> 32 then (run\<lparr>sr_t1 := False\<rparr>, [])
      else if sr_initialBudget run = 0 then
        (let budget = sr_budget run * 2
         in (run\<lparr>sr_budget := budget\<rparr>,
             forwardSearchRequest (makeSearchRequest budget (sr_keywords run) g) '''' g))
      else (run, []))"

definition searchFilesMatching_t2 :: "search_run \<Rightarrow> Gossiper \<Rightarrow> search_run \<times> Gossiper \<times> action list" where
  "searchFilesMatching_t2 run g =
     (run\<lparr>sr_result := Some (None, False)\<rparr>,
      g\<lparr>g_searchMap := ssm_RemoveListener (sr_keywords run) (g_searchMap g)\<rparr>, [CloseChan (sr_cFiles run)])"

definition clientFileSearchListen :: "FileToSearch \<Rightarrow> action list" where
  "clientFileSearchListen f = [GoSearchFiles (fts_Keywords f) (fts_Budget f)]"

section \<open>How a budget is split\<close>

text \<open>The search requests among a list of actions, with the peers they are sent to.\<close>

fun requests :: "action list \<Rightarrow> (address \<times> SearchRequest) list" where
  "requests [] = []"
| "requests (SendUDP p a # acts) =
     (case gp_SearchRequest p of Some r \<Rightarrow> (a, r) # requests acts | None \<Rightarrow> requests acts)"
| "requests (_ # acts) = requests acts"

definition total_budget :: "(address \<times> SearchRequest) list \<Rightarrow> nat" where
  "total_budget rs = (\<Sum>(_, r) \<leftarrow> rs. unat (sreq_Budget r))"

lemma total_budget_simps [simp]:
  "total_budget [] = 0" "total_budget ((a, r) # rs) = unat (sreq_Budget r) + total_budget rs"
  "total_budget (rs @ rs') = total_budget rs + total_budget rs'"
  by (simp_all add: total_budget_def)

lemma requests_append [simp]: "requests (xs @ ys) = requests xs @ requests ys"
  by (induction xs rule: requests.induct) (auto split: option.splits)

lemma unat_of_int_nat: "q < 2 ^ 64 \<Longrightarrow> unat (of_int (int q) :: uint64) = q"
  by (simp add: unat_of_nat64)

text \<open>The loop sends a share to every peer, one more to the first \<open>r\<close>, and skips empty shares.\<close>

definition shares :: "SearchRequest \<Rightarrow> nat \<Rightarrow> nat \<Rightarrow> address list \<Rightarrow> (address \<times> SearchRequest) list" where
  "shares sreq q r peers =
     filter (\<lambda>(_, s). sreq_Budget s > 0)
       (map (\<lambda>p. (p, sreq\<lparr>sreq_Budget := of_nat (q + 1)\<rparr>)) (take r peers)
        @ map (\<lambda>p. (p, sreq\<lparr>sreq_Budget := of_nat q\<rparr>)) (drop r peers))"

lemma of_nat_pos64: "q < 2 ^ 64 \<Longrightarrow> (of_nat q :: uint64) > 0 \<longleftrightarrow> q > 0"
  using unat_gt_0 [of "of_nat q :: uint64"] by (simp only: word_neq_0_conv unat_of_nat64)

lemma requests_forward_loop:
  assumes "q + 1 < 2 ^ 64"
  shows "requests (forward_loop sreq (int q) (int r) peers) = shares sreq q r peers"
proof (induction peers arbitrary: r)
  case (Cons p peers)
  show ?case
  proof (cases r)
    case 0
    then show ?thesis using Cons.IH [of 0] assms of_nat_pos64 [of q]
      by (simp add: shares_def emptyPacket_def)
  next
    case (Suc r')
    then show ?thesis using Cons.IH [of r'] assms of_nat_pos64 [of "q + 1"]
      by (simp add: shares_def emptyPacket_def)
  qed
qed (simp add: shares_def)

lemma forward_loop_none: "q \<le> 0 \<Longrightarrow> r \<le> 0 \<Longrightarrow> forward_loop sreq q r peers = []"
  by (induction peers arbitrary: r) (simp_all add: Let_def)

lemma total_shares:
  assumes "q + 1 < 2 ^ 64" "r \<le> length peers"
  shows "total_budget (shares sreq q r peers) = q * length peers + r"
proof -
  have drop0: "total_budget (filter (\<lambda>(_, s). sreq_Budget s > 0) xs) = total_budget xs" for xs
    by (induction xs) (auto simp: word_gt_0)
  have const: "total_budget (map (\<lambda>p. (p, sreq\<lparr>sreq_Budget := of_nat n\<rparr>)) xs) = n * length xs"
    if "n < 2 ^ 64" for n and xs :: "address list"
    using that by (induction xs) (simp_all add: unat_of_nat64)
  show ?thesis unfolding shares_def drop0 total_budget_simps(3)
    using assms const [of "q + 1" "take r peers"] const [of q "drop r peers"]
    by (simp add: algebra_simps)
qed

definition neighbours :: "SearchRequest \<Rightarrow> address \<Rightarrow> Gossiper \<Rightarrow> address list" where
  "neighbours sreq recentSender g =
     filter (\<lambda>p. p \<notin> {sreq_Origin sreq, recentSender}) (ssa_array (g_peers g))"

lemma sdiv_int: "int a sdiv int b = int (a div b)"
  by (cases "a = 0 \<or> b = 0") (auto simp: signed_divide_int_def zdiv_int)

lemma smod_int: "int a smod int b = int (a mod b)"
  by (cases "a = 0") (simp_all add: signed_modulo_int_def zmod_int)

lemma requests_forwardSearchRequest:
  assumes "unat (sreq_Budget sreq) < 2 ^ 63"
  shows "requests (forwardSearchRequest sreq sender g) =
    shares sreq (unat (sreq_Budget sreq) div length (neighbours sreq sender g))
      (unat (sreq_Budget sreq) mod length (neighbours sreq sender g)) (neighbours sreq sender g)"
proof -
  let ?n = "neighbours sreq sender g" and ?b = "unat (sreq_Budget sreq)"
  have n: "stringArrayDifference (GetArrayCopy (g_peers g)) [sreq_Origin sreq, sender] = ?n"
    by (simp add: neighbours_def stringArrayDifference_eq GetArrayCopy_def)
  have b: "sint (sreq_Budget sreq) = int ?b" using assms by (rule sint_small64)
  have "?b div length ?n + 1 \<le> 2 ^ 63"
    using assms div_le_dividend [of ?b "length ?n"] by linarith
  then have "?b div length ?n + 1 < 2 ^ 64" by (rule le_less_trans) simp
  then show ?thesis unfolding forwardSearchRequest_def n b Let_def sdiv_int smod_int
    by (cases "?n = []") (simp_all only: requests_forward_loop length_0_conv if_True if_False requests.simps, simp add: shares_def)
qed

lemma sdiv_smod_nonpos:
  fixes a b :: int
  assumes "a < 0" "b > 0"
  shows "a sdiv b \<le> 0" "a smod b \<le> 0"
proof -
  have s: "a sdiv b = - (- a div b)" using assms by (simp add: signed_divide_int_def)
  show "a sdiv b \<le> 0" unfolding s using assms by (simp add: pos_imp_zdiv_nonneg_iff)
  have "a smod b = - (- a mod b)" using assms by (simp add: signed_modulo_int_def)
  then show "a smod b \<le> 0" using assms by simp
qed

lemma forwardSearchRequest_negative:
  assumes "unat (sreq_Budget sreq) \<ge> 2 ^ 63"
  shows "forwardSearchRequest sreq sender g = []"
proof -
  have neg: "sint (sreq_Budget sreq) < 0" using assms by (rule sint_large64)
  show ?thesis unfolding forwardSearchRequest_def Let_def
    using sdiv_smod_nonpos [OF neg] by (auto intro!: forward_loop_none)
qed

lemma shares_budget:
  "(p, s) \<in> set (shares sreq q r peers) \<Longrightarrow>
     p \<in> set peers \<and> 0 < sreq_Budget s \<and> sreq_Budget s \<in> {of_nat q, of_nat (q + 1)}
     \<and> sreq_Origin s = sreq_Origin sreq \<and> sreq_Keywords s = sreq_Keywords sreq"
  by (auto simp: shares_def dest: in_set_takeD in_set_dropD)

lemma shares_targets:
  "subseq (map fst (shares sreq q r peers)) peers"
  "0 < q \<Longrightarrow> q + 1 < 2 ^ 64 \<Longrightarrow> map fst (shares sreq q r peers) = peers"
proof -
  let ?all = "map (\<lambda>p. (p, sreq\<lparr>sreq_Budget := of_nat (q + 1)\<rparr>)) (take r peers)
        @ map (\<lambda>p. (p, sreq\<lparr>sreq_Budget := of_nat q\<rparr>)) (drop r peers)"
  have all: "map fst ?all = peers" by (simp add: comp_def)
  show "subseq (map fst (shares sreq q r peers)) peers"
    unfolding shares_def using subseq_map [OF subseq_filter_left, of fst _ ?all] unfolding all .
  assume q: "0 < q" "q + 1 < 2 ^ 64"
  have "filter (\<lambda>(_, s). sreq_Budget s > 0) ?all = ?all"
    using of_nat_pos64 [of q] of_nat_pos64 [of "q + 1"] q by (intro filter_True) auto
  then show "map fst (shares sreq q r peers) = peers" unfolding shares_def using all by simp
qed

section \<open>A request spreads through the network\<close>

text \<open>
  The nodes, by address, each with the requests its routine remembers, and the requests in
  flight, each with its destination and its sender.  A step is a node handling a request that
  has arrived, at any time and in any order, or the loss of one.
\<close>

type_synonym flood = "(address \<Rightarrow> SearchRequestTimedID list \<times> Gossiper) \<times> (address \<times> address \<times> SearchRequest) list"

definition request_pap :: "SearchRequest \<Rightarrow> address \<Rightarrow> PacketAddressPair" where
  "request_pap r sender = \<lparr>pap_Packet = emptyPacket\<lparr>gp_SearchRequest := Some r\<rparr>, pap_SenderAddress = sender\<rparr>"

definition in_flight :: "address \<Rightarrow> (address \<times> SearchRequest) list \<Rightarrow> (address \<times> address \<times> SearchRequest) list" where
  "in_flight sender rs = map (\<lambda>(a, r). (a, sender, r)) rs"

inductive flood_step :: "flood \<Rightarrow> flood \<Rightarrow> bool" where
  handle: "nodes a = (tids, g) \<Longrightarrow>
      searchRequestListen now tids (request_pap r sender) g = Inr (tids', g', acts) \<Longrightarrow>
      flood_step (nodes, xs @ (a, sender, r) # ys) (nodes(a := (tids', g')), xs @ ys @ in_flight a (requests acts))"
| lose: "flood_step (nodes, xs @ m # ys) (nodes, xs @ ys)"

definition flood_budget :: "flood \<Rightarrow> nat" where
  "flood_budget s = (\<Sum>(_, _, r) \<leftarrow> snd s. unat (sreq_Budget r))"

definition flood_ok :: "flood \<Rightarrow> bool" where
  "flood_ok s \<longleftrightarrow> list_all (\<lambda>(_, _, r). 0 < unat (sreq_Budget r) \<and> unat (sreq_Budget r) < 2 ^ 63) (snd s)"

lemma flood_budget_simps [simp]:
  "flood_budget (nodes, xs @ ys) = flood_budget (nodes, xs) + flood_budget (nodes, ys)"
  "flood_budget (nodes, (a, b, r) # ys) = unat (sreq_Budget r) + flood_budget (nodes, ys)"
  "flood_budget (nodes(x := y), xs) = flood_budget (nodes, xs)"
  "flood_budget (nodes, in_flight a rs) = total_budget rs"
  by (induction rs) (auto simp: flood_budget_def total_budget_def in_flight_def)

lemma emptyPacket_no_request [simp]: "gp_SearchRequest emptyPacket = None"
  by (simp add: emptyPacket_def)

lemma subtype_search_reply: "subtype_of (emptyPacket\<lparr>gp_SearchReply := Some srep\<rparr>) = SearchReplyS srep"
  by (simp add: subtype_of_def emptyPacket_def)

lemma subtype_search_request: "subtype_of (emptyPacket\<lparr>gp_SearchRequest := Some r\<rparr>) = SearchRequestS r"
  by (simp add: subtype_of_def emptyPacket_def)

lemma requests_reply:
  "forward (emptyPacket\<lparr>gp_SearchReply := Some srep\<rparr>) g = Inr (p, acts) \<Longrightarrow> requests acts = []"
  by (auto simp: forward_def DecrementHopCount_def subtype_search_reply SearchReply_DecrementHopCount_def
      Let_def obind_Inr_iff split: if_splits option.splits)

lemma total_budget_ge: "(a, r) \<in> set rs \<Longrightarrow> unat (sreq_Budget r) \<le> total_budget rs"
  by (induction rs) auto

lemma forwarded_budget:
  assumes "unat (sreq_Budget r) < 2 ^ 63"
  shows "total_budget (requests (forwardSearchRequest r sender g)) =
      (if neighbours r sender g = [] then 0 else unat (sreq_Budget r))"
proof (cases "neighbours r sender g = []")
  case False
  let ?n = "length (neighbours r sender g)" and ?b = "unat (sreq_Budget r)"
  have "?b div ?n + 1 \<le> 2 ^ 63" using assms div_le_dividend [of ?b ?n] by linarith
  then have "?b div ?n + 1 < 2 ^ 64" by (rule le_less_trans) simp
  moreover have "?b mod ?n \<le> ?n" using False by (simp add: less_imp_le)
  ultimately have "total_budget (requests (forwardSearchRequest r sender g)) = ?b div ?n * ?n + ?b mod ?n"
    unfolding requests_forwardSearchRequest [OF assms] by (rule total_shares)
  then show ?thesis using False by simp
qed (simp add: requests_forwardSearchRequest [OF assms] shares_def)

lemma forwarded_ok:
  assumes "unat (sreq_Budget r) < 2 ^ 63"
  shows "flood_ok (nodes, in_flight a (requests (forwardSearchRequest r sender g)))"
proof -
  let ?rs = "requests (forwardSearchRequest r sender g)"
  have "0 < unat (sreq_Budget s) \<and> unat (sreq_Budget s) < 2 ^ 63" if "(p, s) \<in> set ?rs" for p s
  proof -
    have "0 < sreq_Budget s" using that shares_budget unfolding requests_forwardSearchRequest [OF assms] by blast
    then have "0 < unat (sreq_Budget s)" by (simp add: unat_gt_0 word_neq_0_conv)
    moreover have "unat (sreq_Budget s) \<le> unat (sreq_Budget r)"
      using total_budget_ge [OF that] forwarded_budget [OF assms, of sender g] by (simp split: if_splits)
    ultimately show ?thesis using assms by linarith
  qed
  then show ?thesis by (auto simp: flood_ok_def in_flight_def list_all_iff)
qed

lemma handled_requests:
  assumes "searchRequestListen now tids (request_pap r sender) g = Inr (tids', g', acts)"
  shows "requests acts = [] \<or>
    (\<exists>h. requests acts = requests (forwardSearchRequest (r\<lparr>sreq_Budget := sreq_Budget r - 1\<rparr>) sender h))"
  using assms
  by (auto simp: searchRequestListen_def request_pap_def subtype_search_request GetSenderAddress_def Let_def
      GetOrigin_def GetKeywords_def obind_Inr_iff requests_reply split: if_splits prod.splits option.splits)

lemma unat_minus_1_64: "0 < unat w \<Longrightarrow> unat (w - 1 :: uint64) = unat w - 1"
  by (metis unat_gt_0 unat_minus_one)

lemma flood_step_budget:
  assumes "flood_step s s'" "flood_ok s"
  shows "flood_ok s' \<and> Suc (flood_budget s') \<le> flood_budget s"
  using assms(1)
proof cases
  case (handle nodes a tids g now r sender tids' g' acts xs ys)
  let ?r = "r\<lparr>sreq_Budget := sreq_Budget r - 1\<rparr>"
  have r: "0 < unat (sreq_Budget r)" "unat (sreq_Budget r) < 2 ^ 63"
    using assms(2) handle(1) by (auto simp: flood_ok_def)
  then have small: "unat (sreq_Budget ?r) < 2 ^ 63" by (simp add: unat_minus_1_64)
  have "flood_ok (nodes(a := (tids', g')), in_flight a (requests acts)) \<and> total_budget (requests acts) \<le> unat (sreq_Budget r) - 1"
    using handled_requests [OF handle(4)]
  proof
    assume "\<exists>h. requests acts = requests (forwardSearchRequest ?r sender h)"
    then obtain h where h: "requests acts = requests (forwardSearchRequest ?r sender h)" by blast
    show ?thesis unfolding h using forwarded_ok [OF small] forwarded_budget [OF small, of sender h] r(1)
      by (simp add: unat_minus_1_64)
  qed (simp add: flood_ok_def in_flight_def)
  then show ?thesis using assms(2) handle(1,2) r(1) by (auto simp: flood_ok_def)
next
  case (lose nodes xs m ys)
  then show ?thesis using assms(2) by (cases m) (auto simp: flood_ok_def)
qed

lemma flood_steps_budget:
  "(flood_step ^^ n) s s' \<Longrightarrow> flood_ok s \<Longrightarrow> flood_ok s' \<and> n + flood_budget s' \<le> flood_budget s"
proof (induction n arbitrary: s')
  case (Suc n)
  then obtain t where "(flood_step ^^ n) s t" "flood_step t s'" by auto
  then show ?case using Suc flood_step_budget [of t s'] by fastforce
qed simp

section \<open>Duplicates\<close>

lemma repeats_iff: "repeats origin keywords t \<longleftrightarrow> srt_Origin t = origin \<and> set (srt_Keywords t) = set keywords"
  by (auto simp: repeats_def stringArrayDifference_eq filter_empty_conv)

lemma searchRequestListen_request:
  "searchRequestListen now tids (request_pap r sender) g =
    (let fresh = filter (\<lambda>t. \<not> expired_id now t) tids; g = fst (addToPeers sender g) in
     if list_ex (\<lambda>t. srt_Origin t = sreq_Origin r \<and> set (srt_Keywords t) = set (sreq_Keywords r)) fresh
     then Inr (fresh, g, [])
     else let (g, answer) = answerSearchRequest (sreq_Origin r) (sreq_Keywords r) g in
       obind (case answer of
                Some srep \<Rightarrow> obind (forward (emptyPacket\<lparr>gp_SearchReply := Some srep\<rparr>) g) (\<lambda>(_, acts). Inr acts)
              | None \<Rightarrow> Inr []) (\<lambda>replies.
       Inr (\<lparr>srt_Time = now, srt_Origin = sreq_Origin r, srt_Keywords = sreq_Keywords r\<rparr> # fresh, g,
         replies @ forwardSearchRequest (r\<lparr>sreq_Budget := sreq_Budget r - 1\<rparr>) sender g)))"
  by (simp add: searchRequestListen_def request_pap_def subtype_search_request GetSenderAddress_def
      GetOrigin_def GetKeywords_def Let_def repeats_iff cong: list_ex_cong split: prod.splits)

lemma remembered:
  assumes "searchRequestListen now tids (request_pap r sender) g = Inr (tids', g', acts)"
  shows "\<exists>t \<in> set tids'. srt_Origin t = sreq_Origin r \<and> set (srt_Keywords t) = set (sreq_Keywords r)
    \<and> (srt_Time t = now \<or> t \<in> set tids \<and> \<not> expired_id now t)"
  using assms unfolding searchRequestListen_request
  by (auto simp: Let_def obind_Inr_iff list_ex_iff split: if_splits prod.splits)

lemma accepted_time:
  assumes "searchRequestListen now tids (request_pap r sender) g = Inr (tids', g', acts)" "acts \<noteq> []"
  shows "\<exists>t \<in> set tids'. srt_Origin t = sreq_Origin r \<and> set (srt_Keywords t) = set (sreq_Keywords r) \<and> srt_Time t = now"
  using assms unfolding searchRequestListen_request
  by (auto simp: Let_def obind_Inr_iff list_ex_iff split: if_splits prod.splits)

lemma ignored_request:
  assumes "t \<in> set tids" "srt_Origin t = sreq_Origin r" "set (srt_Keywords t) = set (sreq_Keywords r)"
    "now - srt_Time t \<le> 500000000"
  shows "searchRequestListen now tids (request_pap r sender) g =
    Inr (filter (\<lambda>t. \<not> expired_id now t) tids, fst (addToPeers sender g), [])"
proof -
  have "t \<in> set (filter (\<lambda>t. \<not> expired_id now t) tids)" using assms(1,4) by (simp add: expired_id_def)
  then show ?thesis unfolding searchRequestListen_request Let_def using assms(2,3) by (auto simp: list_ex_iff)
qed

section \<open>The budgets of a client's search\<close>

fun t1_ticks :: "nat \<Rightarrow> search_run \<Rightarrow> Gossiper \<Rightarrow> search_run" where
  "t1_ticks 0 run g = run"
| "t1_ticks (Suc n) run g = fst (searchFilesMatching_t1 (t1_ticks n run g) g)"

lemma t1_ticks_budget:
  assumes "sr_initialBudget run = 0" "sr_budget run = 2"
  shows "sr_initialBudget (t1_ticks n run g) = 0 \<and> sr_budget (t1_ticks n run g) = 2 ^ min 5 (n + 1)"
proof (induction n)
  case (Suc n)
  let ?run = "t1_ticks n run g"
  show ?case
  proof (cases "n < 4")
    case True
    then have "n = 0 \<or> n = 1 \<or> n = 2 \<or> n = 3" by linarith
    then show ?thesis using Suc by (auto simp: searchFilesMatching_t1_def Let_def)
  next
    case False
    then have "min 5 (n + 1) = 5" "min 5 (Suc n + 1) = 5" by simp_all
    then show ?thesis using Suc by (simp add: searchFilesMatching_t1_def)
  qed
qed (use assms in simp)

section \<open>Replies\<close>

lemma GetMapping_AddMapping [simp]:
  "GetMapping h (fst (AddMapping h' name m)) = None \<longleftrightarrow> h \<noteq> h' \<and> GetMapping h m = None"
  by (auto simp: GetMapping_def AddMapping_def Let_def gm_loadOrStore_def split: option.splits prod.splits)

lemma ConvertToHash32_eq: "ConvertToHash32 h = (if length h = 32 then (h, True) else (replicate 32 0, False))"
  by (simp add: ConvertToHash32_def)

lemma search_result_ok:
  "ok (search_result origin sres g) \<longleftrightarrow>
    length (sres_MetafileHash sres) = 32 \<or> GetMapping (replicate 32 0) (g_filenamesMap g) \<noteq> None"
  by (auto simp: search_result_def ConvertToHash32_eq Let_def split: prod.splits option.splits)

lemma search_results_ok:
  assumes "GetMapping (replicate 32 0) (g_filenamesMap g) = None"
    "\<forall>sres \<in> set sress. sres_MetafileHash sres \<noteq> replicate 32 0"
  shows "ok (search_results origin sress g) \<longleftrightarrow> list_all (\<lambda>sres. length (sres_MetafileHash sres) = 32) sress"
  using assms
proof (induction sress arbitrary: g)
  case (Cons sres sress)
  show ?case
  proof (cases "search_result origin sres g")
    case (Inl e)
    then show ?thesis using search_result_ok [of origin sres g] Cons.prems(1) by simp
  next
    case (Inr x)
    obtain g' acts where x: "x = (g', acts)" by fastforce
    have len: "length (sres_MetafileHash sres) = 32"
      using search_result_ok [of origin sres g] Cons.prems(1) Inr by simp
    have "GetMapping (replicate 32 0) (g_filenamesMap g') = None"
      using Inr x len Cons.prems
      by (auto simp: search_result_def ConvertToHash32_eq Let_def split: prod.splits option.splits if_splits)
    then have "ok (search_results origin sress g') \<longleftrightarrow> list_all (\<lambda>sres. length (sres_MetafileHash sres) = 32) sress"
      using Cons by simp
    moreover have "ok (search_results origin (sres # sress) g) = ok (search_results origin sress g')"
      using Inr x by (cases "search_results origin sress g'") auto
    ultimately show ?thesis using len by simp
  qed
qed simp

definition reply_pap :: "SearchReply \<Rightarrow> address \<Rightarrow> PacketAddressPair" where
  "reply_pap srep sender = \<lparr>pap_Packet = emptyPacket\<lparr>gp_SearchReply := Some srep\<rparr>, pap_SenderAddress = sender\<rparr>"

lemma searchReplyListen_own:
  "srep_Destination srep = g_name g \<Longrightarrow>
     searchReplyListen (reply_pap srep sender) g =
       search_results (srep_Origin srep) (srep_Results srep) (fst (addToPeers sender g))"
  by (simp add: searchReplyListen_def reply_pap_def GetDestination_def GetHopLimit_def GetSearchResults_def
      GetOrigin_def subtype_search_reply GetSenderAddress_def addToPeers_def Let_def split_beta)

section \<open>Properties\<close>

text \<open>C34: forwarding a search request spends exactly its budget: the shares sent to the neighbours
  (the peers other than the one the request came from) add up to the budget, no two differ by more
  than one, empty shares are not sent, and with a budget of at least the number of neighbours all
  of them get one.\<close>

theorem search_budget_split:
  assumes "unat (sreq_Budget r) < 2 ^ 63" "neighbours r sender g \<noteq> []"
  defines "sent \<equiv> requests (forwardSearchRequest r sender g)"
    and "q \<equiv> unat (sreq_Budget r) div length (neighbours r sender g)"
  shows "total_budget sent = unat (sreq_Budget r)
    \<and> list_all (\<lambda>(p, s). sreq_Budget s > 0 \<and> sreq_Budget s \<in> {of_nat q, of_nat (q + 1)}) sent
    \<and> subseq (map fst sent) (neighbours r sender g)
    \<and> (q = 0 \<or> map fst sent = neighbours r sender g)"
proof -
  have "q + 1 \<le> 2 ^ 63" using assms(1) div_le_dividend [of "unat (sreq_Budget r)" "length (neighbours r sender g)"]
    unfolding q_def by linarith
  then have q: "q + 1 < 2 ^ 64" by (rule le_less_trans) simp
  have s: "sent = shares r q (unat (sreq_Budget r) mod length (neighbours r sender g)) (neighbours r sender g)"
    unfolding sent_def q_def by (rule requests_forwardSearchRequest [OF assms(1)])
  have "total_budget sent = unat (sreq_Budget r)"
    using forwarded_budget [OF assms(1), of sender g] assms(2) unfolding sent_def by simp
  moreover have "list_all (\<lambda>(p, s). sreq_Budget s > 0 \<and> sreq_Budget s \<in> {of_nat q, of_nat (q + 1)}) sent"
    unfolding s by (auto simp only: list_all_iff dest: shares_budget)
  moreover have "subseq (map fst sent) (neighbours r sender g)" unfolding s by (rule shares_targets)
  moreover have "q = 0 \<or> map fst sent = neighbours r sender g"
    unfolding s using shares_targets(2) [OF _ q] by (cases "q = 0") simp_all
  ultimately show ?thesis by blast
qed

definition example_request :: "uint64 \<Rightarrow> SearchRequest" where
  "example_request b = \<lparr>sreq_Origin = ''C'', sreq_Budget = b, sreq_Keywords = [''f'']\<rparr>"

definition example_hub :: Gossiper where
  "example_hub = NewGossiper ''x'' ''A'' [''p'', ''q'', ''s''] False 0 '''' (replicate 64 0)"

theorem search_budget_split_witness:
  "total_budget (requests (forwardSearchRequest (example_request 5) ''s'' example_hub)) = 5
   \<and> map fst (requests (forwardSearchRequest (example_request 5) ''s'' example_hub)) = [''p'', ''q'']"
proof -
  have n: "neighbours (example_request 5) ''s'' example_hub = [''p'', ''q'']" by code_simp
  have b: "sreq_Budget (example_request 5) = 5" by (simp add: example_request_def)
  show ?thesis using search_budget_split [of "example_request 5" "''s''" example_hub] by (simp add: n b flip: numeral_2_eq_2)
qed

text \<open>
  A search spreads: requests are handled or lost, the number counts them, and the ticker of the
  client's search sends requests again, with a larger budget, while the search is running.
\<close>

inductive search_spread :: "address \<Rightarrow> search_run \<times> flood \<Rightarrow> nat \<Rightarrow> search_run \<times> flood \<Rightarrow> bool" for origin init where
  start: "search_spread origin init 0 init"
| spread: "search_spread origin init n (run, f) \<Longrightarrow> flood_step f f' \<Longrightarrow> search_spread origin init (Suc n) (run, f')"
| tick: "search_spread origin init n (run, (nodes, msgs)) \<Longrightarrow> sr_t1 run \<Longrightarrow> sr_result run = None \<Longrightarrow>
      searchFilesMatching_t1 run (snd (nodes origin)) = (run', acts) \<Longrightarrow>
      search_spread origin init n (run', (nodes, msgs @ in_flight origin (requests acts)))"

text \<open>The budgets that the ticker may still issue.\<close>

definition issued_later :: "search_run \<Rightarrow> nat" where
  "issued_later run = (if sr_initialBudget run = 0 then 64 - 2 * unat (sr_budget run) else 0)"

definition search_inv :: "nat \<Rightarrow> nat \<Rightarrow> search_run \<times> flood \<Rightarrow> bool" where
  "search_inv bound n s \<longleftrightarrow> flood_ok (snd s) \<and> n + flood_budget (snd s) + issued_later (fst s) \<le> bound
     \<and> (sr_initialBudget (fst s) = 0 \<longrightarrow> sr_budget (fst s) \<in> {2, 4, 8, 16, 32})"

lemma issued_budget:
  assumes "unat (sreq_Budget r) < 2 ^ 63"
  shows "flood_ok (nodes, in_flight a (requests (forwardSearchRequest r sender g)))"
    "total_budget (requests (forwardSearchRequest r sender g)) \<le> unat (sreq_Budget r)"
  using forwarded_ok [OF assms] forwarded_budget [OF assms, of sender g] by simp_all

lemma flood_ok_append: "flood_ok (nodes, xs @ ys) \<longleftrightarrow> flood_ok (nodes, xs) \<and> flood_ok (nodes, ys)"
  by (simp add: flood_ok_def)

lemma t1_inv:
  assumes "search_inv bound n (run, (nodes, msgs))" "searchFilesMatching_t1 run g = (run', acts)"
  shows "search_inv bound n (run', (nodes, msgs @ in_flight origin (requests acts)))"
proof (cases "sr_initialBudget run = 0 \<and> sr_budget run < 32")
  case True
  let ?b = "sr_budget run * 2"
  have r: "run' = run\<lparr>sr_budget := ?b\<rparr>" "acts = forwardSearchRequest (makeSearchRequest ?b (sr_keywords run) g) '''' g"
    using assms(2) True by (simp_all add: searchFilesMatching_t1_def Let_def not_le [symmetric])
  have b: "sr_budget run \<in> {2, 4, 8, 16}" using assms(1) True by (auto simp: search_inv_def)
  then have u: "unat ?b = 2 * unat (sr_budget run)" "unat ?b \<le> 32" "?b \<in> {2, 4, 8, 16, 32}" by auto
  have "unat (sreq_Budget (makeSearchRequest ?b (sr_keywords run) g)) = unat ?b" by (simp add: makeSearchRequest_def)
  then have i: "flood_ok (nodes, in_flight origin (requests acts))" "total_budget (requests acts) \<le> unat ?b"
    using issued_budget [of "makeSearchRequest ?b (sr_keywords run) g"] u(2) r(2) by simp_all
  have "issued_later run' + unat ?b = issued_later run"
    using True u(1,2) by (simp add: issued_later_def r(1))
  then show ?thesis using assms(1) i u(3) True
    by (auto simp: search_inv_def r(1) flood_ok_append)
next
  case False
  then have "requests acts = []" "sr_initialBudget run' = sr_initialBudget run" "sr_budget run' = sr_budget run"
    using assms(2) by (auto simp: searchFilesMatching_t1_def Let_def split: if_splits)
  then have "issued_later run' = issued_later run" "in_flight origin (requests acts) = []"
    by (simp_all add: issued_later_def in_flight_def)
  then show ?thesis using assms(1) \<open>sr_initialBudget run' = _\<close> \<open>sr_budget run' = _\<close> by (simp add: search_inv_def)
qed

lemma search_spread_inv:
  assumes "search_spread origin init n s" "search_inv bound 0 init"
  shows "search_inv bound n s"
  using assms
proof (induction rule: search_spread.induct)
  case (spread n run f f')
  then show ?case using flood_step_budget [OF spread(2)] by (auto simp: search_inv_def)
next
  case (tick n run nodes msgs run' acts)
  then show ?case using t1_inv by blast
qed

text \<open>C7: a search cannot flood the network.  Whatever the nodes know, whenever they handle the requests and however
  often the ticker of the search fires, at most as many requests are ever handled or lost as the budget the
  client gave the search (below 2 to the power 63); and at most 62 (2 + 4 + 8 + 16 + 32) if the client gave none.\<close>

theorem search_flood_bounded:
  assumes "unat budget < 2 ^ 63" "searchFilesMatching_start keywords budget g = (run, g', acts)"
    and "search_spread origin (run, (nodes, in_flight origin (requests acts))) n s"
  shows "n \<le> (if budget = 0 then 62 else unat budget)"
proof -
  let ?b = "if budget = 0 then 2 else budget"
  have run: "sr_initialBudget run = budget" "sr_budget run = ?b"
    using assms(2) by (auto simp: searchFilesMatching_start_def Let_def split: if_splits prod.splits)
  have acts: "acts = [] \<or> (\<exists>h. acts = forwardSearchRequest (makeSearchRequest ?b keywords h) '''' h)"
    using assms(2) by (auto simp: searchFilesMatching_start_def Let_def split: if_splits prod.splits)
  have b: "unat (sreq_Budget (makeSearchRequest ?b keywords h)) = unat ?b" "unat ?b < 2 ^ 63" for h
    using assms(1) by (simp_all add: makeSearchRequest_def)
  have i: "flood_ok (nodes, in_flight origin (requests acts)) \<and> total_budget (requests acts) \<le> unat ?b"
  proof (cases "acts = []")
    case False
    then obtain h where h: "acts = forwardSearchRequest (makeSearchRequest ?b keywords h) '''' h" using acts by blast
    have "unat (sreq_Budget (makeSearchRequest ?b keywords h)) < 2 ^ 63" unfolding b(1) by (rule b(2))
    from issued_budget [OF this] show ?thesis unfolding h b(1) by blast
  qed (simp add: flood_ok_def in_flight_def)
  have "search_inv (if budget = 0 then 62 else unat budget) 0 (run, (nodes, in_flight origin (requests acts)))"
    using i by (auto simp: search_inv_def run issued_later_def split: if_splits)
  from search_spread_inv [OF assms(3) this] show ?thesis by (simp add: search_inv_def)
qed

definition example_share :: "address \<Rightarrow> address \<times> address \<times> SearchRequest" where
  "example_share a = (a, ''x'', \<lparr>sreq_Origin = ''A'', sreq_Budget = 1, sreq_Keywords = [''f'']\<rparr>)"

theorem search_flood_bounded_witness:
  "\<exists>run g acts s. searchFilesMatching_start [''f''] 2 example_hub = (run, g, acts)
    \<and> search_spread ''x'' (run, (\<lambda>_. ([], example_hub), in_flight ''x'' (requests acts))) 1 s \<and> (1::nat) \<le> 2"
proof -
  obtain run g acts where st: "searchFilesMatching_start [''f''] 2 example_hub = (run, g, acts)" using prod_cases3 by blast
  have "case searchFilesMatching_start [''f''] 2 example_hub of (_, _, acts) \<Rightarrow> in_flight ''x'' (requests acts) = [example_share ''p'', example_share ''q'']"
    by code_simp
  then have fl: "in_flight ''x'' (requests acts) = [] @ example_share ''p'' # [example_share ''q'']" by (simp add: st)
  have "\<exists>f. flood_step (\<lambda>_. ([], example_hub), in_flight ''x'' (requests acts)) f" unfolding fl by (blast intro: flood_step.lose)
  then obtain f where "flood_step (\<lambda>_. ([], example_hub), in_flight ''x'' (requests acts)) f" by blast
  from search_spread.spread [OF search_spread.start this] have s: "search_spread ''x'' (run, (\<lambda>_. ([], example_hub), in_flight ''x'' (requests acts))) 1 (run, f)"
    by simp
  have "(1::nat) \<le> (if (2 :: uint64) = 0 then 62 else unat (2 :: uint64))" by (rule search_flood_bounded [OF _ st s]) simp
  then have "(1::nat) \<le> 2" by simp
  then show ?thesis using st s by blast
qed

text \<open>After a node has answered or forwarded a search request, a request of the same origin
  for the same set of keywords that arrives within half a second is dropped: nothing is sent and
  nothing but the list of peers changes.\<close>

theorem search_repeat_ignored:
  assumes "searchRequestListen now tids (request_pap r sender) g = Inr (tids', g', acts)" "acts \<noteq> []"
    and "sreq_Origin r' = sreq_Origin r" "set (sreq_Keywords r') = set (sreq_Keywords r)" "later - now \<le> 500000000"
  shows "searchRequestListen later tids' (request_pap r' sender') h =
    Inr (filter (\<lambda>t. \<not> expired_id later t) tids', fst (addToPeers sender' h), [])"
proof -
  obtain t where "t \<in> set tids'" "srt_Origin t = sreq_Origin r'" "set (srt_Keywords t) = set (sreq_Keywords r')" "srt_Time t = now"
    using accepted_time [OF assms(1,2)] assms(3,4) by metis
  then show ?thesis using assms(5) by (intro ignored_request) auto
qed

theorem search_repeat_ignored_witness:
  "\<exists>tids g acts. searchRequestListen 0 [] (request_pap (example_request 3) ''p'') example_hub = Inr (tids, g, acts)
    \<and> acts \<noteq> [] \<and> searchRequestListen 500000000 tids (request_pap (example_request 9) ''q'') g =
        Inr (filter (\<lambda>t. \<not> expired_id 500000000 t) tids, fst (addToPeers ''q'' g), [])"
proof -
  have "case searchRequestListen 0 [] (request_pap (example_request 3) ''p'') example_hub of
      Inr (tids, g, acts) \<Rightarrow> length acts = 2 | Inl _ \<Rightarrow> False" by code_simp
  then obtain tids g acts where "searchRequestListen 0 [] (request_pap (example_request 3) ''p'') example_hub = Inr (tids, g, acts)"
      "length acts = 2"
    by (auto split: sum.splits)
  moreover from this have "acts \<noteq> []" by auto
  ultimately show ?thesis using search_repeat_ignored [of 0 "[]" "example_request 3" "''p''" example_hub tids g acts "example_request 9" 500000000]
    by (auto simp: example_request_def)
qed

text \<open>A search without a budget starts with 2, doubles the budget on every tick and stops at
  32, however long it runs; a search with a budget of its own is sent once.\<close>

theorem search_budget_doubles:
  "(case searchFilesMatching_start keywords b g of (run, g', acts) \<Rightarrow>
      if b = 0 then sr_budget (t1_ticks n run h) = 2 ^ min 5 (n + 1)
        \<and> (snd (searchFilesMatching_t1 (t1_ticks n run h) h) =
             (if n < 4 then forwardSearchRequest (makeSearchRequest (2 ^ (n + 2)) (sr_keywords (t1_ticks n run h)) h) '''' h else []))
      else t1_ticks n run h = run \<and> sr_budget run = b \<and> snd (searchFilesMatching_t1 run h) = [])"
proof -
  obtain run g' acts where s: "searchFilesMatching_start keywords b g = (run, g', acts)" using prod_cases3 by blast
  have i: "sr_initialBudget run = b" "sr_budget run = (if b = 0 then 2 else b)"
    using s by (auto simp: searchFilesMatching_start_def Let_def split: prod.splits if_splits)
  show ?thesis
  proof (cases "b = 0")
    case True
    let ?run = "t1_ticks n run h"
    have r: "sr_initialBudget ?run = 0" "sr_budget ?run = 2 ^ min 5 (n + 1)"
      using t1_ticks_budget [of run n h] i True by simp_all
    have "snd (searchFilesMatching_t1 ?run h) =
       (if n < 4 then forwardSearchRequest (makeSearchRequest (2 ^ (n + 2)) (sr_keywords ?run) h) '''' h else [])"
    proof (cases "n < 4")
      case True
      then have "n = 0 \<or> n = 1 \<or> n = 2 \<or> n = 3" by linarith
      then show ?thesis using r by (auto simp: searchFilesMatching_t1_def Let_def)
    next
      case False
      then have "min 5 (n + 1) = 5" by simp
      then show ?thesis using r False by (simp add: searchFilesMatching_t1_def)
    qed
    then show ?thesis using s r True by simp
  next
    case False
    have "t1_ticks m run h = run" for m
      using False i by (induction m) (simp_all add: searchFilesMatching_t1_def)
    then show ?thesis using s i False by (simp add: searchFilesMatching_t1_def)
  qed
qed

text \<open>A node handles a search reply addressed to it without a panic exactly when every result
  carries a metahash of 32 bytes, unless the all-zero metahash is in use: a reply with a shorter
  or longer metahash ends the process.\<close>

theorem search_reply_panics:
  assumes "srep_Destination srep = g_name g"
    and "GetMapping (replicate 32 0) (g_filenamesMap g) = None"
    and "\<forall>sres \<in> set (srep_Results srep). sres_MetafileHash sres \<noteq> replicate 32 0"
  shows "ok (searchReplyListen (reply_pap srep sender) g) \<longleftrightarrow>
    list_all (\<lambda>sres. length (sres_MetafileHash sres) = 32) (srep_Results srep)"
  unfolding searchReplyListen_own [OF assms(1)] using assms(2,3)
  by (intro search_results_ok) (simp_all add: addToPeers_def split_beta)

theorem search_reply_panics_witness:
  "\<not> ok (searchReplyListen (reply_pap \<lparr>srep_Origin = ''B'', srep_Destination = ''A'', srep_HopLimit = 3,
      srep_Results = [\<lparr>sres_FileName = ''f'', sres_MetafileHash = [1], sres_ChunkMap = [1], sres_ChunkCount = 1\<rparr>]\<rparr> ''p'') example_hub)"
proof -
  have "g_name example_hub = ''A''" "GetMapping (replicate 32 0) (g_filenamesMap example_hub) = None"
    by (simp_all add: example_hub_def NewGossiper_def GetMapping_def NewSafefileNamesMap_def)
  moreover have "[1] \<noteq> (replicate 32 0 :: bytes)" by (rule notI, drule arg_cong [of _ _ length]) simp
  ultimately show ?thesis by (subst search_reply_panics) simp_all
qed

end
