(* ===== verification/SearchResults.thy ===== *)
theory SearchResults
  imports PageRank
begin

text \<open>
  Search over the indexed pages: the scores of \<open>src/webcrawler/SearchResults.go\<close>, and \<open>lookupWord\<close> and
  \<open>DoSearch\<close> of \<open>src/gossiper/dht.go\<close>.  The stemmer and the lookups in the hash table are arguments;
  \<open>sort.Sort\<close> is the permutation it performs, an argument too, and it compares nothing when there are
  fewer than two elements.
\<close>

section \<open>Scores\<close>

record WebSearchResult =
  wsr_Link :: string
  wsr_TfIdf :: "float64 list"
  wsr_SimScore :: float64

record SearchResults =
  srs_Results :: "WebSearchResult list"
  srs_numberOfDocs :: int

record RankedResult =
  rr_Result :: WebSearchResult
  rr_PageRank :: float64
  rr_Rank :: float64

definition fl_one :: float64 where "fl_one = 0x3FF0000000000000"
definition fl_minus_one :: float64 where "fl_minus_one = 0xBFF0000000000000"

definition CalculateSimScore :: "float_ops \<Rightarrow> WebSearchResult \<Rightarrow> WebSearchResult \<times> float64" where
  "CalculateSimScore f r =
     (let n = fl_of_int f (int (length (wsr_TfIdf r)));
          s = fold (\<lambda>i s. fl_add f s (fl_mul f i i)) (wsr_TfIdf r) fl_zero;
          s = fl_sqrt f (fl_div f s (fl_add f n fl_one))
      in (r\<lparr>wsr_SimScore := s\<rparr>, s))"

definition calculateTfIdfForNewResult :: "float_ops \<Rightarrow> int \<Rightarrow> int \<Rightarrow> int \<Rightarrow> float64" where
  "calculateTfIdfForNewResult f keywordOccurences numberOfResults numberOfDocs =
     (let numberOfDocs = (if numberOfDocs \<le> numberOfResults then numberOfResults + 3 else numberOfDocs);
          idf = fl_log f (fl_div f (fl_of_int f numberOfDocs) (fl_of_int f (1 + numberOfResults)))
      in fl_mul f (fl_log f (fl_of_int f (1 + keywordOccurences))) idf)"

definition NewSearchResults :: "float_ops \<Rightarrow> KeywordToURLMap \<Rightarrow> int \<Rightarrow> SearchResults" where
  "NewSearchResults f urlMap numberOfDocs =
     (let links = link_list (kum_LinkData urlMap); numberOfResults = int (length links)
      in \<lparr>srs_Results = map (\<lambda>(k, occurrences). \<lparr>wsr_Link = k,
            wsr_TfIdf = [calculateTfIdfForNewResult f occurrences numberOfResults numberOfDocs], wsr_SimScore = fl_minus_one\<rparr>) links,
          srs_numberOfDocs = numberOfDocs\<rparr>)"

definition join_result :: "float_ops \<Rightarrow> KeywordToURLMap \<Rightarrow> int \<Rightarrow> WebSearchResult \<Rightarrow> WebSearchResult option" where
  "join_result f urlMap numberOfDocs result =
     (let links = link_list (kum_LinkData urlMap) in
      map_option (\<lambda>otherOccurrences. result\<lparr>wsr_TfIdf := wsr_TfIdf result @
          [calculateTfIdfForNewResult f otherOccurrences (int (length links)) numberOfDocs]\<rparr>)
        (gm_load links (wsr_Link result)))"

definition Join_results :: "float_ops \<Rightarrow> SearchResults \<Rightarrow> KeywordToURLMap \<Rightarrow> SearchResults" where
  "Join_results f this urlMap =
     \<lparr>srs_Results = List.map_filter (join_result f urlMap (srs_numberOfDocs this)) (srs_Results this),
      srs_numberOfDocs = srs_numberOfDocs this\<rparr>"

text \<open>The order of \<open>sort.Sort\<close>; a comparison computes the scores of the results it compares.\<close>

definition results_Less :: "float_ops \<Rightarrow> WebSearchResult \<Rightarrow> WebSearchResult \<Rightarrow> bool" where
  "results_Less f r r' = fl_less f (snd (CalculateSimScore f r')) (snd (CalculateSimScore f r))"

definition ranked_Less :: "float_ops \<Rightarrow> RankedResult \<Rightarrow> RankedResult \<Rightarrow> bool" where
  "ranked_Less f r r' = fl_less f (rr_Rank r') (rr_Rank r)"

definition sort_results :: "float_ops \<Rightarrow> (WebSearchResult list \<Rightarrow> WebSearchResult list) \<Rightarrow> SearchResults \<Rightarrow> SearchResults" where
  "sort_results f order rs =
     (if length (srs_Results rs) < 2 then rs
      else rs\<lparr>srs_Results := order (map (fst \<circ> CalculateSimScore f) (srs_Results rs))\<rparr>)"

section \<open>The search\<close>

record search_env =
  se_Stem :: "string \<Rightarrow> string"
  se_LookupKeyword :: "TypeID \<Rightarrow> bytes option"
  se_LookupRank :: "TypeID \<Rightarrow> bytes option"
  se_Sort :: "WebSearchResult list \<Rightarrow> WebSearchResult list"
  se_SortRanked :: "RankedResult list \<Rightarrow> RankedResult list"

abbreviation keyword_decode :: "('db, 'c) rank_env \<Rightarrow> bytes \<Rightarrow> KeywordToURLMap option" where
  "keyword_decode env \<equiv> kc_Decode (bc_Keywords (de_codec (ce_dht (re_crawl env))))"

definition lookupWord :: "('db, 'c) rank_env \<Rightarrow> search_env \<Rightarrow> string \<Rightarrow> KeywordToURLMap option outcome" where
  "lookupWord env se token =
     (case se_LookupKeyword se (page_key env (se_Stem se token)) of
        None \<Rightarrow> Inr None
      | Some data \<Rightarrow> (case keyword_decode env data of None \<Rightarrow> Inl (Panic ''protobuf'') | Some urlMap \<Rightarrow> Inr (Some urlMap)))"

definition MaxResults :: nat where "MaxResults = 10"

text \<open>0.3, and 1 - 0.3.\<close>

definition pageRankWeight :: float64 where "pageRankWeight = 0x3FD3333333333333"
definition simWeight :: float64 where "simWeight = 0x3FE6666666666666"

text \<open>The first token that is found, with the tokens from it on.\<close>

fun first_found :: "('db, 'c) rank_env \<Rightarrow> search_env \<Rightarrow> string list \<Rightarrow> (KeywordToURLMap \<times> string list) option outcome" where
  "first_found env se [] = Inr None"
| "first_found env se (t # tokens) =
     (if length t < MinWordLen then first_found env se tokens
      else obind (lookupWord env se t) (\<lambda>r.
        case r of None \<Rightarrow> first_found env se tokens | Some m \<Rightarrow> Inr (Some (m, t # tokens))))"

fun join_tokens :: "('db, 'c) rank_env \<Rightarrow> search_env \<Rightarrow> string list \<Rightarrow> SearchResults \<Rightarrow> SearchResults outcome" where
  "join_tokens env se [] results = Inr results"
| "join_tokens env se (t # tokens) results =
     (if length t < MinWordLen then join_tokens env se tokens results
      else obind (lookupWord env se t) (\<lambda>r.
        join_tokens env se tokens (case r of None \<Rightarrow> results | Some m \<Rightarrow> Join_results (re_float env) results m)))"

definition max_float :: "float_ops \<Rightarrow> float64 \<Rightarrow> float64 \<Rightarrow> float64" where
  "max_float f x m = (if fl_less f m x then x else m)"

text \<open>The page ranks of the results, and the maxima of both scores.\<close>

fun collect_ranks :: "('db, 'c) rank_env \<Rightarrow> search_env \<Rightarrow> WebSearchResult list \<Rightarrow> float64 \<Rightarrow> float64
    \<Rightarrow> (RankedResult list \<times> float64 \<times> float64) outcome" where
  "collect_ranks env se [] simScoreMax pageRankMax = Inr ([], simScoreMax, pageRankMax)"
| "collect_ranks env se (result # results) simScoreMax pageRankMax =
     obind (case se_LookupRank se (page_key env (wsr_Link result)) of
              None \<Rightarrow> Inr fl_zero
            | Some data \<Rightarrow> if snd (re_DecodeRank env data) then Inr (ri_Rank (fst (re_DecodeRank env data))) else Inl (Panic ''protobuf''))
       (\<lambda>pageRankVal.
       obind (collect_ranks env se results (max_float (re_float env) (wsr_SimScore result) simScoreMax)
                (max_float (re_float env) pageRankVal pageRankMax))
         (\<lambda>(rs, s, p). Inr (\<lparr>rr_Result = result, rr_PageRank = pageRankVal, rr_Rank = fl_zero\<rparr> # rs, s, p)))"

text \<open>The page rank is multiplied with its normalised value.  Zero is compared on the bits of both zeros.\<close>

definition fl_is_zero :: "float64 \<Rightarrow> bool" where
  "fl_is_zero x = (x = 0 \<or> x = 0x8000000000000000)"

definition rank_result :: "float_ops \<Rightarrow> float64 \<Rightarrow> float64 \<Rightarrow> RankedResult \<Rightarrow> RankedResult" where
  "rank_result f simScoreMax pageRankMax r =
     (let result = rr_Result r;
          result = (if fl_is_zero simScoreMax then result else result\<lparr>wsr_SimScore := fl_div f (wsr_SimScore result) simScoreMax\<rparr>);
          pageRank = (if fl_is_zero pageRankMax then rr_PageRank r else fl_div f (rr_PageRank r) pageRankMax)
      in r\<lparr>rr_Result := result,
           rr_Rank := fl_add f (fl_mul f simWeight (wsr_SimScore result)) (fl_mul f (fl_mul f pageRankWeight (rr_PageRank r)) pageRank)\<rparr>)"

text \<open>The loop over the tokens starts again at the first token that was found.\<close>

definition search_pages :: "('db, 'c) rank_env \<Rightarrow> search_env \<Rightarrow> string list \<Rightarrow> int outcome \<Rightarrow> SearchResults option outcome" where
  "search_pages env se tokens estimate =
     obind (first_found env se tokens) (\<lambda>found.
       case found of
         None \<Rightarrow> Inr None
       | Some (newResults, rest) \<Rightarrow>
           obind estimate (\<lambda>numberOfDocuments.
           let f = re_float env;
               results = sort_results f (se_Sort se) (NewSearchResults f newResults numberOfDocuments)
           in obind (join_tokens env se rest results) (\<lambda>results. Inr (Some (sort_results f (se_Sort se) results)))))"

definition DoSearch :: "('db, 'c) rank_env \<Rightarrow> search_env \<Rightarrow> string \<Rightarrow> ('db, 'c) RankNode \<Rightarrow> RankedResult list outcome" where
  "DoSearch env se query st =
     obind (search_pages env se (strings_Split query (CHR '' '')) (GetDocumentEstimate env st)) (\<lambda>results.
       case results of
         None \<Rightarrow> Inr []
       | Some results \<Rightarrow>
           obind (collect_ranks env se (take MaxResults (srs_Results results)) fl_zero fl_zero) (\<lambda>(ranked, simScoreMax, pageRankMax).
             Inr (se_SortRanked se (map (rank_result (re_float env) simScoreMax pageRankMax) ranked))))"

section \<open>The pages that are found\<close>

abbreviation results_links :: "SearchResults \<Rightarrow> string list" where
  "results_links rs \<equiv> map wsr_Link (srs_Results rs)"

abbreviation pages_of :: "KeywordToURLMap \<Rightarrow> string set" where
  "pages_of m \<equiv> set (map fst (link_list (kum_LinkData m)))"

text \<open>What the lookup of a token found; short tokens are not looked up.\<close>

definition token_pages :: "('db, 'c) rank_env \<Rightarrow> search_env \<Rightarrow> string \<Rightarrow> string set option" where
  "token_pages env se t = (if length t < MinWordLen then None else
     (case lookupWord env se t of Inr (Some m) \<Rightarrow> Some (pages_of m) | _ \<Rightarrow> None))"

lemma sort_results_links:
  assumes "\<And>xs. mset (se_Sort se xs) = mset xs"
  shows "mset (results_links (sort_results f (se_Sort se) rs)) = mset (results_links rs)"
proof -
  have "wsr_Link \<circ> (fst \<circ> CalculateSimScore f) = wsr_Link" by (simp add: fun_eq_iff CalculateSimScore_def Let_def)
  then have "mset (map wsr_Link (se_Sort se (map (fst \<circ> CalculateSimScore f) rs'))) = mset (map wsr_Link rs')" for rs'
    by (metis assms list.map_comp mset_map)
  then show ?thesis by (simp add: sort_results_def)
qed

lemma Join_results_links: "results_links (Join_results f rs m) = filter (\<lambda>l. l \<in> pages_of m) (results_links rs)"
proof -
  have "map wsr_Link (List.map_filter (join_result f m n) rs) = filter (\<lambda>l. l \<in> pages_of m) (map wsr_Link rs)" for rs n
  proof (induction rs)
    case (Cons r rs)
    have k: "(gm_load (link_list (kum_LinkData m)) l = None) = (l \<notin> pages_of m)" for l
      by (simp add: gm_load_def map_of_eq_None_iff)
    show ?case
    proof (cases "gm_load (link_list (kum_LinkData m)) (wsr_Link r)")
      case None
      then have "join_result f m n r = None" "wsr_Link r \<notin> pages_of m" using k by (simp_all add: join_result_def Let_def)
      then show ?thesis using Cons by (simp add: List.map_filter_simps)
    next
      case (Some v)
      then obtain r' where "join_result f m n r = Some r'" "wsr_Link r' = wsr_Link r" "wsr_Link r \<in> pages_of m"
        using k [of "wsr_Link r"] by (simp add: join_result_def Let_def)
      then show ?thesis using Cons by (simp add: List.map_filter_simps)
    qed
  qed (simp add: List.map_filter_simps)
  then show ?thesis by (simp add: Join_results_def)
qed

lemma join_tokens_links:
  assumes "join_tokens env se tokens rs = Inr rs'"
  shows "results_links rs' = filter (\<lambda>l. \<forall>t \<in> set tokens. \<forall>ps. token_pages env se t = Some ps \<longrightarrow> l \<in> ps) (results_links rs)"
  using assms
proof (induction tokens arbitrary: rs)
  case (Cons t tokens)
  show ?case
  proof (cases "length t < MinWordLen")
    case True
    then show ?thesis using Cons by (simp add: token_pages_def)
  next
    case False
    then obtain r where r: "lookupWord env se t = Inr r"
      and j: "join_tokens env se tokens (case r of None \<Rightarrow> rs | Some m \<Rightarrow> Join_results (re_float env) rs m) = Inr rs'"
      using Cons.prems by (auto simp: obind_Inr_iff)
    show ?thesis
    proof (cases r)
      case None
      then show ?thesis using Cons.IH [OF j] False r by (simp add: token_pages_def)
    next
      case (Some m)
      then show ?thesis using Cons.IH [OF j] False r
        by (simp add: token_pages_def Join_results_links del: set_map)
    qed
  qed
qed simp

lemma first_found_result:
  assumes "first_found env se tokens = Inr (Some (m, rest))"
  shows "\<exists>before t rest'. tokens = before @ rest \<and> rest = t # rest' \<and> lookupWord env se t = Inr (Some m) \<and> \<not> length t < MinWordLen
    \<and> (\<forall>t' \<in> set before. token_pages env se t' = None)"
  using assms
proof (induction tokens)
  case (Cons t tokens)
  show ?case
  proof (cases "length t < MinWordLen")
    case True
    then obtain before u rest' where "tokens = before @ rest" "rest = u # rest'" "lookupWord env se u = Inr (Some m)" "\<not> length u < MinWordLen"
      "\<forall>t' \<in> set before. token_pages env se t' = None" using Cons by auto
    then show ?thesis using True by (intro exI [of _ "t # before"]) (simp add: token_pages_def)
  next
    case False
    then obtain r where r: "lookupWord env se t = Inr r" using Cons.prems by (auto simp: obind_Inr_iff)
    show ?thesis
    proof (cases r)
      case None
      then obtain before u rest' where "tokens = before @ rest" "rest = u # rest'" "lookupWord env se u = Inr (Some m)" "\<not> length u < MinWordLen"
        "\<forall>t' \<in> set before. token_pages env se t' = None" using Cons False r by auto
      then show ?thesis using None r by (intro exI [of _ "t # before"]) (simp add: token_pages_def)
    next
      case (Some m')
      then show ?thesis using Cons.prems False r by auto
    qed
  qed
qed simp

lemma first_found_none: "first_found env se tokens = Inr None \<Longrightarrow> t \<in> set tokens \<Longrightarrow> token_pages env se t = None"
  by (induction tokens) (auto simp: token_pages_def obind_Inr_iff split: if_splits option.splits)

lemma search_pages_links:
  assumes "\<And>xs. mset (se_Sort se xs) = mset xs" "search_pages env se tokens estimate = Inr (Some rs)"
  shows "set (results_links rs) = \<Inter> {ps. \<exists>t \<in> set tokens. token_pages env se t = Some ps}"
    and "\<exists>m. \<exists>t \<in> set tokens. \<not> length t < MinWordLen \<and> lookupWord env se t = Inr (Some m) \<and> (distinct (map fst (link_list (kum_LinkData m))) \<longrightarrow> distinct (results_links rs))"
proof -
  let ?f = "re_float env"
  obtain m rest n rs1 where f: "first_found env se tokens = Inr (Some (m, rest))"
    and j: "join_tokens env se rest (sort_results ?f (se_Sort se) (NewSearchResults ?f m n)) = Inr rs1"
    and rs: "rs = sort_results ?f (se_Sort se) rs1"
    using assms(2) by (auto simp: search_pages_def obind_Inr_iff Let_def split: option.splits)
  obtain before t rest' where t: "tokens = before @ rest" "rest = t # rest'" "lookupWord env se t = Inr (Some m)" "\<not> length t < MinWordLen"
    "\<forall>t' \<in> set before. token_pages env se t' = None" using first_found_result [OF f] by blast
  let ?rs0 = "sort_results ?f (se_Sort se) (NewSearchResults ?f m n)"
  have "results_links (NewSearchResults ?f m n) = map fst (link_list (kum_LinkData m))"
    by (simp add: NewSearchResults_def Let_def comp_def case_prod_beta)
  then have r0: "mset (results_links ?rs0) = mset (map fst (link_list (kum_LinkData m)))"
    by (simp only: sort_results_links [OF assms(1)])
  note l = join_tokens_links [OF j]
  have m: "mset (results_links rs) = mset (results_links rs1)" unfolding rs by (rule sort_results_links [OF assms(1)])
  have "set (results_links rs) = {l \<in> pages_of m. \<forall>t \<in> set rest. \<forall>ps. token_pages env se t = Some ps \<longrightarrow> l \<in> ps}"
    using mset_eq_setD [OF m] mset_eq_setD [OF r0] by (auto simp: l)
  moreover have "token_pages env se t = Some (pages_of m)" using t(3,4) by (simp add: token_pages_def)
  moreover have "{ps. \<exists>t \<in> set tokens. token_pages env se t = Some ps} = {ps. \<exists>t \<in> set rest. token_pages env se t = Some ps}"
    unfolding t(1) using t(5) by force
  ultimately show "set (results_links rs) = \<Inter> {ps. \<exists>t \<in> set tokens. token_pages env se t = Some ps}"
    by (simp only: t(2)) (auto simp del: set_map)
  have "distinct (results_links rs)" if "distinct (map fst (link_list (kum_LinkData m)))"
  proof -
    have "distinct (results_links ?rs0)" using that mset_eq_imp_distinct_iff [OF r0] by blast
    then have "distinct (results_links rs1)" unfolding l by (rule distinct_filter)
    then show ?thesis using mset_eq_imp_distinct_iff [OF m] by blast
  qed
  then show "\<exists>m. \<exists>t \<in> set tokens. \<not> length t < MinWordLen \<and> lookupWord env se t = Inr (Some m) \<and> (distinct (map fst (link_list (kum_LinkData m))) \<longrightarrow> distinct (results_links rs))"
    using t(3,4) by (intro exI [of _ m] bexI [of _ t]) (simp_all add: t(1,2))
qed

lemma collect_ranks_results:
  "collect_ranks env se rs s p = Inr (ranked, s', p') \<Longrightarrow> map rr_Result ranked = rs"
  by (induction rs arbitrary: s p ranked s' p') (auto simp: obind_Inr_iff)

lemma rank_result_link [simp]: "wsr_Link (rr_Result (rank_result f s p r)) = wsr_Link (rr_Result r)"
  by (simp add: rank_result_def Let_def)

lemma single_result_search:
  assumes "lookupWord env se t = Inr (Some m)" "link_list (kum_LinkData m) = [(l, occurrences)]" "MinWordLen \<le> length t"
    and "CHR '' '' \<notin> set t" "GetDocumentEstimate env st = Inr n" "se_LookupRank se (page_key env l) = None"
    and "\<And>xs. mset (se_SortRanked se xs) = mset xs"
    and "\<not> fl_less (re_float env) fl_zero fl_minus_one" "\<not> fl_less (re_float env) fl_zero fl_zero"
  shows "\<exists>x rank. DoSearch env se t st
    = Inr [\<lparr>rr_Result = \<lparr>wsr_Link = l, wsr_TfIdf = [x, x], wsr_SimScore = fl_minus_one\<rparr>, rr_PageRank = fl_zero, rr_Rank = rank\<rparr>]"
proof -
  let ?f = "re_float env"
  let ?x = "calculateTfIdfForNewResult ?f occurrences 1 n"
  let ?r = "\<lparr>wsr_Link = l, wsr_TfIdf = [?x, ?x], wsr_SimScore = fl_minus_one\<rparr>"
  have "strings_Split t (CHR '' '') = [t]" using assms(4) by (rule strings_Split_no_sep)
  moreover have "Join_results ?f (NewSearchResults ?f m n) m = \<lparr>srs_Results = [?r], srs_numberOfDocs = n\<rparr>"
    by (simp add: Join_results_def NewSearchResults_def Let_def assms(2) join_result_def gm_load_def List.map_filter_simps)
  moreover have "sort_results ?f (se_Sort se) (NewSearchResults ?f m n) = NewSearchResults ?f m n"
    by (simp add: sort_results_def NewSearchResults_def Let_def assms(2))
  ultimately have s: "search_pages env se (strings_Split t (CHR '' '')) (GetDocumentEstimate env st) = Inr (Some \<lparr>srs_Results = [?r], srs_numberOfDocs = n\<rparr>)"
    using assms(1,3,5) by (simp add: search_pages_def Let_def) (simp add: sort_results_def)
  have c: "collect_ranks env se [?r] fl_zero fl_zero = Inr ([\<lparr>rr_Result = ?r, rr_PageRank = fl_zero, rr_Rank = fl_zero\<rparr>], fl_zero, fl_zero)"
    using assms(6,8,9) by (simp add: max_float_def)
  have one: "se_SortRanked se [y] = [y]" for y using assms(7) [of "[y]"] by simp
  have t: "take MaxResults (srs_Results \<lparr>srs_Results = [?r], srs_numberOfDocs = n\<rparr>) = [?r]" by (simp add: MaxResults_def)
  have z: "fl_is_zero fl_zero" by (simp add: fl_is_zero_def fl_zero_def)
  have "DoSearch env se t st = Inr [rank_result ?f fl_zero fl_zero \<lparr>rr_Result = ?r, rr_PageRank = fl_zero, rr_Rank = fl_zero\<rparr>]"
    by (simp only: DoSearch_def s obind_simps option.case t c prod.case list.map one)
  then show ?thesis by (simp add: rank_result_def z Let_def)
qed

section \<open>Properties\<close>

text \<open>C15: a search that runs through finds the pages that contain all its words: when the lookup of some
  word of the query (of at least the minimal length) is answered, the results are distinct pages, each of
  them listed for every word whose lookup is answered; there are ten of them, or all such pages if
  these are fewer.  When no word is found, the result is empty.\<close>

theorem search_finds_common_pages:
  assumes "\<And>xs. mset (se_Sort se xs) = mset xs" "\<And>xs. mset (se_SortRanked se xs) = mset xs"
    and "\<forall>b m. keyword_decode env b = Some m \<longrightarrow> gm_wf (link_list (kum_LinkData m))"
    and "DoSearch env se query st = Inr ranked"
  defines "common \<equiv> \<Inter> {ps. \<exists>t \<in> set (strings_Split query (CHR '' '')). token_pages env se t = Some ps}"
    and "found \<equiv> \<exists>t \<in> set (strings_Split query (CHR '' '')). token_pages env se t \<noteq> None"
    and "pages \<equiv> map (\<lambda>r. wsr_Link (rr_Result r)) ranked"
  shows "(found \<longrightarrow> distinct pages \<and> set pages \<subseteq> common \<and> length pages = min MaxResults (card common)
      \<and> (card common \<le> MaxResults \<longrightarrow> set pages = common))
    \<and> (\<not> found \<longrightarrow> pages = [])"
proof -
  let ?tokens = "strings_Split query (CHR '' '')"
  obtain results where s: "search_pages env se ?tokens (GetDocumentEstimate env st) = Inr results"
    using assms(4) by (auto simp: DoSearch_def obind_Inr_iff)
  show ?thesis
  proof (cases results)
    case None
    obtain x where x: "first_found env se ?tokens = Inr x" using s by (auto simp: search_pages_def obind_Inr_iff)
    have "x = None" using s None x by (cases x) (auto simp: search_pages_def obind_Inr_iff Let_def)
    then have "\<not> found" using first_found_none x by (auto simp: found_def)
    then show ?thesis using assms(4) None by (simp add: DoSearch_def s pages_def)
  next
    case (Some rs)
    then have sp: "search_pages env se ?tokens (GetDocumentEstimate env st) = Inr (Some rs)" using s by simp
    note l = search_pages_links [OF assms(1) sp]
    obtain raw sm pm where c: "collect_ranks env se (take MaxResults (srs_Results rs)) fl_zero fl_zero = Inr (raw, sm, pm)"
      and r: "ranked = se_SortRanked se (map (rank_result (re_float env) sm pm) raw)"
      using assms(4) by (auto simp: DoSearch_def s Some obind_Inr_iff)
    have raw: "map (wsr_Link \<circ> rr_Result) raw = take MaxResults (results_links rs)"
      using collect_ranks_results [OF c] by (metis list.map_comp take_map)
    have "mset (map (wsr_Link \<circ> rr_Result) ranked) = mset (map (wsr_Link \<circ> rr_Result) (map (rank_result (re_float env) sm pm) raw))"
      unfolding r mset_map assms(2) ..
    then have m: "mset pages = mset (take MaxResults (results_links rs))"
      unfolding raw [symmetric] pages_def by (simp add: comp_def)
    have lc: "set (results_links rs) = common" using l(1) by (simp add: common_def)
    obtain mk t where mk: "t \<in> set ?tokens" "\<not> length t < MinWordLen" "lookupWord env se t = Inr (Some mk)"
      "distinct (map fst (link_list (kum_LinkData mk))) \<longrightarrow> distinct (results_links rs)" using l(2) by blast
    have "gm_wf (link_list (kum_LinkData mk))" using mk(3) assms(3) by (auto simp: lookupWord_def split: option.splits)
    then have d: "distinct (results_links rs)" using mk(4) by (simp add: gm_wf_def)
    then have n: "length (results_links rs) = card common" unfolding lc [symmetric] by (rule distinct_card [symmetric])
    have f: found using mk(1-3) by (auto simp: found_def token_pages_def)
    have dp: "distinct pages" using mset_eq_imp_distinct_iff [OF m] d by simp
    have lp: "length pages = min MaxResults (card common)" using mset_eq_length [OF m] n by simp
    have sp: "set pages \<subseteq> common" using mset_eq_setD [OF m] lc set_take_subset by metis
    have "set pages = common" if "card common \<le> MaxResults"
    proof -
      have "take MaxResults (results_links rs) = results_links rs" using that n by simp
      then show ?thesis using mset_eq_setD [OF m] lc by simp
    qed
    then show ?thesis using f dp lp sp by blast
  qed
qed

text \<open>A page that is the only result has no score: nothing is compared when a single result is sorted,
  so its similarity keeps the initial value -1; and its weight for the word is recorded twice, since
  the word that was found first is joined with itself.\<close>

theorem only_result_has_no_score:
  assumes "lookupWord env se t = Inr (Some m)" "link_list (kum_LinkData m) = [(l, occurrences)]" "MinWordLen \<le> length t"
    and "CHR '' '' \<notin> set t" "GetDocumentEstimate env st = Inr n" "se_LookupRank se (page_key env l) = None"
    and "\<And>xs. mset (se_SortRanked se xs) = mset xs"
    and "\<not> fl_less (re_float env) fl_zero fl_minus_one" "\<not> fl_less (re_float env) fl_zero fl_zero"
  shows "\<exists>x rank. DoSearch env se t st
    = Inr [\<lparr>rr_Result = \<lparr>wsr_Link = l, wsr_TfIdf = [x, x], wsr_SimScore = fl_minus_one\<rparr>, rr_PageRank = fl_zero, rr_Rank = rank\<rparr>]"
  using assms by (rule single_result_search)

section \<open>Examples\<close>

definition one_page :: KeywordToURLMap where
  "one_page = \<lparr>kum_Keyword = ''tree'', kum_LinkData = Some [(''/a'', 3)]\<rparr>"

definition example_search_rank_env :: "(mem_db, (TypeID, cache_entry) gomap) rank_env" where
  "example_search_rank_env = example_rank_env\<lparr>re_float := example_float\<lparr>fl_less := (\<lambda>_ _. False)\<rparr>, re_crawl := example_crawl_env\<lparr>ce_dht := example_dht_env\<lparr>de_codec :=
     example_store_codec\<lparr>bc_Keywords := example_codec\<lparr>kc_Decode := (\<lambda>_. Some one_page)\<rparr>\<rparr>\<rparr>\<rparr>\<rparr>"

definition example_search :: search_env where
  "example_search = \<lparr>se_Stem = id, se_LookupKeyword = (\<lambda>i. if i = string_bytes ''tree'' then Some [] else None), se_LookupRank = (\<lambda>_. None),
     se_Sort = id, se_SortRanked = rev\<rparr>"

definition example_search_node :: "(mem_db, (TypeID, cache_entry) gomap) RankNode" where
  "example_search_node = newRanker ((example_dht 1 False)\<lparr>dn_db := [(PageHashBucket, 0, []), (PageRankBucket, 0, [])]\<rparr>) []"

lemma example_search_simps:
  "keyword_decode example_search_rank_env b = Some one_page" "page_key example_search_rank_env u = string_bytes u"
  "\<not> fl_less (re_float example_search_rank_env) x y"
  "lookupWord example_search_rank_env example_search ''tree'' = Inr (Some one_page)"
  "\<exists>n. GetDocumentEstimate example_search_rank_env example_search_node = Inr n"
proof -
  show k: "keyword_decode example_search_rank_env b = Some one_page" for b
    by (simp add: example_search_rank_env_def)
  show p: "page_key example_search_rank_env u = string_bytes u" for u
    by (simp add: example_search_rank_env_def GenerateKeyHash_def)
  show "\<not> fl_less (re_float example_search_rank_env) x y" by (simp add: example_search_rank_env_def)
  show "lookupWord example_search_rank_env example_search ''tree'' = Inr (Some one_page)"
    unfolding lookupWord_def p k by (simp add: example_search_def)
  show "\<exists>n. GetDocumentEstimate example_search_rank_env example_search_node = Inr n"
    by (simp add: GetDocumentEstimate_def example_search_rank_env_def example_search_node_def newRanker_def mem_bolt_def gm_load_def
        bucket_names Let_def)
qed

abbreviation example_answer :: "float64 \<Rightarrow> float64 \<Rightarrow> RankedResult" where
  "example_answer x rank \<equiv> \<lparr>rr_Result = \<lparr>wsr_Link = ''/a'', wsr_TfIdf = [x, x], wsr_SimScore = fl_minus_one\<rparr>, rr_PageRank = fl_zero, rr_Rank = rank\<rparr>"

theorem only_result_has_no_score_witness:
  "\<exists>x rank. DoSearch example_search_rank_env example_search ''tree'' example_search_node = Inr [example_answer x rank]"
proof -
  obtain n where n: "GetDocumentEstimate example_search_rank_env example_search_node = Inr n" using example_search_simps(5) by blast
  show ?thesis
    by (rule only_result_has_no_score [OF example_search_simps(4) _ _ _ n])
      (simp_all add: one_page_def link_list_def MinWordLen_def example_search_def example_search_simps)
qed

theorem search_finds_common_pages_witness:
  "\<exists>ranked. DoSearch example_search_rank_env example_search ''tree'' example_search_node = Inr ranked
    \<and> (\<lambda>r. wsr_Link (rr_Result r)) ` set ranked = {''/a''}"
proof -
  let ?tokens = "strings_Split ''tree'' (CHR '' '')"
  have t: "?tokens = [''tree'']" by (rule strings_Split_no_sep) simp
  obtain n where n: "GetDocumentEstimate example_search_rank_env example_search_node = Inr n" using example_search_simps(5) by blast
  have "\<exists>x rank. DoSearch example_search_rank_env example_search ''tree'' example_search_node = Inr [example_answer x rank]"
    by (rule single_result_search [OF example_search_simps(4) _ _ _ n])
      (simp_all add: one_page_def link_list_def MinWordLen_def example_search_def example_search_simps)
  then obtain ranked where d: "DoSearch example_search_rank_env example_search ''tree'' example_search_node = Inr ranked" "ranked \<noteq> []" by blast
  have "token_pages example_search_rank_env example_search ''tree'' = Some {''/a''}"
    by (simp add: token_pages_def MinWordLen_def example_search_simps one_page_def link_list_def)
  then have c: "\<Inter> {ps. \<exists>t \<in> set ?tokens. token_pages example_search_rank_env example_search t = Some ps} = {''/a''}"
    and f: "\<exists>t \<in> set ?tokens. token_pages example_search_rank_env example_search t \<noteq> None" by (simp_all add: t)
  have "card {''/a''} \<le> MaxResults" by (simp add: MaxResults_def)
  then have "set (map (\<lambda>r. wsr_Link (rr_Result r)) ranked) = {''/a''}"
    using search_finds_common_pages [OF _ _ _ d(1), unfolded c] f
    by (simp add: example_search_def example_search_simps one_page_def link_list_def gm_wf_def)
  then have "(\<lambda>r. wsr_Link (rr_Result r)) ` set ranked = {''/a''}" by simp
  then show ?thesis using d(1) by blast
qed

end
