(* ===== verification/FrontEnd.thy ===== *)
theory FrontEnd
  imports FileTransfer SearchProtocol SearchResults
begin

text \<open>
  The program around the node: \<open>src/main.go\<close>, the flags and the web server of the front end, and
  \<open>src/client\<close>, the command line client.  Both send client requests over one local UDP port; a request is the
  value that is encoded, and what the node makes of it is \<open>receiveClientUDP\<close>.  A handler of the web server is
  a function of the request and the state of the server; handlers run one after the other.
\<close>

section \<open>Text\<close>

text \<open>\<open>strings.ToLower\<close>; on text that is not ASCII it is an argument.\<close>

definition strings_ToLower :: "(string \<Rightarrow> string) \<Rightarrow> string \<Rightarrow> string" where
  "strings_ToLower unicode s =
     (if \<forall>c \<in> set s. (of_char c :: nat) < 128
      then map (\<lambda>c. let n = of_char c :: nat in if 65 \<le> n \<and> n \<le> 90 then char_of (n + 32) else c) s
      else unicode s)"

fun atoi_digits :: "int \<Rightarrow> string \<Rightarrow> int option" where
  "atoi_digits v [] = Some v"
| "atoi_digits v (c # cs) =
     (let n = of_char c :: nat in if 48 \<le> n \<and> n \<le> 57 then atoi_digits (10 * v + int (n - 48)) cs else None)"

text \<open>\<open>strconv.Atoi\<close>: \<open>None\<close> is its error.\<close>

definition strconv_Atoi :: "string \<Rightarrow> int option" where
  "strconv_Atoi s =
     (let (negative, digits) = (case s of [] \<Rightarrow> (False, []) | c # cs \<Rightarrow>
            if c = CHR ''-'' then (True, cs) else if c = CHR ''+'' then (False, cs) else (False, s))
      in if digits = [] then None
         else case atoi_digits 0 digits of
             None \<Rightarrow> None
           | Some n \<Rightarrow> let v = (if negative then - n else n) in if - (2 ^ 63) \<le> v \<and> v < 2 ^ 63 then Some v else None)"

section \<open>Requests\<close>

definition emptyRequest :: ClientRequest where
  "emptyRequest = \<lparr>cr_Packet = None, cr_FileShare = None, cr_FileDownload = None, cr_FileSearch = None,
     cr_DHTLookup = None, cr_DHTStore = None\<rparr>"

definition text_request :: "string \<Rightarrow> ClientRequest" where
  "text_request text = emptyRequest\<lparr>cr_Packet :=
     Some (emptyPacket\<lparr>gp_Simple := Some \<lparr>sm_OriginalName = '''', sm_RelayPeerAddr = '''', sm_Contents = text\<rparr>\<rparr>)\<rparr>"

definition private_request :: "string \<Rightarrow> string \<Rightarrow> ClientRequest" where
  "private_request dest text = emptyRequest\<lparr>cr_Packet := Some (emptyPacket\<lparr>gp_Private :=
     Some \<lparr>pm_Origin = '''', pm_ID = 0, pm_Text = text, pm_Destination = dest, pm_HopLimit = 0\<rparr>\<rparr>)\<rparr>"

definition search_request :: "string \<Rightarrow> uint64 \<Rightarrow> ClientRequest" where
  "search_request keywords budget =
     emptyRequest\<lparr>cr_FileSearch := Some \<lparr>fts_Budget = budget, fts_Keywords = strings_Split keywords (CHR '','')\<rparr>\<rparr>"

text \<open>\<open>None\<close>: the hash is not the hexadecimal text of 32 bytes.\<close>

definition download_request :: "string \<Rightarrow> string \<Rightarrow> string \<Rightarrow> ClientRequest option" where
  "download_request saveAs from_origin metahash =
     (case hex_DecodeString metahash of
        None \<Rightarrow> None
      | Some hash \<Rightarrow>
          let (hash32, ok) = ConvertToHash32 hash in
          if \<not> ok then None
          else Some (emptyRequest\<lparr>cr_FileDownload := Some \<lparr>ftd_FileName = saveAs, ftd_Origin = from_origin, ftd_Metahash = hash32\<rparr>\<rparr>))"

section \<open>The web server\<close>

record http_request =
  hr_Path :: string
  hr_Method :: string
  hr_Form :: "(string \<times> string) list option"

record jsonPeer =
  jp_Name :: string

record jsonOrigin =
  jo_Name :: string

datatype response = NoBody | StaticFile | HandlerPanic | JsonMessages "FrontEndMessage list" | JsonPeers "jsonPeer list"
  | JsonOrigins "jsonOrigin list" | JsonName string | JsonMatches "MetahashFilenamePair list"

text \<open>\<open>fe_portTaken\<close>: the local port 5500 is still bound by a socket that was not closed.  Then \<open>ListenUDP\<close>
  gives a nil connection: nothing is sent, and writing to it panics, which the HTTP server recovers from.\<close>

record frontend =
  fe_node :: Gossiper
  fe_portTaken :: bool

type_synonym answered = "frontend \<times> response \<times> ClientRequest list"

definition form_value :: "(string \<times> string) list \<Rightarrow> string \<Rightarrow> string" where
  "form_value form key = (case map_of form key of None \<Rightarrow> '''' | Some v \<Rightarrow> v)"

definition with_form :: "http_request \<Rightarrow> frontend \<Rightarrow> ((string \<times> string) list \<Rightarrow> answered) \<Rightarrow> answered" where
  "with_form r fe k = (case hr_Form r of None \<Rightarrow> (fe, HandlerPanic, []) | Some form \<Rightarrow> k form)"

definition web_send :: "ClientRequest \<Rightarrow> frontend \<Rightarrow> answered" where
  "web_send request fe = (if fe_portTaken fe then (fe, HandlerPanic, []) else (fe, NoBody, [request]))"

definition web_sendUDP :: "string \<Rightarrow> frontend \<Rightarrow> answered" where
  "web_sendUDP text fe = web_send (text_request text) fe"

definition sendPrivateUDP :: "string \<Rightarrow> string \<Rightarrow> frontend \<Rightarrow> answered" where
  "sendPrivateUDP dest text fe = web_send (private_request dest text) fe"

definition sendFileShareUDP :: "string \<Rightarrow> frontend \<Rightarrow> answered" where
  "sendFileShareUDP fileName fe = web_send (emptyRequest\<lparr>cr_FileShare := Some fileName\<rparr>) fe"

text \<open>The early returns come after \<open>ListenUDP\<close> and before \<open>Close\<close>.\<close>

definition sendFileDownloadUDP :: "string \<Rightarrow> string \<Rightarrow> string \<Rightarrow> frontend \<Rightarrow> answered" where
  "sendFileDownloadUDP saveAs from_origin metahash fe =
     (case download_request saveAs from_origin metahash of
        None \<Rightarrow> (fe\<lparr>fe_portTaken := True\<rparr>, NoBody, [])
      | Some request \<Rightarrow> web_send request fe)"

definition sendFileSearchUDP :: "string \<Rightarrow> uint64 \<Rightarrow> frontend \<Rightarrow> answered" where
  "sendFileSearchUDP keywords budget fe = web_send (search_request keywords budget) fe"

definition messageHandler :: "http_request \<Rightarrow> frontend \<Rightarrow> answered" where
  "messageHandler r fe =
     (if hr_Method r = ''GET'' then
        let (g, ms) = GetLatestMessagesList (fe_node fe) in (fe\<lparr>fe_node := g\<rparr>, JsonMessages (ConvertToFEMList ms), [])
      else if hr_Method r = ''POST'' then with_form r fe (\<lambda>form. web_sendUDP (form_value form ''message'') fe)
      else (fe, NoBody, []))"

definition nodeHandler :: "http_request \<Rightarrow> frontend \<Rightarrow> answered" where
  "nodeHandler r fe =
     (if hr_Method r = ''GET'' then (fe, JsonPeers (map (\<lambda>v. \<lparr>jp_Name = v\<rparr>) (GetPeersList (fe_node fe))), [])
      else if hr_Method r = ''POST'' then
        with_form r fe (\<lambda>form. (fe\<lparr>fe_node := AddPeer (form_value form ''peer'') (fe_node fe)\<rparr>, NoBody, []))
      else (fe, NoBody, []))"

definition idHandler :: "http_request \<Rightarrow> frontend \<Rightarrow> answered" where
  "idHandler r fe = (fe, JsonName (g_name (fe_node fe)), [])"

definition privateMessageHandler :: "http_request \<Rightarrow> frontend \<Rightarrow> answered" where
  "privateMessageHandler r fe =
     (if hr_Method r = ''POST'' then with_form r fe (\<lambda>form.
        let message = form_value form ''message''; dest = form_value form ''destName''
        in if dest \<noteq> '''' then sendPrivateUDP dest message fe else (fe, NoBody, []))
      else (fe, NoBody, []))"

definition originsHandler :: "http_request \<Rightarrow> frontend \<Rightarrow> answered" where
  "originsHandler r fe =
     (if hr_Method r = ''GET'' then (fe, JsonOrigins (map (\<lambda>v. \<lparr>jo_Name = v\<rparr>) (GetOriginsList (fe_node fe))), [])
      else (fe, NoBody, []))"

definition shareFileHandler :: "http_request \<Rightarrow> frontend \<Rightarrow> answered" where
  "shareFileHandler r fe =
     (if hr_Method r = ''POST'' then with_form r fe (\<lambda>form. sendFileShareUDP (form_value form ''file'') fe)
      else (fe, NoBody, []))"

definition downloadFileHandler :: "http_request \<Rightarrow> frontend \<Rightarrow> answered" where
  "downloadFileHandler r fe =
     (if hr_Method r = ''POST'' then with_form r fe (\<lambda>form.
        let fileName = form_value form ''file''; from_origin = form_value form ''origin''; metahash = form_value form ''metahash''
        in if fileName = '''' then (fe, NoBody, []) else sendFileDownloadUDP fileName from_origin metahash fe)
      else (fe, NoBody, []))"

definition searchFileHandler :: "http_request \<Rightarrow> frontend \<Rightarrow> answered" where
  "searchFileHandler r fe =
     (if hr_Method r = ''POST'' then with_form r fe (\<lambda>form.
        let keywords = form_value form ''keywords''; budgetS = form_value form ''budget''
        in if keywords = '''' then (fe, NoBody, [])
           else case strconv_Atoi budgetS of
               None \<Rightarrow> (fe, NoBody, [])
             | Some budget \<Rightarrow> if budget < 0 then (fe, NoBody, []) else sendFileSearchUDP keywords (of_int budget) fe)
      else (fe, NoBody, []))"

definition matchesFoundHandler :: "http_request \<Rightarrow> frontend \<Rightarrow> answered" where
  "matchesFoundHandler r fe =
     (if hr_Method r = ''GET'' then (fe, JsonMatches (GetMatchesList (fe_node fe)), []) else (fe, NoBody, []))"

definition web_routes :: "(string \<times> (http_request \<Rightarrow> frontend \<Rightarrow> answered)) list" where
  "web_routes =
     [(''/message'', messageHandler), (''/node'', nodeHandler), (''/id'', idHandler),
      (''/privatemessage'', privateMessageHandler), (''/origins'', originsHandler), (''/sharefile'', shareFileHandler),
      (''/dlfile'', downloadFileHandler), (''/searchfile'', searchFileHandler), (''/searchmatches'', matchesFoundHandler)]"

definition web_handle :: "http_request \<Rightarrow> frontend \<Rightarrow> answered" where
  "web_handle r fe = (case map_of web_routes (hr_Path r) of None \<Rightarrow> (fe, StaticFile, []) | Some handler \<Rightarrow> handler r fe)"

text \<open>The page of the search engine.\<close>

definition searchHandler :: "('db, 'c) rank_env \<Rightarrow> search_env \<Rightarrow> ('db, 'c) RankNode \<Rightarrow> (string \<times> string) list \<Rightarrow> RankedResult list outcome" where
  "searchHandler env se st form = DoSearch env se (form_value form ''query'') st"

definition main_gossiper :: "address \<Rightarrow> string \<Rightarrow> string \<Rightarrow> bool \<Rightarrow> int \<Rightarrow> string \<Rightarrow> TypeID \<Rightarrow> Gossiper" where
  "main_gossiper gossipAddr name peersStr simple rtimeout bootstrap nodeId =
     NewGossiper gossipAddr name (if peersStr = '''' then [] else strings_Split peersStr (CHR '','')) simple rtimeout bootstrap nodeId"

section \<open>The command line client\<close>

record Client =
  cl_msg :: string
  cl_dest :: string
  cl_file :: string
  cl_request :: string
  cl_keywords :: string
  cl_budget :: uint64
  cl_lookupKey :: string
  cl_lookupNode :: string
  cl_store :: string

text \<open>\<open>resolved\<close> and \<open>opened\<close>: the last address resolves, the port can be bound.\<close>

definition NewClient :: "bool \<Rightarrow> bool \<Rightarrow> string \<Rightarrow> string \<Rightarrow> string \<Rightarrow> string \<Rightarrow> string \<Rightarrow> uint64 \<Rightarrow> string \<Rightarrow> string \<Rightarrow> string \<Rightarrow> Client outcome" where
  "NewClient resolved opened dest file msg request keywords budget lookupNode lookupKey store =
     (if \<not> resolved then Inl (Fatal ''lookup'') else if \<not> opened then Inl (Fatal ''bind'')
      else Inr \<lparr>cl_msg = msg, cl_dest = dest, cl_file = file, cl_request = request, cl_keywords = keywords, cl_budget = budget,
                cl_lookupKey = lookupKey, cl_lookupNode = lookupNode, cl_store = store\<rparr>)"

text \<open>A file that cannot be read is stored as an empty value.\<close>

definition getByteValueForStore :: "(string \<Rightarrow> go_file) \<Rightarrow> string \<Rightarrow> bytes" where
  "getByteValueForStore disk val =
     (case disk val of GoodFile content \<Rightarrow> content | BadFile content \<Rightarrow> content | NoFile \<Rightarrow> string_bytes val)"

definition store_request :: "(bytes \<Rightarrow> TypeID) \<Rightarrow> (string \<Rightarrow> string) \<Rightarrow> (string \<Rightarrow> go_file) \<Rightarrow> string \<Rightarrow> ClientRequest option outcome" where
  "store_request sha512 unicode disk store =
     (case strings_Split store (CHR '':'') of
        k # val # _ \<Rightarrow>
          (case hex_DecodeString (hex_EncodeToString (GenerateKeyHash sha512 (strings_ToLower unicode k))) of
             None \<Rightarrow> Inr None
           | Some idB \<Rightarrow>
               let (i, ok) = ConvertToTypeID idB in
               if \<not> ok then Inr None
               else Inr (Some (emptyRequest\<lparr>cr_DHTStore :=
                 Some \<lparr>ds_Key = Some i, ds_Type = ''POST'', ds_Value = getByteValueForStore disk val\<rparr>\<rparr>)))
      | _ \<Rightarrow> Inl (Panic ''index out of range''))"

definition node_request :: "string \<Rightarrow> ClientRequest option" where
  "node_request lookupNode =
     (case hex_DecodeString lookupNode of
        None \<Rightarrow> None
      | Some idB \<Rightarrow>
          let (i, ok) = ConvertToTypeID idB in
          if \<not> ok then None else Some (emptyRequest\<lparr>cr_DHTLookup := Some \<lparr>dl_Node = Some i, dl_Key = None\<rparr>\<rparr>))"

text \<open>The request that is sent, if one is.\<close>

definition client_sendUDP :: "(bytes \<Rightarrow> TypeID) \<Rightarrow> (string \<Rightarrow> string) \<Rightarrow> (string \<Rightarrow> go_file) \<Rightarrow> Client \<Rightarrow> ClientRequest option outcome" where
  "client_sendUDP sha512 unicode disk c =
     (if cl_store c \<noteq> '''' then store_request sha512 unicode disk (cl_store c)
      else if cl_lookupNode c \<noteq> '''' then Inr (node_request (cl_lookupNode c))
      else if cl_lookupKey c \<noteq> '''' then
        Inr (Some (emptyRequest\<lparr>cr_DHTLookup := Some \<lparr>dl_Node = None, dl_Key = Some (cl_lookupKey c)\<rparr>\<rparr>))
      else if cl_keywords c \<noteq> '''' then Inr (Some (search_request (cl_keywords c) (cl_budget c)))
      else if cl_request c \<noteq> '''' then Inr (download_request (cl_file c) (cl_dest c) (cl_request c))
      else if cl_file c \<noteq> '''' then Inr (Some (emptyRequest\<lparr>cr_FileShare := Some (cl_file c)\<rparr>))
      else if cl_dest c \<noteq> '''' then Inr (Some (private_request (cl_dest c) (cl_msg c)))
      else Inr (Some (text_request (cl_msg c))))"

definition client_main :: "bool \<Rightarrow> bool \<Rightarrow> (bytes \<Rightarrow> TypeID) \<Rightarrow> (string \<Rightarrow> string) \<Rightarrow> (string \<Rightarrow> go_file) \<Rightarrow> string \<Rightarrow> string \<Rightarrow> string
    \<Rightarrow> string \<Rightarrow> string \<Rightarrow> int \<Rightarrow> string \<Rightarrow> string \<Rightarrow> string \<Rightarrow> ClientRequest option outcome" where
  "client_main resolved opened sha512 unicode disk dest fileName msg request keywords budget node key store =
     obind (NewClient resolved opened dest fileName msg request keywords (of_int budget) node key store)
       (client_sendUDP sha512 unicode disk)"

section \<open>What the front end sends\<close>

datatype web_event = Web http_request | NodeBecomes Gossiper | SocketCollected

text \<open>Requests with what the node does in between; the collector may close the socket that was left open.\<close>

fun web_run :: "web_event list \<Rightarrow> frontend \<Rightarrow> ClientRequest list" where
  "web_run [] fe = []"
| "web_run (Web r # evs) fe = (let (fe', _, qs) = web_handle r fe in qs @ web_run evs fe')"
| "web_run (NodeBecomes g # evs) fe = web_run evs (fe\<lparr>fe_node := g\<rparr>)"
| "web_run (SocketCollected # evs) fe = web_run evs (fe\<lparr>fe_portTaken := False\<rparr>)"

named_theorems handler_defs \<open>the handlers of the web server\<close>

lemmas [handler_defs] = messageHandler_def nodeHandler_def idHandler_def privateMessageHandler_def originsHandler_def
  shareFileHandler_def downloadFileHandler_def searchFileHandler_def matchesFoundHandler_def with_form_def
  web_sendUDP_def sendPrivateUDP_def sendFileShareUDP_def sendFileDownloadUDP_def sendFileSearchUDP_def web_send_def

lemma route_simps [simp]:
  "hr_Path r = ''/message'' \<Longrightarrow> web_handle r fe = messageHandler r fe"
  "hr_Path r = ''/privatemessage'' \<Longrightarrow> web_handle r fe = privateMessageHandler r fe"
  "hr_Path r = ''/sharefile'' \<Longrightarrow> web_handle r fe = shareFileHandler r fe"
  "hr_Path r = ''/dlfile'' \<Longrightarrow> web_handle r fe = downloadFileHandler r fe"
  "hr_Path r = ''/searchfile'' \<Longrightarrow> web_handle r fe = searchFileHandler r fe"
  by (simp_all add: web_handle_def web_routes_def)

lemma handlers_taken:
  "fe_portTaken fe \<Longrightarrow> h \<in> set (map snd web_routes) \<Longrightarrow> h r fe = (fe', resp, qs) \<Longrightarrow> qs = [] \<and> fe_portTaken fe'"
  by (auto simp: web_routes_def handler_defs Let_def split: if_splits option.splits prod.splits)

lemma web_handle_taken:
  assumes "fe_portTaken fe" "web_handle r fe = (fe', resp, qs)"
  shows "qs = [] \<and> fe_portTaken fe'"
proof (cases "map_of web_routes (hr_Path r)")
  case None
  then show ?thesis using assms by (simp add: web_handle_def)
next
  case (Some h)
  then have "h \<in> set (map snd web_routes)" using map_of_SomeD by force
  then show ?thesis using handlers_taken assms Some by (simp add: web_handle_def)
qed

lemma web_run_taken: "fe_portTaken fe \<Longrightarrow> SocketCollected \<notin> set evs \<Longrightarrow> web_run evs fe = []"
proof (induction evs fe rule: web_run.induct)
  case (2 r evs fe)
  obtain fe' resp qs where h: "web_handle r fe = (fe', resp, qs)" by (metis prod_cases3)
  then show ?case using web_handle_taken [OF 2(2) h] 2 by simp
qed auto

lemma download_request_None:
  "(\<nexists>h. hex_DecodeString metahash = Some h \<and> length h = 32) \<Longrightarrow> download_request f from_origin metahash = None"
  by (auto simp: download_request_def ConvertToHash32_def split: option.splits)

section \<open>What reaches the node\<close>

text \<open>While the port is free, a form makes one request; the node takes it apart again.\<close>

lemma message_form:
  assumes "\<not> fe_portTaken fe" "hr_Method r = ''POST''" "hr_Form r = Some form" "hr_Path r = ''/message''" "form_value form ''message'' = text"
  shows "web_handle r fe = (fe, NoBody, [text_request text])"
  using assms by (simp add: handler_defs)

lemma text_request_received:
  "text \<noteq> '''' \<Longrightarrow> receiveClientUDP name (text_request text) = UIRumor (emptyPacket\<lparr>gp_Simple :=
     Some \<lparr>sm_OriginalName = name, sm_RelayPeerAddr = '''', sm_Contents = text\<rparr>\<rparr>)"
  by (simp add: receiveClientUDP_def client_packet_def text_request_def emptyRequest_def subtype_of_def emptyPacket_def)

lemma private_request_received:
  "text \<noteq> '''' \<Longrightarrow> receiveClientUDP name (private_request dest text) = UIPrivate (emptyPacket\<lparr>gp_Private :=
     Some \<lparr>pm_Origin = '''', pm_ID = 0, pm_Text = text, pm_Destination = dest, pm_HopLimit = 0\<rparr>\<rparr>)"
  by (simp add: receiveClientUDP_def client_packet_def private_request_def emptyRequest_def subtype_of_def emptyPacket_def)

lemma request_received:
  "receiveClientUDP name (search_request keywords budget)
     = UIFileSearch \<lparr>fts_Budget = budget, fts_Keywords = strings_Split keywords (CHR '','')\<rparr>"
  "receiveClientUDP name (emptyRequest\<lparr>cr_FileDownload := Some d\<rparr>) = UIFileDownload d"
  "receiveClientUDP name (emptyRequest\<lparr>cr_FileShare := Some f\<rparr>) = UIFileShare f"
  "receiveClientUDP name (emptyRequest\<lparr>cr_DHTStore := Some s\<rparr>) = UIDHT \<lparr>dr_Store = Some s, dr_Lookup = None\<rparr>"
  by (simp_all add: receiveClientUDP_def search_request_def emptyRequest_def ClientRequest_GetUnderlyingType_def)

lemma clientListen_text:
  assumes "\<not> g_UseSimple g"
  shows "\<exists>g'. clientListen (emptyPacket\<lparr>gp_Simple := Some \<lparr>sm_OriginalName = name, sm_RelayPeerAddr = '''', sm_Contents = text\<rparr>\<rparr>) g
    = Inr (g', [GoRumorMonger (emptyPacket\<lparr>gp_Rumor := Some \<lparr>rm_Origin = name,
        rm_ID = snd (GetAndIncrement (g_seqIDCounter g)), rm_Text = text\<rparr>\<rparr>) ''''])"
  using assms by (auto simp: clientListen_def makeGossip_def GetOrigin_def GetContents_def subtype_of_def emptyPacket_def split: prod.splits)

lemma clientPMListen_private:
  assumes "getNextHop dest g = Some hop"
  shows "clientPMListen (emptyPacket\<lparr>gp_Private := Some \<lparr>pm_Origin = '''', pm_ID = 0, pm_Text = text, pm_Destination = dest, pm_HopLimit = 0\<rparr>\<rparr>) g
    = Inr (g, [SendUDP (emptyPacket\<lparr>gp_Private := Some \<lparr>pm_Origin = g_name g, pm_ID = 0, pm_Text = text, pm_Destination = dest,
        pm_HopLimit = defaultHopLimit\<rparr>\<rparr>) hop])"
  using assms by (simp add: clientPMListen_def GetDestination_def subtype_of_def emptyPacket_def defaultHopLimit_def)

section \<open>Properties\<close>

text \<open>C39: a malformed hash silences the front end.  A download form whose hash is not the hexadecimal text of 32
  bytes leaves the socket open, so that until the collector closes it no client request of a later form
  reaches the node: no message, private message, shared file, download or search of files.  (A peer that is
  added at \<open>/node\<close> and a search of pages at \<open>/search\<close> do not go through the socket.)\<close>

theorem bad_hash_silences_front_end:
  assumes "hr_Path r = ''/dlfile''" "hr_Method r = ''POST''" "hr_Form r = Some form" "form_value form ''file'' \<noteq> ''''"
    and "\<nexists>h. hex_DecodeString (form_value form ''metahash'') = Some h \<and> length h = 32"
    and "SocketCollected \<notin> set evs"
  shows "web_run (Web r # evs) fe = []"
proof -
  have "web_handle r fe = (fe\<lparr>fe_portTaken := True\<rparr>, NoBody, [])"
    using assms(1-4) download_request_None [OF assms(5)] by (simp add: handler_defs)
  then show ?thesis using web_run_taken [of "fe\<lparr>fe_portTaken := True\<rparr>", OF _ assms(6)] by simp
qed

text \<open>C24: while the port is free, what is entered in a form reaches the goroutine of the node that does it: a
  message becomes a rumor of this node, a private message goes to the next hop, a file is shared, a
  download starts for the hash that was entered, a search starts with the words and the budget.\<close>

theorem web_forms_reach_node:
  assumes "\<not> fe_portTaken fe" "hr_Method r = ''POST''" "hr_Form r = Some form" "v = form_value form" "g = fe_node fe"
  shows "(hr_Path r = ''/message'' \<and> v ''message'' \<noteq> '''' \<and> \<not> g_UseSimple g \<longrightarrow>
       (\<exists>q p g'. web_handle r fe = (fe, NoBody, [q]) \<and> receiveClientUDP (g_name g) q = UIRumor p
         \<and> clientListen p g = Inr (g', [GoRumorMonger (emptyPacket\<lparr>gp_Rumor := Some \<lparr>rm_Origin = g_name g,
             rm_ID = snd (GetAndIncrement (g_seqIDCounter g)), rm_Text = v ''message''\<rparr>\<rparr>) ''''])))
    \<and> (hr_Path r = ''/privatemessage'' \<and> v ''destName'' \<noteq> '''' \<and> v ''message'' \<noteq> '''' \<and> getNextHop (v ''destName'') g = Some hop \<longrightarrow>
       (\<exists>q p. web_handle r fe = (fe, NoBody, [q]) \<and> receiveClientUDP (g_name g) q = UIPrivate p
         \<and> clientPMListen p g = Inr (g, [SendUDP (emptyPacket\<lparr>gp_Private := Some \<lparr>pm_Origin = g_name g, pm_ID = 0,
              pm_Text = v ''message'', pm_Destination = v ''destName'', pm_HopLimit = defaultHopLimit\<rparr>\<rparr>) hop])))
    \<and> (hr_Path r = ''/sharefile'' \<longrightarrow>
       (\<exists>q. web_handle r fe = (fe, NoBody, [q]) \<and> receiveClientUDP (g_name g) q = UIFileShare (v ''file'')))
    \<and> (hr_Path r = ''/dlfile'' \<and> v ''file'' \<noteq> '''' \<and> v ''metahash'' = hex_EncodeToString h \<and> length h = 32 \<longrightarrow>
       (\<exists>q d. web_handle r fe = (fe, NoBody, [q]) \<and> receiveClientUDP (g_name g) q = UIFileDownload d
         \<and> clientFileDownloadListen d = [GoDownloadFile (v ''file'') h (v ''origin'')]))
    \<and> (hr_Path r = ''/searchfile'' \<and> v ''keywords'' = strings_Join ks '','' \<and> v ''keywords'' \<noteq> '''' \<and> (\<forall>k \<in> set ks. CHR '','' \<notin> set k)
       \<and> strconv_Atoi (v ''budget'') = Some b \<and> 0 \<le> b \<longrightarrow>
       (\<exists>q f. web_handle r fe = (fe, NoBody, [q]) \<and> receiveClientUDP (g_name g) q = UIFileSearch f
         \<and> clientFileSearchListen f = [GoSearchFiles ks (of_int b)]))"
    (is "(?m \<longrightarrow> ?M) \<and> (?p \<longrightarrow> ?P) \<and> (?s \<longrightarrow> ?S) \<and> (?d \<longrightarrow> ?D) \<and> (?f \<longrightarrow> ?F)")
proof (intro conjI impI)
  note free = assms(1-3)
  show ?M if c: ?m
    using message_form [OF free] c clientListen_text text_request_received by (auto simp: assms(4))
  show ?P if c: ?p
    using free c by (auto simp: handler_defs assms(4) private_request_received clientPMListen_private)
  show ?S if c: ?s
    using free c by (auto simp: handler_defs assms(4) request_received)
  show ?D if c: ?d
    using free c by (auto simp: handler_defs assms(4) request_received download_request_def ConvertToHash32_def clientFileDownloadListen_def)
  show ?F if c: ?f
  proof -
    have "ks \<noteq> []" using c by auto
    then have "strings_Split (v ''keywords'') (CHR '','') = ks" using c strings_Split_Join by simp
    then show ?thesis using free c by (auto simp: handler_defs assms(4) request_received clientFileSearchListen_def)
  qed
qed

text \<open>A value with a colon, such as an URL, is cut at its first colon by the client.\<close>

lemma strings_Split_first: "CHR '':'' \<notin> set k \<Longrightarrow>
   \<exists>rest. strings_Split (k @ CHR '':'' # val) (CHR '':'') = k # takeWhile (\<lambda>c. c \<noteq> CHR '':'') val # rest"
proof (induction k)
  case Nil
  have "\<exists>rest. strings_Split val (CHR '':'') = takeWhile (\<lambda>c. c \<noteq> CHR '':'') val # rest" by (induction val) auto
  then show ?case by simp
qed auto

theorem client_store_cut:
  assumes "cl_store c = k @ CHR '':'' # val" "CHR '':'' \<notin> set k" "part = takeWhile (\<lambda>c. c \<noteq> CHR '':'') val" "disk part = NoFile"
    and "i = GenerateKeyHash sha512 (strings_ToLower unicode k)" "length i = IDByteSize"
  shows "\<exists>q d. client_sendUDP sha512 unicode disk c = Inr (Some q) \<and> receiveClientUDP name q = UIDHT d
    \<and> clientDHTListen d = Inr (ClientStore i (string_bytes part) ''POST'')"
proof -
  obtain rest where "strings_Split (cl_store c) (CHR '':'') = k # part # rest" using strings_Split_first assms(1-3) by metis
  then show ?thesis using assms
    by (auto simp: client_sendUDP_def store_request_def ConvertToTypeID_def request_received clientDHTListen_def getByteValueForStore_def)
qed

section \<open>Examples\<close>

definition example_frontend :: frontend where
  "example_frontend = \<lparr>fe_node = NewGossiper ''127.0.0.1:5000'' ''A'' [] False 0 '''' (replicate 64 0), fe_portTaken = False\<rparr>"

definition example_post :: "string \<Rightarrow> (string \<times> string) list \<Rightarrow> http_request" where
  "example_post path form = \<lparr>hr_Path = path, hr_Method = ''POST'', hr_Form = Some form\<rparr>"

theorem bad_hash_silences_front_end_witness:
  "web_run [Web (example_post ''/dlfile'' [(''file'', ''f''), (''metahash'', ''xyz'')]), Web (example_post ''/message'' [(''message'', ''hi'')])]
     example_frontend = []"
  by (rule bad_hash_silences_front_end [where form = "[(''file'', ''f''), (''metahash'', ''xyz'')]"])
    (simp_all add: example_post_def form_value_def hex_value_def)

theorem web_forms_reach_node_witness:
  "\<exists>q p g'. web_handle (example_post ''/message'' [(''message'', ''hi'')]) example_frontend = (example_frontend, NoBody, [q])
     \<and> receiveClientUDP ''A'' q = UIRumor p \<and> clientListen p (fe_node example_frontend) = Inr (g', [GoRumorMonger (emptyPacket\<lparr>gp_Rumor :=
         Some \<lparr>rm_Origin = ''A'', rm_ID = 1, rm_Text = ''hi''\<rparr>\<rparr>) ''''])"
  using web_forms_reach_node [of example_frontend "example_post ''/message'' [(''message'', ''hi'')]" "[(''message'', ''hi'')]", OF _ _ _ refl refl]
  by (simp add: example_frontend_def example_post_def form_value_def NewGossiper_def GetAndIncrement_def NewSafeCounter_def)

end
