(* ===== verification/Blockchain.thy ===== *)
theory Blockchain
  imports Gossiper XorMetric
begin

text \<open>
  The ledger of the file names, the first part of \<open>src/gossiper/blockchain.go\<close>: blocks in a map from
  their hashes, forks, orphans whose parent is not known, and the head of the longest chain.

  A pointer to a block of the map is the hash it is filed under, and the block itself where the code only
  reads it.  A function of the code that may not return, on a map whose parents form a cycle, has a bound
  on its depth as an argument; reaching the bound is \<open>no_return\<close>.  SHA-256 and the order in which a
  map of hashes is visited are arguments.
\<close>

unbundle bit_operations_syntax

section \<open>Blocks\<close>

record ledger_env =
  le_sha256 :: "bytes \<Rightarrow> bytes"
  le_Order :: "hash32 list \<Rightarrow> hash32 list"
  le_Depth :: nat

definition no_return :: go_error where
  "no_return = Panic ''stack overflow''"

definition copy32 :: "bytes \<Rightarrow> hash32" where
  "copy32 b = take 32 b @ replicate (32 - length b) 0"

definition LittleEndian32 :: "nat \<Rightarrow> bytes" where
  "LittleEndian32 n = (let w = word_of_nat n :: uint32 in map (\<lambda>i. ucast (drop_bit (8 * i) w)) [0, 1, 2, 3])"

definition TxPublish_Hash :: "ledger_env \<Rightarrow> TxPublish \<Rightarrow> hash32" where
  "TxPublish_Hash env t =
     (let f = tx_File t in
      copy32 (le_sha256 env (LittleEndian32 (length (f_Name f)) @ string_bytes (f_Name f) @ f_MetafileHash f)))"

definition Block_Hash :: "ledger_env \<Rightarrow> Block \<Rightarrow> hash32" where
  "Block_Hash env b =
     copy32 (le_sha256 env (bl_PrevHash b @ bl_Nonce b @ LittleEndian32 (length (bl_Transactions b))
       @ concat (map (TxPublish_Hash env) (bl_Transactions b))))"

definition zero32 :: hash32 where
  "zero32 = replicate 32 0"

record blockOfChain =
  bc_LengthOfChain :: int
  bc_Block :: Block
  bc_Forks :: "(hash32, bool) gomap"

type_synonym block_map = "(hash32, blockOfChain) gomap"

record BlockchainLedger =
  bcl_longestChain :: hash32
  bcl_chains :: block_map

definition newGenesisBlock :: blockOfChain where
  "newGenesisBlock = \<lparr>bc_LengthOfChain = 0, bc_Block = \<lparr>bl_PrevHash = zero32, bl_Nonce = zero32, bl_Transactions = []\<rparr>, bc_Forks = []\<rparr>"

definition newBlockOfChain :: "Block \<Rightarrow> blockOfChain" where
  "newBlockOfChain block = \<lparr>bc_LengthOfChain = 0, bc_Block = block, bc_Forks = []\<rparr>"

text \<open>Both the appended block and the block it is appended to change.\<close>

definition appendToBlock :: "ledger_env \<Rightarrow> blockOfChain \<Rightarrow> blockOfChain \<Rightarrow> blockOfChain \<times> blockOfChain" where
  "appendToBlock env bc prevbc =
     (bc\<lparr>bc_LengthOfChain := bc_LengthOfChain prevbc + 1\<rparr>,
      prevbc\<lparr>bc_Forks := gm_store (Block_Hash env (bc_Block bc)) True (bc_Forks prevbc)\<rparr>)"

definition getForks :: "blockOfChain \<Rightarrow> (hash32, bool) gomap" where
  "getForks bc = bc_Forks bc"

definition removeFork :: "ledger_env \<Rightarrow> blockOfChain \<Rightarrow> blockOfChain \<Rightarrow> blockOfChain" where
  "removeFork env nextbc bc = bc\<lparr>bc_Forks := gm_delete (Block_Hash env (bc_Block nextbc)) (bc_Forks bc)\<rparr>"

definition bitDifficulty :: nat where "bitDifficulty = 16"

definition checkValid :: "ledger_env \<Rightarrow> Block \<Rightarrow> bool" where
  "checkValid env b =
     (let hash32 = Block_Hash env b; first = bitDifficulty div 8
      in list_all (\<lambda>i. hash32 ! i = 0) [0..<first]
         \<and> list_all (\<lambda>j. drop_bit j (0x80 :: byte) AND hash32 ! first = 0) [0..<bitDifficulty mod 8])"

definition tx_names :: "Block \<Rightarrow> string list" where
  "tx_names b = map (\<lambda>tx. f_Name (tx_File tx)) (bl_Transactions b)"

definition bc_names :: "blockOfChain \<Rightarrow> string list" where
  "bc_names bc = tx_names (bc_Block bc)"

text \<open>The loop over the names of a block, up to the first that is claimed already.\<close>

fun claim :: "string list \<Rightarrow> SafeStringArray \<Rightarrow> SafeStringArray \<times> bool" where
  "claim [] claimedNames = (claimedNames, True)"
| "claim (name # names) claimedNames =
     (let (claimedNames, valid) = AppendUniqueToArray name claimedNames
      in if valid then claim names claimedNames else (claimedNames, False))"

definition checkValidTransactions :: "blockOfChain \<Rightarrow> SafeStringArray \<Rightarrow> SafeStringArray \<times> bool" where
  "checkValidTransactions bc claimedNames = claim (bc_names bc) claimedNames"

section \<open>The ledger\<close>

definition NewBlockchainLedger :: BlockchainLedger where
  "NewBlockchainLedger = \<lparr>bcl_longestChain = zero32, bcl_chains = [(zero32, newGenesisBlock)]\<rparr>"

definition isPresent :: "hash32 \<Rightarrow> BlockchainLedger \<Rightarrow> bool" where
  "isPresent hash bcl = (gm_load (bcl_chains bcl) hash \<noteq> None)"

definition nil_deref :: go_error where
  "nil_deref = Panic ''nil pointer''"

definition getBlock :: "hash32 \<Rightarrow> block_map \<Rightarrow> blockOfChain outcome" where
  "getBlock h blocks = (case gm_load blocks h of None \<Rightarrow> Inl nil_deref | Some bc \<Rightarrow> Inr bc)"

definition getGenesis :: "block_map \<Rightarrow> blockOfChain outcome" where
  "getGenesis blocks = getBlock zero32 blocks"

fun claim_backwards :: "nat \<Rightarrow> block_map \<Rightarrow> hash32 \<Rightarrow> SafeStringArray \<Rightarrow> (SafeStringArray option \<times> bool) outcome" where
  "claim_backwards 0 blocks prevHash claimedNames = Inl no_return"
| "claim_backwards (Suc n) blocks prevHash claimedNames =
     (if prevHash = zero32 then Inr (Some claimedNames, True)
      else case gm_load blocks prevHash of
          None \<Rightarrow> Inr (Some claimedNames, True)
        | Some prevBc \<Rightarrow>
            (let (claimedNames, valid) = checkValidTransactions prevBc claimedNames
             in if valid then claim_backwards n blocks (bl_PrevHash (bc_Block prevBc)) claimedNames
                else Inr (None, False)))"

definition checkValidTransactionsBackwards :: "ledger_env \<Rightarrow> block_map \<Rightarrow> blockOfChain \<Rightarrow> (SafeStringArray option \<times> bool) outcome" where
  "checkValidTransactionsBackwards env blocks bc =
     (let (claimedNames, valid) = claim (bc_names bc) (NewSafeStringArray [])
      in if valid then claim_backwards (le_Depth env) blocks (bl_PrevHash (bc_Block bc)) claimedNames
         else Inr (None, False))"

abbreviation visit_forks :: "ledger_env \<Rightarrow> blockOfChain \<Rightarrow> hash32 list" where
  "visit_forks env bc \<equiv> le_Order env (gm_keys (bc_Forks bc))"

fun each_fork :: "(blockOfChain \<Rightarrow> block_map \<Rightarrow> block_map outcome) \<Rightarrow> hash32 list \<Rightarrow> block_map \<Rightarrow> block_map outcome" where
  "each_fork act [] blocks = Inr blocks"
| "each_fork act (nextHash # hashes) blocks =
     obind (getBlock nextHash blocks) (\<lambda>next. obind (act next blocks) (each_fork act hashes))"

fun deleteForkFromChain :: "ledger_env \<Rightarrow> nat \<Rightarrow> blockOfChain \<Rightarrow> block_map \<Rightarrow> block_map outcome" where
  "deleteForkFromChain env 0 bc blocks = Inl no_return"
| "deleteForkFromChain env (Suc n) bc blocks =
     obind (each_fork (deleteForkFromChain env n) (visit_forks env bc) blocks) (\<lambda>blocks.
       Inr (gm_delete (Block_Hash env (bc_Block bc)) blocks))"

text \<open>
  The set of claimed names is shared by all forks that are visited; a nil pointer (no set) is dereferenced
  by the first name.
\<close>

definition claim_names :: "string list \<Rightarrow> SafeStringArray option \<Rightarrow> (SafeStringArray option \<times> bool) outcome" where
  "claim_names names claimedNames =
     (case claimedNames of
        None \<Rightarrow> if names = [] then Inr (None, True) else Inl nil_deref
      | Some claimed \<Rightarrow> Inr (apfst Some (claim names claimed)))"

type_synonym pruned = "(bool \<times> SafeStringArray option \<times> block_map) outcome"

text \<open>The result of a fork is not looked at; a fork that is missing ends the loop.\<close>

fun prune_forks :: "(blockOfChain \<Rightarrow> SafeStringArray option \<Rightarrow> block_map \<Rightarrow> pruned) \<Rightarrow> hash32 list \<Rightarrow> SafeStringArray option \<Rightarrow> block_map \<Rightarrow> pruned" where
  "prune_forks prune [] claimedNames blocks = Inr (True, claimedNames, blocks)"
| "prune_forks prune (nextHash # hashes) claimedNames blocks =
     (case gm_load blocks nextHash of
        None \<Rightarrow> Inr (False, claimedNames, blocks)
      | Some nextBc \<Rightarrow> obind (prune nextBc claimedNames blocks) (\<lambda>(_, claimedNames, blocks).
          prune_forks prune hashes claimedNames blocks))"

fun pruneInvalidForks :: "ledger_env \<Rightarrow> nat \<Rightarrow> blockOfChain \<Rightarrow> SafeStringArray option \<Rightarrow> block_map \<Rightarrow> pruned" where
  "pruneInvalidForks env 0 bc claimedNames blocks = Inl no_return"
| "pruneInvalidForks env (Suc n) bc claimedNames blocks =
     obind (claim_names (bc_names bc) claimedNames) (\<lambda>(claimedNames, valid).
       if valid then prune_forks (pruneInvalidForks env n) (visit_forks env bc) claimedNames blocks
       else obind (deleteForkFromChain env (le_Depth env) bc blocks) (\<lambda>blocks. Inr (False, claimedNames, blocks)))"

text \<open>The greatest length below a block, with the first block that has it.\<close>

type_synonym measured = "(int \<times> blockOfChain \<times> block_map) outcome"

fun longest_fork :: "(hash32 \<Rightarrow> block_map \<Rightarrow> measured) \<Rightarrow> hash32 list \<Rightarrow> int \<Rightarrow> blockOfChain \<Rightarrow> block_map \<Rightarrow> measured" where
  "longest_fork update [] maxLen highestBlock blocks = Inr (maxLen, highestBlock, blocks)"
| "longest_fork update (nextHash # hashes) maxLen highestBlock blocks =
     obind (update nextHash blocks) (\<lambda>(len, highest, blocks).
       if len > maxLen then longest_fork update hashes len highest blocks
       else longest_fork update hashes maxLen highestBlock blocks)"

fun recursiveUpdateLength :: "ledger_env \<Rightarrow> nat \<Rightarrow> hash32 \<Rightarrow> block_map \<Rightarrow> measured" where
  "recursiveUpdateLength env 0 h blocks = Inl no_return"
| "recursiveUpdateLength env (Suc n) h blocks =
     obind (getBlock h blocks) (\<lambda>bc.
     obind (getBlock (bl_PrevHash (bc_Block bc)) blocks) (\<lambda>prevBc.
       let bc = bc\<lparr>bc_LengthOfChain := bc_LengthOfChain prevBc + 1\<rparr>
       in longest_fork (recursiveUpdateLength env n) (visit_forks env bc) (bc_LengthOfChain bc) bc (gm_store h bc blocks)))"

fun reinsert_orphans :: "ledger_env \<Rightarrow> hash32 \<Rightarrow> hash32 list \<Rightarrow> SafeStringArray option \<Rightarrow> int \<Rightarrow> blockOfChain \<Rightarrow> block_map \<Rightarrow> measured" where
  "reinsert_orphans env newBlockHash [] claimedNames maxLen highestBlock blocks = Inr (maxLen, highestBlock, blocks)"
| "reinsert_orphans env newBlockHash (orphanHash # hashes) claimedNames maxLen highestBlock blocks =
     obind (getBlock orphanHash blocks) (\<lambda>orphanBc.
       if bl_PrevHash (bc_Block orphanBc) \<noteq> newBlockHash
       then reinsert_orphans env newBlockHash hashes claimedNames maxLen highestBlock blocks
       else obind (getGenesis blocks) (\<lambda>genesis.
         obind (pruneInvalidForks env (le_Depth env) orphanBc claimedNames (gm_store zero32 (removeFork env orphanBc genesis) blocks))
           (\<lambda>(stillValid, claimedNames, blocks).
           if \<not> stillValid then reinsert_orphans env newBlockHash hashes claimedNames maxLen highestBlock blocks
           else obind (getBlock newBlockHash blocks) (\<lambda>newBlock.
             let (orphanBc, newBlock) = appendToBlock env orphanBc newBlock
             in obind (recursiveUpdateLength env (le_Depth env) orphanHash (gm_store orphanHash orphanBc (gm_store newBlockHash newBlock blocks)))
               (\<lambda>(len, highest, blocks).
               if len > maxLen then reinsert_orphans env newBlockHash hashes claimedNames len highest blocks
               else reinsert_orphans env newBlockHash hashes claimedNames maxLen highestBlock blocks)))))"

definition checkOrphansAndReinsert :: "ledger_env \<Rightarrow> hash32 \<Rightarrow> SafeStringArray option \<Rightarrow> block_map \<Rightarrow> measured" where
  "checkOrphansAndReinsert env newBlockHash claimedNames blocks =
     obind (getGenesis blocks) (\<lambda>genesis.
       reinsert_orphans env newBlockHash (visit_forks env genesis) claimedNames 0 genesis blocks)"

section \<open>The head of the longest chain\<close>

fun getDegreeOfForkage :: "nat \<Rightarrow> block_map \<Rightarrow> blockOfChain \<Rightarrow> blockOfChain \<Rightarrow> int outcome" where
  "getDegreeOfForkage 0 blocks first second = Inl no_return"
| "getDegreeOfForkage (Suc n) blocks first second =
     (case (gm_load blocks (bl_PrevHash (bc_Block first)), gm_load blocks (bl_PrevHash (bc_Block second))) of
        (Some prevFirst, Some prevSecond) \<Rightarrow>
          if bc_LengthOfChain first = 0 \<or> bc_LengthOfChain second = 0 then Inr 0
          else if first = prevSecond then Inr 0
          else obind (getDegreeOfForkage n blocks prevFirst prevSecond) (\<lambda>rewind. Inr (1 + rewind))
      | _ \<Rightarrow> Inr 0)"

definition block_line :: "ledger_env \<Rightarrow> blockOfChain \<Rightarrow> string" where
  "block_line env bc =
     hex_EncodeToString (Block_Hash env (bc_Block bc)) @ '':'' @ hex_EncodeToString (bl_PrevHash (bc_Block bc)) @ '':''
       @ strings_Join (bc_names bc) '',''"

fun getBlocksInChain :: "ledger_env \<Rightarrow> nat \<Rightarrow> block_map \<Rightarrow> blockOfChain \<Rightarrow> string list outcome" where
  "getBlocksInChain env 0 blocks bc = Inl no_return"
| "getBlocksInChain env (Suc n) blocks bc =
     (case gm_load blocks (bl_PrevHash (bc_Block bc)) of
        None \<Rightarrow> Inr [block_line env bc]
      | Some prevBc \<Rightarrow>
          if bl_PrevHash (bc_Block bc) = zero32 then Inr [block_line env bc]
          else obind (getBlocksInChain env n blocks prevBc) (\<lambda>lines. Inr (block_line env bc # lines)))"

definition add_name :: "string \<Rightarrow> (string, bool) gomap \<Rightarrow> (string, bool) gomap" where
  "add_name n names = gm_store n True names"

fun getTakenNames :: "nat \<Rightarrow> block_map \<Rightarrow> blockOfChain \<Rightarrow> (string, bool) gomap outcome" where
  "getTakenNames 0 blocks headBc = Inl no_return"
| "getTakenNames (Suc n) blocks headBc =
     (let names = fold add_name (bc_names headBc) [] in
      case gm_load blocks (bl_PrevHash (bc_Block headBc)) of
        None \<Rightarrow> Inr names
      | Some prevBc \<Rightarrow>
          if bl_PrevHash (bc_Block headBc) = zero32 then Inr names
          else obind (getTakenNames n blocks prevBc) (\<lambda>prevNames. Inr (fold add_name (gm_keys names) prevNames)))"

definition getHead :: "BlockchainLedger \<Rightarrow> hash32 \<times> blockOfChain option" where
  "getHead bcl = (bcl_longestChain bcl, gm_load (bcl_chains bcl) (bcl_longestChain bcl))"

text \<open>The hashes from the root to a block; the root and the block above it are both the zero hash.\<close>

fun chain_hashes :: "ledger_env \<Rightarrow> nat \<Rightarrow> block_map \<Rightarrow> blockOfChain \<Rightarrow> hash32 list \<Rightarrow> hash32 list outcome" where
  "chain_hashes env 0 blocks bc chain = Inl no_return"
| "chain_hashes env (Suc n) blocks bc chain =
     (case gm_load blocks (bl_PrevHash (bc_Block bc)) of
        None \<Rightarrow> Inr (zero32 # chain)
      | Some first \<Rightarrow>
          if bl_PrevHash (bc_Block first) = zero32 then Inr (zero32 # chain)
          else chain_hashes env n blocks first (Block_Hash env (bc_Block first) # chain))"

fun common_index :: "hash32 list \<Rightarrow> hash32 list \<Rightarrow> nat \<Rightarrow> nat \<Rightarrow> nat outcome" where
  "common_index [] secondChain i commonInd = Inr commonInd"
| "common_index (x # firstChain) [] i commonInd = Inl (Panic ''index out of range'')"
| "common_index (x # firstChain) (y # secondChain) i commonInd =
     (if x \<noteq> y then Inr commonInd else common_index firstChain secondChain (Suc i) i)"

definition getFirstCommon :: "ledger_env \<Rightarrow> block_map \<Rightarrow> blockOfChain \<Rightarrow> blockOfChain \<Rightarrow> hash32 outcome" where
  "getFirstCommon env blocks first second =
     obind (chain_hashes env (le_Depth env) blocks first [Block_Hash env (bc_Block first)]) (\<lambda>firstChain.
     obind (chain_hashes env (le_Depth env) blocks second [Block_Hash env (bc_Block second)]) (\<lambda>secondChain.
     obind (common_index firstChain secondChain 0 0) (\<lambda>commonInd. Inr (firstChain ! commonInd))))"

text \<open>The answer is whether the head changed to another chain, and whether the longest chain grew.\<close>

definition headChanges :: "ledger_env \<Rightarrow> int \<Rightarrow> blockOfChain \<Rightarrow> BlockchainLedger \<Rightarrow> ((bool \<times> bool) \<times> BlockchainLedger) outcome" where
  "headChanges env lenOfNewFork newForkHead bcl =
     obind (getBlock (bcl_longestChain bcl) (bcl_chains bcl)) (\<lambda>headLongestChain.
       if lenOfNewFork > bc_LengthOfChain headLongestChain then
         obind (if bl_PrevHash (bc_Block newForkHead) \<noteq> bcl_longestChain bcl
                then obind (getDegreeOfForkage (le_Depth env) (bcl_chains bcl) headLongestChain newForkHead) (\<lambda>_. Inr True)
                else Inr False) (\<lambda>changed.
         obind (getBlocksInChain env (le_Depth env) (bcl_chains bcl) newForkHead) (\<lambda>_.
         Inr ((changed, True), bcl\<lparr>bcl_longestChain := Block_Hash env (bc_Block newForkHead)\<rparr>)))
       else obind (getFirstCommon env (bcl_chains bcl) headLongestChain newForkHead) (\<lambda>_. Inr ((False, False), bcl)))"

text \<open>
  The answer is whether the block was accepted, whether the head changed, and whether the longest chain
  grew.  A block that is not accepted has been recorded as a fork of its parent all the same; the names
  of an orphan are not checked.
\<close>

definition accept_block :: "ledger_env \<Rightarrow> hash32 \<Rightarrow> blockOfChain \<Rightarrow> SafeStringArray option \<Rightarrow> block_map \<Rightarrow> BlockchainLedger
    \<Rightarrow> ((bool \<times> bool \<times> bool) \<times> BlockchainLedger) outcome" where
  "accept_block env hash bc claimedNames blocks bcl =
     obind (checkOrphansAndReinsert env hash claimedNames (gm_store hash bc blocks)) (\<lambda>(maxLen, highestBlock, blocks).
       let (maxLen, highestBlock) = (if bc_LengthOfChain bc > maxLen then (bc_LengthOfChain bc, bc) else (maxLen, highestBlock))
       in obind (headChanges env maxLen highestBlock (bcl\<lparr>bcl_chains := blocks\<rparr>)) (\<lambda>((changed, grew), bcl).
            Inr ((True, changed, grew), bcl)))"

definition insertBlock :: "ledger_env \<Rightarrow> Block \<Rightarrow> BlockchainLedger \<Rightarrow> ((bool \<times> bool \<times> bool) \<times> BlockchainLedger) outcome" where
  "insertBlock env block bcl =
     (let hash = Block_Hash env block; blocks = bcl_chains bcl; bc = newBlockOfChain block in
      if isPresent hash bcl then Inr ((False, False, False), bcl)
      else case gm_load blocks (bl_PrevHash block) of
          Some parent \<Rightarrow>
            (let (bc, parent) = appendToBlock env bc parent; blocks = gm_store (bl_PrevHash block) parent blocks
             in obind (checkValidTransactionsBackwards env blocks bc) (\<lambda>(claimedNames, valid).
                  if valid then accept_block env hash bc claimedNames blocks bcl
                  else Inr ((False, False, False), bcl\<lparr>bcl_chains := blocks\<rparr>)))
        | None \<Rightarrow>
            obind (getGenesis blocks) (\<lambda>genesis.
              let (bc, genesis) = appendToBlock env bc genesis; blocks = gm_store zero32 genesis blocks
              in obind (checkValidTransactionsBackwards env blocks bc) (\<lambda>(claimedNames, _).
                   accept_block env hash bc claimedNames blocks bcl)))"

definition mine :: "ledger_env \<Rightarrow> Block \<Rightarrow> BlockPublish option" where
  "mine env block =
     (if checkValid env block then Some \<lparr>bp_Block = block, bp_HopLimit = defaultHopLimit\<rparr> else None)"

end
