(* ===== verification/Ledger.thy ===== *)
theory Ledger
  imports Blockchain
begin

text \<open>
  What the ledger of Blockchain keeps true: the forks form a forest whose roots are the genesis block's
  forks, lengths count along it, the head is a longest chain, and no file name is claimed twice on a
  chain.  The invariant is stated on the map from hashes to blocks; the recursive operations are described
  by the set of blocks below a block.
\<close>

section \<open>The forest of forks\<close>

type_synonym blocks = "hash32 \<Rightarrow> blockOfChain option"

abbreviation prev_of :: "blockOfChain \<Rightarrow> hash32" where
  "prev_of bc \<equiv> bl_PrevHash (bc_Block bc)"

definition fork_set :: "blockOfChain \<Rightarrow> hash32 set" where
  "fork_set bc = set (gm_keys (bc_Forks bc))"

definition below :: "blocks \<Rightarrow> (hash32 \<times> hash32) set" where
  "below m = {(x, f). \<exists>b. m x = Some b \<and> f \<in> fork_set b}"

text \<open>\<open>rank\<close> shows that the hashes have no cycle.\<close>

definition forest :: "ledger_env \<Rightarrow> (hash32 \<Rightarrow> nat) \<Rightarrow> blocks \<Rightarrow> bool" where
  "forest env rank m = (\<forall>h b. m h = Some b \<longrightarrow> gm_wf (bc_Forks b)
     \<and> (h \<noteq> zero32 \<longrightarrow> Block_Hash env (bc_Block b) = h)
     \<and> (\<forall>f \<in> fork_set b. f \<noteq> zero32 \<and> (h \<noteq> zero32 \<longrightarrow> rank h < rank f \<and> (\<forall>b'. m f = Some b' \<longrightarrow> prev_of b' = h))))"

lemma forestD:
  assumes "forest env rank m" "m h = Some b"
  shows "gm_wf (bc_Forks b)" "h \<noteq> zero32 \<Longrightarrow> Block_Hash env (bc_Block b) = h"
    and "f \<in> fork_set b \<Longrightarrow> f \<noteq> zero32" "f \<in> fork_set b \<Longrightarrow> h \<noteq> zero32 \<Longrightarrow> rank h < rank f"
    and "f \<in> fork_set b \<Longrightarrow> h \<noteq> zero32 \<Longrightarrow> m f = Some b' \<Longrightarrow> prev_of b' = h"
  using assms unfolding forest_def by blast+

lemma below_rank:
  assumes "forest env rank m" "(x, y) \<in> (below m)\<^sup>*" "x \<noteq> zero32"
  shows "y \<noteq> zero32 \<and> rank x \<le> rank y \<and> (x \<noteq> y \<longrightarrow> rank x < rank y)"
  using assms(2)
proof (induction rule: rtrancl_induct)
  case (step y z)
  then obtain b where "m y = Some b" "z \<in> fork_set b" unfolding below_def by blast
  then show ?case using forestD [OF assms(1)] step.IH by fastforce
qed (use assms(3) in simp)

lemma below_parent:
  assumes "forest env rank m" "(x, y) \<in> below m" "x \<noteq> zero32" "m y = Some b"
  shows "prev_of b = x"
  using assms forestD(5) [OF assms(1)] unfolding below_def by blast

lemma below_comparable:
  assumes "forest env rank m" "(f, y) \<in> (below m)\<^sup>*" "(g, y) \<in> (below m)\<^sup>*" "f \<noteq> zero32" "g \<noteq> zero32"
    and "\<forall>y. (f, y) \<in> (below m)\<^sup>* \<longrightarrow> m y \<noteq> None"
  shows "(f, g) \<in> (below m)\<^sup>* \<or> (g, f) \<in> (below m)\<^sup>*"
  using assms(2,3)
proof (induction rule: rtrancl_induct)
  case (step z y)
  show ?case
  proof (cases "g = y")
    case True
    then show ?thesis using step.hyps by (meson rtrancl.rtrancl_into_rtrancl)
  next
    case False
    then obtain z' where z': "(g, z') \<in> (below m)\<^sup>*" "(z', y) \<in> below m" using step.prems by (meson rtranclE)
    obtain b where b: "m y = Some b" using assms(6) step.hyps by (meson option.exhaust rtrancl.rtrancl_into_rtrancl)
    have "z \<noteq> zero32" "z' \<noteq> zero32" using below_rank [OF assms(1)] step.hyps(1) z'(1) assms(4,5) by blast+
    then have "z = z'" using below_parent [OF assms(1) _ _ b] step.hyps(2) z'(2) by metis
    then show ?thesis using step.IH z'(1) by blast
  qed
qed simp

lemma siblings_apart:
  assumes "forest env rank m" "m x = Some b" "x \<noteq> zero32" "f \<in> fork_set b" "g \<in> fork_set b" "f \<noteq> g"
    and "\<forall>y. (f, y) \<in> (below m)\<^sup>* \<longrightarrow> m y \<noteq> None" "m g \<noteq> None" "(f, y) \<in> (below m)\<^sup>*"
  shows "(g, y) \<notin> (below m)\<^sup>*"
proof
  have fg: "f \<noteq> zero32" "g \<noteq> zero32" "rank x < rank f" "rank x < rank g"
    using forestD [OF assms(1,2)] assms(3,4,5) by blast+
  have no: False if "(u, v) \<in> (below m)\<^sup>*" "u \<noteq> v" "u \<noteq> zero32" "rank x < rank u" "v \<in> fork_set b" "m v \<noteq> None" for u v
  proof -
    obtain z where z: "(u, z) \<in> (below m)\<^sup>*" "(z, v) \<in> below m" using \<open>(u, v) \<in> (below m)\<^sup>*\<close> \<open>u \<noteq> v\<close> by (meson rtranclE)
    obtain bv where bv: "m v = Some bv" using \<open>m v \<noteq> None\<close> by blast
    have "z \<noteq> zero32" "rank u \<le> rank z" using below_rank [OF assms(1) z(1) \<open>u \<noteq> zero32\<close>] by blast+
    moreover have "z = x" using below_parent [OF assms(1) z(2) \<open>z \<noteq> zero32\<close> bv] forestD(5) [OF assms(1,2) \<open>v \<in> fork_set b\<close> assms(3) bv] by simp
    ultimately show False using \<open>rank x < rank u\<close> by simp
  qed
  assume "(g, y) \<in> (below m)\<^sup>*"
  then have "(f, g) \<in> (below m)\<^sup>* \<or> (g, f) \<in> (below m)\<^sup>*"
    using below_comparable [OF assms(1,9) _ fg(1,2) assms(7)] by blast
  then show False using no [of f g] no [of g f] fg assms(4-8) by blast
qed

text \<open>Parts of the map.\<close>

definition cut :: "hash32 set \<Rightarrow> blocks \<Rightarrow> blocks" where
  "cut D m = (\<lambda>h. if h \<in> D then None else m h)"

definition fork_closed :: "blocks \<Rightarrow> hash32 set \<Rightarrow> bool" where
  "fork_closed m D = (\<forall>h \<in> D. \<forall>b. m h = Some b \<longrightarrow> fork_set b \<subseteq> D)"

lemma cut_cut: "cut D (cut E m) = cut (E \<union> D) m"
  by (auto simp: cut_def)

lemma cut_empty [simp]: "cut {} m = m"
  by (simp add: cut_def)

lemma below_cut: "below (cut D m) \<subseteq> below m"
  by (auto simp: below_def cut_def split: if_splits)

lemma forest_cut: "forest env rank m \<Longrightarrow> forest env rank (cut D m)"
  unfolding forest_def cut_def by (auto split: if_splits)

lemma fork_closed_Un: "fork_closed m E \<Longrightarrow> fork_closed (cut E m) D \<Longrightarrow> fork_closed m (E \<union> D)"
  unfolding fork_closed_def cut_def by (metis Un_iff le_supI1 sup.coboundedI2)

lemma fork_closed_below:
  assumes "fork_closed m D" "x \<in> D" "(x, y) \<in> (below m)\<^sup>*"
  shows "y \<in> D"
  using assms(3) by (induction rule: rtrancl_induct) (use assms(1,2) in \<open>auto simp: below_def fork_closed_def\<close>)

section \<open>Deleting and pruning\<close>

definition order_ok :: "ledger_env \<Rightarrow> bool" where
  "order_ok env = (\<forall>hs. mset (le_Order env hs) = mset hs)"

lemma visit_forks_set: "order_ok env \<Longrightarrow> set (visit_forks env bc) = fork_set bc"
  unfolding order_ok_def fork_set_def by (metis set_mset_mset)

lemma visit_forks_distinct: "order_ok env \<Longrightarrow> gm_wf (bc_Forks bc) \<Longrightarrow> distinct (visit_forks env bc)"
  unfolding order_ok_def gm_keys_def gm_wf_def by (metis mset_eq_imp_distinct_iff)

lemma getBlock_Inr [simp]: "getBlock h blocks = Inr b \<longleftrightarrow> gm_load blocks h = Some b"
  by (auto simp: getBlock_def split: option.splits)

text \<open>Deleting a block deletes exactly the blocks below it.\<close>

lemma deleteForkFromChain_below:
  assumes "order_ok env"
  shows "forest env rank (gm_load blocks) \<Longrightarrow> gm_load blocks x = Some bc \<Longrightarrow> x \<noteq> zero32
    \<Longrightarrow> deleteForkFromChain env n bc blocks = Inr blocks'
    \<Longrightarrow> \<exists>D. gm_load blocks' = cut D (gm_load blocks) \<and> x \<in> D \<and> fork_closed (gm_load blocks) D
          \<and> (\<forall>y \<in> D. (x, y) \<in> (below (gm_load blocks))\<^sup>*)"
proof (induction n arbitrary: blocks x bc blocks')
  case (Suc n)
  have each: "\<exists>D. gm_load c' = cut D (gm_load c) \<and> set hs \<subseteq> D \<and> fork_closed (gm_load c) D
      \<and> (\<forall>y \<in> D. \<exists>h \<in> set hs. (h, y) \<in> (below (gm_load c))\<^sup>*)"
    if "each_fork (deleteForkFromChain env n) hs c = Inr c'" "forest env rank (gm_load c)" "zero32 \<notin> set hs" for hs c c'
    using that
  proof (induction hs arbitrary: c)
    case Nil
    then show ?case by (intro exI [of _ "{}"]) (simp add: fork_closed_def)
  next
    case (Cons h hs)
    then obtain nb c1 where n: "gm_load c h = Some nb" and d: "deleteForkFromChain env n nb c = Inr c1"
      and r: "each_fork (deleteForkFromChain env n) hs c1 = Inr c'" by (auto simp: obind_Inr_iff)
    obtain D where D: "gm_load c1 = cut D (gm_load c)" "h \<in> D" "fork_closed (gm_load c) D" "\<forall>y \<in> D. (h, y) \<in> (below (gm_load c))\<^sup>*"
      using Suc.IH [OF Cons.prems(2) n _ d] Cons.prems(3) by auto
    obtain E where E: "gm_load c' = cut E (gm_load c1)" "set hs \<subseteq> E" "fork_closed (gm_load c1) E"
      "\<forall>y \<in> E. \<exists>h \<in> set hs. (h, y) \<in> (below (gm_load c1))\<^sup>*"
      using Cons.IH [OF r] forest_cut [OF Cons.prems(2)] Cons.prems(3) unfolding D(1) by auto
    have "(below (gm_load c1))\<^sup>* \<subseteq> (below (gm_load c))\<^sup>*" unfolding D(1) by (rule rtrancl_mono [OF below_cut])
    then have "\<forall>y \<in> E. \<exists>h \<in> set hs. (h, y) \<in> (below (gm_load c))\<^sup>*" using E(4) by blast
    then show ?case using D E(1-3) fork_closed_Un [OF D(3), of E]
      by (intro exI [of _ "D \<union> E"]) (auto simp: cut_cut)
  qed
  obtain c where e: "each_fork (deleteForkFromChain env n) (visit_forks env bc) blocks = Inr c"
    and r: "blocks' = gm_delete (Block_Hash env (bc_Block bc)) c" using Suc.prems(4) by (auto simp: obind_Inr_iff)
  have "zero32 \<notin> set (visit_forks env bc)" using forestD(3) [OF Suc.prems(1,2)] visit_forks_set [OF assms] by blast
  then obtain D where D: "gm_load c = cut D (gm_load blocks)" "fork_set bc \<subseteq> D" "fork_closed (gm_load blocks) D"
    "\<forall>y \<in> D. \<exists>h \<in> fork_set bc. (h, y) \<in> (below (gm_load blocks))\<^sup>*"
    using each [OF e Suc.prems(1)] visit_forks_set [OF assms] by auto
  have "Block_Hash env (bc_Block bc) = x" using forestD(2) [OF Suc.prems(1,2)] Suc.prems(3) by blast
  then have "gm_load blocks' = cut (insert x D) (gm_load blocks)" unfolding r using D(1) by (auto simp: cut_def fun_eq_iff)
  moreover have "fork_closed (gm_load blocks) (insert x D)" using D(2,3) Suc.prems(2) unfolding fork_closed_def by auto
  moreover have "(x, y) \<in> (below (gm_load blocks))\<^sup>*" if "y \<in> insert x D" for y
  proof (cases "y = x")
    case False
    then have "y \<in> D" using that by simp
    then obtain h where h: "h \<in> fork_set bc" "(h, y) \<in> (below (gm_load blocks))\<^sup>*" using D(4) by blast
    then have "(x, h) \<in> below (gm_load blocks)" using Suc.prems(2) by (auto simp: below_def)
    then show ?thesis using h(2) by (rule converse_rtrancl_into_rtrancl)
  qed simp
  ultimately show ?case by blast
qed simp

text \<open>Claiming names.\<close>

definition claimed :: "SafeStringArray \<Rightarrow> string set" where
  "claimed c = {n. gm_load (ssa_exists c) n \<noteq> None}"

lemma claimed_new [simp]: "claimed (NewSafeStringArray []) = {}"
  by (simp add: claimed_def NewSafeStringArray_def gm_load_def)

lemma claim_result:
  "claim names c = (c', v) \<Longrightarrow> claimed c \<subseteq> claimed c'
     \<and> (v \<longrightarrow> distinct names \<and> set names \<inter> claimed c = {} \<and> claimed c' = claimed c \<union> set names)"
proof (induction names arbitrary: c)
  case (Cons n names)
  show ?case
  proof (cases "gm_load (ssa_exists c) n")
    case None
    let ?c = "c\<lparr>ssa_exists := gm_store n True (ssa_exists c), ssa_array := ssa_array c @ [n]\<rparr>"
    have "claimed ?c = insert n (claimed c)" by (auto simp: claimed_def)
    moreover have "claim names ?c = (c', v)" using Cons.prems None by (simp add: AppendUniqueToArray_def)
    moreover have "n \<notin> claimed c" using None by (simp add: claimed_def)
    ultimately show ?thesis using Cons.IH [of ?c] by auto
  next
    case (Some b)
    then show ?thesis using Cons.prems by (simp add: AppendUniqueToArray_def)
  qed
qed simp

text \<open>With a nil pointer no name can be claimed.\<close>

definition claimed_by :: "SafeStringArray option \<Rightarrow> string set" where
  "claimed_by c = (case c of None \<Rightarrow> UNIV | Some c \<Rightarrow> claimed c)"

definition fresh_names :: "SafeStringArray option \<Rightarrow> blockOfChain \<Rightarrow> bool" where
  "fresh_names c bc = (distinct (bc_names bc) \<and> set (bc_names bc) \<inter> claimed_by c = {})"

lemma fresh_names_mono: "fresh_names c' bc \<Longrightarrow> claimed_by c \<subseteq> claimed_by c' \<Longrightarrow> fresh_names c bc"
  unfolding fresh_names_def by blast

lemma claim_names_Inr:
  assumes "claim_names (bc_names bc) c = Inr (c', v)"
  shows "claimed_by c \<subseteq> claimed_by c' \<and> (v \<longrightarrow> fresh_names c bc)"
proof (cases c)
  case None
  then show ?thesis using assms by (auto simp: claim_names_def claimed_by_def fresh_names_def split: if_splits)
next
  case (Some c0)
  obtain c1 v1 where "claim (bc_names bc) c0 = (c1, v1)" by fastforce
  then show ?thesis using assms claim_result [of "bc_names bc" c0 c1 v1] Some
    by (auto simp: claim_names_def claimed_by_def fresh_names_def)
qed

text \<open>
  Pruning deletes the blocks of \<open>D\<close>: all of them below the block, and the block itself exactly when the
  answer is negative.  When nothing is deleted, no name below the block has been claimed before.
\<close>

definition prunes :: "blocks \<Rightarrow> hash32 set \<Rightarrow> SafeStringArray option \<Rightarrow> SafeStringArray option \<Rightarrow> blocks \<Rightarrow> hash32 set \<Rightarrow> bool" where
  "prunes m roots c c' m' D = (m' = cut D m \<and> fork_closed m D \<and> (\<forall>y \<in> D. \<exists>x \<in> roots. (x, y) \<in> (below m)\<^sup>*)
     \<and> claimed_by c \<subseteq> claimed_by c'
     \<and> (D = {} \<longrightarrow> (\<forall>x \<in> roots. \<forall>y b. (x, y) \<in> (below m)\<^sup>* \<longrightarrow> m y = Some b \<longrightarrow> fresh_names c b)))"

lemma prunes_Cons:
  assumes "prunes m {f} c c1 m1 D" "prunes m1 (set hs) c1 c2 m2 E"
  shows "prunes m (insert f (set hs)) c c2 m2 (D \<union> E)"
proof -
  have m1: "m1 = cut D m" and m2: "m2 = cut E (cut D m)" and D: "fork_closed m D" "fork_closed (cut D m) E"
    and c: "claimed_by c \<subseteq> claimed_by c1" "claimed_by c1 \<subseteq> claimed_by c2"
    using assms unfolding prunes_def by auto
  have b: "(below m1)\<^sup>* \<subseteq> (below m)\<^sup>*" unfolding m1 by (rule rtrancl_mono [OF below_cut])
  have "\<forall>y \<in> D \<union> E. \<exists>x \<in> insert f (set hs). (x, y) \<in> (below m)\<^sup>*"
    using assms b unfolding prunes_def by fast
  moreover have "\<forall>x \<in> insert f (set hs). \<forall>y b. (x, y) \<in> (below m)\<^sup>* \<longrightarrow> m y = Some b \<longrightarrow> fresh_names c b" if "D \<union> E = {}"
  proof -
    have e: "D = {}" "E = {}" using that by auto
    then have "m1 = m" using m1 by simp
    then show ?thesis using assms e c(1) fresh_names_mono unfolding prunes_def by (metis insert_iff singletonI)
  qed
  moreover have "claimed_by c \<subseteq> claimed_by c2" using c by blast
  ultimately show ?thesis using fork_closed_Un [OF D] unfolding prunes_def m2 cut_cut by blast
qed

definition prune_spec :: "ledger_env \<Rightarrow> (hash32 \<Rightarrow> nat) \<Rightarrow> (blockOfChain \<Rightarrow> SafeStringArray option \<Rightarrow> block_map \<Rightarrow> pruned) \<Rightarrow> bool" where
  "prune_spec env rank prune = (\<forall>blocks x bc c v c' blocks'. forest env rank (gm_load blocks) \<longrightarrow> gm_load blocks x = Some bc \<longrightarrow> x \<noteq> zero32
     \<longrightarrow> (\<forall>y. (x, y) \<in> (below (gm_load blocks))\<^sup>* \<longrightarrow> gm_load blocks y \<noteq> None)
     \<longrightarrow> prune bc c blocks = Inr (v, c', blocks')
     \<longrightarrow> (\<exists>D. prunes (gm_load blocks) {x} c c' (gm_load blocks') D \<and> (v \<longleftrightarrow> x \<notin> D)))"

lemma prune_forks_below:
  assumes IH: "prune_spec env rank prune" and x: "x \<noteq> zero32"
    and "prune_forks prune hs c1 b1 = Inr (v', c2, b2)" "distinct hs" "set hs \<subseteq> fork_set bc"
    and "forest env rank (gm_load b1)" "gm_load b1 x = Some bc"
    and "\<forall>h \<in> set hs. \<forall>y. (h, y) \<in> (below (gm_load b1))\<^sup>* \<longrightarrow> gm_load b1 y \<noteq> None"
  shows "v' \<and> (\<exists>D. prunes (gm_load b1) (set hs) c1 c2 (gm_load b2) D)"
  using assms(3-)
proof (induction hs arbitrary: c1 b1)
  case Nil
  then show ?case by (auto simp: prunes_def fork_closed_def intro!: exI [of _ "{}"])
next
  case (Cons h hs)
  note g = Cons.prems(4,5)
  obtain nb where nb: "gm_load b1 h = Some nb" using Cons.prems(6) by fastforce
  then obtain w c3 b3 where pr: "prune nb c1 b1 = Inr (w, c3, b3)"
    and r: "prune_forks (prune) hs c3 b3 = Inr (v', c2, b2)" using Cons.prems(1) by (auto simp: obind_Inr_iff)
  have h: "h \<noteq> zero32" "h \<in> fork_set bc" "h \<notin> set hs" "set hs \<subseteq> fork_set bc"
    using forestD(3) [OF g] Cons.prems(2,3) by auto
  obtain D where D: "prunes (gm_load b1) {h} c1 c3 (gm_load b3) D"
    using IH [unfolded prune_spec_def, rule_format, OF g(1) nb h(1) _ pr] Cons.prems(6) by auto
  then have b3: "gm_load b3 = cut D (gm_load b1)"
    and Dh: "\<And>y. y \<in> D \<Longrightarrow> (h, y) \<in> (below (gm_load b1))\<^sup>*" unfolding prunes_def by auto
  have "x \<notin> D" using below_rank [OF g(1) Dh h(1)] forestD(4) [OF g h(2) x] by fastforce
  then have x3: "gm_load b3 x = Some bc" using g(2) by (simp add: b3 cut_def)
  have f3: "forest env rank (gm_load b3)" unfolding b3 by (rule forest_cut [OF g(1)])
  have "gm_load b3 y \<noteq> None" if "h' \<in> set hs" "(h', y) \<in> (below (gm_load b3))\<^sup>*" for h' y
  proof -
    have y: "(h', y) \<in> (below (gm_load b1))\<^sup>*" using that(2) rtrancl_mono [OF below_cut] unfolding b3 by blast
    have "y \<notin> D"
    proof
      assume "y \<in> D"
      then have "(h, y) \<in> (below (gm_load b1))\<^sup>*" by (rule Dh)
      moreover have "gm_load b1 h' \<noteq> None" using Cons.prems(6) that(1) by simp
      moreover have "h \<noteq> h'" "h' \<in> fork_set bc" using that(1) h(3,4) by auto
      ultimately show False using siblings_apart [OF g x h(2), of h' y] Cons.prems(6) y by auto
    qed
    then show ?thesis using Cons.prems(6) that(1) y by (simp add: b3 cut_def)
  qed
  then have i: "v' \<and> (\<exists>D. prunes (gm_load b3) (set hs) c3 c2 (gm_load b2) D)"
    using Cons.IH [OF r _ h(4) f3 x3] Cons.prems(2) by auto
  then obtain E where E: "prunes (gm_load b3) (set hs) c3 c2 (gm_load b2) E" by blast
  have "prunes (gm_load b1) (insert h (set hs)) c1 c2 (gm_load b2) (D \<union> E)" by (rule prunes_Cons [OF D E])
  then show ?case using i by auto
qed

lemma prunes_parent:
  assumes f: "forest env rank m" and x: "m x = Some bc" "x \<noteq> zero32"
    and D: "prunes m (fork_set bc) c2 c' m' D" and c: "claimed_by c \<subseteq> claimed_by c2" "fresh_names c bc"
  shows "prunes m {x} c c' m' D \<and> x \<notin> D"
proof -
  have step: "(x, h) \<in> below m" if "h \<in> fork_set bc" for h using that x(1) by (auto simp: below_def)
  have Dy: "\<exists>h \<in> fork_set bc. (h, y) \<in> (below m)\<^sup>*" if "y \<in> D" for y using D that unfolding prunes_def by blast
  have "x \<notin> D"
  proof
    assume "x \<in> D"
    then obtain h where h: "h \<in> fork_set bc" "(h, x) \<in> (below m)\<^sup>*" using Dy by blast
    then show False using below_rank [OF f h(2)] forestD(3,4) [OF f x(1) h(1)] x(2) by fastforce
  qed
  moreover have "(x, y) \<in> (below m)\<^sup>*" if y: "y \<in> D" for y
  proof -
    obtain h where h: "h \<in> fork_set bc" "(h, y) \<in> (below m)\<^sup>*" using Dy [OF y] by blast
    show ?thesis by (rule converse_rtrancl_into_rtrancl [OF step [OF h(1)] h(2)])
  qed
  moreover have "fresh_names c b" if e: "D = {}" and y: "(x, y) \<in> (below m)\<^sup>*" "m y = Some b" for y b
  proof (cases "y = x")
    case True
    then show ?thesis using y(2) x(1) c(2) by simp
  next
    case False
    then obtain h where h: "(x, h) \<in> below m" "(h, y) \<in> (below m)\<^sup>*" using y(1) by (metis converse_rtranclE)
    then have "h \<in> fork_set bc" using x(1) by (auto simp: below_def)
    then have "fresh_names c2 b" using D e y(2) h(2) unfolding prunes_def by blast
    then show ?thesis using c(1) by (rule fresh_names_mono)
  qed
  moreover have "claimed_by c \<subseteq> claimed_by c'" using D c(1) unfolding prunes_def by blast
  ultimately show ?thesis using D unfolding prunes_def by blast
qed

lemma pruneInvalidForks_below:
  assumes "order_ok env"
  shows "prune_spec env rank (pruneInvalidForks env n)"
proof (induction n)
  case 0
  then show ?case by (simp add: prune_spec_def)
next
  case (Suc n)
  show ?case unfolding prune_spec_def
  proof (intro allI impI)
    fix blocks x bc c v c' blocks'
    assume f: "forest env rank (gm_load blocks)" and x: "gm_load blocks x = Some bc" "x \<noteq> zero32"
      and p: "\<forall>y. (x, y) \<in> (below (gm_load blocks))\<^sup>* \<longrightarrow> gm_load blocks y \<noteq> None"
      and r: "pruneInvalidForks env (Suc n) bc c blocks = Inr (v, c', blocks')"
    obtain c2 w where cn: "claim_names (bc_names bc) c = Inr (c2, w)"
      and k: "(if w then prune_forks (pruneInvalidForks env n) (visit_forks env bc) c2 blocks
               else obind (deleteForkFromChain env (le_Depth env) bc blocks) (\<lambda>blocks. Inr (False, c2, blocks))) = Inr (v, c', blocks')"
      using r by (auto simp: obind_Inr_iff)
    have c2: "claimed_by c \<subseteq> claimed_by c2" "w \<Longrightarrow> fresh_names c bc" using claim_names_Inr [OF cn] by blast+
    show "\<exists>D. prunes (gm_load blocks) {x} c c' (gm_load blocks') D \<and> v = (x \<notin> D)"
    proof (cases w)
      case True
      then have pf: "prune_forks (pruneInvalidForks env n) (visit_forks env bc) c2 blocks = Inr (v, c', blocks')" using k by simp
      have "(x, h) \<in> below (gm_load blocks)" if "h \<in> fork_set bc" for h using that x(1) by (auto simp: below_def)
      then have "\<forall>h \<in> set (visit_forks env bc). \<forall>y. (h, y) \<in> (below (gm_load blocks))\<^sup>* \<longrightarrow> gm_load blocks y \<noteq> None"
        using p converse_rtrancl_into_rtrancl [of x _ "below (gm_load blocks)"] unfolding visit_forks_set [OF assms] by blast
      then obtain D where v: v and D: "prunes (gm_load blocks) (fork_set bc) c2 c' (gm_load blocks') D"
        using prune_forks_below [OF Suc.IH x(2) pf visit_forks_distinct [OF assms forestD(1) [OF f x(1)]] _ f x(1)]
        unfolding visit_forks_set [OF assms] by blast
      then show ?thesis using prunes_parent [OF f x D c2] True v by blast
    next
      case False
      then have d: "deleteForkFromChain env (le_Depth env) bc blocks = Inr blocks'" and v: "\<not> v" "c' = c2"
        using k by (auto simp: obind_Inr_iff)
      show ?thesis using deleteForkFromChain_below [OF assms f x d] v c2(1) unfolding prunes_def by blast
    qed
  qed
qed

section \<open>Updating the lengths\<close>

text \<open>The map with other lengths.\<close>

definition relength :: "(hash32 \<Rightarrow> int) \<Rightarrow> blocks \<Rightarrow> blocks" where
  "relength l m = (\<lambda>x. map_option (\<lambda>b. b\<lparr>bc_LengthOfChain := l x\<rparr>) (m x))"

lemma fork_set_length [simp]: "fork_set (b\<lparr>bc_LengthOfChain := n\<rparr>) = fork_set b"
  by (simp add: fork_set_def)

lemma below_relength [simp]: "below (relength l m) = below m"
  by (auto simp: below_def relength_def)

lemma forest_relength: "forest env rank m \<Longrightarrow> forest env rank (relength l m)"
  by (auto simp: forest_def relength_def) blast

lemma relength_relength [simp]: "relength l (relength k m) = relength l m"
  by (simp add: relength_def fun_eq_iff option.map_comp comp_def)

lemma relength_None [simp]: "relength l m x = None \<longleftrightarrow> m x = None"
  by (simp add: relength_def)

abbreviation lengths :: "blocks \<Rightarrow> hash32 \<Rightarrow> int" where
  "lengths m x \<equiv> bc_LengthOfChain (the (m x))"

lemma relength_lengths [simp]: "m x \<noteq> None \<Longrightarrow> lengths (relength l m) x = l x"
  by (auto simp: relength_def)

text \<open>
  Below \<open>roots\<close>, whose parent has length \<open>base\<close>, lengths are counted; elsewhere they stay, and \<open>len\<close> is
  the greatest of the new ones, that of the block \<open>hi\<close>.
\<close>

definition counted :: "blocks \<Rightarrow> hash32 set \<Rightarrow> int \<Rightarrow> (hash32 \<Rightarrow> int) \<Rightarrow> bool" where
  "counted m roots base l = ((\<forall>x \<in> roots. l x = base + 1)
     \<and> (\<forall>x \<in> roots. \<forall>y. (x, y) \<in> (below m)\<^sup>* \<longrightarrow> (\<exists>b. m y = Some b \<and> (\<forall>f \<in> fork_set b. l f = l y + 1)))
     \<and> (\<forall>y b. m y = Some b \<longrightarrow> (\<forall>x \<in> roots. (x, y) \<notin> (below m)\<^sup>*) \<longrightarrow> l y = bc_LengthOfChain b))"

definition tops :: "blocks \<Rightarrow> hash32 set \<Rightarrow> (hash32 \<Rightarrow> int) \<Rightarrow> int \<Rightarrow> blockOfChain \<Rightarrow> bool" where
  "tops m roots l len hi = ((\<forall>x \<in> roots. \<forall>y. (x, y) \<in> (below m)\<^sup>* \<longrightarrow> l y \<le> len)
     \<and> (\<exists>x \<in> roots. \<exists>y. (x, y) \<in> (below m)\<^sup>* \<and> relength l m y = Some hi \<and> l y = len))"

lemma tops_relength [simp]: "tops (relength k m) roots l len hi = tops m roots l len hi"
  by (simp add: tops_def)

lemma counted_relength:
  assumes "counted (relength k m) roots base l"
  shows "\<forall>x \<in> roots. l x = base + 1"
    and "\<forall>x \<in> roots. \<forall>y. (x, y) \<in> (below m)\<^sup>* \<longrightarrow> (\<exists>b. m y = Some b \<and> (\<forall>f \<in> fork_set b. l f = l y + 1))"
    and "m y = Some b \<Longrightarrow> (\<forall>x \<in> roots. (x, y) \<notin> (below m)\<^sup>*) \<Longrightarrow> l y = k y"
proof -
  note c = assms [unfolded counted_def below_relength]
  show "\<forall>x \<in> roots. l x = base + 1" using c by blast
  show "\<forall>x \<in> roots. \<forall>y. (x, y) \<in> (below m)\<^sup>* \<longrightarrow> (\<exists>b. m y = Some b \<and> (\<forall>f \<in> fork_set b. l f = l y + 1))"
    using c by (fastforce simp: relength_def)
  show "l y = k y" if "m y = Some b" "\<forall>x \<in> roots. (x, y) \<notin> (below m)\<^sup>*"
    using c that by (auto simp: relength_def)
qed

definition update_spec :: "ledger_env \<Rightarrow> (hash32 \<Rightarrow> nat) \<Rightarrow> (hash32 \<Rightarrow> block_map \<Rightarrow> measured) \<Rightarrow> bool" where
  "update_spec env rank update = (\<forall>blocks x bc p len hi blocks'. forest env rank (gm_load blocks) \<longrightarrow> gm_load blocks x = Some bc \<longrightarrow> x \<noteq> zero32
     \<longrightarrow> (x, prev_of bc) \<notin> (below (gm_load blocks))\<^sup>* \<longrightarrow> gm_load blocks (prev_of bc) = Some p
     \<longrightarrow> update x blocks = Inr (len, hi, blocks')
     \<longrightarrow> (\<exists>l. gm_load blocks' = relength l (gm_load blocks) \<and> counted (gm_load blocks) {x} (bc_LengthOfChain p) l
          \<and> tops (gm_load blocks) {x} l len hi))"

lemma longest_fork_below:
  assumes IH: "update_spec env rank update" and x: "x \<noteq> zero32"
    and present: "\<And>h b r. update h b = Inr r \<Longrightarrow> \<exists>nb. gm_load b h = Some nb"
    and "longest_fork update hs len0 hi0 b1 = Inr (len, hi, b2)" "distinct hs" "set hs \<subseteq> fork_set bc"
    and "forest env rank (gm_load b1)" "gm_load b1 x = Some bc"
  shows "\<exists>l. gm_load b2 = relength l (gm_load b1) \<and> counted (gm_load b1) (set hs) (bc_LengthOfChain bc) l
    \<and> len0 \<le> len \<and> (\<forall>h \<in> set hs. \<forall>y. (h, y) \<in> (below (gm_load b1))\<^sup>* \<longrightarrow> l y \<le> len)
    \<and> (len = len0 \<and> hi = hi0 \<or> tops (gm_load b1) (set hs) l len hi)"
  using assms(4-)
proof (induction hs arbitrary: len0 hi0 b1 bc)
  case Nil
  have "gm_load b1 = relength (lengths (gm_load b1)) (gm_load b1)"
    by (auto simp: relength_def fun_eq_iff map_option_case split: option.splits)
  then show ?case using Nil by (auto simp: counted_def intro!: exI [of _ "lengths (gm_load b1)"])
next
  case (Cons h hs)
  note g = Cons.prems(4,5)
  let ?m = "gm_load b1"
  obtain len1 hi1 b3 where u: "update h b1 = Inr (len1, hi1, b3)"
    and r: "longest_fork update hs (max len0 len1) (if len1 > len0 then hi1 else hi0) b3 = Inr (len, hi, b2)"
    using Cons.prems(1) by (auto simp: obind_Inr_iff max_def not_less split: if_splits)
  have h: "h \<noteq> zero32" "h \<in> fork_set bc" "h \<notin> set hs" "set hs \<subseteq> fork_set bc" using forestD(3) [OF g] Cons.prems(2,3) by auto
  have nb: "\<exists>nb. ?m h = Some nb" using present u by blast
  then obtain nb where nb: "?m h = Some nb" by blast
  have "prev_of nb = x" using forestD(5) [OF g h(2) x nb] .
  moreover have "(h, x) \<notin> (below ?m)\<^sup>*" using below_rank [OF g(1) _ h(1)] forestD(4) [OF g h(2) x] by (meson leD)
  ultimately obtain l1 where l1: "gm_load b3 = relength l1 ?m" "counted ?m {h} (bc_LengthOfChain bc) l1" "tops ?m {h} l1 len1 hi1"
    using IH [unfolded update_spec_def, rule_format, OF g(1) nb h(1) _ _ u] g(2) \<open>(h, x) \<notin> _\<close> by metis
  have "l1 x = bc_LengthOfChain bc" using l1(2) g(2) \<open>(h, x) \<notin> _\<close> unfolding counted_def by blast
  then have x3: "gm_load b3 x = Some bc" using g(2) l1(1) by (simp add: relength_def)
  obtain l2 where l2: "gm_load b2 = relength l2 ?m" "counted (gm_load b3) (set hs) (bc_LengthOfChain bc) l2" "max len0 len1 \<le> len"
    "\<forall>h \<in> set hs. \<forall>y. (h, y) \<in> (below ?m)\<^sup>* \<longrightarrow> l2 y \<le> len"
    "len = max len0 len1 \<and> hi = (if len1 > len0 then hi1 else hi0) \<or> tops (gm_load b3) (set hs) l2 len hi"
    using Cons.IH [OF r _ h(4) _ x3] forest_relength [OF g(1)] Cons.prems(2) unfolding l1(1) by auto
  note c2 = counted_relength [OF l2(2) [unfolded l1(1)]]
  have same: "l2 y = l1 y" if y: "(h, y) \<in> (below ?m)\<^sup>*" for y
  proof -
    obtain b where b: "?m y = Some b" using l1(2) y unfolding counted_def by blast
    have "(h', y) \<notin> (below ?m)\<^sup>*" if h': "h' \<in> set hs" for h'
    proof (rule siblings_apart [OF g x h(2) _ _ _ _ y])
      show "h' \<in> fork_set bc" "h \<noteq> h'" using h' h(3,4) by auto
      show "\<forall>y. (h, y) \<in> (below ?m)\<^sup>* \<longrightarrow> ?m y \<noteq> None" using l1(2) unfolding counted_def by blast
      show "?m h' \<noteq> None" using c2(2) h' by blast
    qed
    then show ?thesis using c2(3) [OF b] by blast
  qed
  have "counted ?m (insert h (set hs)) (bc_LengthOfChain bc) l2"
    unfolding counted_def
  proof (intro conjI ballI allI impI)
    show "l2 h' = bc_LengthOfChain bc + 1" if "h' \<in> insert h (set hs)" for h'
      using that c2(1) same [of h] l1(2) unfolding counted_def by auto
    show "\<exists>b. ?m y = Some b \<and> (\<forall>f \<in> fork_set b. l2 f = l2 y + 1)" if h': "h' \<in> insert h (set hs)" and y: "(h', y) \<in> (below ?m)\<^sup>*" for h' y
    proof (cases "h' = h")
      case True
      then obtain b where b: "?m y = Some b" "\<forall>f \<in> fork_set b. l1 f = l1 y + 1" using l1(2) y unfolding counted_def by blast
      have "(h, f) \<in> (below ?m)\<^sup>*" if "f \<in> fork_set b" for f
        using y True that b(1) by (auto simp: below_def intro: rtrancl.rtrancl_into_rtrancl)
      then show ?thesis using b same y True by auto
    next
      case False
      then show ?thesis using c2(2) h' y by blast
    qed
    show "l2 y = bc_LengthOfChain b" if y: "?m y = Some b" and n: "\<forall>h' \<in> insert h (set hs). (h', y) \<notin> (below ?m)\<^sup>*" for y b
      using c2(3) [OF y] n l1(2) y unfolding counted_def by simp
  qed
  moreover have "\<forall>h' \<in> insert h (set hs). \<forall>y. (h', y) \<in> (below ?m)\<^sup>* \<longrightarrow> l2 y \<le> len"
    using l2(3,4) same l1(3) unfolding tops_def by fastforce
  moreover have "len = len0 \<and> hi = hi0 \<or> tops ?m (insert h (set hs)) l2 len hi"
  proof -
    have top: "\<exists>y. (h, y) \<in> (below ?m)\<^sup>* \<and> relength l2 ?m y = Some hi1 \<and> l2 y = len1"
      using l1(3) same unfolding tops_def relength_def by fastforce
    consider (first) "len = len1" "hi = hi1" | (old) "len = len0" "hi = hi0" | (rest) "tops ?m (set hs) l2 len hi"
      using l2(5) unfolding l1(1) tops_relength max_def by (auto split: if_splits)
    then show ?thesis
    proof cases
      case first
      then show ?thesis using top calculation(2) unfolding tops_def by blast
    next
      case rest
      then show ?thesis using calculation(2) unfolding tops_def by blast
    qed blast
  qed
  ultimately show ?case using l2(1,3) by (intro exI [of _ l2]) simp
qed

lemma recursiveUpdateLength_below:
  assumes "order_ok env"
  shows "update_spec env rank (recursiveUpdateLength env n)"
proof (induction n)
  case 0
  then show ?case by (simp add: update_spec_def)
next
  case (Suc n)
  show ?case unfolding update_spec_def
  proof (intro allI impI)
    fix blocks blocks' :: block_map and x bc p len hi
    let ?m = "gm_load blocks"
    assume f: "forest env rank ?m" and x: "?m x = Some bc" "x \<noteq> zero32" and p: "(x, prev_of bc) \<notin> (below ?m)\<^sup>*" "?m (prev_of bc) = Some p"
      and r: "recursiveUpdateLength env (Suc n) x blocks = Inr (len, hi, blocks')"
    define bc1 where "bc1 = bc\<lparr>bc_LengthOfChain := bc_LengthOfChain p + 1\<rparr>"
    define l0 where "l0 = (lengths ?m)(x := bc_LengthOfChain p + 1)"
    have m1: "gm_load (gm_store x bc1 blocks) = relength l0 ?m"
      using x(1) by (auto simp: fun_eq_iff relength_def l0_def bc1_def map_option_case split: option.splits)
    have "longest_fork (recursiveUpdateLength env n) (visit_forks env bc1) (bc_LengthOfChain bc1) bc1 (gm_store x bc1 blocks) = Inr (len, hi, blocks')"
      using r x(1) p(2) by (simp add: obind_Inr_iff getBlock_def bc1_def Let_def)
    moreover have "\<exists>nb. gm_load b h = Some nb" if "recursiveUpdateLength env n h b = Inr r" for h b r
      using that by (cases n) (auto simp: obind_Inr_iff)
    moreover have fb: "fork_set bc1 = fork_set bc" "gm_wf (bc_Forks bc1)" using forestD(1) [OF f x(1)] by (simp_all add: bc1_def)
    moreover have "gm_load (gm_store x bc1 blocks) x = Some bc1" by simp
    moreover have "forest env rank (gm_load (gm_store x bc1 blocks))" unfolding m1 by (rule forest_relength [OF f])
    ultimately obtain l where l: "gm_load blocks' = relength l ?m" "counted (relength l0 ?m) (fork_set bc) (bc_LengthOfChain bc1) l"
      "bc_LengthOfChain bc1 \<le> len" "\<forall>h \<in> fork_set bc. \<forall>y. (h, y) \<in> (below ?m)\<^sup>* \<longrightarrow> l y \<le> len"
      "len = bc_LengthOfChain bc1 \<and> hi = bc1 \<or> tops ?m (fork_set bc) l len hi"
      using longest_fork_below [OF Suc.IH x(2), of "visit_forks env bc1" "bc_LengthOfChain bc1" bc1 "gm_store x bc1 blocks" len hi blocks' bc1]
        visit_forks_distinct [OF assms, of bc1] unfolding m1 visit_forks_set [OF assms] by auto
    note c = counted_relength [OF l(2)]
    have step: "(x, h) \<in> below ?m" if "h \<in> fork_set bc" for h using that x(1) by (auto simp: below_def)
    have up: "(x, y) \<in> (below ?m)\<^sup>*" if "h \<in> fork_set bc" "(h, y) \<in> (below ?m)\<^sup>*" for h y
      by (rule converse_rtrancl_into_rtrancl [OF step [OF that(1)] that(2)])
    have down: "\<exists>h \<in> fork_set bc. (h, y) \<in> (below ?m)\<^sup>*" if "(x, y) \<in> (below ?m)\<^sup>*" "y \<noteq> x" for y
      using converse_rtranclE [OF that(1)] that(2) x(1) unfolding below_def by fastforce
    have nx: "(h, x) \<notin> (below ?m)\<^sup>*" if "h \<in> fork_set bc" for h
      using below_rank [OF f, of h x] forestD(3,4) [OF f x(1) that] x(2) by fastforce
    have lx: "l x = bc_LengthOfChain p + 1" using c(3) [OF x(1)] nx by (simp add: l0_def)
    have "counted ?m {x} (bc_LengthOfChain p) l"
      unfolding counted_def
    proof (intro conjI ballI allI impI)
      show "l x' = bc_LengthOfChain p + 1" if "x' \<in> {x}" for x' using that lx by simp
      show "\<exists>b. ?m y = Some b \<and> (\<forall>f \<in> fork_set b. l f = l y + 1)" if "x' \<in> {x}" "(x', y) \<in> (below ?m)\<^sup>*" for x' y
        using c(1,2) down [of y] that x(1) lx unfolding bc1_def by (cases "y = x") auto
      show "l y = bc_LengthOfChain b" if "?m y = Some b" "\<forall>x' \<in> {x}. (x', y) \<notin> (below ?m)\<^sup>*" for y b
      proof -
        have "\<forall>h \<in> fork_set bc. (h, y) \<notin> (below ?m)\<^sup>*" "y \<noteq> x" using up [of _ y] that(2) by auto
        then show ?thesis using c(3) [OF that(1)] that(1) by (simp add: l0_def)
      qed
    qed
    moreover have "tops ?m {x} l len hi"
    proof -
      have "l y \<le> len" if "(x, y) \<in> (below ?m)\<^sup>*" for y
        using down [OF that] l(3,4) lx unfolding bc1_def by (cases "y = x") auto
      moreover have "relength l ?m x = Some bc1" using x(1) lx by (simp add: relength_def bc1_def)
      then have "\<exists>y. (x, y) \<in> (below ?m)\<^sup>* \<and> relength l ?m y = Some hi \<and> l y = len"
        using l(5) up lx unfolding tops_def bc1_def by auto
      ultimately show ?thesis unfolding tops_def by blast
    qed
    ultimately show "\<exists>l. gm_load blocks' = relength l ?m \<and> counted ?m {x} (bc_LengthOfChain p) l \<and> tops ?m {x} l len hi"
      using l(1) by blast
  qed
qed

end
