(* ===== verification/LedgerInvariant.thy ===== *)
theory LedgerInvariant
  imports Ledger
begin

text \<open>
  The invariant of the ledger and its preservation by the insertion of a block, step by step: the new
  block, then each orphan that was waiting for it, which is deleted with all blocks below it, or moved
  below the new block.
\<close>

section \<open>The invariant\<close>

text \<open>
  The blocks of \<open>S\<close> are forks of the genesis block although their parent is known: the orphans that are
  still to be moved while a block is inserted.
\<close>

definition root_of :: "hash32 set \<Rightarrow> blocks \<Rightarrow> hash32 \<Rightarrow> blockOfChain \<Rightarrow> hash32" where
  "root_of S m f b = (if m (prev_of b) = None \<or> f \<in> S then zero32 else prev_of b)"

definition well_linked :: "ledger_env \<Rightarrow> (hash32 \<Rightarrow> nat) \<Rightarrow> hash32 set \<Rightarrow> blocks \<Rightarrow> bool" where
  "well_linked env rank S m = (forest env rank m
     \<and> (\<exists>g. m zero32 = Some g \<and> bc_Block g = bc_Block newGenesisBlock \<and> bc_LengthOfChain g = 0)
     \<and> (\<forall>h b f. m h = Some b \<longrightarrow> f \<in> fork_set b \<longrightarrow> m f \<noteq> None)
     \<and> (\<forall>f b. m f = Some b \<longrightarrow> f \<noteq> zero32 \<longrightarrow> rank (prev_of b) < rank f)
     \<and> (\<forall>f b h p. m f = Some b \<longrightarrow> f \<noteq> zero32 \<longrightarrow> m h = Some p \<longrightarrow> f \<in> fork_set p \<longleftrightarrow> h = root_of S m f b)
     \<and> (\<forall>f b p. m f = Some b \<longrightarrow> f \<noteq> zero32 \<longrightarrow> m (root_of S m f b) = Some p \<longrightarrow> bc_LengthOfChain b = bc_LengthOfChain p + 1))"

lemma well_linkedD:
  assumes "well_linked env rank S m"
  shows "forest env rank m"
    and "\<exists>g. m zero32 = Some g \<and> bc_Block g = bc_Block newGenesisBlock \<and> bc_LengthOfChain g = 0"
    and "m h = Some b \<Longrightarrow> f \<in> fork_set b \<Longrightarrow> m f \<noteq> None"
    and "m f = Some b \<Longrightarrow> f \<noteq> zero32 \<Longrightarrow> rank (prev_of b) < rank f"
    and "m f = Some b \<Longrightarrow> f \<noteq> zero32 \<Longrightarrow> m h = Some p \<Longrightarrow> f \<in> fork_set p \<longleftrightarrow> h = root_of S m f b"
    and "m f = Some b \<Longrightarrow> f \<noteq> zero32 \<Longrightarrow> m (root_of S m f b) = Some p \<Longrightarrow> bc_LengthOfChain b = bc_LengthOfChain p + 1"
  using assms unfolding well_linked_def by blast+

text \<open>The steps from a block to its parent.\<close>

definition up :: "hash32 set \<Rightarrow> blocks \<Rightarrow> (hash32 \<times> hash32) set" where
  "up S m = {(x, y). x \<noteq> zero32 \<and> x \<notin> S \<and> m y \<noteq> None \<and> (\<exists>b. m x = Some b \<and> y = prev_of b)}"

definition names_at :: "blocks \<Rightarrow> hash32 \<Rightarrow> string set" where
  "names_at m x = (case m x of None \<Rightarrow> {} | Some b \<Rightarrow> set (bc_names b))"

text \<open>No name twice in a block whose parent is known, and none in two blocks of a chain.\<close>

definition unique_names :: "hash32 set \<Rightarrow> blocks \<Rightarrow> bool" where
  "unique_names S m = ((\<forall>x b y. m x = Some b \<longrightarrow> (x, y) \<in> up S m \<longrightarrow> distinct (bc_names b))
     \<and> (\<forall>x y. (x, y) \<in> (up S m)\<^sup>+ \<longrightarrow> names_at m x \<inter> names_at m y = {}))"

lemma root_known: "well_linked env rank S m \<Longrightarrow> m (root_of S m f b) \<noteq> None"
  using well_linkedD(2) unfolding root_of_def by fastforce

lemma up_below:
  assumes "well_linked env rank S m" "(x, y) \<in> up S m"
  shows "(y, x) \<in> below m"
proof -
  obtain b p where b: "m x = Some b" "x \<noteq> zero32" "x \<notin> S" "y = prev_of b" "m y = Some p" using assms(2) unfolding up_def by auto
  then have "x \<in> fork_set p" using well_linkedD(5) [OF assms(1) b(1,2,5)] by (simp add: root_of_def)
  then show ?thesis using b(5) by (auto simp: below_def)
qed

lemma up_below_rtrancl:
  assumes "well_linked env rank S m" "(x, y) \<in> (up S m)\<^sup>*"
  shows "(y, x) \<in> (below m)\<^sup>*"
  using assms(2)
proof (induction rule: rtrancl_induct)
  case (step y z)
  then show ?case using up_below [OF assms(1)] by (meson converse_rtrancl_into_rtrancl)
qed simp

lemma up_rank:
  assumes "well_linked env rank S m" "(x, y) \<in> (up S m)\<^sup>*"
  shows "rank y \<le> rank x"
  using assms(2)
proof (induction rule: rtrancl_induct)
  case (step y z)
  then obtain b where "m y = Some b" "y \<noteq> zero32" "z = prev_of b" unfolding up_def by auto
  then show ?case using well_linkedD(4) [OF assms(1)] step.IH by fastforce
qed simp

lemma length_positive:
  assumes "well_linked env rank S m"
  shows "m x = Some b \<Longrightarrow> (if x = zero32 then 0 else 1) \<le> bc_LengthOfChain b"
proof (induction "rank x" arbitrary: x b rule: less_induct)
  case less
  show ?case
  proof (cases "x = zero32")
    case True
    then show ?thesis using well_linkedD(2) [OF assms] less.prems by auto
  next
    case False
    obtain p where p: "m (root_of S m x b) = Some p" using root_known [OF assms] by blast
    have "0 \<le> bc_LengthOfChain p"
    proof (cases "root_of S m x b = zero32")
      case True
      then show ?thesis using well_linkedD(2) [OF assms] p by auto
    next
      case False
      then have "root_of S m x b = prev_of b" by (simp add: root_of_def split: if_splits)
      then show ?thesis using less.hyps [OF _ p] well_linkedD(4) [OF assms less.prems \<open>x \<noteq> zero32\<close>] False by simp
    qed
    then show ?thesis using well_linkedD(6) [OF assms less.prems False p] False by simp
  qed
qed

section \<open>A new block\<close>

definition add_fork :: "hash32 \<Rightarrow> blockOfChain \<Rightarrow> blockOfChain" where
  "add_fork h b = b\<lparr>bc_Forks := gm_store h True (bc_Forks b)\<rparr>"

lemma add_fork_simps [simp]:
  "bc_Block (add_fork h b) = bc_Block b" "bc_LengthOfChain (add_fork h b) = bc_LengthOfChain b"
  "fork_set (add_fork h b) = insert h (fork_set b)"
  by (simp_all add: add_fork_def fork_set_def gm_keys_store)

text \<open>The block \<open>bc\<close> with hash \<open>h\<close> is put below \<open>r\<close>, its parent or the genesis block.\<close>

lemma new_block_linked:
  assumes l: "well_linked env rank {} m" and h: "m h = None" "Block_Hash env (bc_Block bc) = h" "rank (prev_of bc) < rank h"
    and r: "r = (if m (prev_of bc) = None then zero32 else prev_of bc)" "m r = Some p"
    and b: "bc_Forks bc = []" "bc_LengthOfChain bc = bc_LengthOfChain p + 1"
    and S: "S = {o'. o' \<noteq> zero32 \<and> (\<exists>ob. m o' = Some ob \<and> prev_of ob = h)}"
  shows "well_linked env rank S (m(r \<mapsto> add_fork h p, h \<mapsto> bc))"
proof -
  let ?m = "m(r \<mapsto> add_fork h p, h \<mapsto> bc)"
  have z: "h \<noteq> zero32" "h \<noteq> r" using well_linkedD(2) [OF l] h(1) r(2) by auto
  have fb: "fork_set bc = {}" by (simp add: fork_set_def b(1) gm_keys_def)
  have nf: "h \<notin> fork_set b" if "m x = Some b" for x b using well_linkedD(3) [OF l that, of h] h(1) by blast
  have m: "?m f = Some b \<longleftrightarrow> f = h \<and> b = bc \<or> f \<noteq> h \<and> (if f = r then b = add_fork h p else m f = Some b)" for f b by auto
  have old: "\<exists>b0. m f = Some b0 \<and> bc_Block b = bc_Block b0 \<and> bc_LengthOfChain b = bc_LengthOfChain b0 \<and> fork_set b = fork_set b0 \<union> (if f = r then {h} else {})
      \<and> (gm_wf (bc_Forks b0) \<longrightarrow> gm_wf (bc_Forks b))"
    if "?m f = Some b" "f \<noteq> h" for f b
    using that r(2) unfolding m by (auto simp: add_fork_def fork_set_def gm_keys_store split: if_splits)
  have root_h: "root_of S ?m h bc = r" using h r S by (auto simp: root_of_def)
  have root: "root_of S ?m f b = root_of {} m f b0" if "f \<noteq> zero32" "m f = Some b0" "bc_Block b = bc_Block b0" for f b b0
    using that h(1) r(2) by (auto simp: root_of_def S)
  show ?thesis unfolding well_linked_def
  proof (intro conjI allI impI)
    show "forest env rank ?m" unfolding forest_def
    proof (intro allI impI)
      fix x b
      assume x: "?m x = Some b"
      show "gm_wf (bc_Forks b) \<and> (x \<noteq> zero32 \<longrightarrow> Block_Hash env (bc_Block b) = x)
        \<and> (\<forall>f \<in> fork_set b. f \<noteq> zero32 \<and> (x \<noteq> zero32 \<longrightarrow> rank x < rank f \<and> (\<forall>b'. ?m f = Some b' \<longrightarrow> prev_of b' = x)))"
      proof (cases "x = h")
        case True
        have "gm_wf (bc_Forks bc)" by (simp add: b(1))
        then show ?thesis using True x h(2) fb by auto
      next
        case False
        then obtain b0 where b0: "m x = Some b0" "bc_Block b = bc_Block b0" "fork_set b = fork_set b0 \<union> (if x = r then {h} else {})"
          "gm_wf (bc_Forks b0) \<longrightarrow> gm_wf (bc_Forks b)" using old [OF x] by blast
        note f0 = forestD [OF well_linkedD(1) [OF l] b0(1)]
        have "f \<noteq> zero32 \<and> (x \<noteq> zero32 \<longrightarrow> rank x < rank f \<and> (\<forall>b'. ?m f = Some b' \<longrightarrow> prev_of b' = x))" if f: "f \<in> fork_set b" for f
        proof (cases "f = h")
          case True
          then have "x = r" using f b0(3) nf [OF b0(1)] by (auto split: if_splits)
          then show ?thesis using True z h(3) r(1) by (auto split: if_splits)
        next
          case False
          then have f': "f \<in> fork_set b0" using f b0(3) by (auto split: if_splits)
          show ?thesis using f0(3) [OF f'] f0(4,5) [OF f'] old [of f] False by fastforce
        qed
        then show ?thesis using b0 f0(1,2) by auto
      qed
    qed
    show "\<exists>g. ?m zero32 = Some g \<and> bc_Block g = bc_Block newGenesisBlock \<and> bc_LengthOfChain g = 0"
      using well_linkedD(2) [OF l] z(1) r(2) by auto
    show "?m f \<noteq> None" if "?m x = Some b" "f \<in> fork_set b" for x b f
      using old [OF that(1)] that fb well_linkedD(3) [OF l, of x _ f] r(2) by (cases "x = h") (auto split: if_splits)
    show "rank (prev_of b) < rank f" if "?m f = Some b" "f \<noteq> zero32" for f b
      using old [OF that(1)] that well_linkedD(4) [OF l, of f] h(3) by (cases "f = h") auto
    show "(f \<in> fork_set q) = (x = root_of S ?m f b)" if f: "?m f = Some b" "f \<noteq> zero32" and x: "?m x = Some q" for f b x q
    proof (cases "f = h")
      case True
      then have "b = bc" using f by simp
      then show ?thesis using True root_h z(2) old [OF x] nf x fb by (cases "x = h") (auto split: if_splits)
    next
      case False
      then obtain b0 where b0: "m f = Some b0" "bc_Block b = bc_Block b0" using old [OF f(1)] by blast
      have r0: "root_of S ?m f b = root_of {} m f b0" by (rule root [OF f(2) b0])
      show ?thesis
      proof (cases "x = h")
        case True
        then show ?thesis using x fb r0 root_known [OF l, of f b0] h(1) by auto
      next
        case False
        then obtain q0 where "m x = Some q0" "fork_set q = fork_set q0 \<union> (if x = r then {h} else {})" using old [OF x] by blast
        then show ?thesis using well_linkedD(5) [OF l b0(1) f(2), of x q0] r0 \<open>f \<noteq> h\<close> by auto
      qed
    qed
    show "bc_LengthOfChain b = bc_LengthOfChain q + 1" if f: "?m f = Some b" "f \<noteq> zero32" and q: "?m (root_of S ?m f b) = Some q" for f b q
    proof (cases "f = h")
      case True
      then show ?thesis using f q root_h z(2) b(2) by auto
    next
      case False
      then obtain b0 where b0: "m f = Some b0" "bc_Block b = bc_Block b0" "bc_LengthOfChain b = bc_LengthOfChain b0" using old [OF f(1)] by blast
      have q': "?m (root_of {} m f b0) = Some q" using q root [OF f(2) b0(1,2)] by simp
      have "root_of {} m f b0 \<noteq> h" using root_known [OF l, of f b0] h(1) by metis
      then obtain q0 where "m (root_of {} m f b0) = Some q0" "bc_LengthOfChain q = bc_LengthOfChain q0" using old [OF q'] by blast
      then show ?thesis using well_linkedD(6) [OF l b0(1) f(2)] b0(3) by simp
    qed
  qed
qed

text \<open>Only the blocks themselves matter for the names.\<close>

definition same_blocks :: "blocks \<Rightarrow> blocks \<Rightarrow> bool" where
  "same_blocks m m' = (\<forall>x. map_option bc_Block (m' x) = map_option bc_Block (m x))"

lemma same_blocks_eq:
  assumes "same_blocks m m'"
  shows "up S m' = up S m" "names_at m' = names_at m"
proof -
  have b: "map_option bc_Block (m' x) = map_option bc_Block (m x)" for x using assms unfolding same_blocks_def by blast
  have n: "(m' x = None) = (m x = None)" for x using b [of x] by (cases "m x"; cases "m' x") simp_all
  have e: "(\<exists>b. m' x = Some b \<and> y = prev_of b) = (\<exists>b. m x = Some b \<and> y = prev_of b)" for x y
    using b [of x] by (cases "m x"; cases "m' x") simp_all
  show "up S m' = up S m" unfolding up_def e n ..
  have "names_at m' x = names_at m x" for x
    using b [of x] by (cases "m x"; cases "m' x") (simp_all add: names_at_def bc_names_def)
  then show "names_at m' = names_at m" ..
qed

lemma new_block_names:
  assumes u: "unique_names {} m" and h: "m h = None" "prev_of bc \<noteq> h"
    and r: "m r = Some p" and S: "S = {o'. o' \<noteq> zero32 \<and> (\<exists>ob. m o' = Some ob \<and> prev_of ob = h)}"
    and n: "m (prev_of bc) \<noteq> None \<Longrightarrow> distinct (bc_names bc)
      \<and> (\<forall>y. (prev_of bc, y) \<in> (up {} m)\<^sup>* \<longrightarrow> names_at m y \<inter> set (bc_names bc) = {})"
  shows "unique_names S (m(r \<mapsto> add_fork h p, h \<mapsto> bc))"
    and "(h, y) \<in> (up S (m(r \<mapsto> add_fork h p, h \<mapsto> bc)))\<^sup>* \<Longrightarrow>
      names_at (m(r \<mapsto> add_fork h p, h \<mapsto> bc)) y = (if y = h then set (bc_names bc) else names_at m y)
      \<and> (y = h \<or> m (prev_of bc) \<noteq> None \<and> (prev_of bc, y) \<in> (up {} m)\<^sup>*)"
proof -
  let ?m = "m(r \<mapsto> add_fork h p, h \<mapsto> bc)"
  let ?e = "if m (prev_of bc) = None then up {} m else insert (h, prev_of bc) (up {} m)"
  have hr: "h \<noteq> r" using h(1) r by auto
  have names: "names_at ?m x = (if x = h then set (bc_names bc) else names_at m x)" for x
    using r by (auto simp: names_at_def bc_names_def)
  have sub: "up S ?m \<subseteq> ?e"
  proof
    fix e
    assume "e \<in> up S ?m"
    then obtain x y b where e: "e = (x, y)" "x \<noteq> zero32" "x \<notin> S" "?m y \<noteq> None" "?m x = Some b" "y = prev_of b" unfolding up_def by blast
    show "e \<in> ?e"
    proof (cases "x = h")
      case True
      then show ?thesis using e h r by (auto split: if_splits)
    next
      case False
      then obtain b0 where b0: "m x = Some b0" "prev_of b = prev_of b0" using e(5) r by (auto split: if_splits)
      then have "y \<noteq> h" using e S by auto
      then have "(x, y) \<in> up {} m" using e b0 r by (auto simp: up_def split: if_splits)
      then show ?thesis using e(1) by simp
    qed
  qed
  have noh: "(a, h) \<in> (up {} m)\<^sup>* \<Longrightarrow> a = h" for a
    using h(1) by (auto simp: up_def elim: rtranclE)
  have noh': "(h, a) \<in> (up {} m)\<^sup>* \<Longrightarrow> a = h" for a
    using h(1) by (auto simp: up_def elim: converse_rtranclE)
  have "distinct (bc_names b)" if x: "?m x = Some b" "(x, y) \<in> up S ?m" for x b y
  proof (cases "x = h")
    case True
    then have "m (prev_of bc) \<noteq> None" using subsetD [OF sub x(2)] h(1) by (auto simp: up_def split: if_splits)
    then show ?thesis using n True x(1) by simp
  next
    case False
    then have "(x, y) \<in> up {} m" using subsetD [OF sub x(2)] by (auto split: if_splits)
    then obtain b0 where "m x = Some b0" "distinct (bc_names b0)" using u unfolding unique_names_def up_def by blast
    then show ?thesis using x(1) False r by (auto simp: bc_names_def split: if_splits)
  qed
  moreover have "names_at ?m x \<inter> names_at ?m y = {}" if "(x, y) \<in> (up S ?m)\<^sup>+" for x y
  proof -
    have "(x, y) \<in> ?e\<^sup>+" using that sub by (meson subsetD trancl_mono)
    then have "(x, y) \<in> (up {} m)\<^sup>+ \<or> m (prev_of bc) \<noteq> None \<and> x = h \<and> (prev_of bc, y) \<in> (up {} m)\<^sup>*"
      using noh by (auto simp: trancl_insert split: if_splits)
    then show ?thesis
    proof (elim disjE conjE)
      assume xy: "(x, y) \<in> (up {} m)\<^sup>+"
      then have "x \<noteq> h" "y \<noteq> h" using h(1) by (auto simp: up_def elim: tranclE converse_tranclE)
      then show ?thesis using u xy unfolding unique_names_def names by simp
    next
      assume p: "m (prev_of bc) \<noteq> None" "x = h" "(prev_of bc, y) \<in> (up {} m)\<^sup>*"
      then have "y \<noteq> h" using noh h(2) by blast
      then show ?thesis using n [OF p(1)] p(2,3) unfolding names by auto
    qed
  qed
  ultimately show "unique_names S ?m" unfolding unique_names_def by blast
  assume "(h, y) \<in> (up S ?m)\<^sup>*"
  then have "(h, y) \<in> ?e\<^sup>*" using rtrancl_mono [OF sub] by blast
  then show "names_at ?m y = (if y = h then set (bc_names bc) else names_at m y)
      \<and> (y = h \<or> m (prev_of bc) \<noteq> None \<and> (prev_of bc, y) \<in> (up {} m)\<^sup>*)"
    using noh' unfolding names by (auto simp: rtrancl_insert split: if_splits)
qed

text \<open>The names of a chain that has been checked.\<close>

lemma claim_backwards_names:
  assumes "names_at (gm_load blocks) zero32 = {}"
  shows "claim_backwards n blocks x c = Inr (c', True) \<Longrightarrow> \<exists>c1. c' = Some c1 \<and> claimed c \<subseteq> claimed c1
    \<and> (\<forall>y. (x, y) \<in> (up {} (gm_load blocks))\<^sup>* \<longrightarrow> names_at (gm_load blocks) y \<inter> claimed c = {} \<and> names_at (gm_load blocks) y \<subseteq> claimed c1)"
proof (induction n arbitrary: x c)
  case (Suc n)
  let ?m = "gm_load blocks"
  show ?case
  proof (cases "x = zero32 \<or> ?m x = None")
    case True
    then have "y = x" if "(x, y) \<in> (up {} ?m)\<^sup>*" for y using that by (auto simp: up_def elim: converse_rtranclE)
    moreover have "names_at ?m x = {}" using True assms by (auto simp: names_at_def)
    moreover have "c' = Some c" using True Suc.prems by (cases "x = zero32") auto
    ultimately show ?thesis by blast
  next
    case False
    then obtain b where b: "?m x = Some b" by auto
    obtain c2 v where c2: "claim (bc_names b) c = (c2, v)" by fastforce
    have v: v and r: "claim_backwards n blocks (prev_of b) c2 = Inr (c', True)"
      using Suc.prems False b c2 by (auto simp: checkValidTransactions_def split: if_splits)
    obtain c1 where c1: "c' = Some c1" "claimed c2 \<subseteq> claimed c1"
      "\<forall>y. (prev_of b, y) \<in> (up {} ?m)\<^sup>* \<longrightarrow> names_at ?m y \<inter> claimed c2 = {} \<and> names_at ?m y \<subseteq> claimed c1"
      using Suc.IH [OF r] by blast
    note cl = claim_result [OF c2]
    have nb: "names_at ?m x = set (bc_names b)" using b by (simp add: names_at_def)
    have "names_at ?m y \<inter> claimed c = {} \<and> names_at ?m y \<subseteq> claimed c1" if y: "(x, y) \<in> (up {} ?m)\<^sup>*" for y
    proof (cases "y = x")
      case True
      then show ?thesis using nb cl v c1(2) by auto
    next
      case False
      then have "(prev_of b, y) \<in> (up {} ?m)\<^sup>*" using y b by (auto simp: up_def elim: converse_rtranclE)
      then show ?thesis using c1(3) cl by blast
    qed
    then show ?thesis using c1(1,2) cl by blast
  qed
qed simp

section \<open>An orphan that was waiting\<close>

text \<open>\<open>h\<close> is the new block, \<open>S\<close> the orphans that wait for it, and \<open>c\<close> the names claimed on its chain.\<close>

definition inserting :: "ledger_env \<Rightarrow> (hash32 \<Rightarrow> nat) \<Rightarrow> hash32 \<Rightarrow> hash32 set \<Rightarrow> SafeStringArray option \<Rightarrow> blocks \<Rightarrow> bool" where
  "inserting env rank h S c m = (well_linked env rank S m \<and> unique_names S m \<and> h \<noteq> zero32 \<and> m h \<noteq> None
     \<and> (\<forall>o' \<in> S. o' \<noteq> zero32 \<and> (\<exists>ob. m o' = Some ob \<and> prev_of ob = h))
     \<and> (\<forall>y. (h, y) \<in> (up S m)\<^sup>* \<longrightarrow> names_at m y \<subseteq> claimed_by c))"

lemma insertingD:
  assumes "inserting env rank h S c m"
  shows "well_linked env rank S m" "unique_names S m" "h \<noteq> zero32" "m h \<noteq> None"
    and "f \<in> S \<Longrightarrow> f \<noteq> zero32 \<and> (\<exists>ob. m f = Some ob \<and> prev_of ob = h)"
    and "(h, y) \<in> (up S m)\<^sup>* \<Longrightarrow> names_at m y \<subseteq> claimed_by c"
  using assms unfolding inserting_def by blast+

lemma below_present:
  assumes "well_linked env rank S m" "m x \<noteq> None" "(x, y) \<in> (below m)\<^sup>*"
  shows "m y \<noteq> None"
  using assms(3)
proof (induction rule: rtrancl_induct)
  case (step y z)
  then show ?case using well_linkedD(3) [OF assms(1)] by (auto simp: below_def)
qed (rule assms(2))

text \<open>An orphan is below no block but the genesis block.\<close>

lemma orphan_top:
  assumes "inserting env rank h S c m" "f \<in> S" "(x, f) \<in> (below m)\<^sup>*" "x \<noteq> zero32"
  shows "x = f"
proof (rule ccontr)
  note l = insertingD(1) [OF assms(1)]
  assume "x \<noteq> f"
  then obtain z where z: "(x, z) \<in> (below m)\<^sup>*" "(z, f) \<in> below m" using assms(3) by (meson rtranclE)
  obtain b where b: "f \<noteq> zero32" "m f = Some b" using insertingD(5) [OF assms(1,2)] by blast
  obtain p where p: "m z = Some p" "f \<in> fork_set p" using z(2) by (auto simp: below_def)
  then have "z = root_of S m f b" using well_linkedD(5) [OF l b(2,1) p(1)] by blast
  then have "z = zero32" using assms(2) by (simp add: root_of_def)
  then show False using below_rank [OF well_linkedD(1) [OF l] z(1) assms(4)] by blast
qed

lemma new_not_below_orphan:
  assumes "inserting env rank h S c m" "f \<in> S"
  shows "(f, h) \<notin> (below m)\<^sup>*"
proof
  note l = insertingD(1) [OF assms(1)]
  obtain b where b: "f \<noteq> zero32" "m f = Some b" "prev_of b = h" using insertingD(5) [OF assms] by blast
  assume "(f, h) \<in> (below m)\<^sup>*"
  then show False using below_rank [OF well_linkedD(1) [OF l] _ b(1)] well_linkedD(4) [OF l b(2,1)] b(3) by fastforce
qed

definition drop_fork :: "hash32 \<Rightarrow> blockOfChain \<Rightarrow> blockOfChain" where
  "drop_fork f b = b\<lparr>bc_Forks := gm_delete f (bc_Forks b)\<rparr>"

lemma drop_fork_simps [simp]:
  "bc_Block (drop_fork f b) = bc_Block b" "bc_LengthOfChain (drop_fork f b) = bc_LengthOfChain b"
  "fork_set (drop_fork f b) = fork_set b - {f}"
  by (auto simp: drop_fork_def fork_set_def set_gm_keys)

lemma drop_fork_wf: "gm_wf (bc_Forks b) \<Longrightarrow> gm_wf (bc_Forks (drop_fork f b))"
  by (simp add: drop_fork_def)

lemma below_drop:
  assumes "m zero32 = Some g"
  shows "below (m(zero32 \<mapsto> drop_fork f g)) = below m - {(zero32, f)}"
  using assms by (auto simp: below_def split: if_splits)

lemma below_drop_rtrancl:
  assumes "forest env rank m" "m zero32 = Some g" "x \<noteq> zero32"
  shows "(x, y) \<in> (below (m(zero32 \<mapsto> drop_fork f g)))\<^sup>* \<longleftrightarrow> (x, y) \<in> (below m)\<^sup>*"
proof
  show "(x, y) \<in> (below m)\<^sup>*" if "(x, y) \<in> (below (m(zero32 \<mapsto> drop_fork f g)))\<^sup>*"
    using that rtrancl_mono [of "below m - {(zero32, f)}" "below m"] unfolding below_drop [where m = m and g = g, OF assms(2)] by blast
  show "(x, y) \<in> (below (m(zero32 \<mapsto> drop_fork f g)))\<^sup>*" if "(x, y) \<in> (below m)\<^sup>*"
    using that
  proof (induction rule: rtrancl_induct)
    case (step y z)
    have "y \<noteq> zero32" using below_rank [OF assms(1) step.hyps(1) assms(3)] by blast
    then show ?case using step unfolding below_drop [where m = m and g = g, OF assms(2)] by (meson Diff_iff Pair_inject rtrancl.rtrancl_into_rtrancl singletonD)
  qed simp
qed

lemma forest_drop:
  assumes "forest env rank m" "m zero32 = Some g"
  shows "forest env rank (m(zero32 \<mapsto> drop_fork f g))"
proof -
  note g = forestD [OF assms]
  have "m h = Some b \<Longrightarrow> h \<noteq> zero32 \<Longrightarrow> k \<in> fork_set b \<Longrightarrow> k \<noteq> zero32" for h b k using forestD(3) [OF assms(1)] by blast
  then show ?thesis using assms drop_fork_wf [OF g(1)] unfolding forest_def by (auto split: if_splits)
qed

lemma orphan_deleted:
  assumes i: "inserting env rank h S c m" and f: "f \<in> S" and g: "m zero32 = Some g"
    and D: "D = {y. (f, y) \<in> (below m)\<^sup>*}"
  shows "inserting env rank h (S - {f}) c (cut D (m(zero32 \<mapsto> drop_fork f g)))"
proof -
  let ?m1 = "m(zero32 \<mapsto> drop_fork f g)"
  let ?m = "cut D ?m1"
  note l = insertingD(1) [OF i]
  note fo = well_linkedD(1) [OF l]
  obtain fb where fb: "f \<noteq> zero32" "m f = Some fb" "prev_of fb = h" using insertingD(5) [OF i f] by blast
  have D0: "zero32 \<notin> D" "f \<in> D" using below_rank [OF fo _ fb(1)] unfolding D by auto
  have hD: "h \<notin> D" using new_not_below_orphan [OF i f] unfolding D by blast
  have present: "m y \<noteq> None" if "y \<in> D" for y using below_present [OF l _, of f y] fb(2) that unfolding D by simp
  have below_D: "k \<in> D" if "m x = Some b" "k \<in> fork_set b" "x \<in> D" for x b k
  proof -
    have "(x, k) \<in> below m" using that(1,2) by (auto simp: below_def)
    then show ?thesis using that(3) unfolding D by (auto intro: rtrancl.rtrancl_into_rtrancl)
  qed
  have above_D: "x \<in> D" if x: "m x = Some b" "k \<in> fork_set b" "k \<in> D" "k \<noteq> f" for x b k
  proof -
    obtain z where z: "(f, z) \<in> (below m)\<^sup>*" "(z, k) \<in> below m" using x(3,4) unfolding D by (auto elim: rtranclE)
    obtain kb where kb: "m k = Some kb" using present x(3) by blast
    have "k \<noteq> zero32" using x(3) D0(1) by blast
    then have "z = x" using well_linkedD(5) [OF l kb] x(1,2) z(2) unfolding below_def by blast
    then show ?thesis using z(1) unfolding D by blast
  qed
  have old: "\<exists>b0. m x = Some b0 \<and> x \<notin> D \<and> bc_Block b = bc_Block b0 \<and> bc_LengthOfChain b = bc_LengthOfChain b0
      \<and> fork_set b = fork_set b0 - (if x = zero32 then {f} else {})" if "?m x = Some b" for x b
    using that g by (auto simp: cut_def split: if_splits)
  have root: "root_of (S - {f}) ?m x b = root_of S m x b0" if x: "m x = Some b0" "x \<noteq> zero32" "x \<notin> D" "bc_Block b = bc_Block b0" for x b b0
  proof -
    have "x \<noteq> f" using x(3) D0(2) by blast
    moreover have "x \<in> S" if p: "prev_of b0 \<in> D"
    proof (rule ccontr)
      assume "x \<notin> S"
      obtain pb where pb: "m (prev_of b0) = Some pb" using present [OF p] by blast
      then have "x \<in> fork_set pb" using well_linkedD(5) [OF l x(1,2) pb] \<open>x \<notin> S\<close> by (simp add: root_of_def)
      then show False using below_D [OF pb _ p] x(3) by blast
    qed
    ultimately show ?thesis using g x(4) by (auto simp: root_of_def cut_def)
  qed
  have "well_linked env rank (S - {f}) ?m" unfolding well_linked_def
  proof (intro conjI allI impI)
    show "forest env rank ?m" by (rule forest_cut [OF forest_drop [OF fo g]])
    show "\<exists>g. ?m zero32 = Some g \<and> bc_Block g = bc_Block newGenesisBlock \<and> bc_LengthOfChain g = 0"
      using well_linkedD(2) [OF l] g D0(1) by (simp add: cut_def)
    show "?m k \<noteq> None" if xk: "?m x = Some b" "k \<in> fork_set b" for x b k
    proof -
      obtain b0 where b0: "m x = Some b0" "x \<notin> D" "fork_set b = fork_set b0 - (if x = zero32 then {f} else {})" using old [OF xk(1)] by blast
      have k: "m k \<noteq> None" using well_linkedD(3) [OF l b0(1), of k] xk(2) b0(3) by (auto split: if_splits)
      have "k = f \<Longrightarrow> x = zero32"
        using well_linkedD(5) [OF l fb(2,1) b0(1)] xk(2) b0(3) f by (auto simp: root_of_def split: if_splits)
      then have "k \<notin> D" using above_D [OF b0(1), of k] b0(2,3) xk(2) by (auto split: if_splits)
      then show ?thesis using k by (simp add: cut_def)
    qed
    show "rank (prev_of b) < rank k" if "?m k = Some b" "k \<noteq> zero32" for k b
      using old [OF that(1)] well_linkedD(4) [OF l _ that(2)] by fastforce
    show "(k \<in> fork_set q) = (x = root_of (S - {f}) ?m k b)" if k: "?m k = Some b" "k \<noteq> zero32" and x: "?m x = Some q" for k b x q
    proof -
      obtain b0 where b0: "m k = Some b0" "k \<notin> D" "bc_Block b = bc_Block b0" using old [OF k(1)] by blast
      obtain q0 where q0: "m x = Some q0" "fork_set q = fork_set q0 - (if x = zero32 then {f} else {})" using old [OF x] by blast
      have "k \<noteq> f" using b0(2) D0(2) by blast
      then show ?thesis using well_linkedD(5) [OF l b0(1) k(2) q0(1)] root [OF b0(1) k(2) b0(2,3)] q0(2) by simp
    qed
    show "bc_LengthOfChain b = bc_LengthOfChain q + 1" if k: "?m k = Some b" "k \<noteq> zero32" and q: "?m (root_of (S - {f}) ?m k b) = Some q" for k b q
    proof -
      obtain b0 where b0: "m k = Some b0" "k \<notin> D" "bc_Block b = bc_Block b0" "bc_LengthOfChain b = bc_LengthOfChain b0" using old [OF k(1)] by blast
      obtain q0 where "m (root_of S m k b0) = Some q0" "bc_LengthOfChain q = bc_LengthOfChain q0"
        using old [OF q] root [OF b0(1) k(2) b0(2,3)] by auto
      then show ?thesis using well_linkedD(6) [OF l b0(1) k(2)] b0(4) by simp
    qed
  qed
  moreover have up: "up (S - {f}) ?m \<subseteq> up S m"
    using old D0(2) unfolding up_def by fastforce
  moreover have names: "names_at ?m x \<subseteq> names_at m x" for x
    using old [of x] by (cases "?m x") (auto simp: names_at_def bc_names_def)
  have "unique_names (S - {f}) ?m" unfolding unique_names_def
  proof (intro conjI allI impI)
    show "distinct (bc_names b)" if "?m x = Some b" "(x, y) \<in> up (S - {f}) ?m" for x b y
      using old [OF that(1)] subsetD [OF up that(2)] insertingD(2) [OF i] unfolding unique_names_def bc_names_def by metis
    show "names_at ?m x \<inter> names_at ?m y = {}" if "(x, y) \<in> (up (S - {f}) ?m)\<^sup>+" for x y
      using trancl_mono [OF that up] insertingD(2) [OF i] names [of x] names [of y] unfolding unique_names_def by blast
  qed
  moreover have "?m h \<noteq> None" using insertingD(3,4) [OF i] hD by (simp add: cut_def)
  moreover have "k \<noteq> zero32 \<and> (\<exists>ob. ?m k = Some ob \<and> prev_of ob = h)" if k: "k \<in> S - {f}" for k
  proof -
    have "k \<notin> D" using orphan_top [OF i _ _ fb(1), of k] k unfolding D by blast
    then show ?thesis using insertingD(5) [OF i, of k] k by (simp add: cut_def)
  qed
  moreover have "names_at ?m y \<subseteq> claimed_by c" if "(h, y) \<in> (up (S - {f}) ?m)\<^sup>*" for y
    using subsetD [OF rtrancl_mono [OF up] that] insertingD(6) [OF i] names by blast
  ultimately show ?thesis using insertingD(3) [OF i] unfolding inserting_def by blast
qed

text \<open>The orphan is dropped by the genesis block and becomes a fork of the new block.\<close>

definition moved :: "hash32 \<Rightarrow> hash32 \<Rightarrow> blocks \<Rightarrow> blocks" where
  "moved h f m = (let m = m(zero32 \<mapsto> drop_fork f (the (m zero32))); nb = the (m h); fb = the (m f)
     in m(h \<mapsto> add_fork f nb, f \<mapsto> fb\<lparr>bc_LengthOfChain := bc_LengthOfChain nb + 1\<rparr>))"

lemma moved_block:
  assumes "inserting env rank h S c m" "f \<in> S" "moved h f m x = Some b"
  shows "\<exists>b0. m x = Some b0 \<and> bc_Block b = bc_Block b0 \<and> (x \<noteq> f \<longrightarrow> bc_LengthOfChain b = bc_LengthOfChain b0)
    \<and> fork_set b = fork_set b0 - (if x = zero32 then {f} else {}) \<union> (if x = h then {f} else {})
    \<and> (gm_wf (bc_Forks b0) \<longrightarrow> gm_wf (bc_Forks b))"
proof -
  obtain g nb fb where b: "m zero32 = Some g" "h \<noteq> zero32" "m h = Some nb" "f \<noteq> zero32" "m f = Some fb" "f \<noteq> h"
    using insertingD [OF assms(1)] assms(2) well_linkedD(2,4) [OF insertingD(1) [OF assms(1)]] by (metis nat_less_le option.exhaust)
  then show ?thesis using assms(3) by (auto simp: moved_def Let_def drop_fork_wf add_fork_def [of f nb] split: if_splits)
      (auto simp: fork_set_def gm_keys_store)
qed

lemma moved_known:
  assumes "inserting env rank h S c m" "f \<in> S"
  shows "moved h f m x = None \<longleftrightarrow> m x = None"
  using insertingD(3,4,5) [OF assms(1)] assms(2) well_linkedD(2) [OF insertingD(1) [OF assms(1)]]
  by (auto simp: moved_def Let_def)

lemma below_moved:
  assumes "inserting env rank h S c m" "f \<in> S"
  shows "below (moved h f m) = insert (h, f) (below m - {(zero32, f)})"
proof (rule set_eqI)
  fix e :: "hash32 \<times> hash32"
  obtain nb where nb: "m h = Some nb" "h \<noteq> zero32" using insertingD(3,4) [OF assms(1)] by blast
  obtain x y where e: "e = (x, y)" by fastforce
  show "e \<in> below (moved h f m) \<longleftrightarrow> e \<in> insert (h, f) (below m - {(zero32, f)})"
  proof (cases "moved h f m x")
    case None
    moreover have "m x = None" using None moved_known [OF assms, of x] by simp
    ultimately show ?thesis using nb e by (auto simp: below_def)
  next
    case (Some b)
    then obtain b0 where b0: "m x = Some b0" "fork_set b = fork_set b0 - (if x = zero32 then {f} else {}) \<union> (if x = h then {f} else {})"
      using moved_block [OF assms Some] by blast
    have "e \<in> below (moved h f m) \<longleftrightarrow> y \<in> fork_set b" "e \<in> below m \<longleftrightarrow> y \<in> fork_set b0" using e Some b0(1) by (simp_all add: below_def)
    then show ?thesis unfolding b0(2) using nb(2) e by auto
  qed
qed

lemma below_moved_orphan:
  assumes "inserting env rank h S c m" "f \<in> S" "x \<noteq> zero32" "(x, h) \<notin> (below m)\<^sup>*"
  shows "(x, y) \<in> (below (moved h f m))\<^sup>* \<longleftrightarrow> (x, y) \<in> (below m)\<^sup>*"
proof
  let ?r = "below m - {(zero32, f)}"
  have sub: "?r\<^sup>* \<subseteq> (below m)\<^sup>*" by (rule rtrancl_mono) blast
  show "(x, y) \<in> (below m)\<^sup>*" if "(x, y) \<in> (below (moved h f m))\<^sup>*"
    using that assms(4) sub unfolding below_moved [OF assms(1,2)] rtrancl_insert by blast
  show "(x, y) \<in> (below (moved h f m))\<^sup>*" if "(x, y) \<in> (below m)\<^sup>*"
    using that
  proof (induction rule: rtrancl_induct)
    case (step y z)
    have "y \<noteq> zero32" using below_rank [OF well_linkedD(1) [OF insertingD(1) [OF assms(1)]] step.hyps(1) assms(3)] by blast
    then have "(y, z) \<in> below (moved h f m)" using step.hyps(2) unfolding below_moved [OF assms(1,2)] by blast
    then show ?case using step.IH by (rule rtrancl.rtrancl_into_rtrancl [rotated])
  qed simp
qed

lemma forest_moved:
  assumes i: "inserting env rank h S c m" and f: "f \<in> S"
  shows "forest env rank (moved h f m)"
  unfolding forest_def
proof (intro allI impI)
  fix x b
  note w = insertingD(1) [OF i]
  obtain fb where fb: "f \<noteq> zero32" "m f = Some fb" "prev_of fb = h" using insertingD(5) [OF i f] by blast
  assume "moved h f m x = Some b"
  then obtain b0 where b0: "m x = Some b0" "bc_Block b = bc_Block b0" "gm_wf (bc_Forks b0) \<longrightarrow> gm_wf (bc_Forks b)"
    "fork_set b = fork_set b0 - (if x = zero32 then {f} else {}) \<union> (if x = h then {f} else {})" using moved_block [OF i f] by blast
  note f0 = forestD [OF well_linkedD(1) [OF w] b0(1)]
  have "k \<noteq> zero32 \<and> (x \<noteq> zero32 \<longrightarrow> rank x < rank k \<and> (\<forall>b'. moved h f m k = Some b' \<longrightarrow> prev_of b' = x))" if k: "k \<in> fork_set b" for k
  proof (cases "k = f \<and> x = h")
    case True
    then show ?thesis using fb well_linkedD(4) [OF w fb(2,1)] moved_block [OF i f, of f] by auto
  next
    case False
    then have "k \<in> fork_set b0" using k b0(4) by (auto split: if_splits)
    then show ?thesis using f0(3,4,5) [of k] moved_block [OF i f, of k] by fastforce
  qed
  then show "gm_wf (bc_Forks b) \<and> (x \<noteq> zero32 \<longrightarrow> Block_Hash env (bc_Block b) = x)
    \<and> (\<forall>k \<in> fork_set b. k \<noteq> zero32 \<and> (x \<noteq> zero32 \<longrightarrow> rank x < rank k \<and> (\<forall>b'. moved h f m k = Some b' \<longrightarrow> prev_of b' = x)))"
    using f0(1,2) b0(2,3) by auto
qed

lemma orphan_moved_linked:
  assumes i: "inserting env rank h S c m" and f: "f \<in> S" and nb: "m h = Some nb"
    and l: "counted (moved h f m) {f} (bc_LengthOfChain nb) l"
  shows "well_linked env rank (S - {f}) (relength l (moved h f m))"
proof -
  let ?m = "relength l (moved h f m)"
  note w = insertingD(1) [OF i]
  note fo = well_linkedD(1) [OF w]
  obtain fb where fb: "f \<noteq> zero32" "m f = Some fb" "prev_of fb = h" using insertingD(5) [OF i f] by blast
  have hf: "(f, h) \<notin> (below m)\<^sup>*" "h \<noteq> f" using new_not_below_orphan [OF i f] by auto
  note bel = below_moved_orphan [OF i f fb(1) hf(1)]
  have old: "\<exists>b0. m x = Some b0 \<and> bc_Block b = bc_Block b0 \<and> bc_LengthOfChain b = l x
      \<and> fork_set b = fork_set b0 - (if x = zero32 then {f} else {}) \<union> (if x = h then {f} else {})
      \<and> (gm_wf (bc_Forks b0) \<longrightarrow> gm_wf (bc_Forks b))" if "?m x = Some b" for x b
  proof -
    obtain b1 where "moved h f m x = Some b1" "b = b1\<lparr>bc_LengthOfChain := l x\<rparr>" using \<open>?m x = Some b\<close> by (auto simp: relength_def)
    then show ?thesis using moved_block [OF i f, of x b1] by auto
  qed
  have same: "l x = bc_LengthOfChain b" if x: "m x = Some b" "(f, x) \<notin> (below m)\<^sup>*" for x b
  proof -
    obtain b1 where b1: "moved h f m x = Some b1" using moved_known [OF i f, of x] x(1) by auto
    then have "l x = bc_LengthOfChain b1" using l x(2) bel unfolding counted_def by blast
    moreover have "x \<noteq> f" using x(2) by blast
    ultimately show ?thesis using moved_block [OF i f b1] x(1) by auto
  qed
  have root: "root_of (S - {f}) ?m x b = (if x = f then h else root_of S m x b0)" if "m x = Some b0" "bc_Block b = bc_Block b0" for x b b0
    using that fb nb moved_known [OF i f] by (auto simp: root_of_def)
  show ?thesis unfolding well_linked_def
  proof (intro conjI allI impI)
    show "forest env rank ?m" by (rule forest_relength [OF forest_moved [OF i f]])
    obtain g where g: "m zero32 = Some g" "bc_Block g = bc_Block newGenesisBlock" "bc_LengthOfChain g = 0" using well_linkedD(2) [OF w] by blast
    have "(f, zero32) \<notin> (below m)\<^sup>*" using below_rank [OF fo _ fb(1)] by blast
    then have "l zero32 = 0" using same [OF g(1)] g(3) by simp
    moreover obtain g1 where "?m zero32 = Some g1" using moved_known [OF i f, of zero32] g(1) by (metis option.exhaust relength_None option.distinct(1))
    ultimately show "\<exists>g. ?m zero32 = Some g \<and> bc_Block g = bc_Block newGenesisBlock \<and> bc_LengthOfChain g = 0"
      using old [of zero32 g1] g by auto
    show "?m k \<noteq> None" if xk: "?m x = Some b" "k \<in> fork_set b" for x b k
      using old [OF xk(1)] xk(2) well_linkedD(3) [OF w, of x _ k] fb(2) moved_known [OF i f, of k] by (auto split: if_splits)
    show "rank (prev_of b) < rank k" if "?m k = Some b" "k \<noteq> zero32" for k b
      using old [OF that(1)] well_linkedD(4) [OF w _ that(2)] by fastforce
    show "(k \<in> fork_set q) = (x = root_of (S - {f}) ?m k b)" if k: "?m k = Some b" "k \<noteq> zero32" and x: "?m x = Some q" for k b x q
    proof -
      obtain b0 where b0: "m k = Some b0" "bc_Block b = bc_Block b0" using old [OF k(1)] by blast
      obtain q0 where q0: "m x = Some q0" "fork_set q = fork_set q0 - (if x = zero32 then {f} else {}) \<union> (if x = h then {f} else {})"
        using old [OF x] by blast
      have "root_of S m f b0 = zero32" using f by (simp add: root_of_def)
      then show ?thesis using well_linkedD(5) [OF w b0(1) k(2) q0(1)] root [OF b0] q0(2) by (auto split: if_splits)
    qed
    show "bc_LengthOfChain b = bc_LengthOfChain q + 1" if k: "?m k = Some b" "k \<noteq> zero32" and q: "?m (root_of (S - {f}) ?m k b) = Some q" for k b q
    proof -
      obtain b0 where b0: "m k = Some b0" "bc_Block b = bc_Block b0" "bc_LengthOfChain b = l k" using old [OF k(1)] by blast
      define r where "r = (if k = f then h else root_of S m k b0)"
      have "?m r = Some q" using q root [OF b0(1,2)] unfolding r_def by simp
      then obtain q0 where q0: "m r = Some q0" "bc_LengthOfChain q = l r" using old by blast
      show ?thesis
      proof (cases "k = f")
        case True
        then show ?thesis using b0(3) q0 same [OF nb hf(1)] l nb unfolding counted_def r_def by simp
      next
        case False
        then have r: "root_of S m k b0 = r" by (simp add: r_def)
        have rk: "(r, k) \<in> below m" using well_linkedD(5) [OF w b0(1) k(2) q0(1)] r q0(1) unfolding below_def by blast
        show ?thesis
        proof (cases "(f, k) \<in> (below m)\<^sup>*")
          case True
          then obtain z where z: "(f, z) \<in> (below m)\<^sup>*" "(z, k) \<in> below m" using False by (metis rtranclE)
          have "z \<noteq> zero32" using below_rank [OF fo z(1) fb(1)] by blast
          moreover have "z = r" using well_linkedD(5) [OF w b0(1) k(2)] z(2) r unfolding below_def by blast
          ultimately obtain b1 where b1: "moved h f m r = Some b1" "\<forall>x \<in> fork_set b1. l x = l r + 1" "r \<noteq> zero32"
            using l z(1) bel unfolding counted_def by blast
          have "k \<in> fork_set q0" using rk q0(1) by (auto simp: below_def)
          then have "k \<in> fork_set b1" using moved_block [OF i f b1(1)] q0(1) b1(3) by auto
          then show ?thesis using b1(2) b0(3) q0(2) by simp
        next
          case False
          then have "(f, r) \<notin> (below m)\<^sup>*" using rk by (meson rtrancl.rtrancl_into_rtrancl)
          then show ?thesis using same [OF b0(1) False] same [OF q0(1)] b0(3) q0 well_linkedD(6) [OF w b0(1) k(2)] r by simp
        qed
      qed
    qed
  qed
qed

lemma orphan_moved:
  assumes i: "inserting env rank h S c m" and f: "f \<in> S" and nb: "m h = Some nb"
    and l: "counted (moved h f m) {f} (bc_LengthOfChain nb) l"
    and fresh: "\<And>y b. (f, y) \<in> (below m)\<^sup>* \<Longrightarrow> m y = Some b \<Longrightarrow> fresh_names c b"
  shows "inserting env rank h (S - {f}) c (relength l (moved h f m))"
proof -
  let ?m = "relength l (moved h f m)"
  note w = insertingD(1) [OF i]
  obtain fb where fb: "f \<noteq> zero32" "m f = Some fb" "prev_of fb = h" using insertingD(5) [OF i f] by blast
  have "map_option bc_Block (moved h f m x) = map_option bc_Block (m x)" for x
    using moved_block [OF i f, of x] moved_known [OF i f, of x] by (cases "moved h f m x") auto
  then have "same_blocks m ?m" unfolding same_blocks_def relength_def by (simp add: option.map_comp comp_def)
  note sb = same_blocks_eq [OF this]
  have up: "up (S - {f}) m = insert (f, h) (up S m)" using fb nb f by (auto simp: up_def)
  have noh: "(h, f) \<notin> (up S m)\<^sup>*"
    using up_rank [OF w, of h f] well_linkedD(4) [OF w fb(2,1)] fb(3) by auto
  have dist: "names_at m x \<inter> names_at m y = {}" if xy: "(x, y) \<in> (insert (f, h) (up S m))\<^sup>+" for x y
  proof -
    consider "(x, y) \<in> (up S m)\<^sup>+" | "(x, f) \<in> (up S m)\<^sup>*" "(h, y) \<in> (up S m)\<^sup>*" using xy unfolding trancl_insert by blast
    then show ?thesis
    proof cases
      case 1
      then show ?thesis using insertingD(2) [OF i] unfolding unique_names_def by blast
    next
      case 2
      have "names_at m x \<inter> claimed_by c = {}"
      proof (cases "m x")
        case (Some b)
        then show ?thesis using fresh [OF up_below_rtrancl [OF w 2(1)] Some] by (simp add: names_at_def fresh_names_def)
      qed (simp add: names_at_def)
      then show ?thesis using insertingD(6) [OF i 2(2)] by blast
    qed
  qed
  have "distinct (bc_names b)" if x: "?m x = Some b" "(x, y) \<in> up (S - {f}) m" for x b y
  proof -
    have "map_option bc_Block (m x) = Some (bc_Block b)" using \<open>same_blocks m ?m\<close> x(1) unfolding same_blocks_def by (metis option.simps(9))
    then obtain b0 where b0: "m x = Some b0" "bc_Block b0 = bc_Block b" by auto
    have "distinct (bc_names b0)"
    proof (cases "x = f")
      case True
      then show ?thesis using fresh [of f b0] b0(1) by (simp add: fresh_names_def)
    next
      case False
      then show ?thesis using x(2) b0(1) insertingD(2) [OF i] unfolding up unique_names_def by blast
    qed
    then show ?thesis using b0(2) by (simp add: bc_names_def)
  qed
  then have "unique_names (S - {f}) ?m" using dist unfolding unique_names_def sb up by blast
  moreover have "names_at m y \<subseteq> claimed_by c" if "(h, y) \<in> (up (S - {f}) m)\<^sup>*" for y
  proof -
    have "(h, y) \<in> (up S m)\<^sup>*" using that noh unfolding up rtrancl_insert by blast
    then show ?thesis by (rule insertingD(6) [OF i])
  qed
  moreover have "k \<noteq> zero32 \<and> (\<exists>ob. ?m k = Some ob \<and> prev_of ob = h)" if k: "k \<in> S - {f}" for k
  proof -
    obtain ob where ob: "k \<noteq> zero32" "m k = Some ob" "prev_of ob = h" using insertingD(5) [OF i, of k] k by blast
    then have "map_option bc_Block (?m k) = Some (bc_Block ob)" using \<open>same_blocks m ?m\<close> unfolding same_blocks_def by (metis option.simps(9))
    then show ?thesis using ob by auto
  qed
  ultimately show ?thesis using orphan_moved_linked [OF i f nb l] insertingD(3,4) [OF i] moved_known [OF i f, of h]
    unfolding inserting_def sb by simp
qed

section \<open>The longest chain\<close>

text \<open>
  \<open>hh\<close> is the head before the insertion, of length \<open>n\<close>, and \<open>b\<close> the new block: no chain is longer than the
  longest of these and the ones found so far, whose last block is \<open>hi\<close>.
\<close>

definition tracking :: "hash32 \<Rightarrow> hash32 \<Rightarrow> int \<Rightarrow> blockOfChain \<Rightarrow> hash32 set \<Rightarrow> int \<Rightarrow> blockOfChain \<Rightarrow> blocks \<Rightarrow> bool" where
  "tracking h hh n b S maxLen hi m = ((\<forall>x c. m x = Some c \<longrightarrow> bc_LengthOfChain c \<le> max (max n (bc_LengthOfChain b)) maxLen)
     \<and> (\<forall>c. m hh = Some c \<longrightarrow> n \<le> bc_LengthOfChain c)
     \<and> (\<exists>c. m h = Some c \<and> bc_Block c = bc_Block b \<and> bc_LengthOfChain c = bc_LengthOfChain b)
     \<and> (\<exists>y c. m y = Some c \<and> bc_Block c = bc_Block hi \<and> bc_LengthOfChain c = maxLen \<and> (\<forall>f \<in> S. (f, y) \<notin> (below m)\<^sup>*)))"

lemma tracking_deleted:
  assumes i: "inserting env rank h S c m" and f: "f \<in> S" and g: "m zero32 = Some g"
    and D: "D = {y. (f, y) \<in> (below m)\<^sup>*}" and t: "tracking h hh n b S maxLen hi m"
  shows "tracking h hh n b (S - {f}) maxLen hi (cut D (m(zero32 \<mapsto> drop_fork f g)))"
proof -
  let ?m = "cut D (m(zero32 \<mapsto> drop_fork f g))"
  have old: "\<exists>c0. m x = Some c0 \<and> bc_LengthOfChain c = bc_LengthOfChain c0" if "?m x = Some c" for x c
    using that g by (auto simp: cut_def split: if_splits)
  have new: "\<exists>c. ?m x = Some c \<and> bc_Block c = bc_Block c0 \<and> bc_LengthOfChain c = bc_LengthOfChain c0" if "m x = Some c0" "(f, x) \<notin> (below m)\<^sup>*" for x c0
    using that g by (auto simp: cut_def D)
  have "below ?m \<subseteq> below m" using below_cut [of D "m(zero32 \<mapsto> drop_fork f g)"] below_drop [where m = m and g = g, OF g] by auto
  then have sub: "(below ?m)\<^sup>* \<subseteq> (below m)\<^sup>*" by (rule rtrancl_mono)
  obtain y cy where y: "m y = Some cy" "bc_Block cy = bc_Block hi" "bc_LengthOfChain cy = maxLen" "\<forall>f \<in> S. (f, y) \<notin> (below m)\<^sup>*"
    using t unfolding tracking_def by blast
  have "\<forall>x c. ?m x = Some c \<longrightarrow> bc_LengthOfChain c \<le> max (max n (bc_LengthOfChain b)) maxLen"
    using old t unfolding tracking_def by metis
  moreover have "\<forall>c. ?m hh = Some c \<longrightarrow> n \<le> bc_LengthOfChain c" using old t unfolding tracking_def by metis
  moreover have "\<exists>c. ?m h = Some c \<and> bc_Block c = bc_Block b \<and> bc_LengthOfChain c = bc_LengthOfChain b"
    using new [OF _ new_not_below_orphan [OF i f]] t unfolding tracking_def by metis
  moreover have "\<exists>c. ?m y = Some c \<and> bc_Block c = bc_Block hi \<and> bc_LengthOfChain c = maxLen" using new [OF y(1)] y(2-4) f by auto
  moreover have "\<forall>f' \<in> S - {f}. (f', y) \<notin> (below ?m)\<^sup>*" using y(4) sub by blast
  ultimately show ?thesis unfolding tracking_def by blast
qed

text \<open>Lengths grow when an orphan is moved.\<close>

lemma moved_lengths:
  assumes i: "inserting env rank h S c m" and f: "f \<in> S" and nb: "m h = Some nb"
    and l: "counted (moved h f m) {f} (bc_LengthOfChain nb) l" and x: "m x = Some b"
  shows "bc_LengthOfChain b \<le> l x" "(f, x) \<notin> (below m)\<^sup>* \<Longrightarrow> l x = bc_LengthOfChain b"
proof -
  note w = insertingD(1) [OF i]
  obtain fb where fb: "f \<noteq> zero32" "m f = Some fb" "prev_of fb = h" using insertingD(5) [OF i f] by blast
  note bel = below_moved_orphan [OF i f fb(1) new_not_below_orphan [OF i f]]
  show same: "l x = bc_LengthOfChain b" if n: "(f, x) \<notin> (below m)\<^sup>*"
  proof -
    obtain b1 where b1: "moved h f m x = Some b1" using moved_known [OF i f, of x] x by auto
    then have "l x = bc_LengthOfChain b1" using l n bel unfolding counted_def by blast
    moreover have "x \<noteq> f" using n by blast
    ultimately show ?thesis using moved_block [OF i f b1] x by auto
  qed
  have grow: "\<exists>b. m y = Some b \<and> bc_LengthOfChain b \<le> l y" if "(f, y) \<in> (below m)\<^sup>*" for y
    using that
  proof (induction rule: rtrancl_induct)
    case base
    obtain g where g: "m zero32 = Some g" "bc_LengthOfChain g = 0" using well_linkedD(2) [OF w] by blast
    have "root_of S m f fb = zero32" using f by (simp add: root_of_def)
    then have "bc_LengthOfChain fb = 1" using well_linkedD(6) [OF w fb(2,1)] g by simp
    moreover have "1 \<le> bc_LengthOfChain nb" using length_positive [OF w nb] insertingD(3) [OF i] by simp
    ultimately show ?case using fb(2) l unfolding counted_def by simp
  next
    case (step y z)
    obtain by' where y: "m y = Some by'" "bc_LengthOfChain by' \<le> l y" using step.IH by blast
    have z: "z \<in> fork_set by'" using step.hyps(2) y(1) by (auto simp: below_def)
    obtain bz where bz: "m z = Some bz" using well_linkedD(3) [OF w y(1) z] by blast
    have nz: "z \<noteq> zero32" "y \<noteq> zero32"
      using forestD(3) [OF well_linkedD(1) [OF w] y(1) z] below_rank [OF well_linkedD(1) [OF w] step.hyps(1) fb(1)] by blast+
    have "root_of S m z bz = y" using well_linkedD(5) [OF w bz nz(1) y(1)] z by simp
    then have "bc_LengthOfChain bz = bc_LengthOfChain by' + 1" using well_linkedD(6) [OF w bz nz(1)] y(1) by simp
    moreover obtain b1 where b1: "moved h f m y = Some b1" "\<forall>k \<in> fork_set b1. l k = l y + 1"
      using l step.hyps(1) bel unfolding counted_def by blast
    have "z \<in> fork_set b1" using moved_block [OF i f b1(1)] y(1) z nz(2) by auto
    then have "l z = l y + 1" using b1(2) by blast
    ultimately show ?case using bz y(2) by simp
  qed
  show "bc_LengthOfChain b \<le> l x" using grow [of x] same x by (cases "(f, x) \<in> (below m)\<^sup>*") auto
qed

lemma tracking_moved:
  assumes i: "inserting env rank h S c m" and f: "f \<in> S" and nb: "m h = Some nb"
    and l: "counted (moved h f m) {f} (bc_LengthOfChain nb) l" "tops (moved h f m) {f} l len hi2"
    and t: "tracking h hh n b S maxLen hi m"
  shows "tracking h hh n b (S - {f}) (if len > maxLen then len else maxLen) (if len > maxLen then hi2 else hi) (relength l (moved h f m))"
proof -
  let ?m = "relength l (moved h f m)"
  obtain fb where fb: "f \<noteq> zero32" "m f = Some fb" "prev_of fb = h" using insertingD(5) [OF i f] by blast
  note bel = below_moved_orphan [OF i f fb(1) new_not_below_orphan [OF i f]]
  note len = moved_lengths [OF i f nb l(1)]
  have old: "\<exists>c0. m x = Some c0 \<and> bc_Block c = bc_Block c0 \<and> bc_LengthOfChain c = l x" if x: "?m x = Some c" for x c
  proof -
    obtain b1 where "moved h f m x = Some b1" "c = b1\<lparr>bc_LengthOfChain := l x\<rparr>" using x by (auto simp: relength_def)
    then show ?thesis using moved_block [OF i f, of x b1] by auto
  qed
  have new: "\<exists>c. ?m x = Some c \<and> bc_Block c = bc_Block c0 \<and> bc_LengthOfChain c = l x" if x: "m x = Some c0" for x c0
  proof -
    obtain c where "?m x = Some c" using moved_known [OF i f, of x] x by (metis option.exhaust relength_None option.distinct(1))
    then show ?thesis using old x by force
  qed
  have top: "l x \<le> len" if "(f, x) \<in> (below m)\<^sup>*" for x using l(2) that bel unfolding tops_def by blast
  have "bc_LengthOfChain c \<le> max (max n (bc_LengthOfChain b)) (if len > maxLen then len else maxLen)" if x: "?m x = Some c" for x c
  proof -
    obtain c0 where c0: "m x = Some c0" "bc_LengthOfChain c = l x" using old [OF x] by blast
    show ?thesis
    proof (cases "(f, x) \<in> (below m)\<^sup>*")
      case True
      then show ?thesis using top [OF True] c0(2) by auto
    next
      case False
      then have "l x \<le> max (max n (bc_LengthOfChain b)) maxLen" using len(2) [OF c0(1)] t c0(1) unfolding tracking_def by metis
      then show ?thesis using c0(2) by auto
    qed
  qed
  moreover have "n \<le> bc_LengthOfChain c" if x: "?m hh = Some c" for c
  proof -
    obtain c0 where c0: "m hh = Some c0" "bc_LengthOfChain c = l hh" using old [OF x] by blast
    then have "n \<le> bc_LengthOfChain c0" using t unfolding tracking_def by blast
    then show ?thesis using len(1) [OF c0(1)] c0(2) by simp
  qed
  moreover have "\<exists>c. ?m h = Some c \<and> bc_Block c = bc_Block b \<and> bc_LengthOfChain c = bc_LengthOfChain b"
  proof -
    have "bc_Block nb = bc_Block b" "bc_LengthOfChain nb = bc_LengthOfChain b" using t nb unfolding tracking_def by auto
    then show ?thesis using new [OF nb] len(2) [OF nb new_not_below_orphan [OF i f]] by simp
  qed
  moreover have "\<exists>y c. ?m y = Some c \<and> bc_Block c = bc_Block (if len > maxLen then hi2 else hi)
      \<and> bc_LengthOfChain c = (if len > maxLen then len else maxLen) \<and> (\<forall>f' \<in> S - {f}. (f', y) \<notin> (below ?m)\<^sup>*)"
  proof (cases "len > maxLen")
    case True
    obtain y where y: "(f, y) \<in> (below m)\<^sup>*" "?m y = Some hi2" "l y = len" using l(2) bel unfolding tops_def by blast
    have "bc_LengthOfChain hi2 = len" using old [OF y(2)] y(3) by auto
    moreover have "(f', y) \<notin> (below ?m)\<^sup>*" if f': "f' \<in> S - {f}" for f'
    proof
      have f2: "f' \<in> S" "f' \<noteq> zero32" using insertingD(5) [OF i, of f'] f' by auto
      assume "(f', y) \<in> (below ?m)\<^sup>*"
      then have "(f', y) \<in> (below m)\<^sup>*" using below_moved_orphan [OF i f f2(2) new_not_below_orphan [OF i f2(1)]] by simp
      moreover have "\<forall>y. (f, y) \<in> (below m)\<^sup>* \<longrightarrow> m y \<noteq> None" using below_present [OF insertingD(1) [OF i], of f] fb(2) by blast
      ultimately have "(f, f') \<in> (below m)\<^sup>* \<or> (f', f) \<in> (below m)\<^sup>*"
        using below_comparable [OF well_linkedD(1) [OF insertingD(1) [OF i]] y(1) _ fb(1) f2(2)] by blast
      then show False using orphan_top [OF i f2(1) _ fb(1)] orphan_top [OF i f _ f2(2)] f' by blast
    qed
    ultimately show ?thesis using y(2) True by auto
  next
    case False
    obtain y cy where y: "m y = Some cy" "bc_Block cy = bc_Block hi" "bc_LengthOfChain cy = maxLen" "\<forall>f \<in> S. (f, y) \<notin> (below m)\<^sup>*"
      using t unfolding tracking_def by blast
    have "(f', y) \<notin> (below ?m)\<^sup>*" if f': "f' \<in> S - {f}" for f'
      using y(4) below_moved_orphan [OF i f, of f' y] insertingD(5) [OF i, of f'] new_not_below_orphan [OF i, of f'] f' by auto
    then show ?thesis using new [OF y(1)] len(2) [OF y(1)] y(2-4) f False by auto
  qed
  ultimately show ?thesis unfolding tracking_def by blast
qed

section \<open>All orphans\<close>

lemma inserting_mono: "inserting env rank h S c m \<Longrightarrow> claimed_by c \<subseteq> claimed_by c' \<Longrightarrow> inserting env rank h S c' m"
  unfolding inserting_def by blast

lemma cut_present:
  assumes "(x, y) \<in> (below m)\<^sup>*" "x \<notin> D" "\<forall>z. (x, z) \<in> (below (cut D m))\<^sup>* \<longrightarrow> cut D m z \<noteq> None"
  shows "y \<notin> D"
proof -
  have "y \<notin> D \<and> (x, y) \<in> (below (cut D m))\<^sup>*" using assms(1)
  proof (induction rule: rtrancl_induct)
    case (step y z)
    then have "(y, z) \<in> below (cut D m)" by (auto simp: below_def cut_def)
    then have "(x, z) \<in> (below (cut D m))\<^sup>*" using step.IH by (meson rtrancl.rtrancl_into_rtrancl)
    then show ?case using assms(3) by (auto simp: cut_def)
  qed (simp add: assms(2))
  then show ?thesis by blast
qed

text \<open>What becomes of one orphan: after a negative answer it is gone, after a positive one nothing was deleted.\<close>

lemma orphan_pruned:
  assumes i: "inserting env rank h S c m" and f: "f \<in> S" and g: "m zero32 = Some g"
    and p: "prunes (m(zero32 \<mapsto> drop_fork f g)) {f} c c' m' D"
  shows "claimed_by c \<subseteq> claimed_by c'" "f \<in> D \<Longrightarrow> D = {y. (f, y) \<in> (below m)\<^sup>*} \<and> m' = cut D (m(zero32 \<mapsto> drop_fork f g))"
    and "f \<notin> D \<Longrightarrow> m'(h \<mapsto> add_fork f (the (m' h)), f \<mapsto> (the (m f))\<lparr>bc_LengthOfChain := bc_LengthOfChain (the (m' h)) + 1\<rparr>) = cut D (moved h f m)
      \<and> m' h = m h \<and> m' f = m f"
    and "D = {} \<Longrightarrow> (f, y) \<in> (below m)\<^sup>* \<Longrightarrow> m y = Some b \<Longrightarrow> fresh_names c b" "D \<subseteq> {y. (f, y) \<in> (below m)\<^sup>*}"
proof -
  obtain fb where fb: "f \<noteq> zero32" "m f = Some fb" "prev_of fb = h" using insertingD(5) [OF i f] by blast
  note fo = well_linkedD(1) [OF insertingD(1) [OF i]]
  note bel = below_drop_rtrancl [where f = f, OF fo g fb(1)]
  have m': "m' = cut D (m(zero32 \<mapsto> drop_fork f g))" and D: "fork_closed (m(zero32 \<mapsto> drop_fork f g)) D" "y \<in> D \<Longrightarrow> (f, y) \<in> (below m)\<^sup>*" for y
    using p bel unfolding prunes_def by blast+
  show "claimed_by c \<subseteq> claimed_by c'" using p unfolding prunes_def by blast
  show "D = {y. (f, y) \<in> (below m)\<^sup>*} \<and> m' = cut D (m(zero32 \<mapsto> drop_fork f g))" if "f \<in> D"
    using fork_closed_below [OF D(1) that] D(2) bel m' by blast
  show "D \<subseteq> {y. (f, y) \<in> (below m)\<^sup>*}" using D(2) by blast
  have z: "zero32 \<notin> D" "h \<notin> D" using below_rank [OF fo D(2) fb(1)] new_not_below_orphan [OF i f] D(2) by blast+
  show "m'(h \<mapsto> add_fork f (the (m' h)), f \<mapsto> (the (m f))\<lparr>bc_LengthOfChain := bc_LengthOfChain (the (m' h)) + 1\<rparr>) = cut D (moved h f m)
      \<and> m' h = m h \<and> m' f = m f" if "f \<notin> D"
    using that z insertingD(3) [OF i] fb(1) g by (auto simp: m' cut_def moved_def Let_def fun_eq_iff)
  show "fresh_names c b" if "D = {}" "(f, y) \<in> (below m)\<^sup>*" "m y = Some b"
  proof -
    have "y \<noteq> zero32" using below_rank [OF fo that(2) fb(1)] by blast
    then show ?thesis using p that bel unfolding prunes_def by (metis fun_upd_other singletonI)
  qed
qed

lemma orphan_updated:
  assumes "order_ok env" and i: "inserting env rank h S c m" and f: "f \<in> S" and D: "f \<notin> D" "h \<notin> D"
    and b: "gm_load blocks = cut D (moved h f m)" and nb: "m h = Some nb"
    and u: "recursiveUpdateLength env n f blocks = Inr (len, hi, blocks')"
  shows "D \<inter> {y. (f, y) \<in> (below m)\<^sup>*} = {} \<and> (\<exists>l. gm_load blocks' = relength l (cut D (moved h f m))
    \<and> counted (cut D (moved h f m)) {f} (bc_LengthOfChain nb) l \<and> tops (cut D (moved h f m)) {f} l len hi)"
proof -
  let ?m = "cut D (moved h f m)"
  obtain fb where fb: "f \<noteq> zero32" "m f = Some fb" "prev_of fb = h" using insertingD(5) [OF i f] by blast
  have hf: "h \<noteq> f" using new_not_below_orphan [OF i f] by auto
  note bel = below_moved_orphan [OF i f fb(1) new_not_below_orphan [OF i f]]
  obtain b1 where b1: "moved h f m f = Some b1" using moved_known [OF i f, of f] fb(2) by auto
  obtain b2 where b2: "moved h f m h = Some b2" using moved_known [OF i f, of h] nb by auto
  have q: "prev_of b1 = h" "bc_LengthOfChain b2 = bc_LengthOfChain nb"
    using moved_block [OF i f b1] moved_block [OF i f b2] fb nb hf by auto
  have "(f, h) \<notin> (below ?m)\<^sup>*"
    using bel new_not_below_orphan [OF i f] rtrancl_mono [OF below_cut [of D "moved h f m"]] by blast
  moreover have "forest env rank ?m" by (rule forest_cut [OF forest_moved [OF i f]])
  moreover have "?m f = Some b1" "?m h = Some b2" using D b1 b2 by (simp_all add: cut_def)
  ultimately obtain l where l: "gm_load blocks' = relength l ?m" "counted ?m {f} (bc_LengthOfChain nb) l" "tops ?m {f} l len hi"
    using recursiveUpdateLength_below [OF assms(1), of rank n, unfolded update_spec_def, rule_format, of blocks f b1 b2 len hi blocks'] fb(1) u q b
    by auto
  have "\<forall>z. (f, z) \<in> (below ?m)\<^sup>* \<longrightarrow> ?m z \<noteq> None" using l(2) unfolding counted_def by blast
  then have "y \<notin> D" if "(f, y) \<in> (below m)\<^sup>*" for y using cut_present [of f y "moved h f m" D] that bel D(1) by blast
  then show ?thesis using l by blast
qed

lemma reinsert_step:
  assumes o: "order_ok env" and i: "inserting env rank h S c (gm_load blocks)" and t: "tracking h hh n b S maxLen hi (gm_load blocks)"
    and f: "f \<in> S" "gm_load blocks f = Some fb"
    and r: "reinsert_orphans env h (f # hs) c maxLen hi blocks = Inr res"
  shows "\<exists>c' maxLen' hi' blocks'. reinsert_orphans env h hs c' maxLen' hi' blocks' = Inr res
    \<and> inserting env rank h (S - {f}) c' (gm_load blocks') \<and> tracking h hh n b (S - {f}) maxLen' hi' (gm_load blocks')
    \<and> (\<forall>x b. gm_load blocks' x = Some b \<longrightarrow> (\<exists>b0. gm_load blocks x = Some b0 \<and> bc_Block b = bc_Block b0))"
proof -
  let ?m = "gm_load blocks"
  note w = insertingD(1) [OF i]
  note fo = well_linkedD(1) [OF w]
  have fb: "f \<noteq> zero32" "prev_of fb = h" "Block_Hash env (bc_Block fb) = f"
    using insertingD(5) [OF i f(1)] forestD(2) [OF fo f(2)] f(2) by auto
  obtain g where g: "?m zero32 = Some g" using well_linkedD(2) [OF w] by blast
  let ?m1 = "?m(zero32 \<mapsto> drop_fork f g)"
  have m1: "gm_load (gm_store zero32 (removeFork env fb g) blocks) = ?m1"
    by (auto simp: removeFork_def drop_fork_def fb(3) fun_eq_iff)
  define K where "K v c' b2 = (if \<not> v then reinsert_orphans env h hs c' maxLen hi b2
      else obind (getBlock h b2) (\<lambda>newBlock. let (orphanBc, newBlock) = appendToBlock env fb newBlock
        in obind (recursiveUpdateLength env (le_Depth env) f (gm_store f orphanBc (gm_store h newBlock b2)))
         (\<lambda>(len, highest, blocks). if len > maxLen then reinsert_orphans env h hs c' len highest blocks
            else reinsert_orphans env h hs c' maxLen hi blocks)))" for v c' b2
  have gb: "getBlock f blocks = Inr fb" "getGenesis blocks = Inr g" using f(2) g by (simp_all add: getGenesis_def)
  have "obind (pruneInvalidForks env (le_Depth env) fb c (gm_store zero32 (removeFork env fb g) blocks)) (\<lambda>(v, c', b2). K v c' b2) = Inr res"
    using r by (simp add: gb fb(2) K_def)
  then obtain v c' b2 where pr: "pruneInvalidForks env (le_Depth env) fb c (gm_store zero32 (removeFork env fb g) blocks) = Inr (v, c', b2)"
    and k: "K v c' b2 = Inr res" unfolding obind_Inr_iff by auto
  have "\<forall>y. (f, y) \<in> (below ?m1)\<^sup>* \<longrightarrow> ?m1 y \<noteq> None"
    using below_present [OF w, of f] f(2) below_drop_rtrancl [OF fo g fb(1)] by auto
  then obtain D where D: "prunes ?m1 {f} c c' (gm_load b2) D" "v \<longleftrightarrow> f \<notin> D"
    using pruneInvalidForks_below [OF o, of rank "le_Depth env", unfolded prune_spec_def, rule_format, OF _ _ fb(1) _ pr]
      forest_drop [OF fo g] f(2) fb(1) unfolding m1 by auto
  note p = orphan_pruned [OF i f(1) g D(1)]
  show ?thesis
  proof (cases v)
    case False
    then have D': "D = {y. (f, y) \<in> (below ?m)\<^sup>*}" "gm_load b2 = cut D ?m1" using p(2) D(2) by blast+
    have "inserting env rank h (S - {f}) c' (gm_load b2)"
      using inserting_mono [OF orphan_deleted [OF i f(1) g D'(1)] p(1)] unfolding D'(2) .
    moreover have "tracking h hh n b (S - {f}) maxLen hi (gm_load b2)" using tracking_deleted [OF i f(1) g D'(1) t] unfolding D'(2) .
    moreover have "\<forall>x b. gm_load b2 x = Some b \<longrightarrow> (\<exists>b0. ?m x = Some b0 \<and> bc_Block b = bc_Block b0)"
      using g unfolding D'(2) by (auto simp: cut_def)
    ultimately show ?thesis using k False unfolding K_def by (simp only: not_False_eq_True if_True) blast
  next
    case True
    then have nD: "f \<notin> D" using D(2) by blast
    have hD: "h \<notin> D" using p(5) new_not_below_orphan [OF i f(1)] by blast
    obtain nb len high b3 where nb: "gm_load b2 h = Some nb"
      and u: "recursiveUpdateLength env (le_Depth env) f
          (gm_store f (fb\<lparr>bc_LengthOfChain := bc_LengthOfChain nb + 1\<rparr>) (gm_store h (add_fork f nb) b2)) = Inr (len, high, b3)"
      and k2: "(if len > maxLen then reinsert_orphans env h hs c' len high b3 else reinsert_orphans env h hs c' maxLen hi b3) = Inr res"
      using k True unfolding K_def appendToBlock_def fb(3) add_fork_def [symmetric] Let_def prod.case
      by (auto simp only: not_True_eq_False if_False obind_Inr_iff getBlock_Inr prod.case split_paired_Ex)
    have m: "gm_load (gm_store f (fb\<lparr>bc_LengthOfChain := bc_LengthOfChain nb + 1\<rparr>) (gm_store h (add_fork f nb) b2)) = cut D (moved h f ?m)"
      and nb': "?m h = Some nb"
    proof -
      have "gm_load (gm_store f (fb\<lparr>bc_LengthOfChain := bc_LengthOfChain nb + 1\<rparr>) (gm_store h (add_fork f nb) b2))
        = (gm_load b2)(h \<mapsto> add_fork f nb, f \<mapsto> fb\<lparr>bc_LengthOfChain := bc_LengthOfChain nb + 1\<rparr>)" by (simp add: fun_eq_iff)
      then show "gm_load (gm_store f (fb\<lparr>bc_LengthOfChain := bc_LengthOfChain nb + 1\<rparr>) (gm_store h (add_fork f nb) b2)) = cut D (moved h f ?m)"
        "?m h = Some nb" using p(3) [OF nD] nb f(2) by simp_all
    qed
    obtain l where l: "D \<inter> {y. (f, y) \<in> (below ?m)\<^sup>*} = {}" "gm_load b3 = relength l (cut D (moved h f ?m))"
      "counted (cut D (moved h f ?m)) {f} (bc_LengthOfChain nb) l" "tops (cut D (moved h f ?m)) {f} l len high"
      using orphan_updated [OF o i f(1) nD hD m nb' u] by blast
    have "D = {}" using l(1) p(5) by blast
    then have l': "gm_load b3 = relength l (moved h f ?m)" "counted (moved h f ?m) {f} (bc_LengthOfChain nb) l" "tops (moved h f ?m) {f} l len high"
      using l by simp_all
    have "inserting env rank h (S - {f}) c' (gm_load b3)"
      using inserting_mono [OF orphan_moved [OF i f(1) nb' l'(2) p(4) [OF \<open>D = {}\<close>]] p(1)] unfolding l'(1) .
    moreover note tracking_moved [OF i f(1) nb' l'(2,3) t, folded l'(1)]
    moreover have "\<forall>x b. gm_load b3 x = Some b \<longrightarrow> (\<exists>b0. ?m x = Some b0 \<and> bc_Block b = bc_Block b0)"
      using moved_block [OF i f(1)] unfolding l'(1) relength_def by fastforce
    ultimately show ?thesis using k2 by (auto simp del: reinsert_orphans.simps split: if_splits)
  qed
qed

lemma reinsert_orphans_inserting:
  assumes o: "order_ok env"
  shows "reinsert_orphans env h hs c maxLen hi blocks = Inr (len, high, blocks') \<Longrightarrow> inserting env rank h S c (gm_load blocks)
    \<Longrightarrow> tracking h hh n b S maxLen hi (gm_load blocks) \<Longrightarrow> distinct hs \<Longrightarrow> S \<subseteq> set hs
    \<Longrightarrow> \<forall>f \<in> set hs. \<forall>fb. gm_load blocks f = Some fb \<longrightarrow> prev_of fb = h \<longrightarrow> f \<in> S
    \<Longrightarrow> \<exists>c'. inserting env rank h {} c' (gm_load blocks') \<and> tracking h hh n b {} len high (gm_load blocks')"
proof (induction hs arbitrary: c maxLen hi blocks S)
  case Nil
  then show ?case by auto
next
  case (Cons f hs)
  obtain fb where fb: "gm_load blocks f = Some fb" using Cons.prems(1) by (auto simp: obind_Inr_iff)
  show ?case
  proof (cases "f \<in> S")
    case False
    then have "prev_of fb \<noteq> h" using Cons.prems(6) fb by auto
    then have r: "reinsert_orphans env h hs c maxLen hi blocks = Inr (len, high, blocks')"
      using Cons.prems(1) fb by (simp add: getBlock_def)
    show ?thesis by (rule Cons.IH [OF r Cons.prems(2,3)]) (use Cons.prems(4-6) False in auto)
  next
    case True
    obtain c' maxLen' hi' b2 where s: "reinsert_orphans env h hs c' maxLen' hi' b2 = Inr (len, high, blocks')"
      "inserting env rank h (S - {f}) c' (gm_load b2)" "tracking h hh n b (S - {f}) maxLen' hi' (gm_load b2)"
      "\<forall>x b. gm_load b2 x = Some b \<longrightarrow> (\<exists>b0. gm_load blocks x = Some b0 \<and> bc_Block b = bc_Block b0)"
      using reinsert_step [OF o Cons.prems(2,3) True fb Cons.prems(1)] by blast
    have "\<forall>f' \<in> set hs. \<forall>fb. gm_load b2 f' = Some fb \<longrightarrow> prev_of fb = h \<longrightarrow> f' \<in> S - {f}"
      using s(4) Cons.prems(4,6) by fastforce
    then show ?thesis using Cons.IH [OF s(1-3)] Cons.prems(4,5) by auto
  qed
qed

end
