(* ===== verification/LedgerSafety.thy ===== *)
theory LedgerSafety
  imports LedgerInvariant
begin

text \<open>
  The insertion of a block keeps the invariant of the ledger; and what a rejected block leaves behind.
\<close>

section \<open>Insertion\<close>

definition ledger_inv :: "ledger_env \<Rightarrow> (hash32 \<Rightarrow> nat) \<Rightarrow> BlockchainLedger \<Rightarrow> bool" where
  "ledger_inv env rank bcl = (let m = gm_load (bcl_chains bcl) in well_linked env rank {} m \<and> unique_names {} m
     \<and> (\<exists>head. m (bcl_longestChain bcl) = Some head \<and> (\<forall>x b. m x = Some b \<longrightarrow> bc_LengthOfChain b \<le> bc_LengthOfChain head)))"

lemma ledger_invD:
  assumes "ledger_inv env rank bcl"
  shows "well_linked env rank {} (gm_load (bcl_chains bcl))" "unique_names {} (gm_load (bcl_chains bcl))"
    and "\<exists>head. gm_load (bcl_chains bcl) (bcl_longestChain bcl) = Some head
      \<and> (\<forall>x b. gm_load (bcl_chains bcl) x = Some b \<longrightarrow> bc_LengthOfChain b \<le> bc_LengthOfChain head)"
  using assms unfolding ledger_inv_def Let_def by blast+

lemma new_ledger_inv: "ledger_inv env rank NewBlockchainLedger"
proof -
  let ?m = "gm_load (bcl_chains NewBlockchainLedger)"
  have m: "?m = [zero32 \<mapsto> newGenesisBlock]" by (simp add: NewBlockchainLedger_def gm_load_def fun_eq_iff)
  have f: "fork_set newGenesisBlock = {}" by (simp add: newGenesisBlock_def fork_set_def gm_keys_def)
  have "up {} ?m = {}" unfolding m by (auto simp: up_def split: if_splits)
  moreover have "well_linked env rank {} ?m" unfolding well_linked_def forest_def m
    by (auto simp: f split: if_splits) (simp_all add: newGenesisBlock_def gm_wf_def)
  moreover have "?m (bcl_longestChain NewBlockchainLedger) = Some newGenesisBlock" by (simp add: NewBlockchainLedger_def gm_load_def)
  ultimately show ?thesis unfolding ledger_inv_def Let_def unique_names_def by (auto simp: m split: if_splits)
qed

text \<open>The new block is filed and the orphans are visited.\<close>

lemma accept_block_inv:
  assumes o: "order_ok env" and i: "inserting env rank h S c (gm_load (gm_store h bc blocks))"
    and S: "\<forall>f fb. gm_load (gm_store h bc blocks) f = Some fb \<longrightarrow> f \<noteq> zero32 \<longrightarrow> prev_of fb = h \<longrightarrow> f \<in> S"
    and head: "gm_load (gm_store h bc blocks) (bcl_longestChain bcl) = Some hb"
      "\<forall>x b. gm_load (gm_store h bc blocks) x = Some b \<longrightarrow> bc_LengthOfChain b \<le> max (bc_LengthOfChain hb) (bc_LengthOfChain bc)"
    and r: "accept_block env h bc c blocks bcl = Inr (ans, bcl')"
  shows "ledger_inv env rank bcl'"
proof -
  let ?b = "gm_store h bc blocks"
  let ?n = "bc_LengthOfChain hb" and ?k = "bc_LengthOfChain bc"
  note w = insertingD(1) [OF i]
  obtain g where g: "gm_load ?b zero32 = Some g" "bc_LengthOfChain g = 0" using well_linkedD(2) [OF w] by blast
  obtain maxLen hi blocks' where ro: "reinsert_orphans env h (visit_forks env g) c 0 g ?b = Inr (maxLen, hi, blocks')"
    and hc: "\<exists>flags. headChanges env (if ?k > maxLen then ?k else maxLen) (if ?k > maxLen then bc else hi) (bcl\<lparr>bcl_chains := blocks'\<rparr>) = Inr (flags, bcl')"
    using r g(1) by (auto simp: accept_block_def checkOrphansAndReinsert_def getGenesis_def obind_Inr_iff split: if_splits)
  note fs = visit_forks_set [OF o, of g]
  have "S \<subseteq> set (visit_forks env g)"
  proof
    fix f
    assume f: "f \<in> S"
    then obtain fb where fb: "f \<noteq> zero32" "gm_load ?b f = Some fb" using insertingD(5) [OF i] by blast
    have "root_of S (gm_load ?b) f fb = zero32" using f by (simp add: root_of_def)
    then show "f \<in> set (visit_forks env g)" unfolding fs by (metis well_linkedD(5) [OF w fb(2,1) g(1)])
  qed
  moreover have "distinct (visit_forks env g)" using visit_forks_distinct [OF o forestD(1) [OF well_linkedD(1) [OF w] g(1)]] .
  moreover have "\<forall>f \<in> set (visit_forks env g). \<forall>fb. gm_load ?b f = Some fb \<longrightarrow> prev_of fb = h \<longrightarrow> f \<in> S"
    using S forestD(3) [OF well_linkedD(1) [OF w] g(1)] fs by blast
  moreover have "tracking h (bcl_longestChain bcl) ?n bc S 0 g (gm_load ?b)" unfolding tracking_def
  proof (intro conjI)
    show "\<forall>x c. gm_load ?b x = Some c \<longrightarrow> bc_LengthOfChain c \<le> max (max ?n ?k) 0" using head(2) by fastforce
    show "\<forall>c. gm_load ?b (bcl_longestChain bcl) = Some c \<longrightarrow> ?n \<le> bc_LengthOfChain c" using head(1) by simp
    show "\<exists>c. gm_load ?b h = Some c \<and> bc_Block c = bc_Block bc \<and> bc_LengthOfChain c = ?k" by simp
    have "\<forall>f \<in> S. (f, zero32) \<notin> (below (gm_load ?b))\<^sup>*"
      using below_rank [OF well_linkedD(1) [OF w], of _ zero32] insertingD(5) [OF i] by blast
    then show "\<exists>y c. gm_load ?b y = Some c \<and> bc_Block c = bc_Block g \<and> bc_LengthOfChain c = 0 \<and> (\<forall>f \<in> S. (f, y) \<notin> (below (gm_load ?b))\<^sup>*)"
      using g by blast
  qed
  ultimately obtain c' where i': "inserting env rank h {} c' (gm_load blocks')"
    and t: "tracking h (bcl_longestChain bcl) ?n bc {} maxLen hi (gm_load blocks')"
    using reinsert_orphans_inserting [OF o ro i] by blast
  note w' = insertingD(1) [OF i']
  define M where "M = (if ?k > maxLen then ?k else maxLen)"
  define H where "H = (if ?k > maxLen then bc else hi)"
  obtain y cy where y: "gm_load blocks' y = Some cy" "bc_Block cy = bc_Block H" "bc_LengthOfChain cy = M"
    using t unfolding tracking_def M_def H_def by (cases "?k > maxLen") (simp_all, blast+)
  have all: "bc_LengthOfChain b \<le> max ?n M" if "gm_load blocks' x = Some b" for x b
    using t that unfolding tracking_def M_def by (smt (verit))
  obtain flags where "headChanges env M H (bcl\<lparr>bcl_chains := blocks'\<rparr>) = Inr (flags, bcl')" using hc unfolding M_def H_def by blast
  then obtain hd' where hd': "gm_load blocks' (bcl_longestChain bcl) = Some hd'"
    and bcl': "bcl' = (if M > bc_LengthOfChain hd' then bcl\<lparr>bcl_chains := blocks', bcl_longestChain := Block_Hash env (bc_Block H)\<rparr>
       else bcl\<lparr>bcl_chains := blocks'\<rparr>)"
    unfolding headChanges_def by (auto simp: obind_Inr_iff split: if_splits)
  have n: "?n \<le> bc_LengthOfChain hd'" using t hd' unfolding tracking_def by blast
  have head': "\<exists>head. gm_load blocks' (bcl_longestChain bcl') = Some head \<and> (\<forall>x b. gm_load blocks' x = Some b \<longrightarrow> bc_LengthOfChain b \<le> bc_LengthOfChain head)"
  proof (cases "M > bc_LengthOfChain hd'")
    case True
    have "0 \<le> bc_LengthOfChain hd'" using length_positive [OF w' hd'] by (auto split: if_splits)
    then have "y \<noteq> zero32" using True y(1,3) well_linkedD(2) [OF w'] by auto
    then have "Block_Hash env (bc_Block H) = y" using forestD(2) [OF well_linkedD(1) [OF w'] y(1)] y(2) by simp
    then have "gm_load blocks' (bcl_longestChain bcl') = Some cy" using True bcl' y(1) by simp
    then show ?thesis using all y(3) n True by fastforce
  next
    case False
    then show ?thesis using all n hd' bcl' by fastforce
  qed
  have "bcl_chains bcl' = blocks'" unfolding bcl' by simp
  then show ?thesis using w' insertingD(2) [OF i'] head' unfolding ledger_inv_def Let_def by simp
qed

lemma checked_names:
  assumes l: "well_linked env rank {} (gm_load blocks)" and g: "same_blocks (gm_load blocks) (gm_load blocks1)"
    and c: "checkValidTransactionsBackwards env blocks1 bc = Inr (c, v)"
  shows "set (bc_names bc) \<subseteq> claimed_by c"
    and "v \<Longrightarrow> distinct (bc_names bc) \<and> (\<forall>y. (prev_of bc, y) \<in> (up {} (gm_load blocks))\<^sup>*
      \<longrightarrow> names_at (gm_load blocks) y \<inter> set (bc_names bc) = {} \<and> names_at (gm_load blocks) y \<subseteq> claimed_by c)"
    and "\<not> v \<Longrightarrow> c = None"
proof -
  let ?m = "gm_load blocks1"
  have z: "names_at ?m zero32 = {}"
    using well_linkedD(2) [OF l] unfolding same_blocks_eq [OF g] by (auto simp: names_at_def bc_names_def tx_names_def newGenesisBlock_def)
  obtain c0 v0 where c0: "claim (bc_names bc) (NewSafeStringArray []) = (c0, v0)" by fastforce
  note cl = claim_result [OF c0]
  have nv: "c = None" if "claim_backwards n blocks1 x cc = Inr (c, v)" "\<not> v" for n x cc
    using that by (induction n arbitrary: x cc) (auto simp: split: if_splits option.splits prod.splits)
  show "c = None" if "\<not> v" using c c0 nv that by (auto simp: checkValidTransactionsBackwards_def split: if_splits)
  have v0: "v0 \<and> (\<exists>c1. c = Some c1 \<and> claimed c0 \<subseteq> claimed c1 \<and> (\<forall>y. (prev_of bc, y) \<in> (up {} ?m)\<^sup>*
      \<longrightarrow> names_at ?m y \<inter> claimed c0 = {} \<and> names_at ?m y \<subseteq> claimed c1))" if v
    using c c0 claim_backwards_names [OF z, of "le_Depth env" "prev_of bc" c0 c] that
    by (auto simp: checkValidTransactionsBackwards_def split: if_splits)
  show "set (bc_names bc) \<subseteq> claimed_by c"
    using v0 cl \<open>\<not> v \<Longrightarrow> c = None\<close> by (cases v) (auto simp: claimed_by_def)
  show "distinct (bc_names bc) \<and> (\<forall>y. (prev_of bc, y) \<in> (up {} (gm_load blocks))\<^sup>*
      \<longrightarrow> names_at (gm_load blocks) y \<inter> set (bc_names bc) = {} \<and> names_at (gm_load blocks) y \<subseteq> claimed_by c)" if v
    using v0 [OF that] cl unfolding same_blocks_eq [OF g] by (auto simp: claimed_by_def; blast)
qed

text \<open>The parent of a new block, and the two ways an insertion can go.\<close>

definition parent_of :: "BlockchainLedger \<Rightarrow> Block \<Rightarrow> hash32" where
  "parent_of bcl b = (if gm_load (bcl_chains bcl) (bl_PrevHash b) = None then zero32 else bl_PrevHash b)"

lemma accept_block_valid: "accept_block env h bc c blocks bcl = Inr ((valid, flags), bcl') \<Longrightarrow> valid"
  by (auto simp: accept_block_def obind_Inr_iff split: if_splits)

lemma insertBlock_result:
  assumes r: "insertBlock env b bcl = Inr ((valid, flags), bcl')" and n: "\<not> isPresent (Block_Hash env b) bcl"
  obtains p c w bc blocks1 where "gm_load (bcl_chains bcl) (parent_of bcl b) = Some p"
    and "bc = (newBlockOfChain b)\<lparr>bc_LengthOfChain := bc_LengthOfChain p + 1\<rparr>"
    and "blocks1 = gm_store (parent_of bcl b) (add_fork (Block_Hash env b) p) (bcl_chains bcl)"
    and "checkValidTransactionsBackwards env blocks1 bc = Inr (c, w)"
    and "(w \<or> gm_load (bcl_chains bcl) (bl_PrevHash b) = None) \<and> accept_block env (Block_Hash env b) bc c blocks1 bcl = Inr ((valid, flags), bcl')
      \<or> \<not> w \<and> gm_load (bcl_chains bcl) (bl_PrevHash b) \<noteq> None \<and> \<not> valid \<and> bcl' = bcl\<lparr>bcl_chains := blocks1\<rparr>"
proof -
  let ?h = "Block_Hash env b"
  have e: "appendToBlock env (newBlockOfChain b) p = ((newBlockOfChain b)\<lparr>bc_LengthOfChain := bc_LengthOfChain p + 1\<rparr>, add_fork ?h p)" for p
    by (simp add: appendToBlock_def add_fork_def newBlockOfChain_def)
  show ?thesis
  proof (cases "gm_load (bcl_chains bcl) (bl_PrevHash b)")
    case None
    then have rt: "parent_of bcl b = zero32" by (simp add: parent_of_def)
    obtain g where g: "gm_load (bcl_chains bcl) zero32 = Some g"
      using r n None by (auto simp: insertBlock_def Let_def getGenesis_def obind_Inr_iff)
    then have gb: "getGenesis (bcl_chains bcl) = Inr g" by (simp add: getGenesis_def)
    let ?bc = "(newBlockOfChain b)\<lparr>bc_LengthOfChain := bc_LengthOfChain g + 1\<rparr>" and ?b1 = "gm_store zero32 (add_fork ?h g) (bcl_chains bcl)"
    have "obind (checkValidTransactionsBackwards env ?b1 ?bc) (\<lambda>(c, _). accept_block env ?h ?bc c ?b1 bcl) = Inr ((valid, flags), bcl')"
      using r n None by (simp add: insertBlock_def Let_def gb e)
    then obtain c w where "checkValidTransactionsBackwards env ?b1 ?bc = Inr (c, w)" "accept_block env ?h ?bc c ?b1 bcl = Inr ((valid, flags), bcl')"
      unfolding obind_Inr_iff by auto
    then show ?thesis using that [of g ?bc ?b1 c w] g rt None by simp
  next
    case (Some p)
    then have rt: "parent_of bcl b = bl_PrevHash b" by (simp add: parent_of_def)
    let ?bc = "(newBlockOfChain b)\<lparr>bc_LengthOfChain := bc_LengthOfChain p + 1\<rparr>" and ?b1 = "gm_store (bl_PrevHash b) (add_fork ?h p) (bcl_chains bcl)"
    have "obind (checkValidTransactionsBackwards env ?b1 ?bc) (\<lambda>(c, v). if v then accept_block env ?h ?bc c ?b1 bcl
        else Inr ((False, False, False), bcl\<lparr>bcl_chains := ?b1\<rparr>)) = Inr ((valid, flags), bcl')"
      using r n Some by (simp add: insertBlock_def Let_def e)
    then obtain c w where "checkValidTransactionsBackwards env ?b1 ?bc = Inr (c, w)"
      "(if w then accept_block env ?h ?bc c ?b1 bcl else Inr ((False, False, False), bcl\<lparr>bcl_chains := ?b1\<rparr>)) = Inr ((valid, flags), bcl')"
      unfolding obind_Inr_iff by auto
    then show ?thesis using that [of p ?bc ?b1 c w] Some rt by (cases w) auto
  qed
qed

lemma insertBlock_inv:
  assumes o: "order_ok env" and l: "ledger_inv env rank bcl" and rank: "rank (bl_PrevHash b) < rank (Block_Hash env b)"
    and r: "insertBlock env b bcl = Inr ((valid, changed, grew), bcl')" and ok: "valid \<or> isPresent (Block_Hash env b) bcl"
  shows "ledger_inv env rank bcl'"
proof (cases "isPresent (Block_Hash env b) bcl")
  case True
  then show ?thesis using r l by (simp add: insertBlock_def Let_def)
next
  case False
  let ?m = "gm_load (bcl_chains bcl)"
  note w = ledger_invD(1) [OF l]
  define h where "h = Block_Hash env b"
  have h: "?m h = None" using False by (simp add: isPresent_def h_def)
  define rt where "rt = parent_of bcl b"
  obtain p c v bc blocks1 where p: "?m rt = Some p" and bc': "bc = (newBlockOfChain b)\<lparr>bc_LengthOfChain := bc_LengthOfChain p + 1\<rparr>"
    and b1: "blocks1 = gm_store rt (add_fork h p) (bcl_chains bcl)" and cv: "checkValidTransactionsBackwards env blocks1 bc = Inr (c, v)"
    and k: "(v \<or> ?m (bl_PrevHash b) = None) \<and> accept_block env h bc c blocks1 bcl = Inr ((valid, changed, grew), bcl')
      \<or> \<not> v \<and> ?m (bl_PrevHash b) \<noteq> None \<and> \<not> valid \<and> bcl' = bcl\<lparr>bcl_chains := blocks1\<rparr>"
    unfolding h_def rt_def by (rule insertBlock_result [OF r False])
  have a: "accept_block env h bc c blocks1 bcl = Inr ((valid, changed, grew), bcl')" and v: "?m (bl_PrevHash b) \<noteq> None \<Longrightarrow> v"
    using k ok False by auto
  have bc: "bc_Block bc = b" "bc_Forks bc = []" "bc_LengthOfChain bc = bc_LengthOfChain p + 1" by (simp_all add: bc' newBlockOfChain_def)
  have hr: "h \<noteq> rt" using h p by auto
  have m1: "gm_load blocks1 = ?m(rt \<mapsto> add_fork h p)" by (simp add: b1 fun_eq_iff)
  have m2: "gm_load (gm_store h bc blocks1) = ?m(rt \<mapsto> add_fork h p, h \<mapsto> bc)" by (simp add: m1 fun_eq_iff)
  have sb: "same_blocks ?m (gm_load blocks1)" unfolding same_blocks_def m1 using p by simp
  note ck = checked_names [OF w sb cv]
  define S where "S = {o'. o' \<noteq> zero32 \<and> (\<exists>ob. ?m o' = Some ob \<and> prev_of ob = h)}"
  have ph: "prev_of bc \<noteq> h" using rank by (auto simp: bc(1) h_def)
  have link: "well_linked env rank S (?m(rt \<mapsto> add_fork h p, h \<mapsto> bc))"
    by (rule new_block_linked [OF w h _ _ _ p bc(2,3) S_def]) (simp_all add: bc(1) h_def rt_def parent_of_def rank)
  have n: "distinct (bc_names bc) \<and> (\<forall>y. (prev_of bc, y) \<in> (up {} ?m)\<^sup>* \<longrightarrow> names_at ?m y \<inter> set (bc_names bc) = {})" if "?m (prev_of bc) \<noteq> None"
    using ck(2) v that by (simp add: bc(1))
  have nn1: "unique_names S (?m(rt \<mapsto> add_fork h p, h \<mapsto> bc))"
    by (rule new_block_names(1) [OF ledger_invD(2) [OF l] h ph p S_def n])
  have nn2: "names_at (?m(rt \<mapsto> add_fork h p, h \<mapsto> bc)) y = (if y = h then set (bc_names bc) else names_at ?m y)
      \<and> (y = h \<or> ?m (prev_of bc) \<noteq> None \<and> (prev_of bc, y) \<in> (up {} ?m)\<^sup>*)"
    if "(h, y) \<in> (up S (?m(rt \<mapsto> add_fork h p, h \<mapsto> bc)))\<^sup>*" for y
    by (rule new_block_names(2) [OF ledger_invD(2) [OF l] h ph p S_def n that])
  have i: "inserting env rank h S c (gm_load (gm_store h bc blocks1))" unfolding m2 inserting_def
  proof (intro conjI ballI allI impI)
    show "h \<noteq> zero32" using h well_linkedD(2) [OF w] by auto
    show "f \<noteq> zero32" "\<exists>ob. (?m(rt \<mapsto> add_fork h p, h \<mapsto> bc)) f = Some ob \<and> prev_of ob = h" if "f \<in> S" for f
      using that h p unfolding S_def by auto
    show "names_at (?m(rt \<mapsto> add_fork h p, h \<mapsto> bc)) y \<subseteq> claimed_by c" if "(h, y) \<in> (up S (?m(rt \<mapsto> add_fork h p, h \<mapsto> bc)))\<^sup>*" for y
      using nn2 [OF that] ck(1,2) v by (auto simp: bc(1) split: if_splits)
  qed (use link nn1 in auto)
  obtain head where head: "?m (bcl_longestChain bcl) = Some head" "\<forall>x b. ?m x = Some b \<longrightarrow> bc_LengthOfChain b \<le> bc_LengthOfChain head"
    using ledger_invD(3) [OF l] by blast
  obtain hb where hb: "gm_load (gm_store h bc blocks1) (bcl_longestChain bcl) = Some hb" "bc_LengthOfChain hb = bc_LengthOfChain head"
    using head(1) h p unfolding m2 by (cases "bcl_longestChain bcl = h"; cases "bcl_longestChain bcl = rt") auto
  show ?thesis
  proof (rule accept_block_inv [OF o i _ hb(1) _ a])
    show "\<forall>f fb. gm_load (gm_store h bc blocks1) f = Some fb \<longrightarrow> f \<noteq> zero32 \<longrightarrow> prev_of fb = h \<longrightarrow> f \<in> S"
      unfolding m2 S_def using ph p by auto
    show "\<forall>x b. gm_load (gm_store h bc blocks1) x = Some b \<longrightarrow> bc_LengthOfChain b \<le> max (bc_LengthOfChain hb) (bc_LengthOfChain bc)"
      unfolding m2 hb(2) using head(2) p by (auto simp: le_max_iff_disj)
  qed
qed

section \<open>A fork that is missing\<close>

text \<open>No operation makes a missing block appear.\<close>

definition no_new :: "block_map \<Rightarrow> block_map \<Rightarrow> bool" where
  "no_new blocks blocks' = (\<forall>d. gm_load blocks d = None \<longrightarrow> gm_load blocks' d = None)"

lemma no_newD: "no_new blocks blocks' \<Longrightarrow> gm_load blocks d = None \<Longrightarrow> gm_load blocks' d = None"
  by (simp add: no_new_def)

lemma no_new_refl [simp]: "no_new blocks blocks"
  by (simp add: no_new_def)

lemma no_new_trans: "no_new blocks b \<Longrightarrow> no_new b blocks' \<Longrightarrow> no_new blocks blocks'"
  by (simp add: no_new_def)

lemma no_new_store: "gm_load blocks h = Some b' \<Longrightarrow> no_new blocks (gm_store h b blocks)"
  by (auto simp: no_new_def)

lemma each_fork_no_new:
  assumes "\<forall>bc b b'. act bc b = Inr b' \<longrightarrow> no_new b b'"
  shows "each_fork act hs blocks = Inr blocks' \<Longrightarrow> no_new blocks blocks'"
proof (induction hs arbitrary: blocks)
  case (Cons h hs)
  then obtain nb b where "act nb blocks = Inr b" "each_fork act hs b = Inr blocks'" by (auto simp: obind_Inr_iff)
  then show ?case using Cons.IH assms no_new_trans by blast
qed simp

lemma deleteForkFromChain_no_new: "\<forall>bc b b'. deleteForkFromChain env n bc b = Inr b' \<longrightarrow> no_new b b'"
proof (induction n)
  case (Suc n)
  show ?case
  proof (intro allI impI)
    fix bc b b'
    assume "deleteForkFromChain env (Suc n) bc b = Inr b'"
    then obtain b1 where "each_fork (deleteForkFromChain env n) (visit_forks env bc) b = Inr b1"
      and b': "b' = gm_delete (Block_Hash env (bc_Block bc)) b1" by (auto simp: obind_Inr_iff)
    then have "no_new b b1" using each_fork_no_new [OF Suc.IH] by blast
    then show "no_new b b'" by (simp add: b' no_new_def)
  qed
qed simp

lemma prune_forks_no_new:
  assumes "\<forall>bc c b v c' b'. prune bc c b = Inr (v, c', b') \<longrightarrow> no_new b b'"
  shows "prune_forks prune hs c blocks = Inr (v, c', blocks') \<Longrightarrow> no_new blocks blocks'"
proof (induction hs arbitrary: c blocks)
  case (Cons h hs)
  show ?case
  proof (cases "gm_load blocks h")
    case None
    then show ?thesis using Cons.prems by simp
  next
    case (Some nb)
    then obtain w c1 b where "prune nb c blocks = Inr (w, c1, b)" "prune_forks prune hs c1 b = Inr (v, c', blocks')"
      using Cons.prems by (auto simp: obind_Inr_iff)
    then show ?thesis using Cons.IH assms no_new_trans by blast
  qed
qed simp

lemma pruneInvalidForks_no_new: "\<forall>bc c b v c' b'. pruneInvalidForks env n bc c b = Inr (v, c', b') \<longrightarrow> no_new b b'"
proof (induction n)
  case (Suc n)
  show ?case
  proof (intro allI impI)
    fix bc c b v c' b'
    assume "pruneInvalidForks env (Suc n) bc c b = Inr (v, c', b')"
    then obtain c1 w where k: "(if w then prune_forks (pruneInvalidForks env n) (visit_forks env bc) c1 b
        else obind (deleteForkFromChain env (le_Depth env) bc b) (\<lambda>b. Inr (False, c1, b))) = Inr (v, c', b')"
      by (auto simp: obind_Inr_iff)
    show "no_new b b'"
    proof (cases w)
      case True
      then show ?thesis using k prune_forks_no_new [OF Suc.IH] by simp
    next
      case False
      then have "deleteForkFromChain env (le_Depth env) bc b = Inr b'" using k by (auto simp: obind_Inr_iff)
      then show ?thesis using deleteForkFromChain_no_new by blast
    qed
  qed
qed simp

lemma longest_fork_no_new:
  assumes "\<forall>h b len hi b'. update h b = Inr (len, hi, b') \<longrightarrow> no_new b b'"
  shows "longest_fork update hs n hi blocks = Inr (len, high, blocks') \<Longrightarrow> no_new blocks blocks'"
proof (induction hs arbitrary: n hi blocks)
  case (Cons h hs)
  then obtain len1 high1 b where u: "update h blocks = Inr (len1, high1, b)"
    and k: "(if len1 > n then longest_fork update hs len1 high1 b else longest_fork update hs n hi b) = Inr (len, high, blocks')"
    by (auto simp: obind_Inr_iff)
  have "no_new b blocks'" using k Cons.IH by (cases "len1 > n") simp_all
  moreover have "no_new blocks b" using assms u by blast
  ultimately show ?case using no_new_trans by blast
qed simp

lemma recursiveUpdateLength_no_new: "\<forall>h b len hi b'. recursiveUpdateLength env n h b = Inr (len, hi, b') \<longrightarrow> no_new b b'"
proof (induction n)
  case (Suc n)
  show ?case
  proof (intro allI impI)
    fix h b len hi b'
    assume "recursiveUpdateLength env (Suc n) h b = Inr (len, hi, b')"
    then obtain bc bc' k where "gm_load b h = Some bc"
      and "longest_fork (recursiveUpdateLength env n) (visit_forks env bc) k bc' (gm_store h bc' b) = Inr (len, hi, b')"
      by (auto simp: obind_Inr_iff Let_def)
    then show "no_new b b'" using longest_fork_no_new [OF Suc.IH] no_new_store no_new_trans by blast
  qed
qed simp

lemma missing_fork_stops:
  "d \<in> set hs \<Longrightarrow> gm_load blocks d = None \<Longrightarrow> reinsert_orphans env h hs c n hi blocks \<noteq> Inr r"
proof (induction hs arbitrary: c n hi blocks)
  case (Cons f hs)
  show ?case
  proof
    assume r: "reinsert_orphans env h (f # hs) c n hi blocks = Inr r"
    then obtain fb where fb: "gm_load blocks f = Some fb" by (auto simp: obind_Inr_iff)
    then have d: "d \<in> set hs" "d \<noteq> f" using Cons.prems by auto
    have gb: "getBlock f blocks = Inr fb" using fb by simp
    have "\<exists>c n hi blocks. reinsert_orphans env h hs c n hi blocks = Inr r \<and> gm_load blocks d = None"
    proof (cases "prev_of fb = h")
      case False
      then show ?thesis using r gb Cons.prems(2) by auto
    next
      case True
      obtain g where g: "gm_load blocks zero32 = Some g" using r True by (auto simp: gb getGenesis_def obind_Inr_iff)
      have z: "d \<noteq> zero32" using g Cons.prems(2) by auto
      obtain v c' b2 where p: "pruneInvalidForks env (le_Depth env) fb c (gm_store zero32 (removeFork env fb g) blocks) = Inr (v, c', b2)"
        and k: "(if \<not> v then reinsert_orphans env h hs c' n hi b2
          else obind (getBlock h b2) (\<lambda>newBlock. let (orphanBc, newBlock) = appendToBlock env fb newBlock
            in obind (recursiveUpdateLength env (le_Depth env) f (gm_store f orphanBc (gm_store h newBlock b2)))
             (\<lambda>(len, highest, blocks). if len > n then reinsert_orphans env h hs c' len highest blocks
                else reinsert_orphans env h hs c' n hi blocks))) = Inr r"
        using r True g by (auto simp: gb getGenesis_def getBlock_def [of zero32] obind_Inr_iff [of "pruneInvalidForks _ _ _ _ _"])
      have d2: "gm_load b2 d = None" using no_newD [OF pruneInvalidForks_no_new [rule_format, OF p]] Cons.prems(2) z by simp
      show ?thesis
      proof (cases v)
        case False
        then show ?thesis using k d2 by auto
      next
        case True
        then obtain nb where nb: "gm_load b2 h = Some nb"
          and k2: "obind (recursiveUpdateLength env (le_Depth env) f (gm_store f (fst (appendToBlock env fb nb)) (gm_store h (snd (appendToBlock env fb nb)) b2)))
             (\<lambda>(len, highest, blocks). if len > n then reinsert_orphans env h hs c' len highest blocks
                else reinsert_orphans env h hs c' n hi blocks) = Inr r"
          using k by (auto simp: obind_Inr_iff [of "getBlock _ _"] case_prod_beta Let_def)
        then obtain len high b3 where u: "recursiveUpdateLength env (le_Depth env) f
            (gm_store f (fst (appendToBlock env fb nb)) (gm_store h (snd (appendToBlock env fb nb)) b2)) = Inr (len, high, b3)"
          and k3: "(if len > n then reinsert_orphans env h hs c' len high b3 else reinsert_orphans env h hs c' n hi b3) = Inr r"
          by (auto simp: obind_Inr_iff [of "recursiveUpdateLength _ _ _ _"])
        have "d \<noteq> h" using nb d2 by auto
        then have "gm_load b3 d = None" using no_newD [OF recursiveUpdateLength_no_new [rule_format, OF u]] d2 d(2) by simp
        then show ?thesis using k3 by (metis (full_types))
      qed
    qed
    then show False using Cons.IH [OF d(1)] by blast
  qed
qed simp

section \<open>Properties\<close>

text \<open>
  The ledgers that can be reached by inserting blocks that are accepted, or repeated.  \<open>rank\<close> exists as
  long as the hashes of the inserted blocks have no cycle.
\<close>

inductive ledger_reachable :: "ledger_env \<Rightarrow> (hash32 \<Rightarrow> nat) \<Rightarrow> BlockchainLedger \<Rightarrow> bool" for env rank where
  ledger_start: "ledger_reachable env rank NewBlockchainLedger"
| ledger_insert: "ledger_reachable env rank bcl \<Longrightarrow> rank (bl_PrevHash b) < rank (Block_Hash env b)
    \<Longrightarrow> insertBlock env b bcl = Inr ((valid, changed, grew), bcl') \<Longrightarrow> valid \<or> isPresent (Block_Hash env b) bcl
    \<Longrightarrow> ledger_reachable env rank bcl'"

lemma ledger_reachable_inv:
  assumes "order_ok env" "ledger_reachable env rank bcl"
  shows "ledger_inv env rank bcl"
  using assms(2)
proof (induction rule: ledger_reachable.induct)
  case ledger_start
  show ?case by (rule new_ledger_inv)
next
  case (ledger_insert bcl b valid changed grew bcl')
  show ?case by (rule insertBlock_inv [OF assms(1) ledger_insert.IH ledger_insert.hyps(2-4)])
qed

text \<open>C4: as long as no block is rejected, the ledger is sound, in whatever order blocks arrive, orphans
  included: a block is one longer than the block it is filed below; no file name is claimed twice in a
  block whose parent is known, nor in two blocks of a chain; and no chain is longer than that of the head.\<close>

theorem ledger_stays_sound:
  assumes "order_ok env" "ledger_reachable env rank bcl"
  shows "let m = gm_load (bcl_chains bcl) in
      (\<forall>x b p. m x = Some b \<longrightarrow> x \<noteq> zero32 \<longrightarrow> m (if m (prev_of b) = None then zero32 else prev_of b) = Some p
        \<longrightarrow> bc_LengthOfChain b = bc_LengthOfChain p + 1)
    \<and> (\<forall>x b. m x = Some b \<longrightarrow> x \<noteq> zero32 \<longrightarrow> m (prev_of b) \<noteq> None \<longrightarrow> distinct (bc_names b))
    \<and> (\<forall>x y. (x, y) \<in> (up {} m)\<^sup>+ \<longrightarrow> names_at m x \<inter> names_at m y = {})
    \<and> (\<exists>head. m (bcl_longestChain bcl) = Some head \<and> (\<forall>x b. m x = Some b \<longrightarrow> bc_LengthOfChain b \<le> bc_LengthOfChain head))"
proof -
  have l: "ledger_inv env rank bcl" by (rule ledger_reachable_inv [OF assms])
  note i = ledger_invD [OF l]
  have "distinct (bc_names b)" if "gm_load (bcl_chains bcl) x = Some b" "x \<noteq> zero32" "gm_load (bcl_chains bcl) (prev_of b) \<noteq> None" for x b
  proof -
    have "(x, prev_of b) \<in> up {} (gm_load (bcl_chains bcl))" using that by (auto simp: up_def)
    then show ?thesis using i(2) that(1) unfolding unique_names_def by blast
  qed
  moreover have "\<forall>x y. (x, y) \<in> (up {} (gm_load (bcl_chains bcl)))\<^sup>+
      \<longrightarrow> names_at (gm_load (bcl_chains bcl)) x \<inter> names_at (gm_load (bcl_chains bcl)) y = {}" using i(2) unfolding unique_names_def by blast
  moreover have "bc_LengthOfChain b = bc_LengthOfChain p + 1" if "gm_load (bcl_chains bcl) x = Some b" "x \<noteq> zero32"
    "gm_load (bcl_chains bcl) (if gm_load (bcl_chains bcl) (prev_of b) = None then zero32 else prev_of b) = Some p" for x b p
    using well_linkedD(6) [OF i(1) that(1,2)] that(3) by (simp add: root_of_def)
  ultimately show ?thesis using i(3) unfolding Let_def by blast
qed

text \<open>Blocks are inserted one after the other; the answers say which were accepted.\<close>

fun insert_blocks :: "ledger_env \<Rightarrow> Block list \<Rightarrow> BlockchainLedger \<Rightarrow> (bool list \<times> BlockchainLedger) outcome" where
  "insert_blocks env [] bcl = Inr ([], bcl)"
| "insert_blocks env (b # bs) bcl =
     obind (insertBlock env b bcl) (\<lambda>((accepted, _), bcl).
     obind (insert_blocks env bs bcl) (\<lambda>(rest, bcl). Inr (accepted # rest, bcl)))"

text \<open>The genesis block lists a fork that is not filed.\<close>

definition dangling_fork :: "hash32 \<Rightarrow> BlockchainLedger \<Rightarrow> bool" where
  "dangling_fork d bcl \<longleftrightarrow> \<not> isPresent d bcl \<and> (\<exists>g. gm_load (bcl_chains bcl) zero32 = Some g \<and> d \<in> fork_set g)"

lemma dangling_fork_insert:
  assumes "order_ok env" "dangling_fork d bcl" "Block_Hash env b \<noteq> d" "insertBlock env b bcl = Inr ((valid, flags), bcl')"
  shows "\<not> valid \<and> dangling_fork d bcl' \<and> bcl_longestChain bcl' = bcl_longestChain bcl"
proof (cases "isPresent (Block_Hash env b) bcl")
  case True
  then show ?thesis using assms(2,4) by (simp add: insertBlock_def Let_def)
next
  case False
  let ?h = "Block_Hash env b"
  obtain g where g: "gm_load (bcl_chains bcl) zero32 = Some g" "d \<in> fork_set g" and d: "gm_load (bcl_chains bcl) d = None"
    using assms(2) by (auto simp: dangling_fork_def isPresent_def)
  obtain p c w bc blocks1 where p: "gm_load (bcl_chains bcl) (parent_of bcl b) = Some p"
    and b1: "blocks1 = gm_store (parent_of bcl b) (add_fork ?h p) (bcl_chains bcl)"
    and k: "(w \<or> gm_load (bcl_chains bcl) (bl_PrevHash b) = None) \<and> accept_block env ?h bc c blocks1 bcl = Inr ((valid, flags), bcl')
      \<or> \<not> w \<and> gm_load (bcl_chains bcl) (bl_PrevHash b) \<noteq> None \<and> \<not> valid \<and> bcl' = bcl\<lparr>bcl_chains := blocks1\<rparr>"
    by (rule insertBlock_result [OF assms(4) False])
  have d1: "gm_load blocks1 d = None" using d p by (auto simp: b1)
  have g1: "\<exists>g'. gm_load blocks1 zero32 = Some g' \<and> d \<in> fork_set g'" using g p by (auto simp: b1)
  have "\<not> (accept_block env ?h bc c blocks1 bcl = Inr ((valid, flags), bcl'))"
  proof
    assume a: "accept_block env ?h bc c blocks1 bcl = Inr ((valid, flags), bcl')"
    have "?h \<noteq> zero32" using g(1) False by (auto simp: isPresent_def)
    then obtain g' where g': "gm_load (gm_store ?h bc blocks1) zero32 = Some g'" "d \<in> fork_set g'" using g1 by auto
    have ro: "\<exists>res. reinsert_orphans env ?h (visit_forks env g') c 0 g' (gm_store ?h bc blocks1) = Inr res"
      using a g'(1) by (auto simp: accept_block_def checkOrphansAndReinsert_def getGenesis_def obind_Inr_iff)
    have "gm_load (gm_store ?h bc blocks1) d = None" using d1 assms(3) by auto
    then show False using ro missing_fork_stops g'(2) visit_forks_set [OF assms(1)] by blast
  qed
  then have "\<not> valid" "bcl' = bcl\<lparr>bcl_chains := blocks1\<rparr>" using k by blast+
  then show ?thesis using d1 g1 by (simp add: dangling_fork_def isPresent_def)
qed

lemma dangling_fork_blocks:
  assumes "order_ok env" "\<forall>b \<in> set bs. Block_Hash env b \<noteq> d"
  shows "dangling_fork d bcl \<Longrightarrow> insert_blocks env bs bcl = Inr (accepted, bcl') \<Longrightarrow>
    set accepted \<subseteq> {False} \<and> dangling_fork d bcl' \<and> bcl_longestChain bcl' = bcl_longestChain bcl"
  using assms(2)
proof (induction bs arbitrary: bcl accepted)
  case (Cons b bs)
  obtain valid flags bcl1 rest where i: "insertBlock env b bcl = Inr ((valid, flags), bcl1)"
    and r: "insert_blocks env bs bcl1 = Inr (rest, bcl')" "accepted = valid # rest"
    using Cons.prems(2) by (auto simp: obind_Inr_iff)
  have "\<not> valid \<and> dangling_fork d bcl1 \<and> bcl_longestChain bcl1 = bcl_longestChain bcl"
    using dangling_fork_insert [OF assms(1) Cons.prems(1) _ i] Cons.prems(3) by simp
  then show ?case using Cons.IH [OF _ r(1)] Cons.prems(3) by (simp add: r(2))
qed simp

lemma rejected_dangles:
  assumes "\<not> isPresent (Block_Hash env b) bcl" "bl_PrevHash b = zero32" "isPresent zero32 bcl"
    and "insertBlock env b bcl = Inr ((False, flags), bcl')"
  shows "dangling_fork (Block_Hash env b) bcl'"
proof -
  obtain g where g: "gm_load (bcl_chains bcl) zero32 = Some g" using assms(3) by (auto simp: isPresent_def)
  obtain p c w bc blocks1 where p: "gm_load (bcl_chains bcl) (parent_of bcl b) = Some p"
    and b1: "blocks1 = gm_store (parent_of bcl b) (add_fork (Block_Hash env b) p) (bcl_chains bcl)"
    and k: "(w \<or> gm_load (bcl_chains bcl) (bl_PrevHash b) = None) \<and> accept_block env (Block_Hash env b) bc c blocks1 bcl = Inr ((False, flags), bcl')
      \<or> \<not> w \<and> gm_load (bcl_chains bcl) (bl_PrevHash b) \<noteq> None \<and> \<not> False \<and> bcl' = bcl\<lparr>bcl_chains := blocks1\<rparr>"
    by (rule insertBlock_result [OF assms(4,1)])
  have "parent_of bcl b = zero32" using assms(2) by (simp add: parent_of_def)
  then have "bcl_chains bcl' = gm_store zero32 (add_fork (Block_Hash env b) g) (bcl_chains bcl)"
    using k accept_block_valid g p b1 by fastforce
  then show ?thesis using assms(1) g by (auto simp: dangling_fork_def isPresent_def)
qed

text \<open>C38: a rejected block on the genesis block ends the ledger: whatever other blocks are inserted later,
  none is accepted, an insertion is refused or ends the process; the head stays the same, and the rejected
  block stays recorded as a fork of the genesis block although it is not filed.\<close>

theorem rejected_block_ends_ledger:
  assumes "order_ok env" "\<not> isPresent (Block_Hash env b) bcl" "bl_PrevHash b = zero32" "isPresent zero32 bcl"
    and "insertBlock env b bcl = Inr ((False, changed, grew), bcl1)"
    and "insert_blocks env bs bcl1 = Inr (accepted, bcl2)" "\<forall>b' \<in> set bs. Block_Hash env b' \<noteq> Block_Hash env b"
  shows "set accepted \<subseteq> {False} \<and> bcl_longestChain bcl2 = bcl_longestChain bcl1
    \<and> \<not> isPresent (Block_Hash env b) bcl2
    \<and> (\<exists>genesis. gm_load (bcl_chains bcl2) zero32 = Some genesis \<and> Block_Hash env b \<in> fork_set genesis)"
  using dangling_fork_blocks [OF assms(1,7) rejected_dangles [OF assms(2-5)] assms(6)] unfolding dangling_fork_def by simp

section \<open>Examples\<close>

text \<open>The hash of an example block is its nonce.\<close>

definition example_ledger_env :: ledger_env where
  "example_ledger_env = \<lparr>le_sha256 = drop 32, le_Order = id, le_Depth = 5\<rparr>"

definition nonce_of :: "byte \<Rightarrow> hash32" where
  "nonce_of n = replicate 31 0 @ [n]"

definition example_block :: "byte \<Rightarrow> byte \<Rightarrow> string list \<Rightarrow> Block" where
  "example_block prev n names = \<lparr>bl_PrevHash = nonce_of prev, bl_Nonce = nonce_of n,
     bl_Transactions = map (\<lambda>s. \<lparr>tx_File = \<lparr>f_Name = s, f_Size = 0, f_MetafileHash = []\<rparr>, tx_HopLimit = 0\<rparr>) names\<rparr>"

definition last_byte :: "hash32 \<Rightarrow> nat" where
  "last_byte h = unat (last h)"

lemma nonce_of_inj [simp]: "nonce_of a = nonce_of b \<longleftrightarrow> a = b"
  by (simp add: nonce_of_def)

lemma zero32_nonce: "zero32 = nonce_of 0"
  by (simp add: zero32_def nonce_of_def replicate_append_same [of 31, symmetric] numeral_eq_Suc)

lemma example_block_simps [simp]:
  "Block_Hash example_ledger_env (example_block prev n names) = nonce_of n"
  "bl_PrevHash (example_block prev n names) = nonce_of prev" "tx_names (example_block prev n names) = names"
proof -
  have l: "length (nonce_of k) = 32" for k by (simp add: nonce_of_def)
  show "Block_Hash example_ledger_env (example_block prev n names) = nonce_of n"
    by (simp add: Block_Hash_def example_ledger_env_def example_block_def copy32_def l)
  show "bl_PrevHash (example_block prev n names) = nonce_of prev" by (simp add: example_block_def)
  show "tx_names (example_block prev n names) = names" by (simp add: example_block_def tx_names_def comp_def)
qed

lemma example_order_ok: "order_ok example_ledger_env"
  by (simp add: order_ok_def example_ledger_env_def)

lemma example_env_simps [simp]: "le_Order example_ledger_env = id" "le_Depth example_ledger_env = Suc (Suc (Suc (Suc (Suc 0))))"
  by (simp_all add: example_ledger_env_def)

lemmas ledger_eval = insertBlock_def isPresent_def NewBlockchainLedger_def newGenesisBlock_def newBlockOfChain_def appendToBlock_def
  checkValidTransactionsBackwards_def checkValidTransactions_def accept_block_def checkOrphansAndReinsert_def getGenesis_def getBlock_def
  headChanges_def getFirstCommon_def removeFork_def bc_names_def claim_names_def AppendUniqueToArray_def NewSafeStringArray_def
  gm_load_def gm_store_def gm_delete_def gm_keys_def zero32_nonce Let_def

text \<open>An orphan, and then its parent.\<close>

definition example_ledger1 :: BlockchainLedger where
  "example_ledger1 = \<lparr>bcl_longestChain = nonce_of 2, bcl_chains = [(nonce_of 0, newGenesisBlock\<lparr>bc_Forks := [(nonce_of 2, True)]\<rparr>),
     (nonce_of 2, \<lparr>bc_LengthOfChain = 1, bc_Block = example_block 1 2 [''b''], bc_Forks = []\<rparr>)]\<rparr>"

definition example_ledger2 :: BlockchainLedger where
  "example_ledger2 = \<lparr>bcl_longestChain = nonce_of 2, bcl_chains = [(nonce_of 0, newGenesisBlock\<lparr>bc_Forks := [(nonce_of 1, True)]\<rparr>),
     (nonce_of 2, \<lparr>bc_LengthOfChain = 2, bc_Block = example_block 1 2 [''b''], bc_Forks = []\<rparr>),
     (nonce_of 1, \<lparr>bc_LengthOfChain = 1, bc_Block = example_block 0 1 [''a''], bc_Forks = [(nonce_of 2, True)]\<rparr>)]\<rparr>"

lemma example_insert1: "insertBlock example_ledger_env (example_block 1 2 [''b'']) NewBlockchainLedger = Inr ((True, True, True), example_ledger1)"
  by (simp add: ledger_eval example_ledger1_def)

lemma example_insert2: "insertBlock example_ledger_env (example_block 0 1 [''a'']) example_ledger1 = Inr ((True, False, False), example_ledger2)"
  by (simp add: ledger_eval example_ledger1_def example_ledger2_def)

lemma example_reachable: "ledger_reachable example_ledger_env last_byte example_ledger2"
proof -
  have "ledger_reachable example_ledger_env last_byte example_ledger1"
    by (rule ledger_insert [OF ledger_start _ example_insert1]) (simp_all add: last_byte_def nonce_of_def)
  then show ?thesis by (rule ledger_insert [OF _ _ example_insert2]) (simp_all add: last_byte_def nonce_of_def)
qed

theorem ledger_stays_sound_witness:
  "names_at (gm_load (bcl_chains example_ledger2)) (nonce_of 2) \<inter> names_at (gm_load (bcl_chains example_ledger2)) (nonce_of 1) = {}"
proof -
  have "(nonce_of 2, nonce_of 1) \<in> up {} (gm_load (bcl_chains example_ledger2))"
    by (simp add: up_def example_ledger2_def gm_load_def zero32_nonce)
  then show ?thesis using ledger_stays_sound [OF example_order_ok example_reachable] unfolding Let_def by blast
qed

text \<open>A block that claims a name twice.\<close>

definition rejecting_ledger :: BlockchainLedger where
  "rejecting_ledger = \<lparr>bcl_longestChain = nonce_of 0, bcl_chains = [(nonce_of 0, newGenesisBlock\<lparr>bc_Forks := [(nonce_of 1, True)]\<rparr>)]\<rparr>"

lemma example_rejected: "insertBlock example_ledger_env (example_block 0 1 [''a'', ''a'']) NewBlockchainLedger = Inr ((False, False, False), rejecting_ledger)"
  by (simp add: ledger_eval rejecting_ledger_def)

theorem rejected_block_ends_ledger_witness:
  "\<exists>bcl. insert_blocks example_ledger_env [example_block 0 2 [''b'', ''b'']] rejecting_ledger = Inr ([False], bcl)
    \<and> bcl_longestChain bcl = nonce_of 0 \<and> \<not> isPresent (nonce_of 1) bcl"
proof -
  let ?b = "example_block 0 1 [''a'', ''a'']" and ?bs = "[example_block 0 2 [''b'', ''b'']]"
  have "\<exists>bcl. insert_blocks example_ledger_env ?bs rejecting_ledger = Inr ([False], bcl)"
    by (simp add: ledger_eval rejecting_ledger_def)
  then obtain bcl where i: "insert_blocks example_ledger_env ?bs rejecting_ledger = Inr ([False], bcl)" by blast
  have "bcl_longestChain bcl = bcl_longestChain rejecting_ledger \<and> \<not> isPresent (Block_Hash example_ledger_env ?b) bcl"
    using rejected_block_ends_ledger [OF example_order_ok _ _ _ example_rejected i]
    by (simp add: isPresent_def NewBlockchainLedger_def gm_load_def zero32_nonce)
  then show ?thesis using i by (simp add: rejecting_ledger_def)
qed

end
