(* ===== verification/Mining.thy ===== *)
theory Mining
  imports LedgerSafety
begin

text \<open>
  The mining routine of \<open>src/gossiper/blockchain.go\<close>, as one step per iteration of its loop: a transaction, a
  block, or, when neither has arrived, an attempt with the next nonce.  The program does not start it.
  Nonces, the clock and the order in which a map is visited are arguments.
\<close>

section \<open>Transactions and blocks\<close>

type_synonym tx_map = "(string, TxPublish) gomap"

definition mapDifference :: "tx_map \<Rightarrow> (string, bool) gomap \<Rightarrow> tx_map" where
  "mapDifference first second = filter (\<lambda>(k, _). gm_load second k = None) first"

definition getNames :: "Block \<Rightarrow> (string, bool) gomap" where
  "getNames b = fold add_name (tx_names b) []"

definition createBlock :: "(string list \<Rightarrow> string list) \<Rightarrow> hash32 \<Rightarrow> bytes \<Rightarrow> tx_map \<Rightarrow> Block" where
  "createBlock order prevHash nonce txMap =
     \<lparr>bl_PrevHash = prevHash, bl_Nonce = nonce, bl_Transactions = List.map_filter (gm_load txMap) (order (gm_keys txMap))\<rparr>"

text \<open>The loop stops at the first byte that does not overflow.\<close>

fun increment_bytes :: "bytes \<Rightarrow> bytes" where
  "increment_bytes [] = []"
| "increment_bytes (b # bs) = (if b + 1 \<noteq> 0 then (b + 1) # bs else 0 # increment_bytes bs)"

definition incrementNonce :: "hash32 \<Rightarrow> hash32" where
  "incrementNonce nonce = rev (increment_bytes (rev nonce))"

definition forwardBlockOrTx :: "SafeStringArray \<Rightarrow> GossipPacket \<Rightarrow> address \<Rightarrow> (GossipPacket \<times> action list) outcome" where
  "forwardBlockOrTx peers packet sender =
     obind (DecrementHopCount packet) (\<lambda>(packet, shouldSend).
       Inr (packet, if shouldSend then map (SendUDP packet) (stringArrayDifference (GetArrayCopy peers) [sender]) else []))"

text \<open>After the delay.\<close>

definition forwardOwnBlock :: "SafeStringArray \<Rightarrow> GossipPacket \<Rightarrow> action list outcome" where
  "forwardOwnBlock peers packet =
     obind (DecrementHopCount packet) (\<lambda>(packet, shouldSend).
       Inr (if shouldSend then map (SendUDP packet) (stringArrayDifference (GetArrayCopy peers) []) else []))"

section \<open>The routine\<close>

record miner =
  mn_ledger :: BlockchainLedger
  mn_everyTxEver :: tx_map
  mn_pendingNames :: tx_map
  mn_takenNames :: "(string, bool) gomap"
  mn_headhash :: hash32
  mn_nonce :: bytes
  mn_lastTimeMined :: time
  mn_firstBlock :: bool
  mn_canMine :: bool

datatype mining_event = TxArrived PacketAddressPair | BlockArrived PacketAddressPair | Idle bytes | OwnBlockDelayOver GossipPacket

datatype mining_action = MineOut action | GoForwardOwnBlock GossipPacket time

definition second :: time where "second = 1000000000"

definition taken_names :: "ledger_env \<Rightarrow> BlockchainLedger \<Rightarrow> (string, bool) gomap outcome" where
  "taken_names env bcl =
     (case snd (getHead bcl) of
        None \<Rightarrow> Inl nil_deref
      | Some head \<Rightarrow> getTakenNames (le_Depth env) (bcl_chains bcl) head)"

definition mining_start :: "ledger_env \<Rightarrow> bytes \<Rightarrow> time \<Rightarrow> BlockchainLedger \<Rightarrow> miner outcome" where
  "mining_start env nonce now bcl =
     obind (taken_names env bcl) (\<lambda>takenNames.
       Inr \<lparr>mn_ledger = bcl, mn_everyTxEver = [], mn_pendingNames = [], mn_takenNames = takenNames, mn_headhash = fst (getHead bcl),
            mn_nonce = nonce, mn_lastTimeMined = now, mn_firstBlock = True, mn_canMine = True\<rparr>)"

text \<open>The maps hold pointers to the transaction, whose hop limit is decremented afterwards.\<close>

definition tx_arrived :: "SafeStringArray \<Rightarrow> PacketAddressPair \<Rightarrow> time \<Rightarrow> miner \<Rightarrow> (miner \<times> mining_action list) outcome" where
  "tx_arrived peers pap now m =
     (case gp_TxPublish (pap_Packet pap) of
        None \<Rightarrow> Inl nil_deref
      | Some txPub \<Rightarrow>
          obind (forwardBlockOrTx peers (pap_Packet pap) (GetSenderAddress pap)) (\<lambda>(packet, acts).
            let name = f_Name (tx_File txPub); txPub = (case gp_TxPublish packet of Some t \<Rightarrow> t | None \<Rightarrow> txPub);
                m = (if gm_load (mn_pendingNames m) name = None \<and> gm_load (mn_takenNames m) name = None
                     then m\<lparr>mn_pendingNames := gm_store name txPub (mn_pendingNames m), mn_lastTimeMined := now\<rparr> else m);
                m = (if gm_load (mn_everyTxEver m) name = None
                     then m\<lparr>mn_everyTxEver := gm_store name txPub (mn_everyTxEver m)\<rparr> else m)
            in Inr (m, map MineOut acts)))"

text \<open>
  The names taken on the new chain are put into a variable of their own: \<open>mn_takenNames\<close> keeps its first value.
\<close>

definition block_arrived :: "ledger_env \<Rightarrow> SafeStringArray \<Rightarrow> PacketAddressPair \<Rightarrow> time \<Rightarrow> miner \<Rightarrow> (miner \<times> mining_action list) outcome" where
  "block_arrived env peers pap now m =
     (case gp_BlockPublish (pap_Packet pap) of
        None \<Rightarrow> Inl nil_deref
      | Some bp \<Rightarrow>
          let block = bp_Block bp in
          if \<not> checkValid env block \<or> isPresent (Block_Hash env block) (mn_ledger m) then Inr (m, [])
          else obind (insertBlock env block (mn_ledger m)) (\<lambda>((_, headChanged, headGrew), bcl).
            let m = m\<lparr>mn_ledger := bcl\<rparr> in
            obind (if headChanged then
                     obind (taken_names env bcl) (\<lambda>takenNames.
                       Inr (m\<lparr>mn_headhash := fst (getHead bcl), mn_pendingNames := mapDifference (mn_everyTxEver m) takenNames\<rparr>))
                   else if headGrew then
                     Inr (m\<lparr>mn_headhash := fst (getHead bcl), mn_pendingNames := mapDifference (mn_pendingNames m) (getNames block)\<rparr>)
                   else Inr m) (\<lambda>m.
            obind (forwardBlockOrTx peers (pap_Packet pap) (GetSenderAddress pap)) (\<lambda>(_, acts).
              Inr (m\<lparr>mn_lastTimeMined := now\<rparr>, map MineOut acts)))))"

text \<open>The answer of the insertion is not looked at.\<close>

definition mine_next :: "ledger_env \<Rightarrow> (string list \<Rightarrow> string list) \<Rightarrow> bytes \<Rightarrow> time \<Rightarrow> miner \<Rightarrow> (miner \<times> mining_action list) outcome" where
  "mine_next env order nextNonce now m =
     (if \<not> mn_canMine m then Inr (m\<lparr>mn_lastTimeMined := now\<rparr>, [])
      else let blockToMine = createBlock order (mn_headhash m) (mn_nonce m) (mn_pendingNames m) in
        case mine env blockToMine of
          None \<Rightarrow> Inr (m\<lparr>mn_nonce := nextNonce\<rparr>, [])
        | Some blockPub \<Rightarrow>
            obind (insertBlock env blockToMine (mn_ledger m)) (\<lambda>(_, bcl).
              let delay = (if mn_firstBlock m then second * 5 else now - mn_lastTimeMined m)
              in Inr (m\<lparr>mn_ledger := bcl, mn_headhash := fst (getHead bcl), mn_pendingNames := [], mn_lastTimeMined := now,
                        mn_firstBlock := False, mn_canMine := False, mn_nonce := nextNonce\<rparr>,
                      [GoForwardOwnBlock (emptyPacket\<lparr>gp_BlockPublish := Some blockPub\<rparr>) (2 * delay)])))"

definition mining_step :: "ledger_env \<Rightarrow> (string list \<Rightarrow> string list) \<Rightarrow> SafeStringArray \<Rightarrow> mining_event \<Rightarrow> time \<Rightarrow> miner
    \<Rightarrow> (miner \<times> mining_action list) outcome" where
  "mining_step env order peers event now m =
     (case event of
        TxArrived pap \<Rightarrow> tx_arrived peers pap now m
      | BlockArrived pap \<Rightarrow> block_arrived env peers pap now m
      | Idle nextNonce \<Rightarrow> mine_next env order nextNonce now m
      | OwnBlockDelayOver packet \<Rightarrow>
          obind (forwardOwnBlock peers packet) (\<lambda>acts. Inr (m\<lparr>mn_canMine := True\<rparr>, map MineOut acts)))"

section \<open>A block on the head\<close>

lemma claim_iff: "\<exists>c1. claim names c = (c1, distinct names \<and> set names \<inter> claimed c = {})
  \<and> (distinct names \<and> set names \<inter> claimed c = {} \<longrightarrow> claimed c1 = claimed c \<union> set names)"
proof (induction names arbitrary: c)
  case (Cons n names)
  show ?case
  proof (cases "gm_load (ssa_exists c) n")
    case None
    let ?c = "c\<lparr>ssa_exists := gm_store n True (ssa_exists c), ssa_array := ssa_array c @ [n]\<rparr>"
    have "claimed ?c = insert n (claimed c)" "n \<notin> claimed c" using None by (auto simp: claimed_def)
    then show ?thesis using Cons.IH [of ?c] None by (auto simp: AppendUniqueToArray_def)
  next
    case (Some b)
    then have "n \<in> claimed c" by (simp add: claimed_def)
    then show ?thesis using Some by (auto simp: AppendUniqueToArray_def)
  qed
qed simp

definition acyclic_blocks :: "(hash32 \<Rightarrow> nat) \<Rightarrow> blocks \<Rightarrow> bool" where
  "acyclic_blocks rank m = (\<forall>f b. m f = Some b \<longrightarrow> f \<noteq> zero32 \<longrightarrow> rank (prev_of b) < rank f)"

lemma well_linked_acyclic: "well_linked env rank S m \<Longrightarrow> acyclic_blocks rank m"
  unfolding acyclic_blocks_def using well_linkedD(4) by blast

text \<open>A depth above the rank is enough.\<close>

lemma claim_backwards_returns:
  assumes "acyclic_blocks rank (gm_load blocks)"
  shows "rank x < n \<Longrightarrow> \<exists>r. claim_backwards n blocks x c = Inr r"
proof (induction n arbitrary: x c)
  case (Suc n)
  show ?case
  proof (cases "x = zero32 \<or> gm_load blocks x = None")
    case True
    then show ?thesis by auto
  next
    case False
    then obtain b where b: "gm_load blocks x = Some b" "x \<noteq> zero32" by auto
    then have "rank (prev_of b) < n" using assms Suc.prems unfolding acyclic_blocks_def by fastforce
    then show ?thesis using Suc.IH b by (auto split: prod.splits)
  qed
qed simp

lemma claim_backwards_mono: "claim_backwards n blocks x c = Inr r \<Longrightarrow> n \<le> k \<Longrightarrow> claim_backwards k blocks x c = Inr r"
proof (induction n arbitrary: x c k)
  case (Suc n)
  then obtain k' where "k = Suc k'" "n \<le> k'" by (cases k) auto
  then show ?case using Suc by (auto split: if_splits option.splits prod.splits)
qed simp

lemma claim_backwards_more:
  assumes "claim_backwards n blocks x c = Inr (c1, True)" "claimed c' = claimed c \<union> N"
    and "\<forall>y. (x, y) \<in> (up {} (gm_load blocks))\<^sup>* \<longrightarrow> names_at (gm_load blocks) y \<inter> N = {}"
  shows "\<exists>c2. claim_backwards n blocks x c' = Inr (Some c2, True)"
  using assms
proof (induction n arbitrary: x c c')
  case (Suc n)
  let ?m = "gm_load blocks"
  show ?case
  proof (cases "x = zero32 \<or> ?m x = None")
    case True
    then show ?thesis by auto
  next
    case False
    then obtain b where b: "?m x = Some b" "x \<noteq> zero32" by auto
    obtain d where d: "claim (bc_names b) c = (d, distinct (bc_names b) \<and> set (bc_names b) \<inter> claimed c = {})"
      "distinct (bc_names b) \<and> set (bc_names b) \<inter> claimed c = {} \<longrightarrow> claimed d = claimed c \<union> set (bc_names b)" using claim_iff by blast
    obtain d' where d': "claim (bc_names b) c' = (d', distinct (bc_names b) \<and> set (bc_names b) \<inter> claimed c' = {})"
      "distinct (bc_names b) \<and> set (bc_names b) \<inter> claimed c' = {} \<longrightarrow> claimed d' = claimed c' \<union> set (bc_names b)" using claim_iff by blast
    have v: "distinct (bc_names b)" "set (bc_names b) \<inter> claimed c = {}" and r: "claim_backwards n blocks (prev_of b) d = Inr (c1, True)"
      using Suc.prems(1) b d(1) by (auto simp: checkValidTransactions_def split: if_splits)
    have "set (bc_names b) \<inter> N = {}" using Suc.prems(3) b(1) by (force simp: names_at_def)
    then have v': "set (bc_names b) \<inter> claimed c' = {}" using v(2) Suc.prems(2) by blast
    have cl: "claimed d' = claimed d \<union> N" using d(2) d'(2) v v' Suc.prems(2) by auto
    have "names_at ?m y \<inter> N = {}" if y: "(prev_of b, y) \<in> (up {} ?m)\<^sup>*" for y
    proof (cases "?m (prev_of b) = None")
      case True
      then have "y = prev_of b" using y by (auto simp: up_def elim: converse_rtranclE)
      then show ?thesis using True by (simp add: names_at_def)
    next
      case False
      then have "(x, prev_of b) \<in> up {} ?m" using b by (simp add: up_def)
      then show ?thesis using Suc.prems(3) y by (meson converse_rtrancl_into_rtrancl)
    qed
    then obtain c2 where "claim_backwards n blocks (prev_of b) d' = Inr (Some c2, True)" using Suc.IH [OF r cl] by blast
    then show ?thesis using b d'(1) v(1) v' by (simp add: checkValidTransactions_def)
  qed
qed simp

lemma claim_backwards_same: "same_blocks (gm_load blocks) (gm_load blocks') \<Longrightarrow> claim_backwards n blocks' x c = claim_backwards n blocks x c"
proof (induction n arbitrary: x c)
  case (Suc n)
  then have "map_option bc_Block (gm_load blocks' x) = map_option bc_Block (gm_load blocks x)" unfolding same_blocks_def by blast
  then show ?case using Suc by (cases "gm_load blocks x"; cases "gm_load blocks' x") (auto simp: checkValidTransactions_def bc_names_def split: prod.splits)
qed simp

lemma getBlocksInChain_returns:
  assumes "acyclic_blocks rank (gm_load blocks)"
  shows "rank (prev_of bc) < n \<Longrightarrow> \<exists>r. getBlocksInChain env n blocks bc = Inr r"
proof (induction n arbitrary: bc)
  case (Suc n)
  show ?case
  proof (cases "prev_of bc = zero32 \<or> gm_load blocks (prev_of bc) = None")
    case True
    then show ?thesis by (auto split: option.splits)
  next
    case False
    then obtain b where b: "gm_load blocks (prev_of bc) = Some b" "prev_of bc \<noteq> zero32" by auto
    then have "rank (prev_of b) < n" using assms Suc.prems unfolding acyclic_blocks_def by fastforce
    then show ?thesis using Suc.IH b by (auto simp: obind_Inr_iff)
  qed
qed simp

definition name_set :: "(string, 'v) gomap \<Rightarrow> string set" where
  "name_set t = {k. gm_load t k \<noteq> None}"

lemma name_set_keys: "set (gm_keys t) = name_set t"
  by (simp add: name_set_def set_gm_keys)

lemma name_set_add: "name_set (fold add_name ns t) = set ns \<union> name_set t"
  by (induction ns arbitrary: t) (auto simp: add_name_def name_set_def)

lemma getTakenNames_all:
  assumes z: "names_at (gm_load blocks) zero32 = {}"
  shows "getTakenNames n blocks b = Inr t \<Longrightarrow> gm_load blocks x = Some b
    \<Longrightarrow> (x, y) \<in> (up {} (gm_load blocks))\<^sup>* \<Longrightarrow> names_at (gm_load blocks) y \<subseteq> name_set t"
proof (induction n arbitrary: b t x)
  case (Suc n)
  let ?m = "gm_load blocks"
  have own: "names_at ?m x \<subseteq> name_set t"
    using Suc.prems(1,2) by (auto simp: names_at_def Let_def obind_Inr_iff name_set_add name_set_keys split: option.splits if_splits)
  show ?case
  proof (cases "y = x")
    case False
    then have p: "(prev_of b, y) \<in> (up {} ?m)\<^sup>*" "?m (prev_of b) \<noteq> None" using Suc.prems(2,3) by (auto simp: up_def elim: converse_rtranclE)
    then obtain pb where pb: "?m (prev_of b) = Some pb" by blast
    show ?thesis
    proof (cases "prev_of b = zero32")
      case True
      then have "y = zero32" using p(1) by (auto simp: up_def elim: converse_rtranclE)
      then show ?thesis using z by simp
    next
      case False
      then obtain t' where t': "getTakenNames n blocks pb = Inr t'" "t = fold add_name (gm_keys (fold add_name (bc_names b) [])) t'"
        using Suc.prems(1) pb by (auto simp: Let_def obind_Inr_iff)
      show ?thesis using Suc.IH [OF t'(1) pb p(1)] unfolding t'(2) name_set_add by blast
    qed
  qed (use own in simp)
qed simp

lemma reinsert_none:
  "\<forall>f \<in> set hs. \<exists>fb. gm_load blocks f = Some fb \<and> prev_of fb \<noteq> h \<Longrightarrow> reinsert_orphans env h hs c n hi blocks = Inr (n, hi, blocks)"
  by (induction hs) (auto simp: getBlock_def)

lemma check_on_head:
  assumes w: "well_linked env rank {} (gm_load blocks)" and hd': "gm_load blocks x = Some hd'" and b: "prev_of bc = x"
    and rank: "rank x < n" "le_Depth env = Suc n"
    and v: "checkValidTransactionsBackwards env blocks hd' = Inr (Some c, True)"
    and t: "getTakenNames (le_Depth env) blocks hd' = Inr t" "distinct (bc_names bc)" "set (bc_names bc) \<inter> name_set t = {}"
    and s: "same_blocks (gm_load blocks) (gm_load blocks1)"
  shows "\<exists>c. checkValidTransactionsBackwards env blocks1 bc = Inr (Some c, True)"
proof -
  let ?m = "gm_load blocks"
  have z: "names_at ?m zero32 = {}"
    using well_linkedD(2) [OF w] by (auto simp: names_at_def bc_names_def tx_names_def newGenesisBlock_def)
  obtain d where d: "claim (bc_names bc) (NewSafeStringArray []) = (d, True)" "claimed d = set (bc_names bc)"
    using claim_iff [of "bc_names bc" "NewSafeStringArray []"] t(2) by auto
  obtain e where e: "claim (bc_names hd') (NewSafeStringArray []) = (e, True)"
    and r: "claim_backwards (le_Depth env) blocks (prev_of hd') e = Inr (Some c, True)"
    using v by (auto simp: checkValidTransactionsBackwards_def split: if_splits prod.splits)
  note e' = claim_result [OF e]
  have own: "names_at ?m x = set (bc_names hd')" using hd' by (simp add: names_at_def)
  have chain: "names_at ?m y \<inter> set (bc_names bc) = {}" if "(x, y) \<in> (up {} ?m)\<^sup>*" for y
    using getTakenNames_all [OF z t(1) hd' that] t(3) by blast
  have "\<exists>c. claim_backwards (Suc n) blocks x d = Inr (Some c, True)"
  proof (cases "x = zero32")
    case True
    then show ?thesis by simp
  next
    case False
    obtain d' where d': "claim (bc_names hd') d = (d', True)" "claimed d' = claimed d \<union> set (bc_names hd')"
      using claim_iff [of "bc_names hd'" d] e' chain [of x] own d(2) by auto
    have "rank (prev_of hd') < n" using well_linkedD(4) [OF w hd' False] rank(1) by simp
    then obtain q where q: "claim_backwards n blocks (prev_of hd') e = Inr q"
      using claim_backwards_returns [OF well_linked_acyclic [OF w]] by blast
    have qc: "q = (Some c, True)" using claim_backwards_mono [OF q, of "le_Depth env"] rank(2) r by simp
    have "names_at ?m y \<inter> set (bc_names bc) = {}" if y: "(prev_of hd', y) \<in> (up {} ?m)\<^sup>*" for y
    proof (cases "?m (prev_of hd') = None")
      case True
      then have "y = prev_of hd'" using y by (auto simp: up_def elim: converse_rtranclE)
      then show ?thesis using True by (simp add: names_at_def)
    next
      case nn: False
      then have "(x, prev_of hd') \<in> up {} ?m" using hd' False by (simp add: up_def)
      then show ?thesis using chain y by (meson converse_rtrancl_into_rtrancl)
    qed
    then obtain c2 where "claim_backwards n blocks (prev_of hd') d' = Inr (Some c2, True)"
      using claim_backwards_more [OF q [unfolded qc], of d' "set (bc_names bc)"] d'(2) d(2) e' by auto
    then show ?thesis using False hd' d'(1) by (simp add: checkValidTransactions_def)
  qed
  then show ?thesis unfolding checkValidTransactionsBackwards_def rank(2) claim_backwards_same [OF s] using b d(1) by simp
qed

lemma insert_on_head:
  assumes o: "order_ok env" and l: "ledger_inv env rank bcl" and hd': "gm_load (bcl_chains bcl) (bcl_longestChain bcl) = Some hd'"
    and b: "bl_PrevHash b = bcl_longestChain bcl" "\<not> isPresent (Block_Hash env b) bcl"
    and rank: "rank (bl_PrevHash b) < rank (Block_Hash env b)" "rank (Block_Hash env b) < le_Depth env"
    and v: "checkValidTransactionsBackwards env (bcl_chains bcl) hd' = Inr (Some c, True)"
    and t: "getTakenNames (le_Depth env) (bcl_chains bcl) hd' = Inr t" "distinct (tx_names b)" "set (tx_names b) \<inter> name_set t = {}"
    and wait: "\<forall>f fb. gm_load (bcl_chains bcl) f = Some fb \<longrightarrow> prev_of fb \<noteq> Block_Hash env b"
  shows "\<exists>bcl' nb. insertBlock env b bcl = Inr ((True, False, True), bcl') \<and> bcl_longestChain bcl' = Block_Hash env b
    \<and> gm_load (bcl_chains bcl') (Block_Hash env b) = Some nb \<and> bc_Block nb = b \<and> bc_LengthOfChain nb = bc_LengthOfChain hd' + 1"
proof -
  let ?h = "Block_Hash env b" and ?x = "bcl_longestChain bcl" and ?m = "gm_load (bcl_chains bcl)"
  note w = ledger_invD(1) [OF l]
  define bc where "bc = (newBlockOfChain b)\<lparr>bc_LengthOfChain := bc_LengthOfChain hd' + 1\<rparr>"
  define blocks1 where "blocks1 = gm_store ?x (add_fork ?h hd') (bcl_chains bcl)"
  define blocks2 where "blocks2 = gm_store ?h bc blocks1"
  have bc: "bc_Block bc = b" "bc_LengthOfChain bc = bc_LengthOfChain hd' + 1" by (simp_all add: bc_def newBlockOfChain_def)
  have h: "?m ?h = None" using b(2) by (simp add: isPresent_def)
  have hx: "?h \<noteq> ?x" "?h \<noteq> zero32" using h hd' well_linkedD(2) [OF w] by auto
  have m2: "gm_load blocks2 = ?m(?x \<mapsto> add_fork ?h hd', ?h \<mapsto> bc)" by (simp add: blocks2_def blocks1_def fun_eq_iff)
  have s: "same_blocks ?m (gm_load blocks1)" unfolding same_blocks_def blocks1_def using hd' by simp
  obtain n where n: "le_Depth env = Suc n" "rank ?x < n" using rank b(1) by (cases "le_Depth env") auto
  obtain d where ck: "checkValidTransactionsBackwards env blocks1 bc = Inr (Some d, True)"
    using check_on_head [OF w hd' _ n(2,1) v t(1) _ _ s, of bc] t(2,3) b(1) by (auto simp: bc bc_names_def)
  obtain g where g: "gm_load blocks2 zero32 = Some g" "bc_LengthOfChain g = 0" "fork_set g \<subseteq> {f. ?m f \<noteq> None} \<union> {?h}"
    using well_linkedD(2,3) [OF w] hd' hx unfolding m2 by (cases "zero32 = ?x") force+
  have "\<forall>f \<in> set (visit_forks env g). \<exists>fb. gm_load blocks2 f = Some fb \<and> prev_of fb \<noteq> ?h"
    using g(3) wait b(1) hx(1) hd' unfolding visit_forks_set [OF o] m2 by (force simp: bc(1))
  then have re: "checkOrphansAndReinsert env ?h (Some d) blocks2 = Inr (0, g, blocks2)"
    using g(1) by (simp add: checkOrphansAndReinsert_def getGenesis_def getBlock_def reinsert_none)
  have len: "bc_LengthOfChain bc > 0" using length_positive [OF w hd'] unfolding bc(2) by (auto split: if_splits)
  have "acyclic_blocks rank (gm_load blocks2)"
    using well_linked_acyclic [OF w] rank(1) hd' hx unfolding acyclic_blocks_def m2 by (auto simp: bc(1))
  then obtain ls where ls: "getBlocksInChain env (le_Depth env) blocks2 bc = Inr ls"
    using getBlocksInChain_returns [of rank blocks2 bc "le_Depth env" env] rank by (auto simp: bc(1))
  have hc: "headChanges env (bc_LengthOfChain bc) bc (bcl\<lparr>bcl_chains := blocks2\<rparr>)
      = Inr ((False, True), bcl\<lparr>bcl_chains := blocks2, bcl_longestChain := ?h\<rparr>)"
    using ls hx(1) b(1) by (simp add: headChanges_def getBlock_def m2 bc)
  have "accept_block env ?h bc (Some d) blocks1 bcl = Inr ((True, False, True), bcl\<lparr>bcl_chains := blocks2, bcl_longestChain := ?h\<rparr>)"
    using re len hc by (simp add: accept_block_def flip: blocks2_def)
  moreover have "insertBlock env b bcl = accept_block env ?h bc (Some d) blocks1 bcl"
    using b hd' ck by (simp add: insertBlock_def Let_def appendToBlock_def bc_def newBlockOfChain_def blocks1_def add_fork_def)
  ultimately show ?thesis using bc m2 by simp
qed

section \<open>The pending transactions\<close>

definition filed_by_name :: "tx_map \<Rightarrow> bool" where
  "filed_by_name m = (gm_wf m \<and> (\<forall>k tx. gm_load m k = Some tx \<longrightarrow> f_Name (tx_File tx) = k))"

lemma filed_by_name_empty [simp]: "filed_by_name []"
  by (simp add: filed_by_name_def gm_load_def)

lemma filed_by_name_store: "filed_by_name m \<Longrightarrow> f_Name (tx_File tx) = k \<Longrightarrow> filed_by_name (gm_store k tx m)"
  by (auto simp: filed_by_name_def)

lemma mapDifference_load:
  assumes "gm_wf m"
  shows "gm_wf (mapDifference m t)" "gm_load (mapDifference m t) k = (if gm_load t k = None then gm_load m k else None)"
proof -
  show wf: "gm_wf (mapDifference m t)" using assms by (auto simp: gm_wf_def mapDifference_def intro: distinct_map_filter)
  have "gm_load (mapDifference m t) k = Some v \<longleftrightarrow> (if gm_load t k = None then gm_load m k else None) = Some v" for v
    using gm_load_Some_iff [OF wf, of k v] gm_load_Some_iff [OF assms, of k v] by (auto simp: mapDifference_def)
  then show "gm_load (mapDifference m t) k = (if gm_load t k = None then gm_load m k else None)" by (metis not_Some_eq)
qed

lemma filed_by_name_difference: "filed_by_name m \<Longrightarrow> filed_by_name (mapDifference m t)"
  using mapDifference_load [of m t] unfolding filed_by_name_def by auto

lemma decrement_keeps_file:
  assumes "DecrementHopCount p = Inr (p', s)" "gp_TxPublish p = Some t"
  shows "\<exists>t'. gp_TxPublish p' = Some t' \<and> tx_File t' = tx_File t"
  using assms by (auto simp: DecrementHopCount_def subtype_of_def message_hop_defs cant_def Let_def split: option.splits if_splits)

definition miner_inv :: "miner \<Rightarrow> bool" where
  "miner_inv m = (filed_by_name (mn_pendingNames m) \<and> filed_by_name (mn_everyTxEver m))"

lemma mining_step_inv:
  assumes "miner_inv m" "mining_step env order peers event now m = Inr (m', acts)"
  shows "miner_inv m'"
proof (cases event)
  case (TxArrived pap)
  then obtain tx p' s where tx: "gp_TxPublish (pap_Packet pap) = Some tx" and f: "forwardBlockOrTx peers (pap_Packet pap) (GetSenderAddress pap) = Inr (p', s)"
    using assms(2) by (auto simp: mining_step_def tx_arrived_def obind_Inr_iff split: option.splits)
  obtain sent where "DecrementHopCount (pap_Packet pap) = Inr (p', sent)" using f by (auto simp: forwardBlockOrTx_def obind_Inr_iff)
  then obtain t' where "gp_TxPublish p' = Some t'" "tx_File t' = tx_File tx" using decrement_keeps_file [OF _ tx] by blast
  then show ?thesis using assms TxArrived tx f
    by (auto simp: mining_step_def tx_arrived_def Let_def miner_inv_def filed_by_name_store)
next
  case (BlockArrived pap)
  then show ?thesis using assms
    by (auto simp: mining_step_def block_arrived_def Let_def obind_Inr_iff miner_inv_def filed_by_name_difference split: option.splits if_splits)
next
  case (Idle n)
  then show ?thesis using assms
    by (auto simp: mining_step_def mine_next_def Let_def obind_Inr_iff miner_inv_def split: option.splits if_splits)
next
  case (OwnBlockDelayOver p)
  then show ?thesis using assms by (auto simp: mining_step_def obind_Inr_iff miner_inv_def)
qed

lemma createBlock_names:
  assumes "filed_by_name m" "mset (order (gm_keys m)) = mset (gm_keys m)"
  shows "tx_names (createBlock order h n m) = order (gm_keys m)" "distinct (order (gm_keys m))" "set (order (gm_keys m)) = name_set m"
proof -
  have names: "map (\<lambda>tx. f_Name (tx_File tx)) (List.map_filter (gm_load m) ks) = ks" if "set ks \<subseteq> name_set m" for ks
    using that assms(1) by (induction ks) (auto simp: List.map_filter_simps filed_by_name_def name_set_def)
  show s: "set (order (gm_keys m)) = name_set m" using assms(2) name_set_keys by (metis set_mset_mset)
  then show "tx_names (createBlock order h n m) = order (gm_keys m)" using names by (simp add: createBlock_def tx_names_def)
  have "distinct (gm_keys m)" using assms(1) by (simp add: filed_by_name_def gm_wf_def gm_keys_def)
  then show "distinct (order (gm_keys m))" using assms(2) by (metis mset_eq_imp_distinct_iff)
qed

section \<open>Properties\<close>

text \<open>C18: a block that is mined on a valid chain becomes its head: when the routine works on the head of the
  longest chain, none of the pending names is taken on it, and the hash of the new block has 16 zero bits,
  then the block is accepted, the longest chain ends with it and is one longer, and it is published.\<close>

theorem mined_block_becomes_head:
  assumes "order_ok env" "ledger_reachable env rank (mn_ledger m)" "getHead (mn_ledger m) = (mn_headhash m, Some head)"
    and "checkValidTransactionsBackwards env (bcl_chains (mn_ledger m)) head = Inr (Some c, True)"
    and "getTakenNames (le_Depth env) (bcl_chains (mn_ledger m)) head = Inr taken"
    and "miner_inv m" "name_set (mn_pendingNames m) \<inter> name_set taken = {}" "mset (order (gm_keys (mn_pendingNames m))) = mset (gm_keys (mn_pendingNames m))"
    and "mn_canMine m" "b = createBlock order (mn_headhash m) (mn_nonce m) (mn_pendingNames m)" "checkValid env b"
    and "\<not> isPresent (Block_Hash env b) (mn_ledger m)" "rank (mn_headhash m) < rank (Block_Hash env b)" "rank (Block_Hash env b) < le_Depth env"
    and "\<forall>f fb. gm_load (bcl_chains (mn_ledger m)) f = Some fb \<longrightarrow> prev_of fb \<noteq> Block_Hash env b"
  shows "\<exists>m' delay nb. mining_step env order peers (Idle nonce) now m
      = Inr (m', [GoForwardOwnBlock (emptyPacket\<lparr>gp_BlockPublish := Some \<lparr>bp_Block = b, bp_HopLimit = defaultHopLimit\<rparr>\<rparr>) delay])
    \<and> getHead (mn_ledger m') = (Block_Hash env b, Some nb) \<and> bc_Block nb = b \<and> bc_LengthOfChain nb = bc_LengthOfChain head + 1
    \<and> mn_headhash m' = Block_Hash env b \<and> mn_pendingNames m' = [] \<and> \<not> mn_canMine m'"
proof -
  have l: "ledger_inv env rank (mn_ledger m)" by (rule ledger_reachable_inv [OF assms(1,2)])
  have head: "mn_headhash m = bcl_longestChain (mn_ledger m)" "gm_load (bcl_chains (mn_ledger m)) (bcl_longestChain (mn_ledger m)) = Some head"
    using assms(3) by (auto simp: getHead_def)
  have filed: "filed_by_name (mn_pendingNames m)" using assms(6) by (simp add: miner_inv_def)
  note names = createBlock_names(1) [where order = order and h = "mn_headhash m" and n = "mn_nonce m", OF filed assms(8), folded assms(10)]
    and keys = createBlock_names(2,3) [where order = order, OF filed assms(8)]
  have p: "bl_PrevHash b = bcl_longestChain (mn_ledger m)" by (simp add: assms(10) createBlock_def head(1))
  have r: "rank (bl_PrevHash b) < rank (Block_Hash env b)" using assms(13) p head(1) by simp
  have d: "distinct (tx_names b)" "set (tx_names b) \<inter> name_set taken = {}" using names keys assms(7) by simp_all
  obtain bcl' nb where "insertBlock env b (mn_ledger m) = Inr ((True, False, True), bcl')" "bcl_longestChain bcl' = Block_Hash env b"
    "gm_load (bcl_chains bcl') (Block_Hash env b) = Some nb" "bc_Block nb = b" "bc_LengthOfChain nb = bc_LengthOfChain head + 1"
    using insert_on_head [OF assms(1) l head(2) p assms(12) r assms(14,4,5) d assms(15)] by blast
  moreover have "mine env b = Some \<lparr>bp_Block = b, bp_HopLimit = defaultHopLimit\<rparr>" using assms(11) by (simp add: mine_def)
  ultimately show ?thesis using assms(9) by (simp add: mining_step_def mine_next_def Let_def getHead_def flip: assms(10))
qed

text \<open>C40: a block with a name that is taken already, in any block of the longest chain, is published although
  the own ledger rejects it: the answer of the insertion is not looked at.  The block is not filed, but stays
  recorded as a fork of the head.\<close>

theorem rejected_block_is_published:
  assumes "ledger_reachable env rank (mn_ledger m)" "order_ok env" "getHead (mn_ledger m) = (mn_headhash m, Some head)"
    and "mn_canMine m" "b = createBlock order (mn_headhash m) (mn_nonce m) (mn_pendingNames m)" "checkValid env b"
    and "\<not> isPresent (Block_Hash env b) (mn_ledger m)" "rank (mn_headhash m) < le_Depth env"
    and "(mn_headhash m, x) \<in> (up {} (gm_load (bcl_chains (mn_ledger m))))\<^sup>*"
    and "set (tx_names b) \<inter> names_at (gm_load (bcl_chains (mn_ledger m))) x \<noteq> {}"
  shows "\<exists>m' delay. mining_step env order peers (Idle nonce) now m
      = Inr (m', [GoForwardOwnBlock (emptyPacket\<lparr>gp_BlockPublish := Some \<lparr>bp_Block = b, bp_HopLimit = defaultHopLimit\<rparr>\<rparr>) delay])
    \<and> \<not> isPresent (Block_Hash env b) (mn_ledger m') \<and> getHead (mn_ledger m') = (mn_headhash m, Some (add_fork (Block_Hash env b) head))"
proof -
  let ?h = "Block_Hash env b" and ?bcl = "mn_ledger m"
  let ?m = "gm_load (bcl_chains ?bcl)"
  have l: "ledger_inv env rank ?bcl" by (rule ledger_reachable_inv [OF assms(2,1)])
  note w = ledger_invD(1) [OF l]
  have head: "mn_headhash m = bcl_longestChain ?bcl" "?m (bcl_longestChain ?bcl) = Some head" using assms(3) by (auto simp: getHead_def)
  have p: "bl_PrevHash b = bcl_longestChain ?bcl" by (simp add: assms(5) createBlock_def head(1))
  define bc where "bc = (newBlockOfChain b)\<lparr>bc_LengthOfChain := bc_LengthOfChain head + 1\<rparr>"
  define blocks1 where "blocks1 = gm_store (bl_PrevHash b) (add_fork ?h head) (bcl_chains ?bcl)"
  have bc: "bc_Block bc = b" "bc_names bc = tx_names b" by (simp_all add: bc_def newBlockOfChain_def bc_names_def)
  have s: "same_blocks ?m (gm_load blocks1)" unfolding same_blocks_def blocks1_def using head(2) p by simp
  have "\<exists>r. checkValidTransactionsBackwards env blocks1 bc = Inr r"
    using claim_backwards_returns [OF well_linked_acyclic [OF w], of "bl_PrevHash b" "le_Depth env"] assms(8) p head(1)
    by (auto simp: checkValidTransactionsBackwards_def claim_backwards_same [OF s] bc split: prod.splits)
  then obtain c v where ck: "checkValidTransactionsBackwards env blocks1 bc = Inr (c, v)" by fastforce
  have "\<not> v"
  proof
    assume v
    moreover have "?m (prev_of bc) \<noteq> None" using head(2) p by (simp add: bc)
    moreover have "(prev_of bc, x) \<in> (up {} ?m)\<^sup>*" using assms(9) p head(1) by (simp add: bc)
    ultimately have "names_at ?m x \<inter> set (tx_names b) = {}" using checked_names(2) [OF w s ck] unfolding bc(2) by auto
    then show False using assms(10) by blast
  qed
  then have "insertBlock env b ?bcl = Inr ((False, False, False), ?bcl\<lparr>bcl_chains := blocks1\<rparr>)"
    using assms(7) head(2) p ck
    by (simp add: insertBlock_def Let_def appendToBlock_def bc_def newBlockOfChain_def blocks1_def add_fork_def)
  moreover have "mine env b = Some \<lparr>bp_Block = b, bp_HopLimit = defaultHopLimit\<rparr>" using assms(6) by (simp add: mine_def)
  moreover have "\<not> isPresent ?h (?bcl\<lparr>bcl_chains := blocks1\<rparr>)" using assms(7) head(2) p by (auto simp: isPresent_def blocks1_def)
  moreover have "getHead (?bcl\<lparr>bcl_chains := blocks1\<rparr>) = (mn_headhash m, Some (add_fork ?h head))"
    using head(1) p by (simp add: getHead_def blocks1_def)
  ultimately show ?thesis using assms(4) by (simp add: mining_step_def mine_next_def Let_def flip: assms(5))
qed

section \<open>Examples\<close>

definition example_tx :: "string \<Rightarrow> TxPublish" where
  "example_tx s = \<lparr>tx_File = \<lparr>f_Name = s, f_Size = 0, f_MetafileHash = []\<rparr>, tx_HopLimit = 0\<rparr>"

definition example_miner :: "BlockchainLedger \<Rightarrow> byte \<Rightarrow> string \<Rightarrow> miner" where
  "example_miner bcl n name = \<lparr>mn_ledger = bcl, mn_everyTxEver = [], mn_pendingNames = [(name, example_tx name)], mn_takenNames = [],
     mn_headhash = bcl_longestChain bcl, mn_nonce = nonce_of n, mn_lastTimeMined = 0, mn_firstBlock = True, mn_canMine = True\<rparr>"

lemma example_createBlock: "createBlock id (nonce_of p) (nonce_of n) [(name, example_tx name)] = example_block p n [name]"
  by (simp add: createBlock_def example_block_def example_tx_def gm_keys_def gm_load_def List.map_filter_simps)

lemma example_checkValid: "checkValid example_ledger_env (example_block p n names)"
  by (simp add: checkValid_def bitDifficulty_def nonce_of_def upt_rec nth_append)

lemma example_miner_inv: "miner_inv (example_miner bcl n name)"
  by (simp add: miner_inv_def example_miner_def filed_by_name_def gm_wf_def gm_load_def example_tx_def)

theorem mined_block_becomes_head_witness:
  "\<exists>m' delay nb. mining_step example_ledger_env id (NewSafeStringArray []) (Idle []) 0 (example_miner NewBlockchainLedger 1 ''a'')
      = Inr (m', [GoForwardOwnBlock (emptyPacket\<lparr>gp_BlockPublish := Some \<lparr>bp_Block = example_block 0 1 [''a''], bp_HopLimit = defaultHopLimit\<rparr>\<rparr>) delay])
    \<and> getHead (mn_ledger m') = (nonce_of 1, Some nb) \<and> bc_names nb = [''a''] \<and> bc_LengthOfChain nb = 1"
proof -
  let ?m = "example_miner NewBlockchainLedger 1 ''a''" and ?b = "example_block 0 1 [''a'']"
  have h: "mn_headhash ?m = nonce_of 0" "mn_nonce ?m = nonce_of 1" "mn_pendingNames ?m = [(''a'', example_tx ''a'')]" "mn_canMine ?m"
    "mn_ledger ?m = NewBlockchainLedger"
    by (simp_all add: example_miner_def NewBlockchainLedger_def zero32_nonce)
  have b: "?b = createBlock id (mn_headhash ?m) (mn_nonce ?m) (mn_pendingNames ?m)" by (simp only: h example_createBlock)
  have t: "getTakenNames (le_Depth example_ledger_env) (bcl_chains (mn_ledger ?m)) newGenesisBlock = Inr []"
    unfolding h(5) by (simp add: NewBlockchainLedger_def newGenesisBlock_def bc_names_def tx_names_def Let_def gm_load_def)
  have v: "checkValidTransactionsBackwards example_ledger_env (bcl_chains (mn_ledger ?m)) newGenesisBlock = Inr (Some (NewSafeStringArray []), True)"
    unfolding h(5) by (simp add: checkValidTransactionsBackwards_def newGenesisBlock_def bc_names_def tx_names_def)
  have g: "getHead (mn_ledger ?m) = (mn_headhash ?m, Some newGenesisBlock)"
    by (simp add: example_miner_def getHead_def NewBlockchainLedger_def gm_load_def)
  have s: "ledger_reachable example_ledger_env last_byte (mn_ledger ?m)" by (simp add: h ledger_start)
  have i: "name_set (mn_pendingNames ?m) \<inter> name_set [] = {}" by (simp add: name_set_def gm_load_def)
  have o: "mset (id (gm_keys (mn_pendingNames ?m))) = mset (gm_keys (mn_pendingNames ?m))" by simp
  have hash: "Block_Hash example_ledger_env ?b = nonce_of 1" by simp
  have p: "\<not> isPresent (Block_Hash example_ledger_env ?b) (mn_ledger ?m)"
    unfolding h(5) hash by (simp add: isPresent_def NewBlockchainLedger_def gm_load_def zero32_nonce nonce_of_def)
  have r: "last_byte (mn_headhash ?m) < last_byte (Block_Hash example_ledger_env ?b)" "last_byte (Block_Hash example_ledger_env ?b) < le_Depth example_ledger_env"
    unfolding h(1) hash by (simp_all add: last_byte_def nonce_of_def)
  have f: "\<forall>f fb. gm_load (bcl_chains (mn_ledger ?m)) f = Some fb \<longrightarrow> prev_of fb \<noteq> Block_Hash example_ledger_env ?b"
    unfolding h(5) hash by (simp add: NewBlockchainLedger_def newGenesisBlock_def gm_load_def zero32_nonce nonce_of_def)
  have l: "bc_LengthOfChain newGenesisBlock = 0" by (simp add: newGenesisBlock_def)
  obtain m' delay nb where "mining_step example_ledger_env id (NewSafeStringArray []) (Idle []) 0 ?m
      = Inr (m', [GoForwardOwnBlock (emptyPacket\<lparr>gp_BlockPublish := Some \<lparr>bp_Block = ?b, bp_HopLimit = defaultHopLimit\<rparr>\<rparr>) delay])"
    "getHead (mn_ledger m') = (nonce_of 1, Some nb)" "bc_Block nb = ?b" "bc_LengthOfChain nb = bc_LengthOfChain newGenesisBlock + 1"
    using mined_block_becomes_head [OF example_order_ok s g v t example_miner_inv i o h(4) b example_checkValid p r f,
      where peers = "NewSafeStringArray []" and nonce = "[]" and now = 0] unfolding hash by blast
  then show ?thesis by (intro exI [of _ m'] exI [of _ delay] exI [of _ nb]) (simp add: bc_names_def l)
qed

theorem rejected_block_is_published_witness:
  "\<exists>m' delay. mining_step example_ledger_env id (NewSafeStringArray []) (Idle []) 0 (example_miner example_ledger2 3 ''a'')
      = Inr (m', [GoForwardOwnBlock (emptyPacket\<lparr>gp_BlockPublish := Some \<lparr>bp_Block = example_block 2 3 [''a''], bp_HopLimit = defaultHopLimit\<rparr>\<rparr>) delay])
    \<and> \<not> isPresent (nonce_of 3) (mn_ledger m') \<and> fst (getHead (mn_ledger m')) = nonce_of 2"
proof -
  let ?m = "example_miner example_ledger2 3 ''a''" and ?head = "\<lparr>bc_LengthOfChain = 2, bc_Block = example_block 1 2 [''b''], bc_Forks = []\<rparr>"
    and ?b = "example_block 2 3 [''a'']"
  have h: "mn_headhash ?m = nonce_of 2" "mn_nonce ?m = nonce_of 3" "mn_pendingNames ?m = [(''a'', example_tx ''a'')]" "mn_canMine ?m"
    by (simp_all add: example_miner_def example_ledger2_def)
  have b: "?b = createBlock id (mn_headhash ?m) (mn_nonce ?m) (mn_pendingNames ?m)" by (simp only: h example_createBlock)
  have s: "ledger_reachable example_ledger_env last_byte (mn_ledger ?m)" by (simp add: example_miner_def example_reachable)
  have g: "getHead (mn_ledger ?m) = (mn_headhash ?m, Some ?head)"
    by (simp add: example_miner_def getHead_def example_ledger2_def gm_load_def)
  have hash: "Block_Hash example_ledger_env ?b = nonce_of 3" by simp
  have p: "\<not> isPresent (Block_Hash example_ledger_env ?b) (mn_ledger ?m)"
    by (simp add: example_miner_def isPresent_def example_ledger2_def gm_load_def)
  have r: "last_byte (mn_headhash ?m) < le_Depth example_ledger_env" by (simp add: h last_byte_def nonce_of_def)
  have l: "mn_ledger ?m = example_ledger2" by (simp add: example_miner_def)
  have "(nonce_of 2, nonce_of 1) \<in> up {} (gm_load (bcl_chains example_ledger2))"
    by (simp add: up_def example_ledger2_def gm_load_def zero32_nonce)
  then have x: "(mn_headhash ?m, nonce_of 1) \<in> (up {} (gm_load (bcl_chains (mn_ledger ?m))))\<^sup>*" unfolding l h(1) by blast
  have n: "set (tx_names ?b) \<inter> names_at (gm_load (bcl_chains (mn_ledger ?m))) (nonce_of 1) \<noteq> {}"
    unfolding l by (simp add: names_at_def bc_names_def example_ledger2_def gm_load_def)
  show ?thesis
    using rejected_block_is_published [OF s example_order_ok g h(4) b example_checkValid p r x n,
      where peers = "NewSafeStringArray []" and nonce = "[]" and now = 0]
    unfolding hash h(1) by (metis fst_conv)
qed

end
