(* ===== verification/Spec2Isabelle.thy ===== *)
theory Spec2Isabelle
  imports ValueLookup DhtDispatch BloomFilter NodeIdentity RankStore FrontEnd Mining
begin

text \<open>
  Peerster is a peer-to-peer node written in Go: gossip of chat messages, private messages,
  sharing and search of files, a Kademlia-style distributed hash table, a distributed web crawler
  on top of it, and a small blockchain for file names.  This development models the parts that
  carry its logic, as functions on explicit states, and proves what makes them correct.

  \<^bold>\<open>How the program is modelled.\<close>  A goroutine of the program is a loop over a channel.  The body
  of the loop is one function here, from the state of the node to its new state and the list of
  actions it takes in order: packets sent, goroutines started, values put on channels, files
  written (type \<open>action\<close> in Gossiper).  A goroutine that blocks in the middle of its work is
  a state machine: one function up to the wait and one per branch of the \<open>select\<close>.  Fields that
  a mutex protects are updated by one step.  \<open>log.Fatal\<close> and run-time panics are the left side
  of the type \<open>outcome\<close>.  Random choices, the clock, the disk and what peers answer are
  arguments, so that a theorem holds for all of them.  Fixed-width integers are words.  A Go map
  or \<open>sync.Map\<close> is an association list with distinct keys, whose order stands for the order of
  an iteration.

  \<^bold>\<open>Parts and theories.\<close>
  \<^item> Prelude, GoMap, GoText, BigInt: Go's types, outcomes, maps, string functions, hexadecimal
    text and big integers, with their laws.
  \<^item> Packets: the packets and client requests of \<open>src/dto/DTO.go\<close> and \<open>src/dht/nodeState.go\<close> with
    their accessors; hop limits.
  \<^item> Containers and Listeners: the concurrent containers of \<open>src/dto\<close>, the listener maps of
    \<open>src/fileparsing/DLChanMap.go\<close> and \<open>src/dht/chanMap.go\<close>.
  \<^item> MessageStore: \<open>src/dto/SafeMessagesMap.go\<close> and the comparison of status packets of
    \<open>src/gossiper/helpers.go\<close>; the store refines one log of messages per origin.
  \<^item> Routing: \<open>src/routing\<close>; the next hop is the sender of the freshest route.
  \<^item> XorMetric, NodeArray, KBuckets, NodeLookup: \<open>src/dht/helpers.go\<close>,
    \<open>src/dht/SafeNodeStateArray.go\<close>, \<open>src/gossiper/kBuckets.go\<close> and the node lookup of
    \<open>src/gossiper/dhtAPI.go\<close>.
  \<^item> FileParsing, FileSearching: \<open>src/fileparsing\<close> and \<open>src/filesearching\<close>.
  \<^item> Gossiper: the state of a node, the dispatch of packets, rumors, status packets, mongering,
    routing updates and private messages: \<open>gossiper.go\<close>, \<open>rumorMongering.go\<close>, \<open>antiEntropy.go\<close>,
    \<open>DSDV.go\<close> and \<open>UIfunctions.go\<close> under \<open>src/gossiper\<close>.
  \<^item> AntiEntropy: two nodes exchanging status packets and rumors, composed of the handlers of
    Gossiper; the node invariant.
  \<^item> FileTransfer: \<open>fileSharing.go\<close>; SearchProtocol: \<open>fileSearching.go\<close>.
  \<^item> ValueLookup: the value lookup of \<open>dhtAPI.go\<close>; it simulates the node lookup.
  \<^item> Storage: \<open>src/dht/storage.go\<close> over the operations of the bolt database; the crawl queue is
    first in, first out across restarts.  DhtStore: what \<open>replyStore\<close> of \<open>src/gossiper/dht.go\<close> does
    with each kind of value.
  \<^item> DhtHandlers: the requests, replies and dispatch of \<open>src/gossiper/dht.go\<close>, with encryption, and
    joining; exchanges between two nodes end to end.  DhtDispatch: the dispatcher that waits for
    its own ping, as a step relation with the goroutines around it.
  \<^item> WebCrawler: \<open>src/webcrawler/webcrawler.go\<close>, the crawl of one page, over the library calls in the
    record \<open>web\<close>.  Crawler: \<open>src/gossiper/webcrawler.go\<close>, which distributes what the crawler hands out over
    the hash table and feeds it from the queue; the way of a link from the page to the queue of its owner.
  \<^item> PageRank: \<open>src/gossiper/pageRank.go\<close>; the recursion through \<open>receiveRankUpdate\<close> has a depth bound as
    argument, and the theorems hold for every depth at which it ends; a recursion without end is not covered.
    Doubles: the arithmetic of \<open>float64\<close> on values from 0 on, which has the laws that PageRank asks for.
    RankStore: a store from another node with all the rank updates it causes, and what it can write.  SearchResults:
    \<open>src/webcrawler/SearchResults.go\<close> and the search of \<open>src/gossiper/dht.go\<close>.
  \<^item> KeyAgreement: \<open>src/diffie_hellman\<close> and \<open>src/gossiper/diffiehellman.go\<close>.
  \<^item> NodeIdentity: the identifier that \<open>InitialRandNodeID\<close> of \<open>src/dht/helpers.go\<close> makes from a public key,
    the key that is read back from it, and the negotiation of two nodes with such identifiers.
  \<^item> FrontEnd: the web server of \<open>src/main.go\<close> and the client of \<open>src/client\<close>; forms and flags end to end to the
    listeners of the node.  Handlers run one after the other.
  \<^item> BloomFilter: \<open>src/bloomfilter\<close>.
  \<^item> Blockchain: the ledger of \<open>src/gossiper/blockchain.go\<close>.  Ledger: what its recursive operations do, by
    the set of blocks below a block.  LedgerInvariant: the links between blocks, names and lengths while
    a block and its orphans are inserted.  LedgerSafety: reachable ledgers; names are unique on a chain,
    the head is the longest chain, and what a rejected block leaves behind for all later insertions.  Mining: the mining routine,
    one step per iteration of its loop.

  \<^bold>\<open>Parameters.\<close>  SHA-256, SHA-512, ECDSA, AES-GCM, protobuf, gob and the bolt database are arguments of
  the definitions that use them.  What a theorem needs of them is a named hypothesis:
  \<open>bolt_laws\<close>, \<open>codec_ok\<close> in Storage, \<open>honest_signer\<close> (ECDSA accepts what the owner of the key signed) in
  NodeIdentity, that a decryption opens what was encrypted with its key, that a checksum has 32 bytes, that hashes of the
  keys in question differ; \<open>crawl_laws\<close> in Crawler, \<open>float_laws\<close> (what is used of IEEE 754 on numbers that
  are at least 0, infinity included) and \<open>cache_laws\<close> in PageRank.  The HTML queries, the stemmer and the simhash of the crawler
  (\<open>web\<close>), gcache and hyperloglog (\<open>rank_ops\<close>), floating-point arithmetic (\<open>float_ops\<close>) and the
  permutations of \<open>sort.Sort\<close> are arguments too.

  \<^bold>\<open>Started or not.\<close>  \<open>Start\<close> of \<open>gossiper.go\<close> does not start the routines \<open>antiEntropy\<close>,
  \<open>periodicRouteRumor\<close> and \<open>blockchainMiningRoutine\<close> (their calls are commented out); they are modelled
  as the code has them.

  \<^bold>\<open>Bounds.\<close>  The recursions of the ledger follow pointers and take a depth (\<open>le_Depth\<close>) as argument; running
  out of it is an outcome of its own.  The theorems assume a rank of hashes in which a block comes after its
  parent, as with hashes that nobody can invert; a depth above the rank of the blocks is enough, and enough
  depth is what the theorems that promise a result ask for.

  \<^bold>\<open>Not modelled.\<close>  Printing; the failure to resolve an address in \<open>sendUDP\<close>; flag parsing, static files, JSON
  and HTTP itself; the HTTP requests of the crawler; profiling and the tool \<open>src/find_keyword\<close>, which do
  not touch the state of the program.
\<close>

end
